(* ===== verification/Prelude.thy ===== *)
theory Prelude
  imports Main "HOL-Library.Word"
begin

section \<open>Prelude: sequencing, counters and shared automation\<close>

text \<open>
  Generic material of the development.

  \<^item> \<open>seq_all\<close> renders the idiom that fills this code base, a run of calls each of which is
    followed by \<open>if (failed) return false;\<close>. A call is a state transformer that also
    returns a success flag; the run stops at the first failure and keeps the state that the
    failing call left.
  \<^item> \<open>bump\<close> is the increment of one 32-bit performance counter, with its wrap-around.
  \<^item> The collections \<open>frame\<close> (what an operation leaves alone) and \<open>session\<close> (how the
    message handlers of a session compute) gather the facts the component proofs share.
\<close>

named_theorems frame
named_theorems session

type_synonym u8 = "8 word"
type_synonym u16 = "16 word"
type_synonym u32 = "32 word"
type_synonym u64 = "64 word"

fun seq_all :: "('s \<Rightarrow> bool \<times> 's) list \<Rightarrow> 's \<Rightarrow> bool \<times> 's" where
  "seq_all [] s = (True, s)"
| "seq_all (f # fs) s = (case f s of (ok, s') \<Rightarrow> if ok then seq_all fs s' else (False, s'))"

lemma seq_all_append:
  "seq_all (fs @ gs) s = (case seq_all fs s of (ok, s') \<Rightarrow> if ok then seq_all gs s' else (False, s'))"
  by (induction fs arbitrary: s) (auto split: prod.splits)

text \<open>A relation that each step respects, and that can be chained, is respected by the run.\<close>

lemma seq_all_rel:
  assumes refl: "\<And>s. R s s" and trans: "\<And>s t u. R s t \<Longrightarrow> R t u \<Longrightarrow> R s u"
    and step: "\<And>f s. f \<in> set fs \<Longrightarrow> R s (snd (f s))"
  shows "R s (snd (seq_all fs s))"
  using step
proof (induction fs arbitrary: s)
  case Nil
  show ?case by (simp add: refl)
next
  case (Cons f fs)
  obtain ok s' where fs': "f s = (ok, s')" by (cases "f s")
  have "R s s'" using Cons.prems[of f s] fs' by simp
  moreover have "R s' (snd (seq_all fs s'))" using Cons.IH Cons.prems by simp
  ultimately show ?case using fs' trans by auto
qed

definition bump :: "'c \<Rightarrow> ('c \<Rightarrow> u32) \<Rightarrow> ('c \<Rightarrow> u32)" where
  "bump c st = st(c := st c + 1)"

lemma bump_same [simp]: "bump c st c = st c + 1"
  by (simp add: bump_def)

lemma bump_other [simp]: "c \<noteq> d \<Longrightarrow> bump c st d = st d"
  by (simp add: bump_def)

text \<open>Removing one occurrence from the front of a list undoes a push.\<close>

lemma remove1_push [simp]: "remove1 x (x # xs) = xs"
  by simp

text \<open>Association lists with distinct keys: what erasing a key leaves.\<close>

definition erase_key :: "'k \<Rightarrow> ('k \<times> 'v) list \<Rightarrow> ('k \<times> 'v) list" where
  "erase_key k xs = filter (\<lambda>e. fst e \<noteq> k) xs"

lemma set_erase_key [simp]: "set (erase_key k xs) = {e \<in> set xs. fst e \<noteq> k}"
  by (auto simp: erase_key_def)

lemma distinct_erase_key:
  "distinct (map fst xs) \<Longrightarrow> distinct (map fst (erase_key k xs))"
  by (induction xs) (auto simp: erase_key_def)

lemma distinct_erase_snd:
  "distinct (map snd xs) \<Longrightarrow> distinct (map snd (erase_key k xs))"
  by (induction xs) (auto simp: erase_key_def)

lemma length_erase_key: "length (erase_key k xs) \<le> length xs"
  by (simp add: erase_key_def)

subsection \<open>Loops that repeat a call\<close>

text \<open>The program repeats a call until its answer is final. Such a loop over a state \<open>s\<close> goes on while
  \<open>more s\<close>, then to \<open>nxt s\<close>; it never returns when it goes on for ever.\<close>

locale retry_loop =
  fixes run :: "'s \<Rightarrow> 'r option" and more :: "'s \<Rightarrow> bool" and nxt :: "'s \<Rightarrow> 's" and res :: "'s \<Rightarrow> 'r"
  assumes unfold_run: "run s = (if more s then run (nxt s) else Some (res s))"
    and diverge: "run s = Some r \<Longrightarrow> \<exists>n. \<not> more ((nxt ^^ n) s)"
begin

lemma result:
  "(\<And>m. m < n \<Longrightarrow> more ((nxt ^^ m) s)) \<Longrightarrow> \<not> more ((nxt ^^ n) s) \<Longrightarrow> run s = Some (res ((nxt ^^ n) s))"
proof (induction n arbitrary: s)
  case 0
  then show ?case by (subst unfold_run) simp
next
  case (Suc n)
  have "more s" using Suc.prems(1) [of 0] by simp
  moreover have "run (nxt s) = Some (res ((nxt ^^ n) (nxt s)))"
  proof (rule Suc.IH)
    fix m assume "m < n"
    then show "more ((nxt ^^ m) (nxt s))"
      using Suc.prems(1) [of "Suc m"] by (simp add: funpow_swap1)
  next
    show "\<not> more ((nxt ^^ n) (nxt s))" using Suc.prems(2) by (simp add: funpow_swap1)
  qed
  ultimately show ?case by (subst unfold_run) (simp add: funpow_swap1)
qed

lemma returns_iff: "run s \<noteq> None \<longleftrightarrow> (\<exists>n. \<not> more ((nxt ^^ n) s))"
proof
  assume "\<exists>n. \<not> more ((nxt ^^ n) s)"
  then obtain n where n: "\<not> more ((nxt ^^ n) s)" "\<And>m. m < n \<Longrightarrow> more ((nxt ^^ m) s)"
    using LeastI_ex [of "\<lambda>n. \<not> more ((nxt ^^ n) s)"] not_less_Least [of _ "\<lambda>n. \<not> more ((nxt ^^ n) s)"] by blast
  show "run s \<noteq> None" using result [OF n(2,1)] by simp
qed (use diverge in auto)

lemma result_final: "run s = Some r \<Longrightarrow> \<exists>n. r = res ((nxt ^^ n) s) \<and> \<not> more ((nxt ^^ n) s)"
proof -
  assume r: "run s = Some r"
  then have "\<exists>n. \<not> more ((nxt ^^ n) s)" by (rule diverge)
  then obtain n where n: "\<not> more ((nxt ^^ n) s)" "\<And>m. m < n \<Longrightarrow> more ((nxt ^^ m) s)"
    using LeastI_ex [of "\<lambda>n. \<not> more ((nxt ^^ n) s)"] not_less_Least [of _ "\<lambda>n. \<not> more ((nxt ^^ n) s)"] by blast
  then show ?thesis using result [OF n(2,1)] r by auto
qed

end

end
