(* ===== verification/Rssl.thy ===== *)
theory Rssl
  imports Prelude
begin

section \<open>The RSSL transport and codec as a parameter\<close>

text \<open>
  The UPA/RSSL library is not part of the repository: the program includes its headers and
  calls it. Its data types appear here with the enumerators and members the program names,
  and its functions are the fields of the record \<open>rssl\<close>, an argument of every definition that
  calls the library. The library's own state (channels, pools, codec iterators), the system
  clock and the other threads are one value of the type parameter \<open>'u\<close> that each call may
  change.

  \<^item> A return code is an enumerator of \<open>rssl_ret\<close>; \<open>RSSL_PENDING n\<close> stands for \<open>rc > 0\<close>
    (bytes pending), \<open>RSSL_ERROR n\<close> for any code the program does not name.
  \<^item> A bit mask is the set of its bits. \<open>(x & F) == F\<close> is \<open>F \<in> x\<close> and \<open>x == (F | G)\<close> is \<open>x = {F, G}\<close>;
    a bit the program does not name is an \<open>OTHER\<close> constructor.
  \<^item> A message buffer \<open>rssl_cbuf\<close> holds what lies in memory from its \<open>data\<close> pointer on, which is
    more than \<open>length\<close> bytes: the wire buffer has no terminator, so a C string function
    reads past \<open>length\<close>.
  \<^item> The encode iterator is the list of the calls made on it; whether a call succeeds is the
    library's answer.
  \<^item> A handle names one accepted channel (not the memory that the library may recycle).
\<close>

type_synonym handle = nat
type_synonym sock = nat

datatype rssl_ret =
    RSSL_RET_SUCCESS | RSSL_RET_FAILURE | RSSL_RET_CHAN_INIT_IN_PROGRESS
  | RSSL_RET_READ_FD_CHANGE | RSSL_RET_READ_PING | RSSL_RET_CONGESTION_DETECTED
  | RSSL_RET_SLOW_READER | RSSL_RET_PACKET_GAP_DETECTED | RSSL_RET_WRITE_CALL_AGAIN
  | RSSL_RET_WRITE_FLUSH_FAILED | RSSL_RET_BUFFER_NO_BUFFERS | RSSL_RET_ENCODE_CONTAINER
  | RSSL_RET_ENCODE_MSG_KEY_OPAQUE | RSSL_RET_END_OF_CONTAINER
  | RSSL_PENDING nat | RSSL_ERROR int

fun positive :: "rssl_ret \<Rightarrow> bool" where
  "positive (RSSL_PENDING n) = True"
| "positive _ = False"

datatype ch_state =
    RSSL_CH_STATE_CLOSED | RSSL_CH_STATE_INACTIVE | RSSL_CH_STATE_INITIALIZING
  | RSSL_CH_STATE_ACTIVE | RSSL_CH_STATE_OTHER int

record channel =
  socketId :: sock
  oldSocketId :: sock
  state :: ch_state
  majorVersion :: u8
  minorVersion :: u8
  pingTimeout :: u32
  clientIP :: string

datatype msg_class =
    RSSL_MC_REQUEST | RSSL_MC_REFRESH | RSSL_MC_STATUS | RSSL_MC_UPDATE | RSSL_MC_CLOSE
  | RSSL_MC_ACK | RSSL_MC_GENERIC | RSSL_MC_POST | RSSL_MC_OTHER u8

datatype domain_type =
    RSSL_DMT_LOGIN | RSSL_DMT_SOURCE | RSSL_DMT_DICTIONARY | RSSL_DMT_MARKET_PRICE
  | RSSL_DMT_MARKET_BY_ORDER | RSSL_DMT_MARKET_BY_PRICE | RSSL_DMT_MARKET_MAKER
  | RSSL_DMT_SYMBOL_LIST | RSSL_DMT_YIELD_CURVE | RSSL_DMT_OTHER u8

datatype data_type =
    RSSL_DT_NO_DATA | RSSL_DT_UINT | RSSL_DT_REAL | RSSL_DT_QOS | RSSL_DT_ASCII_STRING
  | RSSL_DT_RMTES_STRING | RSSL_DT_ARRAY | RSSL_DT_ELEMENT_LIST | RSSL_DT_FILTER_LIST
  | RSSL_DT_FIELD_LIST | RSSL_DT_MAP | RSSL_DT_OTHER u8

text \<open>The bits of the message flags (request, refresh, status, update) and of the key flags.\<close>

datatype msg_flag =
    RSSL_RQMF_STREAMING | RSSL_RQMF_PAUSE | RSSL_RQMF_MSG_KEY_IN_UPDATES | RSSL_RQMF_HAS_VIEW
  | RSSL_RFMF_SOLICITED | RSSL_RFMF_REFRESH_COMPLETE | RSSL_RFMF_HAS_MSG_KEY
  | RSSL_RFMF_DO_NOT_CACHE | RSSL_RFMF_HAS_PERM_DATA | RSSL_STMF_HAS_STATE
  | RSSL_STMF_HAS_MSG_KEY | RSSL_UPMF_DO_NOT_CONFLATE | RSSL_MSGF_OTHER nat

datatype key_flag =
    RSSL_MKF_HAS_SERVICE_ID | RSSL_MKF_HAS_NAME | RSSL_MKF_HAS_NAME_TYPE | RSSL_MKF_HAS_FILTER
  | RSSL_MKF_HAS_ATTRIB | RSSL_MKF_OTHER nat

datatype dir_filter =
    RDM_DIRECTORY_SERVICE_INFO_FILTER | RDM_DIRECTORY_SERVICE_STATE_FILTER
  | RDM_DIRECTORY_SERVICE_LOAD_FILTER | RDM_DIRECTORY_FILTER_OTHER nat

datatype stream_state =
    RSSL_STREAM_UNSPECIFIED | RSSL_STREAM_OPEN | RSSL_STREAM_NON_STREAMING | RSSL_STREAM_CLOSED
  | RSSL_STREAM_CLOSED_RECOVER

datatype data_state = RSSL_DATA_NO_CHANGE | RSSL_DATA_OK | RSSL_DATA_SUSPECT

datatype state_code =
    RSSL_SC_NONE | RSSL_SC_NOT_FOUND | RSSL_SC_NOT_ENTITLED | RSSL_SC_USAGE_ERROR | RSSL_SC_ERROR

datatype name_type = RDM_NAME_TYPE_UNSPECIFIED | RDM_INSTRUMENT_NAME_TYPE_RIC | RDM_NAME_TYPE_OTHER u8

record rssl_cbuf =
  mem :: string
  len :: nat

text \<open>\<open>std::string (data, length)\<close> and the C string that starts at \<open>data\<close>.\<close>

definition cbuf_string :: "rssl_cbuf \<Rightarrow> string" where
  "cbuf_string b = take (len b) (mem b)"

definition cbuf_cstr :: "rssl_cbuf \<Rightarrow> string" where
  "cbuf_cstr b = takeWhile (\<lambda>c. c \<noteq> CHR 0x00) (mem b)"

definition string_cbuf :: "string \<Rightarrow> rssl_cbuf" where
  "string_cbuf s = \<lparr>mem = s @ [CHR 0x00], len = length s\<rparr>"

lemma cbuf_string_string_cbuf [simp]: "cbuf_string (string_cbuf s) = s"
  by (simp add: cbuf_string_def string_cbuf_def)

record msg_key =
  key_serviceId :: u16
  key_nameType :: name_type
  key_name :: rssl_cbuf
  key_filter :: "dir_filter set"
  key_flags :: "key_flag set"
  key_attribContainerType :: data_type

record rssl_msg =
  msgClass :: msg_class
  domainType :: domain_type
  containerType :: data_type
  streamId :: u32
  msg_flags :: "msg_flag set"
  msgKey :: msg_key
  streamState :: stream_state
  dataState :: data_state
  stateCode :: state_code
  stateText :: string
  permData :: string

definition init_key :: msg_key where
  "init_key = \<lparr>key_serviceId = 0, key_nameType = RDM_NAME_TYPE_UNSPECIFIED,
     key_name = \<lparr>mem = [], len = 0\<rparr>, key_filter = {}, key_flags = {},
     key_attribContainerType = RSSL_DT_NO_DATA\<rparr>"

text \<open>The message that \<open>RSSL_INIT_STATUS_MSG\<close> and its siblings start from; each caller sets
  the class it wants.\<close>

definition init_msg :: rssl_msg where
  "init_msg = \<lparr>msgClass = RSSL_MC_OTHER 0, domainType = RSSL_DMT_OTHER 0,
     containerType = RSSL_DT_NO_DATA, streamId = 0, msg_flags = {}, msgKey = init_key,
     streamState = RSSL_STREAM_UNSPECIFIED, dataState = RSSL_DATA_NO_CHANGE,
     stateCode = RSSL_SC_NONE, stateText = [], permData = []\<rparr>"

text \<open>Element names, map, filter and array payloads the program encodes.\<close>

datatype ename =
    RSSL_ENAME_NAME | RSSL_ENAME_CAPABILITIES | RSSL_ENAME_DICTIONARYS_USED | RSSL_ENAME_QOS
  | RSSL_ENAME_SUPPS_OOB_SNAPSHOTS | RSSL_ENAME_ACCEPTING_CONS_STATUS | RSSL_ENAME_SVC_STATE
  | RSSL_ENAME_ACCEPTING_REQS | RSSL_ENAME_OPEN_WINDOW | RSSL_ENAME_ALLOW_SUSPECT_DATA
  | RSSL_ENAME_PROV_PERM_EXP | RSSL_ENAME_PROV_PERM_PROF | RSSL_ENAME_SINGLE_OPEN
  | RSSL_ENAME_APPNAME | RSSL_ENAME_VIEW_TYPE | RSSL_ENAME_OTHER string

datatype map_action = RSSL_MPEA_UPDATE_ENTRY | RSSL_MPEA_ADD_ENTRY

datatype filter_id =
    RDM_DIRECTORY_SERVICE_INFO_ID | RDM_DIRECTORY_SERVICE_STATE_ID | RDM_DIRECTORY_SERVICE_LOAD_ID

datatype qos_rate = RSSL_QOS_RATE_TICK_BY_TICK | RSSL_QOS_RATE_OTHER nat

datatype qos_time = RSSL_QOS_TIME_REALTIME | RSSL_QOS_TIME_OTHER nat

datatype real_hint = RSSL_RH_EXPONENT_4 | RSSL_RH_EXPONENT0 | RSSL_RH_EXPONENT7

text \<open>A primitive value: an unsigned integer, a string, a domain number, the service state
  \<open>RDM_DIRECTORY_SERVICE_STATE_UP\<close>, a QoS (dynamic, rate, timeliness), a real (blank, 64-bit
  value, hint).\<close>

datatype prim =
    PUInt u64 | PString string | PDomain domain_type | PServiceUp
  | PQos bool qos_rate qos_time
  | PReal bool u64 real_hint

text \<open>The calls on an encode iterator, with the arguments the program passes.\<close>

datatype enc_call =
    SetEncodeIteratorBuffer u32
  | SetEncodeIteratorRWFVersion u8 u8
  | EncodeMsg rssl_msg
  | EncodeMsgInit rssl_msg nat
  | EncodeMsgComplete
  | EncodeMsgKeyAttribComplete
  | EncodeMapInit data_type data_type
  | EncodeMapEntryInit map_action u64
  | EncodeMapEntryComplete
  | EncodeMapComplete
  | EncodeFilterListInit data_type nat
  | EncodeFilterEntryInit filter_id
  | EncodeFilterEntryComplete
  | EncodeFilterListComplete
  | EncodeElementListInit nat
  | EncodeElementEntry ename data_type prim
  | EncodeElementEntryInit ename data_type
  | EncodeElementEntryComplete
  | EncodeElementListComplete
  | EncodeArrayInit data_type nat
  | EncodeArrayEntry prim
  | EncodeArrayComplete
  | EncodeFieldListInit
  | EncodeFieldEntry int data_type prim
  | EncodeFieldListComplete

type_synonym enc_iter = "enc_call list"

text \<open>What a transport buffer holds: the result of an encoding, or bytes copied in.\<close>

datatype payload = Unset | Encoded enc_iter | Raw "u8 list"

record rssl_buffer =
  buf_id :: nat
  buf_length :: u32
  buf_data :: payload

record element =
  el_name :: ename
  el_dataType :: data_type

record init_info =
  ii_fd_change :: bool
  ii_oldSocket :: sock

record read_result =
  rd_rc :: rssl_ret
  rd_buf :: "rssl_buffer option"
  rd_bytesRead :: u32
  rd_uncompressedBytesRead :: u32

record 'u rssl =
  rsslAccept :: "bool \<Rightarrow> 'u \<Rightarrow> handle option \<times> 'u"
  rsslInitChannel :: "handle \<Rightarrow> 'u \<Rightarrow> (rssl_ret \<times> init_info) \<times> 'u"
  rsslGetChannelInfo :: "handle \<Rightarrow> 'u \<Rightarrow> rssl_ret \<times> 'u"
  rsslReadEx :: "handle \<Rightarrow> 'u \<Rightarrow> read_result \<times> 'u"
  rsslWriteEx :: "handle \<Rightarrow> rssl_buffer \<Rightarrow> bool \<Rightarrow> 'u \<Rightarrow> rssl_ret \<times> 'u"
  rsslFlush :: "handle \<Rightarrow> 'u \<Rightarrow> rssl_ret \<times> 'u"
  rsslPing :: "handle \<Rightarrow> 'u \<Rightarrow> rssl_ret \<times> 'u"
  rsslCloseChannel :: "handle \<Rightarrow> 'u \<Rightarrow> rssl_ret \<times> 'u"
  rsslCloseServer :: "'u \<Rightarrow> rssl_ret \<times> 'u"
  rsslGetBuffer :: "handle \<Rightarrow> nat \<Rightarrow> 'u \<Rightarrow> rssl_buffer option \<times> 'u"
  rsslReleaseBuffer :: "rssl_buffer \<Rightarrow> 'u \<Rightarrow> rssl_ret \<times> 'u"
  rsslEncode :: "enc_iter \<Rightarrow> enc_call \<Rightarrow> 'u \<Rightarrow> rssl_ret \<times> 'u"
  rsslGetEncodedBufferLength :: "enc_iter \<Rightarrow> 'u \<Rightarrow> u32"
  rsslValidateMsg :: "rssl_msg \<Rightarrow> 'u \<Rightarrow> bool \<times> 'u"
  rsslSetDecodeIteratorRWFVersion :: "u8 \<Rightarrow> u8 \<Rightarrow> 'u \<Rightarrow> rssl_ret \<times> 'u"
  rsslSetDecodeIteratorBuffer :: "rssl_buffer \<Rightarrow> 'u \<Rightarrow> rssl_ret \<times> 'u"
  rsslDecodeMsg :: "'u \<Rightarrow> (rssl_ret \<times> rssl_msg) \<times> 'u"
  rsslDecodeMsgKeyAttrib :: "'u \<Rightarrow> rssl_ret \<times> 'u"
  rsslDecodeElementList :: "'u \<Rightarrow> (rssl_ret \<times> (rssl_ret \<times> element) list) \<times> 'u"
  rsslDecodeUInt :: "'u \<Rightarrow> rssl_ret \<times> 'u"
  chan :: "handle \<Rightarrow> 'u \<Rightarrow> channel"
  universal_time :: "'u \<Rightarrow> int"
  uninitialised :: "'u \<Rightarrow> u32"
  issued :: "'u \<Rightarrow> handle set"

text \<open>
  \<open>rsslDecodeElementList\<close> also hands over the results that the calls of
  \<open>rsslDecodeElementEntry\<close> on the list will give, in order: an element list is a finite
  container. \<open>chan\<close> reads the members of the \<open>RsslChannel\<close> structure, \<open>universal_time\<close> is the
  clock in seconds, \<open>uninitialised\<close> what an uninitialised 32-bit member happens to hold, and
  \<open>issued\<close> the handles that
  \<open>rsslAccept\<close> has given out so far.

  A call on an encode iterator with the code that counts as success for it.
\<close>

definition enc_exp :: "'u rssl \<Rightarrow> rssl_ret \<Rightarrow> enc_call \<Rightarrow> enc_iter \<times> 'u \<Rightarrow> bool \<times> enc_iter \<times> 'u" where
  "enc_exp api expected c = (\<lambda>(it, u).
     let (rc, u') = rsslEncode api it c u in (rc = expected, it @ [c], u'))"

definition enc :: "'u rssl \<Rightarrow> enc_call \<Rightarrow> enc_iter \<times> 'u \<Rightarrow> bool \<times> enc_iter \<times> 'u" where
  "enc api c = enc_exp api RSSL_RET_SUCCESS c"

text \<open>A step of an encoder appends, on success exactly the calls \<open>cs\<close>, on failure a proper
  prefix of them together with the failing call.\<close>

definition emits :: "enc_call list \<Rightarrow> (enc_iter \<times> 'u \<Rightarrow> bool \<times> enc_iter \<times> 'u) \<Rightarrow> bool" where
  "emits cs f \<longleftrightarrow> (\<forall>it u ok it' u'. f (it, u) = (ok, it', u') \<longrightarrow>
     (\<exists>n. n \<le> length cs \<and> it' = it @ take n cs \<and> (ok \<longrightarrow> n = length cs)))"

lemma emitsI:
  "(\<And>it u ok it' u'. f (it, u) = (ok, it', u') \<Longrightarrow>
      \<exists>n. n \<le> length cs \<and> it' = it @ take n cs \<and> (ok \<longrightarrow> n = length cs)) \<Longrightarrow> emits cs f"
  by (auto simp: emits_def)

lemma emits_success:
  assumes "emits cs f" "f (it, u) = (True, it', u')"
  shows "it' = it @ cs"
proof -
  obtain n where "n \<le> length cs" "it' = it @ take n cs" "n = length cs"
    using assms unfolding emits_def by metis
  then show ?thesis by simp
qed

lemma emits_prefix:
  assumes "emits cs f" "f (it, u) = (ok, it', u')"
  shows "\<exists>n \<le> length cs. it' = it @ take n cs"
  using assms unfolding emits_def by metis

lemma emits_enc_exp [intro, simp]: "emits [c] (enc_exp api e c)"
  by (rule emitsI) (force simp: enc_exp_def split: prod.splits)

lemma emits_enc [intro, simp]: "emits [c] (enc api c)"
  by (simp add: enc_def)

lemma emits_Nil [simp]: "emits [] (seq_all [])"
  by (rule emitsI) simp

lemma emits_Cons:
  assumes f: "emits cs f" and fs: "emits ds (seq_all fs)"
  shows "emits (cs @ ds) (seq_all (f # fs))"
proof (rule emitsI)
  fix it u ok it' u'
  assume run: "seq_all (f # fs) (it, u) = (ok, it', u')"
  obtain ok1 it1 u1 where f1: "f (it, u) = (ok1, it1, u1)" by (cases "f (it, u)") auto
  obtain n where n: "n \<le> length cs" "it1 = it @ take n cs" "ok1 \<longrightarrow> n = length cs"
    using f f1 unfolding emits_def by metis
  show "\<exists>m. m \<le> length (cs @ ds) \<and> it' = it @ take m (cs @ ds) \<and> (ok \<longrightarrow> m = length (cs @ ds))"
  proof (cases ok1)
    case False
    with run f1 n show ?thesis by (intro exI [of _ n]) auto
  next
    case True
    with run f1 have "seq_all fs (it1, u1) = (ok, it', u')" by simp
    then obtain m where "m \<le> length ds" "it' = it1 @ take m ds" "ok \<longrightarrow> m = length ds"
      using fs unfolding emits_def by metis
    with n True show ?thesis by (intro exI [of _ "length cs + m"]) auto
  qed
qed

lemma emits_append:
  assumes "emits cs (seq_all fs)" and "emits ds (seq_all gs)"
  shows "emits (cs @ ds) (seq_all (fs @ gs))"
proof (rule emitsI)
  fix it u ok it' u'
  assume run: "seq_all (fs @ gs) (it, u) = (ok, it', u')"
  obtain ok1 it1 u1 where f1: "seq_all fs (it, u) = (ok1, it1, u1)" by (cases "seq_all fs (it, u)") auto
  obtain n where n: "n \<le> length cs" "it1 = it @ take n cs" "ok1 \<longrightarrow> n = length cs"
    using assms(1) f1 unfolding emits_def by metis
  show "\<exists>m. m \<le> length (cs @ ds) \<and> it' = it @ take m (cs @ ds) \<and> (ok \<longrightarrow> m = length (cs @ ds))"
  proof (cases ok1)
    case False
    with run f1 n show ?thesis by (intro exI [of _ n]) (auto simp: seq_all_append)
  next
    case True
    with run f1 have "seq_all gs (it1, u1) = (ok, it', u')" by (simp add: seq_all_append)
    then obtain m where "m \<le> length ds" "it' = it1 @ take m ds" "ok \<longrightarrow> m = length ds"
      using assms(2) unfolding emits_def by metis
    with n True show ?thesis by (intro exI [of _ "length cs + m"]) auto
  qed
qed

lemma emits_check [simp]: "emits [] (\<lambda>s. (b, s))"
  by (rule emitsI) simp

lemma emits_nil_steps [simp]: "emits [] (\<lambda>s. (True, s))"
  by (rule emitsI) simp

lemma emits_seq:
  assumes "list_all2 emits css fs"
  shows "emits (concat css) (seq_all fs)"
  using assms by (induction rule: list_all2_induct) (auto simp: emits_Cons simp del: seq_all.simps)


subsection \<open>Documented behaviour the code relies on\<close>

text \<open>A predicate on the library state that every call keeps, whatever its arguments, apart from
  the three calls that open, activate or close a channel.\<close>

definition keeps :: "'u rssl \<Rightarrow> ('u \<Rightarrow> bool) \<Rightarrow> bool" where
  "keeps api W \<longleftrightarrow> (\<forall>u. W u \<longrightarrow>
     (\<forall>h. W (snd (rsslGetChannelInfo api h u))) \<and>
     (\<forall>h. W (snd (rsslReadEx api h u))) \<and>
     (\<forall>h b d. W (snd (rsslWriteEx api h b d u))) \<and>
     (\<forall>h. W (snd (rsslFlush api h u))) \<and>
     (\<forall>h. W (snd (rsslPing api h u))) \<and>
     W (snd (rsslCloseServer api u)) \<and>
     (\<forall>h n. W (snd (rsslGetBuffer api h n u))) \<and>
     (\<forall>b. W (snd (rsslReleaseBuffer api b u))) \<and>
     (\<forall>it c. W (snd (rsslEncode api it c u))) \<and>
     (\<forall>m. W (snd (rsslValidateMsg api m u))) \<and>
     (\<forall>a b. W (snd (rsslSetDecodeIteratorRWFVersion api a b u))) \<and>
     (\<forall>b. W (snd (rsslSetDecodeIteratorBuffer api b u))) \<and>
     W (snd (rsslDecodeMsg api u)) \<and>
     W (snd (rsslDecodeMsgKeyAttrib api u)) \<and>
     W (snd (rsslDecodeElementList api u)) \<and>
     W (snd (rsslDecodeUInt api u)))"

lemma keepsD:
  assumes "keeps api W" "W u"
  shows "rsslGetChannelInfo api h u = (r1, u') \<Longrightarrow> W u'"
    and "rsslReadEx api h u = (r2, u') \<Longrightarrow> W u'"
    and "rsslWriteEx api h b d u = (r3, u') \<Longrightarrow> W u'"
    and "rsslFlush api h u = (r4, u') \<Longrightarrow> W u'"
    and "rsslPing api h u = (r5, u') \<Longrightarrow> W u'"
    and "rsslCloseServer api u = (r6, u') \<Longrightarrow> W u'"
    and "rsslGetBuffer api h n u = (r7, u') \<Longrightarrow> W u'"
    and "rsslReleaseBuffer api b u = (r8, u') \<Longrightarrow> W u'"
    and "rsslEncode api it c u = (r9, u') \<Longrightarrow> W u'"
    and "rsslValidateMsg api m u = (r10, u') \<Longrightarrow> W u'"
    and "rsslSetDecodeIteratorRWFVersion api va vb u = (r11, u') \<Longrightarrow> W u'"
    and "rsslSetDecodeIteratorBuffer api b u = (r12, u') \<Longrightarrow> W u'"
    and "rsslDecodeMsg api u = (r13, u') \<Longrightarrow> W u'"
    and "rsslDecodeMsgKeyAttrib api u = (r14, u') \<Longrightarrow> W u'"
    and "rsslDecodeElementList api u = (r15, u') \<Longrightarrow> W u'"
    and "rsslDecodeUInt api u = (r16, u') \<Longrightarrow> W u'"
  using assms unfolding keeps_def by (metis snd_conv)+

text \<open>An encoder step that keeps a predicate on the library state.\<close>

definition stable :: "('u \<Rightarrow> bool) \<Rightarrow> (enc_iter \<times> 'u \<Rightarrow> bool \<times> enc_iter \<times> 'u) \<Rightarrow> bool" where
  "stable W f \<longleftrightarrow> (\<forall>it u. W u \<longrightarrow> W (snd (snd (f (it, u)))))"

lemma stableD: "stable W f \<Longrightarrow> f (it, u) = (ok, it', u') \<Longrightarrow> W u \<Longrightarrow> W u'"
  unfolding stable_def by (metis snd_conv)

lemma stable_enc_exp: "keeps api W \<Longrightarrow> stable W (enc_exp api e c)"
  by (auto simp: stable_def enc_exp_def dest: keepsD split: prod.splits)

lemma stable_enc: "keeps api W \<Longrightarrow> stable W (enc api c)"
  by (simp add: enc_def stable_enc_exp)

lemma stable_check: "stable W (\<lambda>s. (b, s))"
  by (simp add: stable_def)

lemma stable_seq: "\<forall>f \<in> set fs. stable W f \<Longrightarrow> stable W (seq_all fs)"
proof (induction fs)
  case Nil
  then show ?case by (simp add: stable_def)
next
  case (Cons f fs)
  then have f: "stable W f" and fs: "stable W (seq_all fs)" by simp_all
  show ?case
    unfolding stable_def
  proof (intro allI impI)
    fix it u assume "W u"
    obtain ok it' u' where run: "f (it, u) = (ok, it', u')" by (cases "f (it, u)") auto
    with f \<open>W u\<close> have "W u'" by (auto dest: stableD)
    then show "W (snd (snd (seq_all (f # fs) (it, u))))"
      using run fs by (simp add: stable_def)
  qed
qed

definition active :: "'u rssl \<Rightarrow> 'u \<Rightarrow> handle \<Rightarrow> bool" where
  "active api u h \<longleftrightarrow> state (chan api h u) = RSSL_CH_STATE_ACTIVE"

definition initializing :: "'u rssl \<Rightarrow> 'u \<Rightarrow> handle \<Rightarrow> bool" where
  "initializing api u h \<longleftrightarrow> state (chan api h u) = RSSL_CH_STATE_INITIALIZING"

text \<open>From \<open>u\<close> to \<open>u'\<close> no handle was given out, and no channel became active or went back to
  being initialised.\<close>

definition calm :: "'u rssl \<Rightarrow> 'u \<Rightarrow> 'u \<Rightarrow> bool" where
  "calm api u u' \<longleftrightarrow> issued api u' = issued api u \<and> (\<forall>h. active api u' h \<longrightarrow> active api u h) \<and>
     (\<forall>h. initializing api u' h \<longrightarrow> initializing api u h)"

lemma calm_refl [simp]: "calm api u u"
  by (simp add: calm_def)

lemma calm_trans: "calm api u v \<Longrightarrow> calm api v w \<Longrightarrow> calm api u w"
  by (auto simp: calm_def)

text \<open>
  What the documentation of the transport says and the program relies on: a handle that
  \<open>rsslAccept\<close> returns is new and its channel is not active yet; a channel becomes active only
  when \<open>rsslInitChannel\<close> succeeds on it, and is then no longer being initialised; after
  \<open>rsslCloseChannel\<close> it is not active; no other call opens or activates a channel.
\<close>

definition transport_contract :: "'u rssl \<Rightarrow> bool" where
  "transport_contract api \<longleftrightarrow>
     (\<forall>u0. keeps api (calm api u0)) \<and>
     (\<forall>n u h u'. rsslAccept api n u = (Some h, u') \<longrightarrow>
        h \<notin> issued api u \<and> issued api u' = insert h (issued api u) \<and> \<not> active api u' h \<and>
        (\<forall>h'. active api u' h' \<longrightarrow> active api u h') \<and>
        (\<forall>h'. h' \<noteq> h \<longrightarrow> initializing api u' h' \<longrightarrow> initializing api u h')) \<and>
     (\<forall>n u u'. rsslAccept api n u = (None, u') \<longrightarrow> calm api u u') \<and>
     (\<forall>h u rc i u'. rsslInitChannel api h u = ((rc, i), u') \<longrightarrow> issued api u' = issued api u \<and>
        (\<forall>h'. active api u' h' \<longrightarrow> active api u h' \<or> (h' = h \<and> rc = RSSL_RET_SUCCESS)) \<and>
        (\<forall>h'. initializing api u' h' \<longrightarrow> initializing api u h') \<and>
        (rc = RSSL_RET_SUCCESS \<longrightarrow> \<not> initializing api u' h)) \<and>
     (\<forall>h u rc u'. rsslCloseChannel api h u = (rc, u') \<longrightarrow> calm api u u' \<and> \<not> active api u' h)"

end
