(* ===== verification/Session_State.thy ===== *)
theory Session_State
  imports Rssl
begin

section \<open>State of the provider and of its client sessions\<close>

text \<open>
  The members of \<open>provider_t\<close> (provider.hh) and \<open>client_t\<close> (client.hh). One record holds the
  whole state that the provider thread works on: the provider's members, the heap of session
  objects and the library state \<open>world\<close>.

  \<^item> A session object lives in the heap \<open>objs\<close> under a \<open>client_id\<close> (its address). The map
    \<open>clients_\<close> owns the objects; erasing an entry destroys the object.
  \<^item> \<open>userSpec\<close> is the \<open>userSpecPtr\<close> member of the channels: \<open>None\<close> is the null pointer,
    \<open>Some k\<close> the address of a session object, which need not be alive any more.
  \<^item> \<open>held\<close> lists the transport buffers popped from the library's pool that the program has
    neither handed over for writing nor released.
  \<^item> \<open>fault\<close> is set when the code dereferences a null or dangling pointer, or when a loop over
    a library call never ends; nothing is claimed about a state after a fault.
  \<^item> A socket set (\<open>fd_set\<close>) is the set of its sockets.
\<close>

datatype client_pc =
    CLIENT_PC_RSSL_MSGS_SENT | CLIENT_PC_RSSL_MSGS_RECEIVED | CLIENT_PC_RSSL_MSGS_REJECTED
  | CLIENT_PC_REQUEST_MSGS_RECEIVED | CLIENT_PC_REQUEST_MSGS_REJECTED
  | CLIENT_PC_CLOSE_MSGS_RECEIVED | CLIENT_PC_CLOSE_MSGS_DISCARDED
  | CLIENT_PC_MMT_LOGIN_RECEIVED | CLIENT_PC_MMT_LOGIN_MALFORMED | CLIENT_PC_MMT_LOGIN_REJECTED
  | CLIENT_PC_MMT_LOGIN_ACCEPTED | CLIENT_PC_MMT_LOGIN_RESPONSE_VALIDATED
  | CLIENT_PC_MMT_LOGIN_RESPONSE_MALFORMED | CLIENT_PC_MMT_LOGIN_EXCEPTION
  | CLIENT_PC_MMT_LOGIN_CLOSE_RECEIVED | CLIENT_PC_MMT_DIRECTORY_REQUEST_RECEIVED
  | CLIENT_PC_MMT_DIRECTORY_VALIDATED | CLIENT_PC_MMT_DIRECTORY_MALFORMED
  | CLIENT_PC_MMT_DIRECTORY_SENT | CLIENT_PC_MMT_DIRECTORY_EXCEPTION
  | CLIENT_PC_MMT_DIRECTORY_CLOSE_RECEIVED | CLIENT_PC_MMT_DICTIONARY_REQUEST_RECEIVED
  | CLIENT_PC_MMT_DICTIONARY_CLOSE_RECEIVED | CLIENT_PC_ITEM_REQUEST_RECEIVED
  | CLIENT_PC_ITEM_REQUEST_MALFORMED | CLIENT_PC_ITEM_REQUEST_BEFORE_LOGIN
  | CLIENT_PC_ITEM_STREAMING_REQUEST_RECEIVED | CLIENT_PC_ITEM_REISSUE_REQUEST_RECEIVED
  | CLIENT_PC_ITEM_SNAPSHOT_REQUEST_RECEIVED | CLIENT_PC_ITEM_REQUEST_REJECTED
  | CLIENT_PC_ITEM_VALIDATED | CLIENT_PC_ITEM_MALFORMED | CLIENT_PC_ITEM_NOT_FOUND
  | CLIENT_PC_ITEM_SENT | CLIENT_PC_ITEM_CLOSED | CLIENT_PC_ITEM_EXCEPTION
  | CLIENT_PC_ITEM_CLOSE_RECEIVED | CLIENT_PC_ITEM_CLOSE_MALFORMED
  | CLIENT_PC_ITEM_CLOSE_VALIDATED | CLIENT_PC_OMM_INACTIVE_CLIENT_SESSION_RECEIVED
  | CLIENT_PC_OMM_INACTIVE_CLIENT_SESSION_EXCEPTION

datatype provider_pc =
    PROVIDER_PC_BYTES_RECEIVED | PROVIDER_PC_UNCOMPRESSED_BYTES_RECEIVED | PROVIDER_PC_MSGS_SENT
  | PROVIDER_PC_RSSL_MSGS_ENQUEUED | PROVIDER_PC_RSSL_MSGS_SENT | PROVIDER_PC_RSSL_MSGS_RECEIVED
  | PROVIDER_PC_RSSL_MSGS_DECODED | PROVIDER_PC_RSSL_MSGS_MALFORMED
  | PROVIDER_PC_RSSL_MSGS_VALIDATED | PROVIDER_PC_CONNECTION_RECEIVED
  | PROVIDER_PC_CONNECTION_REJECTED | PROVIDER_PC_CONNECTION_ACCEPTED
  | PROVIDER_PC_CONNECTION_EXCEPTION | PROVIDER_PC_RWF_VERSION_UNSUPPORTED
  | PROVIDER_PC_RSSL_PING_SENT | PROVIDER_PC_RSSL_PONG_RECEIVED | PROVIDER_PC_RSSL_PONG_TIMEOUT
  | PROVIDER_PC_RSSL_PROTOCOL_DOWNGRADE | PROVIDER_PC_RSSL_FLUSH
  | PROVIDER_PC_OMM_ACTIVE_CLIENT_SESSION_RECEIVED
  | PROVIDER_PC_OMM_ACTIVE_CLIENT_SESSION_EXCEPTION
  | PROVIDER_PC_CLIENT_SESSION_REJECTED | PROVIDER_PC_CLIENT_SESSION_ACCEPTED
  | PROVIDER_PC_RSSL_RECONNECT | PROVIDER_PC_RSSL_CONGESTION_DETECTED
  | PROVIDER_PC_RSSL_SLOW_READER | PROVIDER_PC_RSSL_PACKET_GAP_DETECTED
  | PROVIDER_PC_RSSL_READ_FAILURE | PROVIDER_PC_CLIENT_INIT_EXCEPTION
  | PROVIDER_PC_DIRECTORY_MAP_EXCEPTION | PROVIDER_PC_RSSL_PING_EXCEPTION
  | PROVIDER_PC_RSSL_PING_FLUSH_FAILED | PROVIDER_PC_RSSL_PING_NO_BUFFERS
  | PROVIDER_PC_RSSL_WRITE_EXCEPTION | PROVIDER_PC_RSSL_WRITE_FLUSH_FAILED
  | PROVIDER_PC_RSSL_WRITE_NO_BUFFERS

type_synonym client_id = nat

text \<open>The configuration (config.hh). The two flags after it are compile-time switches:
  \<open>logging::DEBUG_MODE\<close> and \<open>DCHECK_IS_ON()\<close>.\<close>

record config =
  service_name :: string
  rssl_port :: string
  vendor_name :: string
  maximum_data_size :: nat
  session_capacity :: nat
  worker_count :: nat
  debug_mode :: bool
  dcheck_on :: bool

definition default_config :: config where
  "default_config = \<lparr>service_name = ''NOCACHE_VTA'', rssl_port = ''24002'',
     vendor_name = ''Thomson Reuters'', maximum_data_size = 64 * 1024, session_capacity = 8,
     worker_count = 6, debug_mode = False, dcheck_on = False\<rparr>"

record client =
  c_address :: string
  c_handle :: handle
  pending_count :: u32
  tokens :: "u32 set"
  is_logged_in :: bool
  directory_token :: u32
  login_token :: u32
  next_ping :: int
  next_pong :: int
  ping_interval :: u32
  c_last_activity :: int
  c_stats :: "client_pc \<Rightarrow> u32"

record 'u prov =
  world :: 'u
  cfg :: config
  service_id :: u16
  min_rwf_version :: u16
  is_accepting_connections :: bool
  is_accepting_requests :: bool
  keep_running :: bool
  rssl_sock :: "sock option"
  reply_sock :: "sock option"
  in_rfds :: "sock set"
  in_wfds :: "sock set"
  in_efds :: "sock set"
  out_rfds :: "sock set"
  out_wfds :: "sock set"
  out_efds :: "sock set"
  out_nfds :: int
  connections :: "handle list"
  clients :: "(handle \<times> client_id) list"
  objs :: "client_id \<Rightarrow> client option"
  next_obj :: client_id
  userSpec :: "handle \<Rightarrow> client_id option"
  last_activity :: int
  p_stats :: "provider_pc \<Rightarrow> u32"
  held :: "nat list"
  fault :: bool

definition provider_init :: "config \<Rightarrow> sock option \<Rightarrow> sock set \<times> sock set \<times> sock set \<Rightarrow> 'u rssl \<Rightarrow> 'u \<Rightarrow> 'u prov" where
  "provider_init c reply junk api u = \<lparr>world = u, cfg = c, service_id = 1, min_rwf_version = 0,
     is_accepting_connections = True, is_accepting_requests = True, keep_running = True,
     rssl_sock = None, reply_sock = reply, in_rfds = {}, in_wfds = {}, in_efds = {},
     out_rfds = fst junk, out_wfds = fst (snd junk), out_efds = snd (snd junk), out_nfds = 0,
     connections = [], clients = [], objs = (\<lambda>_. None), next_obj = 0, userSpec = (\<lambda>_. None),
     last_activity = universal_time api u, p_stats = (\<lambda>_. 0), held = [], fault = False\<rparr>"

definition client_init :: "'u rssl \<Rightarrow> handle \<Rightarrow> string \<Rightarrow> 'u \<Rightarrow> client" where
  "client_init api h addr u = \<lparr>c_address = addr, c_handle = h, pending_count = 0, tokens = {},
     is_logged_in = False, directory_token = uninitialised api u, login_token = 0,
     next_ping = 0, next_pong = 0, ping_interval = uninitialised api u,
     c_last_activity = universal_time api u, c_stats = (\<lambda>_. 0)\<rparr>"

text \<open>Access to the session object at an address. The null-pointer and dangling-pointer
  cases are faults.\<close>

definition getc :: "'u prov \<Rightarrow> client_id \<Rightarrow> client" where
  "getc p k = the (objs p k)"

definition alive :: "'u prov \<Rightarrow> client_id \<Rightarrow> bool" where
  "alive p k \<longleftrightarrow> objs p k \<noteq> None"

definition updc :: "client_id \<Rightarrow> (client \<Rightarrow> client) \<Rightarrow> 'u prov \<Rightarrow> 'u prov" where
  "updc k f p = (case objs p k of
     None \<Rightarrow> p\<lparr>fault := True\<rparr>
   | Some c \<Rightarrow> p\<lparr>objs := (objs p)(k \<mapsto> f c)\<rparr>)"

definition cstat :: "client_id \<Rightarrow> client_pc \<Rightarrow> 'u prov \<Rightarrow> 'u prov" where
  "cstat k pc = updc k (\<lambda>c. c\<lparr>c_stats := bump pc (c_stats c)\<rparr>)"

definition pstat :: "provider_pc \<Rightarrow> 'u prov \<Rightarrow> 'u prov" where
  "pstat pc p = p\<lparr>p_stats := bump pc (p_stats p)\<rparr>"

definition pstat_add :: "provider_pc \<Rightarrow> u32 \<Rightarrow> 'u prov \<Rightarrow> 'u prov" where
  "pstat_add pc n p = p\<lparr>p_stats := (p_stats p)(pc := p_stats p pc + n)\<rparr>"

definition chanp :: "'u rssl \<Rightarrow> 'u prov \<Rightarrow> handle \<Rightarrow> channel" where
  "chanp api p h = chan api h (world p)"

text \<open>\<open>rwf_version = (major * 256) + minor\<close> in 16 bits, and its two halves.\<close>

definition rwf_version :: "channel \<Rightarrow> u16" where
  "rwf_version ch = ucast (majorVersion ch) * 256 + ucast (minorVersion ch)"

definition rwf_major_version :: "u16 \<Rightarrow> u8" where
  "rwf_major_version v = ucast (v div 256)"

definition rwf_minor_version :: "u16 \<Rightarrow> u8" where
  "rwf_minor_version v = ucast (v mod 256)"

lemma uint_rwf_version: "uint (rwf_version ch) = uint (majorVersion ch) * 256 + uint (minorVersion ch)"
proof -
  have "uint (majorVersion ch) < 256" "uint (minorVersion ch) < 256"
    using uint_lt2p [of "majorVersion ch"] uint_lt2p [of "minorVersion ch"] by simp_all
  then show ?thesis
    unfolding rwf_version_def
    by (simp add: uint_word_ariths uint_up_ucast is_up)
qed

lemma rwf_major_of_version [simp]: "rwf_major_version (rwf_version ch) = majorVersion ch"
  by (rule word_uint_eqI)
    (simp add: rwf_major_version_def unsigned_ucast_eq uint_div uint_rwf_version
      take_bit_eq_mod, use uint_lt2p [of "minorVersion ch"] uint_lt2p [of "majorVersion ch"] in simp)

lemma rwf_minor_of_version [simp]: "rwf_minor_version (rwf_version ch) = minorVersion ch"
  by (rule word_uint_eqI)
    (simp add: rwf_minor_version_def unsigned_ucast_eq uint_mod uint_rwf_version
      take_bit_eq_mod, use uint_lt2p [of "minorVersion ch"] in simp)

lemma updc_alive: "objs p k = Some c \<Longrightarrow> updc k f p = p\<lparr>objs := (objs p)(k \<mapsto> f c)\<rparr>"
  by (simp add: updc_def)

lemma getc_updc [simp]: "objs p k = Some c \<Longrightarrow> getc (updc k f p) k = f (getc p k)"
  by (simp add: getc_def updc_def)

lemma alive_updc [simp]: "alive (updc k f p) j \<longleftrightarrow> alive p j"
  by (auto simp: alive_def updc_def split: option.splits)

end
