(* ===== verification/Directory.thy ===== *)
theory Directory
  imports Session_State
begin

section \<open>Encoding: the source directory and the close message\<close>

text \<open>
  The encoders of provider.cc: \<open>GetDirectoryMap\<close> with the functions below it, which write the
  source directory of the provider's one service, and \<open>WriteRawClose\<close>, which writes a status
  message. Each is a run of calls on the encode iterator that stops at the first call the
  library refuses. The calls a successful run makes are the lists \<open>*_calls\<close>.
\<close>

definition kRdmFieldDictionaryName :: string where "kRdmFieldDictionaryName = ''RWFFld''"

definition kEnumTypeDictionaryName :: string where "kEnumTypeDictionaryName = ''RWFEnum''"

definition GetServiceCapabilities :: "'u rssl \<Rightarrow> enc_iter \<times> 'u \<Rightarrow> bool \<times> enc_iter \<times> 'u" where
  "GetServiceCapabilities api = seq_all
    [enc api (EncodeArrayInit RSSL_DT_UINT 1),
     enc api (EncodeArrayEntry (PDomain RSSL_DMT_MARKET_PRICE)),
     enc api EncodeArrayComplete]"

definition GetServiceDictionaries :: "'u rssl \<Rightarrow> enc_iter \<times> 'u \<Rightarrow> bool \<times> enc_iter \<times> 'u" where
  "GetServiceDictionaries api = seq_all
    [enc api (EncodeArrayInit RSSL_DT_ASCII_STRING 0),
     enc api (EncodeArrayEntry (PString kRdmFieldDictionaryName)),
     enc api (EncodeArrayEntry (PString kEnumTypeDictionaryName)),
     enc api EncodeArrayComplete]"

definition GetServiceQoS :: "'u rssl \<Rightarrow> enc_iter \<times> 'u \<Rightarrow> bool \<times> enc_iter \<times> 'u" where
  "GetServiceQoS api = seq_all
    [enc api (EncodeArrayInit RSSL_DT_QOS 0),
     enc api (EncodeArrayEntry (PQos False RSSL_QOS_RATE_TICK_BY_TICK RSSL_QOS_TIME_REALTIME)),
     enc api EncodeArrayComplete]"

text \<open>The element list of the service information, in two halves.\<close>

definition service_information_arrays ::
  "'u rssl \<Rightarrow> config \<Rightarrow> (enc_iter \<times> 'u \<Rightarrow> bool \<times> enc_iter \<times> 'u) list" where
  "service_information_arrays api c =
    [enc api (EncodeElementListInit 0),
     enc api (EncodeElementEntry RSSL_ENAME_NAME RSSL_DT_ASCII_STRING (PString (service_name c))),
     enc api (EncodeElementEntryInit RSSL_ENAME_CAPABILITIES RSSL_DT_ARRAY),
     GetServiceCapabilities api,
     enc api EncodeElementEntryComplete,
     enc api (EncodeElementEntryInit RSSL_ENAME_DICTIONARYS_USED RSSL_DT_ARRAY),
     GetServiceDictionaries api,
     enc api EncodeElementEntryComplete]"

definition service_information_rest ::
  "'u rssl \<Rightarrow> (enc_iter \<times> 'u \<Rightarrow> bool \<times> enc_iter \<times> 'u) list" where
  "service_information_rest api =
    [enc api (EncodeElementEntryInit RSSL_ENAME_QOS RSSL_DT_ARRAY),
     GetServiceQoS api,
     enc api EncodeElementEntryComplete,
     enc api (EncodeElementEntry RSSL_ENAME_SUPPS_OOB_SNAPSHOTS RSSL_DT_UINT (PUInt 0)),
     enc api (EncodeElementEntry RSSL_ENAME_ACCEPTING_CONS_STATUS RSSL_DT_UINT (PUInt 0)),
     enc api EncodeElementListComplete]"

definition GetServiceInformation :: "'u rssl \<Rightarrow> config \<Rightarrow> enc_iter \<times> 'u \<Rightarrow> bool \<times> enc_iter \<times> 'u" where
  "GetServiceInformation api c =
     seq_all (service_information_arrays api c @ service_information_rest api)"

definition GetServiceState :: "'u rssl \<Rightarrow> bool \<Rightarrow> enc_iter \<times> 'u \<Rightarrow> bool \<times> enc_iter \<times> 'u" where
  "GetServiceState api accepting = seq_all
    [enc api (EncodeElementListInit 0),
     enc api (EncodeElementEntry RSSL_ENAME_SVC_STATE RSSL_DT_UINT PServiceUp),
     enc api (EncodeElementEntry RSSL_ENAME_ACCEPTING_REQS RSSL_DT_UINT
       (PUInt (if accepting then 1 else 0))),
     enc api EncodeElementListComplete]"

definition GetServiceLoad :: "'u rssl \<Rightarrow> enc_iter \<times> 'u \<Rightarrow> bool \<times> enc_iter \<times> 'u" where
  "GetServiceLoad api = seq_all
    [enc api (EncodeElementListInit 0),
     enc api (EncodeElementEntry RSSL_ENAME_OPEN_WINDOW RSSL_DT_UINT (PUInt 1000)),
     enc api EncodeElementListComplete]"

text \<open>One filter entry around its content, and the list of the requested entries.\<close>

definition filter_entry ::
  "'u rssl \<Rightarrow> filter_id \<Rightarrow> (enc_iter \<times> 'u \<Rightarrow> bool \<times> enc_iter \<times> 'u) \<Rightarrow>
     (enc_iter \<times> 'u \<Rightarrow> bool \<times> enc_iter \<times> 'u) list" where
  "filter_entry api fid content =
     [enc api (EncodeFilterEntryInit fid), content, enc api EncodeFilterEntryComplete]"

definition filter_count :: "dir_filter set \<Rightarrow> nat" where
  "filter_count fmask =
     (if RDM_DIRECTORY_SERVICE_INFO_FILTER \<in> fmask then 1 else 0)
   + (if RDM_DIRECTORY_SERVICE_STATE_FILTER \<in> fmask then 1 else 0)
   + (if RDM_DIRECTORY_SERVICE_LOAD_FILTER \<in> fmask then 1 else 0)"

definition filter_list_entries ::
  "'u rssl \<Rightarrow> config \<Rightarrow> bool \<Rightarrow> dir_filter set \<Rightarrow> (enc_iter \<times> 'u \<Rightarrow> bool \<times> enc_iter \<times> 'u) list" where
  "filter_list_entries api c accepting fmask =
     (if RDM_DIRECTORY_SERVICE_INFO_FILTER \<in> fmask
      then filter_entry api RDM_DIRECTORY_SERVICE_INFO_ID (GetServiceInformation api c) else []) @
     (if RDM_DIRECTORY_SERVICE_STATE_FILTER \<in> fmask
      then filter_entry api RDM_DIRECTORY_SERVICE_STATE_ID (GetServiceState api accepting) else []) @
     (if RDM_DIRECTORY_SERVICE_LOAD_FILTER \<in> fmask
      then filter_entry api RDM_DIRECTORY_SERVICE_LOAD_ID (GetServiceLoad api) else [])"

definition GetServiceFilterList ::
  "'u rssl \<Rightarrow> config \<Rightarrow> bool \<Rightarrow> dir_filter set \<Rightarrow> enc_iter \<times> 'u \<Rightarrow> bool \<times> enc_iter \<times> 'u" where
  "GetServiceFilterList api c accepting fmask = seq_all
     ([enc api (EncodeFilterListInit RSSL_DT_ELEMENT_LIST (filter_count fmask))] @
      filter_list_entries api c accepting fmask @
      [enc api EncodeFilterListComplete])"

text \<open>The requested service name is a C string, or \<open>None\<close> for all services.\<close>

definition GetServiceDirectory ::
  "'u rssl \<Rightarrow> config \<Rightarrow> bool \<Rightarrow> string option \<Rightarrow> dir_filter set \<Rightarrow> enc_iter \<times> 'u \<Rightarrow> bool \<times> enc_iter \<times> 'u" where
  "GetServiceDirectory api c accepting name fmask s =
     (if name \<noteq> None \<and> name \<noteq> Some (service_name c) then (False, s)
      else GetServiceFilterList api c accepting fmask s)"

definition GetDirectoryMap ::
  "'u rssl \<Rightarrow> string option \<Rightarrow> dir_filter set \<Rightarrow> map_action \<Rightarrow> enc_iter \<times> 'u prov \<Rightarrow>
     bool \<times> enc_iter \<times> 'u prov" where
  "GetDirectoryMap api name fmask action = (\<lambda>(it, p).
     let (ok, it', u') = seq_all
       [enc api (EncodeMapInit RSSL_DT_UINT RSSL_DT_FILTER_LIST),
        (\<lambda>s. (service_id p \<noteq> 0, s)),
        enc api (EncodeMapEntryInit action (ucast (service_id p))),
        GetServiceDirectory api (cfg p) (is_accepting_requests p) name fmask,
        enc api EncodeMapEntryComplete,
        enc api EncodeMapComplete] (it, world p);
       p' = p\<lparr>world := u'\<rparr>
     in (ok, it', if ok then p' else pstat PROVIDER_PC_DIRECTORY_MAP_EXCEPTION p'))"

subsection \<open>The status message that closes a stream\<close>

definition close_msg ::
  "u32 \<Rightarrow> u16 \<Rightarrow> domain_type \<Rightarrow> rssl_cbuf \<Rightarrow> bool \<Rightarrow> stream_state \<Rightarrow> state_code \<Rightarrow> string \<Rightarrow> rssl_msg" where
  "close_msg request_token sid model_type item_name use_attribinfo sstate code text =
    (let m = init_msg\<lparr>domainType := model_type, msgClass := RSSL_MC_STATUS,
           containerType := RSSL_DT_NO_DATA, streamId := request_token,
           streamState := sstate, dataState := RSSL_DATA_SUSPECT, stateCode := code,
           stateText := text\<rparr>;
         k = init_key\<lparr>key_serviceId := sid, key_nameType := RDM_INSTRUMENT_NAME_TYPE_RIC,
           key_name := item_name,
           key_flags := {RSSL_MKF_HAS_SERVICE_ID, RSSL_MKF_HAS_NAME_TYPE, RSSL_MKF_HAS_NAME}\<rparr>
     in if use_attribinfo
        then m\<lparr>msgKey := k, msg_flags := {RSSL_STMF_HAS_MSG_KEY, RSSL_STMF_HAS_STATE}\<rparr>
        else m\<lparr>msg_flags := {RSSL_STMF_HAS_STATE}\<rparr>)"

definition WriteRawClose ::
  "'u rssl \<Rightarrow> config \<Rightarrow> u16 \<Rightarrow> rssl_msg \<Rightarrow> u32 \<Rightarrow> 'u \<Rightarrow> bool \<times> enc_iter \<times> u32 \<times> 'u" where
  "WriteRawClose api c version response buflen u =
    (case seq_all
       [enc api (SetEncodeIteratorBuffer buflen),
        enc api (SetEncodeIteratorRWFVersion (rwf_major_version version) (rwf_minor_version version)),
        enc api (EncodeMsg response)] ([], u) of (ok, it, u1) \<Rightarrow>
     if \<not> ok then (False, it, buflen, u1)
     else let n = rsslGetEncodedBufferLength api it u1 in
       if dcheck_on c
       then (case rsslValidateMsg api response u1 of (valid, u2) \<Rightarrow>
               if valid then (True, it, n, u2) else (False, it, buflen, u2))
       else (True, it, n, u1))"

subsection \<open>What a successful run encodes\<close>

definition service_information_calls :: "config \<Rightarrow> enc_call list" where
  "service_information_calls c =
    [EncodeElementListInit 0,
     EncodeElementEntry RSSL_ENAME_NAME RSSL_DT_ASCII_STRING (PString (service_name c)),
     EncodeElementEntryInit RSSL_ENAME_CAPABILITIES RSSL_DT_ARRAY,
       EncodeArrayInit RSSL_DT_UINT 1, EncodeArrayEntry (PDomain RSSL_DMT_MARKET_PRICE),
       EncodeArrayComplete,
     EncodeElementEntryComplete,
     EncodeElementEntryInit RSSL_ENAME_DICTIONARYS_USED RSSL_DT_ARRAY,
       EncodeArrayInit RSSL_DT_ASCII_STRING 0, EncodeArrayEntry (PString ''RWFFld''),
       EncodeArrayEntry (PString ''RWFEnum''), EncodeArrayComplete,
     EncodeElementEntryComplete,
     EncodeElementEntryInit RSSL_ENAME_QOS RSSL_DT_ARRAY,
       EncodeArrayInit RSSL_DT_QOS 0,
       EncodeArrayEntry (PQos False RSSL_QOS_RATE_TICK_BY_TICK RSSL_QOS_TIME_REALTIME),
       EncodeArrayComplete,
     EncodeElementEntryComplete,
     EncodeElementEntry RSSL_ENAME_SUPPS_OOB_SNAPSHOTS RSSL_DT_UINT (PUInt 0),
     EncodeElementEntry RSSL_ENAME_ACCEPTING_CONS_STATUS RSSL_DT_UINT (PUInt 0),
     EncodeElementListComplete]"

definition service_state_calls :: "bool \<Rightarrow> enc_call list" where
  "service_state_calls accepting =
    [EncodeElementListInit 0,
     EncodeElementEntry RSSL_ENAME_SVC_STATE RSSL_DT_UINT PServiceUp,
     EncodeElementEntry RSSL_ENAME_ACCEPTING_REQS RSSL_DT_UINT (PUInt (if accepting then 1 else 0)),
     EncodeElementListComplete]"

definition service_load_calls :: "enc_call list" where
  "service_load_calls =
    [EncodeElementListInit 0,
     EncodeElementEntry RSSL_ENAME_OPEN_WINDOW RSSL_DT_UINT (PUInt 1000),
     EncodeElementListComplete]"

definition filter_entry_calls :: "filter_id \<Rightarrow> enc_call list \<Rightarrow> enc_call list" where
  "filter_entry_calls fid cs = EncodeFilterEntryInit fid # cs @ [EncodeFilterEntryComplete]"

definition filter_list_calls :: "config \<Rightarrow> bool \<Rightarrow> dir_filter set \<Rightarrow> enc_call list" where
  "filter_list_calls c accepting fmask =
     EncodeFilterListInit RSSL_DT_ELEMENT_LIST
       (card (fmask \<inter> {RDM_DIRECTORY_SERVICE_INFO_FILTER, RDM_DIRECTORY_SERVICE_STATE_FILTER,
                       RDM_DIRECTORY_SERVICE_LOAD_FILTER})) #
     (if RDM_DIRECTORY_SERVICE_INFO_FILTER \<in> fmask
      then filter_entry_calls RDM_DIRECTORY_SERVICE_INFO_ID (service_information_calls c) else []) @
     (if RDM_DIRECTORY_SERVICE_STATE_FILTER \<in> fmask
      then filter_entry_calls RDM_DIRECTORY_SERVICE_STATE_ID (service_state_calls accepting) else []) @
     (if RDM_DIRECTORY_SERVICE_LOAD_FILTER \<in> fmask
      then filter_entry_calls RDM_DIRECTORY_SERVICE_LOAD_ID service_load_calls else []) @
     [EncodeFilterListComplete]"

definition directory_map_calls :: "'u prov \<Rightarrow> dir_filter set \<Rightarrow> map_action \<Rightarrow> enc_call list" where
  "directory_map_calls p fmask action =
     [EncodeMapInit RSSL_DT_UINT RSSL_DT_FILTER_LIST,
      EncodeMapEntryInit action (ucast (service_id p))] @
     filter_list_calls (cfg p) (is_accepting_requests p) fmask @
     [EncodeMapEntryComplete, EncodeMapComplete]"


subsection \<open>Emission lemmas\<close>

lemma emits_GetServiceCapabilities:
  "emits [EncodeArrayInit RSSL_DT_UINT 1, EncodeArrayEntry (PDomain RSSL_DMT_MARKET_PRICE),
     EncodeArrayComplete] (GetServiceCapabilities api)"
  unfolding GetServiceCapabilities_def
  by (rule emits_seq [where css = "[[_], [_], [_]]", simplified]) simp

lemma emits_GetServiceDictionaries:
  "emits [EncodeArrayInit RSSL_DT_ASCII_STRING 0, EncodeArrayEntry (PString ''RWFFld''),
     EncodeArrayEntry (PString ''RWFEnum''), EncodeArrayComplete] (GetServiceDictionaries api)"
  unfolding GetServiceDictionaries_def kRdmFieldDictionaryName_def kEnumTypeDictionaryName_def
  by (rule emits_seq [where css = "[[_], [_], [_], [_]]", simplified]) simp

lemma emits_GetServiceQoS:
  "emits [EncodeArrayInit RSSL_DT_QOS 0,
     EncodeArrayEntry (PQos False RSSL_QOS_RATE_TICK_BY_TICK RSSL_QOS_TIME_REALTIME),
     EncodeArrayComplete] (GetServiceQoS api)"
  unfolding GetServiceQoS_def
  by (rule emits_seq [where css = "[[_], [_], [_]]", simplified]) simp

lemma emits_GetServiceState: "emits (service_state_calls accepting) (GetServiceState api accepting)"
  unfolding GetServiceState_def service_state_calls_def
  by (rule emits_seq [where css = "[[_], [_], [_], [_]]", simplified]) simp

lemma emits_GetServiceLoad: "emits service_load_calls (GetServiceLoad api)"
  unfolding GetServiceLoad_def service_load_calls_def
  by (rule emits_seq [where css = "[[_], [_], [_]]", simplified]) simp

lemma emits_GetServiceInformation: "emits (service_information_calls c) (GetServiceInformation api c)"
  unfolding GetServiceInformation_def service_information_calls_def service_information_arrays_def
    service_information_rest_def
  by (rule emits_seq [where css = "[[_], [_], [_], [_, _, _], [_], [_], [_, _, _, _], [_],
        [_], [_, _, _], [_], [_], [_], [_]]", simplified])
    (simp add: emits_GetServiceCapabilities emits_GetServiceDictionaries emits_GetServiceQoS
      del: One_nat_def)

lemma emits_filter_entry:
  assumes "emits cs f"
  shows "emits (filter_entry_calls fid cs) (seq_all (filter_entry api fid f))"
  using emits_seq [of "[[EncodeFilterEntryInit fid], cs, [EncodeFilterEntryComplete]]"
      "filter_entry api fid f"] assms
  by (simp add: filter_entry_def filter_entry_calls_def)

lemma filter_count_card:
  "filter_count fmask = card (fmask \<inter> {RDM_DIRECTORY_SERVICE_INFO_FILTER,
     RDM_DIRECTORY_SERVICE_STATE_FILTER, RDM_DIRECTORY_SERVICE_LOAD_FILTER})"
  by (simp add: filter_count_def Int_insert_right)

lemma emits_filter_list_entries:
  "emits ((if RDM_DIRECTORY_SERVICE_INFO_FILTER \<in> fmask
      then filter_entry_calls RDM_DIRECTORY_SERVICE_INFO_ID (service_information_calls c) else []) @
     (if RDM_DIRECTORY_SERVICE_STATE_FILTER \<in> fmask
      then filter_entry_calls RDM_DIRECTORY_SERVICE_STATE_ID (service_state_calls accepting) else []) @
     (if RDM_DIRECTORY_SERVICE_LOAD_FILTER \<in> fmask
      then filter_entry_calls RDM_DIRECTORY_SERVICE_LOAD_ID service_load_calls else []))
   (seq_all (filter_list_entries api c accepting fmask))"
  unfolding filter_list_entries_def
  by (intro emits_append)
    (simp_all add: emits_filter_entry emits_GetServiceInformation emits_GetServiceState
      emits_GetServiceLoad)

lemma emits_GetServiceFilterList:
  "emits (filter_list_calls c accepting fmask) (GetServiceFilterList api c accepting fmask)"
proof -
  have "emits ([EncodeFilterListInit RSSL_DT_ELEMENT_LIST (filter_count fmask)] @
      ((if RDM_DIRECTORY_SERVICE_INFO_FILTER \<in> fmask
        then filter_entry_calls RDM_DIRECTORY_SERVICE_INFO_ID (service_information_calls c) else []) @
       (if RDM_DIRECTORY_SERVICE_STATE_FILTER \<in> fmask
        then filter_entry_calls RDM_DIRECTORY_SERVICE_STATE_ID (service_state_calls accepting) else []) @
       (if RDM_DIRECTORY_SERVICE_LOAD_FILTER \<in> fmask
        then filter_entry_calls RDM_DIRECTORY_SERVICE_LOAD_ID service_load_calls else [])) @
      [EncodeFilterListComplete]) (GetServiceFilterList api c accepting fmask)"
    unfolding GetServiceFilterList_def
    by (intro emits_append emits_filter_list_entries)
      (rule emits_seq [where css = "[[_]]", simplified], simp)+
  then show ?thesis by (simp add: filter_list_calls_def filter_count_card)
qed

lemma emits_GetServiceDirectory:
  "emits (filter_list_calls c accepting fmask) (GetServiceDirectory api c accepting name fmask)"
  using emits_GetServiceFilterList [of c accepting fmask api]
  by (auto simp: emits_def GetServiceDirectory_def)

lemma emits_directory_map_steps:
  "emits (directory_map_calls p fmask action)
     (seq_all [enc api (EncodeMapInit RSSL_DT_UINT RSSL_DT_FILTER_LIST),
        (\<lambda>s. (service_id p \<noteq> 0, s)),
        enc api (EncodeMapEntryInit action (ucast (service_id p))),
        GetServiceDirectory api (cfg p) (is_accepting_requests p) name fmask,
        enc api EncodeMapEntryComplete,
        enc api EncodeMapComplete])"
proof -
  have "emits (concat [[EncodeMapInit RSSL_DT_UINT RSSL_DT_FILTER_LIST], [],
      [EncodeMapEntryInit action (ucast (service_id p))],
      filter_list_calls (cfg p) (is_accepting_requests p) fmask,
      [EncodeMapEntryComplete], [EncodeMapComplete]])
     (seq_all [enc api (EncodeMapInit RSSL_DT_UINT RSSL_DT_FILTER_LIST),
        (\<lambda>s. (service_id p \<noteq> 0, s)),
        enc api (EncodeMapEntryInit action (ucast (service_id p))),
        GetServiceDirectory api (cfg p) (is_accepting_requests p) name fmask,
        enc api EncodeMapEntryComplete,
        enc api EncodeMapComplete])"
    by (rule emits_seq) (simp add: emits_GetServiceDirectory)
  then show ?thesis by (simp add: directory_map_calls_def)
qed

lemma GetDirectoryMap_cases:
  assumes "GetDirectoryMap api name fmask action (it, p) = (ok, it', p')"
  shows "\<exists>n u'. n \<le> length (directory_map_calls p fmask action) \<and>
     it' = it @ take n (directory_map_calls p fmask action) \<and>
     (ok \<longrightarrow> n = length (directory_map_calls p fmask action)) \<and>
     p' = (if ok then p\<lparr>world := u'\<rparr>
           else pstat PROVIDER_PC_DIRECTORY_MAP_EXCEPTION (p\<lparr>world := u'\<rparr>))"
proof -
  define steps where "steps = seq_all [enc api (EncodeMapInit RSSL_DT_UINT RSSL_DT_FILTER_LIST),
        (\<lambda>s. (service_id p \<noteq> 0, s)),
        enc api (EncodeMapEntryInit action (ucast (service_id p))),
        GetServiceDirectory api (cfg p) (is_accepting_requests p) name fmask,
        enc api EncodeMapEntryComplete,
        enc api EncodeMapComplete]"
  obtain ok1 it1 u1 where run: "steps (it, world p) = (ok1, it1, u1)"
    by (cases "steps (it, world p)") auto
  have "emits (directory_map_calls p fmask action) steps"
    unfolding steps_def by (rule emits_directory_map_steps)
  then obtain n where "n \<le> length (directory_map_calls p fmask action)"
    "it1 = it @ take n (directory_map_calls p fmask action)"
    "ok1 \<longrightarrow> n = length (directory_map_calls p fmask action)"
    using run unfolding emits_def by metis
  moreover have "ok = ok1" "it' = it1" "p' = (if ok1 then p\<lparr>world := u1\<rparr>
      else pstat PROVIDER_PC_DIRECTORY_MAP_EXCEPTION (p\<lparr>world := u1\<rparr>))"
    using assms run
    by (auto simp: GetDirectoryMap_def steps_def Let_def simp del: seq_all.simps split: if_splits)
  ultimately show ?thesis by blast
qed

subsection \<open>Well-nested encodings\<close>

text \<open>The reference grammar of the codec: every \<open>Init\<close> is closed by its own \<open>Complete\<close>, in
  last-in first-out order, and an entry appears only directly inside its own container.\<close>

datatype container = CMap | CMapEntry | CFilterList | CFilterEntry | CElementList | CElementEntry
  | CArray | CFieldList

text \<open>The container a call must be directly inside of, the container it opens, and whether it
  closes the innermost one.\<close>

fun needs :: "enc_call \<Rightarrow> container option" where
  "needs (EncodeMapEntryInit _ _) = Some CMap"
| "needs EncodeMapEntryComplete = Some CMapEntry"
| "needs EncodeMapComplete = Some CMap"
| "needs (EncodeFilterEntryInit _) = Some CFilterList"
| "needs EncodeFilterEntryComplete = Some CFilterEntry"
| "needs EncodeFilterListComplete = Some CFilterList"
| "needs (EncodeElementEntry _ _ _) = Some CElementList"
| "needs (EncodeElementEntryInit _ _) = Some CElementList"
| "needs EncodeElementEntryComplete = Some CElementEntry"
| "needs EncodeElementListComplete = Some CElementList"
| "needs (EncodeArrayEntry _) = Some CArray"
| "needs EncodeArrayComplete = Some CArray"
| "needs (EncodeFieldEntry _ _ _) = Some CFieldList"
| "needs EncodeFieldListComplete = Some CFieldList"
| "needs _ = None"

fun opens :: "enc_call \<Rightarrow> container list" where
  "opens (EncodeMapInit _ _) = [CMap]"
| "opens (EncodeMapEntryInit _ _) = [CMapEntry]"
| "opens (EncodeFilterListInit _ _) = [CFilterList]"
| "opens (EncodeFilterEntryInit _) = [CFilterEntry]"
| "opens (EncodeElementListInit _) = [CElementList]"
| "opens (EncodeElementEntryInit _ _) = [CElementEntry]"
| "opens (EncodeArrayInit _ _) = [CArray]"
| "opens EncodeFieldListInit = [CFieldList]"
| "opens _ = []"

fun closes :: "enc_call \<Rightarrow> bool" where
  "closes EncodeMapEntryComplete = True"
| "closes EncodeMapComplete = True"
| "closes EncodeFilterEntryComplete = True"
| "closes EncodeFilterListComplete = True"
| "closes EncodeElementEntryComplete = True"
| "closes EncodeElementListComplete = True"
| "closes EncodeArrayComplete = True"
| "closes EncodeFieldListComplete = True"
| "closes _ = False"

fun nest :: "container list \<Rightarrow> enc_call list \<Rightarrow> container list option" where
  "nest st [] = Some st"
| "nest st (c # cs) =
     (if needs c \<noteq> None \<and> (st = [] \<or> needs c \<noteq> Some (hd st)) then None
      else nest (opens c @ (if closes c then tl st else st)) cs)"

lemma nest_append:
  "nest st (cs @ ds) = (case nest st cs of None \<Rightarrow> None | Some st' \<Rightarrow> nest st' ds)"
  by (induction cs arbitrary: st) auto

lemma nest_service_information: "nest st (service_information_calls c) = Some st"
  by (simp add: service_information_calls_def)

lemma nest_service_state: "nest st (service_state_calls accepting) = Some st"
  by (simp add: service_state_calls_def)

lemma nest_service_load: "nest st service_load_calls = Some st"
  by (simp add: service_load_calls_def)

lemma nest_filter_entry:
  "(\<And>st. nest st cs = Some st) \<Longrightarrow>
     nest (CFilterList # st) (filter_entry_calls fid cs) = Some (CFilterList # st)"
  by (simp add: filter_entry_calls_def nest_append)

lemma nest_filter_list: "nest st (filter_list_calls c accepting fmask) = Some st"
  by (simp add: filter_list_calls_def nest_append nest_filter_entry nest_service_information
      nest_service_state nest_service_load)

lemma nest_directory_map: "nest st (directory_map_calls p fmask action) = Some st"
  by (simp add: directory_map_calls_def nest_append nest_filter_list)

subsection \<open>Properties\<close>

lemma stable_GetServiceInformation:
  "keeps api W \<Longrightarrow> stable W (GetServiceInformation api c)"
  unfolding GetServiceInformation_def service_information_arrays_def service_information_rest_def
    GetServiceCapabilities_def GetServiceDictionaries_def GetServiceQoS_def
  by (intro stable_seq) (simp add: stable_enc stable_seq)

lemma stable_GetServiceState: "keeps api W \<Longrightarrow> stable W (GetServiceState api acc)"
  unfolding GetServiceState_def by (intro stable_seq) (simp add: stable_enc)

lemma stable_GetServiceLoad: "keeps api W \<Longrightarrow> stable W (GetServiceLoad api)"
  unfolding GetServiceLoad_def by (intro stable_seq) (simp add: stable_enc)

lemma stable_GetServiceFilterList:
  assumes "keeps api W"
  shows "stable W (GetServiceFilterList api c acc fmask)"
  unfolding GetServiceFilterList_def filter_list_entries_def filter_entry_def
  using assms
  by (intro stable_seq)
    (auto simp: stable_enc stable_GetServiceInformation stable_GetServiceState
      stable_GetServiceLoad)

lemma stable_GetServiceDirectory:
  assumes "keeps api W"
  shows "stable W (GetServiceDirectory api c acc name fmask)"
  using stable_GetServiceFilterList [OF assms]
  by (simp add: stable_def GetServiceDirectory_def)

lemma keeps_GetDirectoryMap:
  assumes "keeps api W" "W (world p)"
    and run: "GetDirectoryMap api name fmask action (it, p) = (ok, it', p')"
  shows "W (world p')"
proof -
  define steps where "steps = seq_all [enc api (EncodeMapInit RSSL_DT_UINT RSSL_DT_FILTER_LIST),
        (\<lambda>s. (service_id p \<noteq> 0, s)),
        enc api (EncodeMapEntryInit action (ucast (service_id p))),
        GetServiceDirectory api (cfg p) (is_accepting_requests p) name fmask,
        enc api EncodeMapEntryComplete,
        enc api EncodeMapComplete]"
  obtain ok1 it1 u1 where st: "steps (it, world p) = (ok1, it1, u1)"
    by (cases "steps (it, world p)") auto
  have "stable W steps"
    unfolding steps_def using assms(1)
    by (intro stable_seq) (simp add: stable_enc stable_check stable_GetServiceDirectory)
  then have "W u1" using st assms(2) by (auto dest: stableD)
  moreover have "p' = p\<lparr>world := u1\<rparr> \<or>
      p' = pstat PROVIDER_PC_DIRECTORY_MAP_EXCEPTION (p\<lparr>world := u1\<rparr>)"
    using run st
    by (auto simp: GetDirectoryMap_def steps_def Let_def simp del: seq_all.simps split: if_splits)
  ultimately show ?thesis by (auto simp: pstat_def)
qed

lemma keeps_WriteRawClose:
  assumes "keeps api W" "W u" and run: "WriteRawClose api c v m n u = (ok, it, n', u')"
  shows "W u'"
proof -
  define steps where "steps = seq_all [enc api (SetEncodeIteratorBuffer n),
        enc api (SetEncodeIteratorRWFVersion (rwf_major_version v) (rwf_minor_version v)),
        enc api (EncodeMsg m)]"
  obtain ok1 it1 u1 where st: "steps ([], u) = (ok1, it1, u1)"
    by (cases "steps ([], u)") auto
  have "stable W steps"
    unfolding steps_def using assms(1) by (intro stable_seq) (simp add: stable_enc)
  then have "W u1" using st assms(2) by (auto dest: stableD)
  then show ?thesis
    using run st keepsD(10) [OF assms(1) \<open>W u1\<close>]
    by (auto simp: WriteRawClose_def Let_def steps_def simp del: seq_all.simps
        split: prod.splits if_splits)
qed

text \<open>C22: \<open>GetDirectoryMap\<close> makes a prefix of the calls of the source directory, and all of them
  when it succeeds: one map entry for the service and in it one filter entry for each requested
  filter that the provider knows, with the count hint equal to their number. That sequence is
  well nested. A failure counts one directory exception; nothing else of the provider changes
  but the library state.\<close>

theorem directory_map_encoding:
  "case GetDirectoryMap api name fmask action (it, p) of (ok, it', p') \<Rightarrow>
     nest [] (directory_map_calls p fmask action) = Some [] \<and>
     (\<exists>n u'. n \<le> length (directory_map_calls p fmask action) \<and>
        it' = it @ take n (directory_map_calls p fmask action) \<and>
        (if ok then n = length (directory_map_calls p fmask action) \<and> p' = p\<lparr>world := u'\<rparr>
         else p' = pstat PROVIDER_PC_DIRECTORY_MAP_EXCEPTION (p\<lparr>world := u'\<rparr>)))"
proof -
  obtain ok it' p' where run: "GetDirectoryMap api name fmask action (it, p) = (ok, it', p')"
    by (cases "GetDirectoryMap api name fmask action (it, p)") auto
  from GetDirectoryMap_cases [OF run] show ?thesis
    using run nest_directory_map [of "[]" p fmask action] by (auto split: if_splits)
qed

lemma GetServiceDirectory_mismatch:
  "name \<noteq> service_name c \<Longrightarrow> GetServiceDirectory api c acc (Some name) fmask s = (False, s)"
  by (simp add: GetServiceDirectory_def)

lemma GetDirectoryMap_mismatch:
  assumes "name \<noteq> service_name (cfg p)"
  shows "\<not> fst (GetDirectoryMap api (Some name) fmask action (it, p))"
  using assms
  by (auto simp: GetDirectoryMap_def GetServiceDirectory_mismatch Let_def split: prod.splits if_splits)

end
