(* ===== verification/Transport.thy ===== *)
theory Transport
  imports Directory
begin

section \<open>Transport operations of the provider\<close>

text \<open>
  \<open>Submit\<close>, \<open>Ping\<close>, \<open>Abort\<close> and \<open>Close (channel)\<close> of provider.cc: the operations that touch a
  channel directly. \<open>Submit\<close> and \<open>Ping\<close> return 1 (sent), -1 (pending or out of resources) or 0
  (failure).

  The loop of \<open>Submit\<close> repeats while the library asks to be called again with the same buffer;
  \<open>write_loop\<close> is \<open>None\<close> when that never ends. The library owns a buffer once it has accepted
  it; it has not when it reports an error or an empty pool.
\<close>

partial_function (option) write_loop ::
  "'u rssl \<Rightarrow> handle \<Rightarrow> rssl_buffer \<Rightarrow> bool \<Rightarrow> 'u \<Rightarrow> (rssl_ret \<times> 'u) option" where
  "write_loop api h b direct u =
     (case rsslWriteEx api h b direct u of (rc, u') \<Rightarrow>
        if rc = RSSL_RET_WRITE_CALL_AGAIN then write_loop api h b direct u' else Some (rc, u'))"

text \<open>\<open>if (nullptr != c->userSpecPtr) f (client)\<close>: the pointer is followed when it is not null.\<close>

definition on_user :: "handle \<Rightarrow> (client \<Rightarrow> client) \<Rightarrow> 'u prov \<Rightarrow> 'u prov" where
  "on_user h f p = (case userSpec p h of None \<Rightarrow> p | Some k \<Rightarrow> updc k f p)"

definition schedule_ping :: "int \<Rightarrow> client \<Rightarrow> client" where
  "schedule_ping t c = c\<lparr>next_ping := t + uint (ping_interval c)\<rparr>"

definition schedule_pong :: "int \<Rightarrow> u32 \<Rightarrow> client \<Rightarrow> client" where
  "schedule_pong t timeout c = c\<lparr>next_pong := t + uint timeout\<rparr>"

definition disown :: "rssl_buffer \<Rightarrow> 'u prov \<Rightarrow> 'u prov" where
  "disown b p = p\<lparr>held := remove1 (buf_id b) (held p)\<rparr>"

definition await_write :: "'u rssl \<Rightarrow> handle \<Rightarrow> 'u prov \<Rightarrow> 'u prov" where
  "await_write api h p = p\<lparr>in_wfds := insert (socketId (chanp api p h)) (in_wfds p)\<rparr>"

definition Submit :: "'u rssl \<Rightarrow> handle \<Rightarrow> rssl_buffer \<Rightarrow> 'u prov \<Rightarrow> int \<times> 'u prov" where
  "Submit api h b p =
     (case write_loop api h b (socketId (chanp api p h) \<notin> in_wfds p) (world p) of
        None \<Rightarrow> (0, p\<lparr>fault := True\<rparr>)
      | Some (rc, u') \<Rightarrow>
          let p1 = p\<lparr>world := u'\<rparr> in
          if positive rc then
            (-1, await_write api h (pstat PROVIDER_PC_RSSL_MSGS_ENQUEUED
               (on_user h (\<lambda>c. c\<lparr>pending_count := pending_count c + 1\<rparr>) (disown b p1))))
          else if rc = RSSL_RET_WRITE_FLUSH_FAILED then
            (-1, await_write api h (pstat PROVIDER_PC_RSSL_WRITE_FLUSH_FAILED (disown b p1)))
          else if rc = RSSL_RET_BUFFER_NO_BUFFERS then
            (-1, await_write api h (pstat PROVIDER_PC_RSSL_WRITE_NO_BUFFERS p1))
          else if rc = RSSL_RET_SUCCESS then
            (1, on_user h (schedule_ping (last_activity p))
               (pstat PROVIDER_PC_RSSL_MSGS_SENT (disown b p1)))
          else (0, pstat PROVIDER_PC_RSSL_WRITE_EXCEPTION p1))"

definition Ping :: "'u rssl \<Rightarrow> handle \<Rightarrow> 'u prov \<Rightarrow> int \<times> 'u prov" where
  "Ping api h p =
     (case rsslPing api h (world p) of (rc, u') \<Rightarrow>
        let p1 = p\<lparr>world := u'\<rparr>;
            pending = (\<lambda>q. q\<lparr>out_efds := insert (socketId (chanp api q h)) (out_efds q)\<rparr>)
        in
        if positive rc then (-1, pending p1)
        else if rc = RSSL_RET_WRITE_FLUSH_FAILED then
          (-1, pending (pstat PROVIDER_PC_RSSL_PING_FLUSH_FAILED p1))
        else if rc = RSSL_RET_BUFFER_NO_BUFFERS then
          (-1, pending (pstat PROVIDER_PC_RSSL_PING_NO_BUFFERS p1))
        else if rc = RSSL_RET_SUCCESS then
          (1, on_user h (schedule_ping (last_activity p)) (pstat PROVIDER_PC_RSSL_PING_SENT p1))
        else (0, pstat PROVIDER_PC_RSSL_PING_EXCEPTION p1))"

definition Abort :: "'u rssl \<Rightarrow> handle \<Rightarrow> 'u prov \<Rightarrow> 'u prov" where
  "Abort api h p = (let s = socketId (chanp api p h) in
     p\<lparr>out_rfds := out_rfds p - {s}, out_wfds := out_wfds p - {s}, out_efds := insert s (out_efds p)\<rparr>)"

definition Close_channel :: "'u rssl \<Rightarrow> handle \<Rightarrow> 'u prov \<Rightarrow> 'u prov" where
  "Close_channel api h p = p\<lparr>world := snd (rsslCloseChannel api h (world p))\<rparr>"

subsection \<open>Frames\<close>

text \<open>The part of the state that says which sessions exist and who points at them. The
  operations on a live session leave it alone.\<close>

definition shape :: "'u prov \<Rightarrow> handle list \<times> (handle \<times> client_id) list \<times> client_id \<times>
    (handle \<Rightarrow> client_id option) \<times> (client_id \<Rightarrow> handle option) \<times> config \<times> sock option \<times> sock option" where
  "shape p = (connections p, clients p, next_obj p, userSpec p,
     (\<lambda>k. map_option c_handle (objs p k)), cfg p, rssl_sock p, reply_sock p)"

lemma shape_eqD:
  assumes "shape p = shape q"
  shows "connections p = connections q" and "clients p = clients q" and "next_obj p = next_obj q"
    and "userSpec p = userSpec q" and "cfg p = cfg q" and "rssl_sock p = rssl_sock q"
    and "reply_sock p = reply_sock q" and "alive p k \<longleftrightarrow> alive q k"
    and "alive q k \<Longrightarrow> c_handle (getc p k) = c_handle (getc q k)"
proof -
  note eqs = assms [unfolded shape_def prod.inject]
  show "connections p = connections q" "clients p = clients q" "next_obj p = next_obj q"
    "userSpec p = userSpec q" "cfg p = cfg q" "rssl_sock p = rssl_sock q"
    "reply_sock p = reply_sock q"
    using eqs by simp_all
  have o: "map_option c_handle (objs p k) = map_option c_handle (objs q k)"
    using eqs by (auto dest: fun_cong)
  then show "alive p k \<longleftrightarrow> alive q k"
    by (cases "objs p k"; cases "objs q k") (simp_all add: alive_def)
  show "c_handle (getc p k) = c_handle (getc q k)" if "alive q k"
    using o that by (auto simp: alive_def getc_def)
qed

lemma shape_fields [simp]:
  "shape (p\<lparr>world := u\<rparr>) = shape p" "shape (p\<lparr>fault := b\<rparr>) = shape p"
  "shape (p\<lparr>in_rfds := S\<rparr>) = shape p" "shape (p\<lparr>in_wfds := S\<rparr>) = shape p"
  "shape (p\<lparr>in_efds := S\<rparr>) = shape p" "shape (p\<lparr>out_rfds := S\<rparr>) = shape p"
  "shape (p\<lparr>out_wfds := S\<rparr>) = shape p" "shape (p\<lparr>out_efds := S\<rparr>) = shape p"
  "shape (p\<lparr>held := hs\<rparr>) = shape p" "shape (p\<lparr>p_stats := st\<rparr>) = shape p"
  "shape (p\<lparr>last_activity := t\<rparr>) = shape p" "shape (p\<lparr>out_nfds := n\<rparr>) = shape p"
  by (simp_all add: shape_def)

lemma shape_stats [simp]:
  "shape (pstat pc p) = shape p" "shape (pstat_add pc n p) = shape p" "shape (disown b p) = shape p"
  "shape (await_write api h p) = shape p" "shape (Abort api h p) = shape p"
  by (simp_all add: shape_def pstat_def pstat_add_def disown_def await_write_def Abort_def Let_def)

lemma shape_updc: "(\<And>c. c_handle (f c) = c_handle c) \<Longrightarrow> shape (updc k f p) = shape p"
  by (auto simp: shape_def updc_def split: option.splits)

lemma shape_cstat [simp]: "shape (cstat k cc p) = shape p"
  by (simp add: cstat_def shape_updc)

lemma shape_on_user: "(\<And>c. c_handle (f c) = c_handle c) \<Longrightarrow> shape (on_user h f p) = shape p"
  by (simp add: on_user_def shape_updc split: option.splits)

lemma schedule_handle [simp]:
  "c_handle (schedule_ping t c) = c_handle c" "c_handle (schedule_pong t n c) = c_handle c"
  by (simp_all add: schedule_ping_def schedule_pong_def)

text \<open>The world, the fault flag and the held buffers under the small updates.\<close>

lemma world_small [simp]:
  "world (pstat pc p) = world p" "world (pstat_add pc n p) = world p" "world (disown b p) = world p"
  "world (await_write api h p) = world p" "world (Abort api h p) = world p"
  "world (updc k f p) = world p" "world (cstat k cc p) = world p" "world (on_user h f p) = world p"
  by (simp_all add: pstat_def pstat_add_def disown_def await_write_def Abort_def Let_def updc_def
      cstat_def on_user_def split: option.splits)

lemma fault_small [simp]:
  "fault (pstat pc p) = fault p" "fault (pstat_add pc n p) = fault p" "fault (disown b p) = fault p"
  "fault (await_write api h p) = fault p" "fault (Abort api h p) = fault p"
  by (simp_all add: pstat_def pstat_add_def disown_def await_write_def Abort_def Let_def)

lemma fault_updc: "fault (updc k f p) \<longleftrightarrow> fault p \<or> \<not> alive p k"
  by (auto simp: updc_def alive_def split: option.splits)

lemma fault_cstat: "fault (cstat k cc p) \<longleftrightarrow> fault p \<or> \<not> alive p k"
  by (simp add: cstat_def fault_updc)

lemma held_small [simp]:
  "held (pstat pc p) = held p" "held (pstat_add pc n p) = held p"
  "held (disown b p) = remove1 (buf_id b) (held p)"
  "held (await_write api h p) = held p" "held (Abort api h p) = held p"
  "held (updc k f p) = held p" "held (cstat k cc p) = held p" "held (on_user h f p) = held p"
  by (simp_all add: pstat_def pstat_add_def disown_def await_write_def Abort_def Let_def updc_def
      cstat_def on_user_def split: option.splits)

lemma stats_small [simp]:
  "p_stats (disown b p) = p_stats p" "p_stats (await_write api h p) = p_stats p"
  "p_stats (updc k f p) = p_stats p" "p_stats (cstat k cc p) = p_stats p"
  "p_stats (on_user h f p) = p_stats p" "p_stats (pstat pc p) = bump pc (p_stats p)"
  "p_stats (Abort api h p) = p_stats p"
  by (simp_all add: disown_def await_write_def updc_def cstat_def on_user_def pstat_def Abort_def
      Let_def split: option.splits)

lemma alive_small [simp]:
  "alive (pstat pc p) k = alive p k" "alive (pstat_add pc n p) k = alive p k"
  "alive (disown b p) k = alive p k" "alive (await_write api h p) k = alive p k"
  "alive (Abort api h p) k = alive p k" "alive (p\<lparr>world := u\<rparr>) k = alive p k"
  "alive (p\<lparr>held := hs\<rparr>) k = alive p k" "alive (cstat j cc p) k = alive p k"
  "alive (on_user h f p) k = alive p k"
  by (simp_all add: alive_def pstat_def pstat_add_def disown_def await_write_def Abort_def Let_def
      cstat_def on_user_def updc_def split: option.splits)

text \<open>The pointer of a channel is null or points at a live session.\<close>

definition ptr_ok :: "'u prov \<Rightarrow> handle \<Rightarrow> bool" where
  "ptr_ok p h \<longleftrightarrow> (\<forall>k. userSpec p h = Some k \<longrightarrow> alive p k)"

lemma ptr_ok_shape: "shape p = shape q \<Longrightarrow> ptr_ok p h = ptr_ok q h"
  by (simp add: ptr_ok_def shape_eqD(4,8) [of p q])

lemma fault_on_user: "ptr_ok p h \<Longrightarrow> fault (on_user h f p) = fault p"
  by (auto simp: on_user_def ptr_ok_def fault_updc split: option.splits)

lemma ptr_ok_small [simp]:
  "ptr_ok (pstat pc p) h = ptr_ok p h" "ptr_ok (disown b p) h = ptr_ok p h"
  "ptr_ok (p\<lparr>world := u\<rparr>) h = ptr_ok p h"
  by (rule ptr_ok_shape, simp)+

subsection \<open>Submit, Ping and Close\<close>

text \<open>The library takes a buffer after finitely many calls.\<close>

definition writes_end :: "'u rssl \<Rightarrow> bool" where
  "writes_end api \<longleftrightarrow> (\<forall>h b d u. write_loop api h b d u \<noteq> None)"

lemma writes_endD: "writes_end api \<Longrightarrow> \<exists>rc u'. write_loop api h b d u = Some (rc, u')"
  by (simp add: writes_end_def)

lemma write_loop_result:
  "write_loop api h b d u = Some (rc, u') \<Longrightarrow> rc \<noteq> RSSL_RET_WRITE_CALL_AGAIN"
proof -
  assume run: "write_loop api h b d u = Some (rc, u')"
  have "fst (rc, u') \<noteq> RSSL_RET_WRITE_CALL_AGAIN"
    by (rule write_loop.raw_induct [where P = "\<lambda>api h b d u r. fst r \<noteq> RSSL_RET_WRITE_CALL_AGAIN",
          OF _ run]) (auto split: prod.splits if_splits)
  then show ?thesis by simp
qed

lemma write_loop_keeps:
  assumes "keeps api W" "W u" and run: "write_loop api h b d u = Some (rc, u')"
  shows "W u'"
proof -
  have "keeps api W \<longrightarrow> W u \<longrightarrow> W (snd (rc, u'))"
  proof (rule write_loop.raw_induct [where P = "\<lambda>api h b d u r. keeps api W \<longrightarrow> W u \<longrightarrow> W (snd r)",
        OF _ run])
    fix f and api' :: "'a rssl" and h b d u r
    assume IH: "\<And>api h b d u r. f api h b d u = Some r \<Longrightarrow> keeps api W \<longrightarrow> W u \<longrightarrow> W (snd r)"
      and eq: "(case rsslWriteEx api' h b d u of (rc, u') \<Rightarrow>
        if rc = RSSL_RET_WRITE_CALL_AGAIN then f api' h b d u' else Some (rc, u')) = Some r"
    obtain rc u' where w: "rsslWriteEx api' h b d u = (rc, u')" by (cases "rsslWriteEx api' h b d u")
    show "keeps api' W \<longrightarrow> W u \<longrightarrow> W (snd r)"
    proof (cases "rc = RSSL_RET_WRITE_CALL_AGAIN")
      case True
      then show ?thesis
        using w eq IH [of api' h b d u' r] keepsD(3) [of api' W u h b d rc u'] by simp
    next
      case False
      with w eq have "r = (rc, u')" by simp
      then show ?thesis using w keepsD(3) [of api' W u h b d rc u'] by simp
    qed
  qed
  then show ?thesis using assms(1,2) by simp
qed

text \<open>The loop of \<open>Submit\<close> as a retry loop: it returns exactly when the library some time answers
  otherwise than by \<open>CALL_AGAIN\<close>.\<close>

interpretation wl: retry_loop "write_loop api h b d"
    "\<lambda>u. fst (rsslWriteEx api h b d u) = RSSL_RET_WRITE_CALL_AGAIN"
    "\<lambda>u. snd (rsslWriteEx api h b d u)" "\<lambda>u. rsslWriteEx api h b d u" for api h b d
proof unfold_locales
  fix u
  show "write_loop api h b d u = (if fst (rsslWriteEx api h b d u) = RSSL_RET_WRITE_CALL_AGAIN
      then write_loop api h b d (snd (rsslWriteEx api h b d u)) else Some (rsslWriteEx api h b d u))"
    by (subst write_loop.simps) (simp add: case_prod_beta)
next
  fix u r
  assume run: "write_loop api h b d u = Some r"
  show "\<exists>n. fst (rsslWriteEx api h b d (((\<lambda>u. snd (rsslWriteEx api h b d u)) ^^ n) u)) \<noteq> RSSL_RET_WRITE_CALL_AGAIN"
  proof (rule write_loop.raw_induct [where P = "\<lambda>api h b d u r. \<exists>n. fst (rsslWriteEx api h b d
        (((\<lambda>u. snd (rsslWriteEx api h b d u)) ^^ n) u)) \<noteq> RSSL_RET_WRITE_CALL_AGAIN", OF _ run])
    fix f and api' :: "'b rssl" and h b d u r
    assume IH: "\<And>api h b d u r. f api h b d u = Some r \<Longrightarrow> \<exists>n. fst (rsslWriteEx api h b d
        (((\<lambda>u. snd (rsslWriteEx api h b d u)) ^^ n) u)) \<noteq> RSSL_RET_WRITE_CALL_AGAIN"
      and eq: "(case rsslWriteEx api' h b d u of (rc, u') \<Rightarrow>
        if rc = RSSL_RET_WRITE_CALL_AGAIN then f api' h b d u' else Some (rc, u')) = Some r"
    let ?nxt = "\<lambda>u. snd (rsslWriteEx api' h b d u)"
    show "\<exists>n. fst (rsslWriteEx api' h b d ((?nxt ^^ n) u)) \<noteq> RSSL_RET_WRITE_CALL_AGAIN"
    proof (cases "fst (rsslWriteEx api' h b d u) = RSSL_RET_WRITE_CALL_AGAIN")
      case True
      then have "f api' h b d (?nxt u) = Some r" using eq by (simp add: case_prod_beta)
      then obtain n where "fst (rsslWriteEx api' h b d ((?nxt ^^ n) (?nxt u))) \<noteq> RSSL_RET_WRITE_CALL_AGAIN"
        using IH by blast
      then show ?thesis by (intro exI [of _ "Suc n"]) (simp only: funpow_Suc_right comp_apply not_False_eq_True)
    next
      case False
      then show ?thesis by (intro exI [of _ 0]) simp
    qed
  qed
qed

lemma shape_Submit [frame]: "shape (snd (Submit api h b p)) = shape p"
  by (simp add: Submit_def Let_def shape_on_user split: option.splits prod.splits)

lemma shape_Ping [frame]: "shape (snd (Ping api h p)) = shape p"
  by (simp add: Ping_def Let_def shape_on_user split: prod.splits)

lemma shape_Close_channel [frame]: "shape (Close_channel api h p) = shape p"
  by (simp add: Close_channel_def)

lemma keeps_Submit:
  "keeps api W \<Longrightarrow> W (world p) \<Longrightarrow> W (world (snd (Submit api h b p)))"
  by (auto simp: Submit_def Let_def dest: write_loop_keeps split: option.splits prod.splits)

lemma keeps_Ping:
  "keeps api W \<Longrightarrow> W (world p) \<Longrightarrow> W (world (snd (Ping api h p)))"
  by (auto simp: Ping_def Let_def dest: keepsD split: prod.splits)

lemma fault_Submit:
  "writes_end api \<Longrightarrow> ptr_ok p h \<Longrightarrow> fault (snd (Submit api h b p)) = fault p"
  using writes_endD [of api h b "socketId (chanp api p h) \<notin> in_wfds p" "world p"]
  by (auto simp: Submit_def Let_def fault_on_user split: if_splits)

lemma fault_Ping: "ptr_ok p h \<Longrightarrow> fault (snd (Ping api h p)) = fault p"
  by (auto simp: Ping_def Let_def fault_on_user split: prod.splits)

text \<open>Ownership after \<open>Submit\<close>: the buffer is kept when the write failed and when the library had no buffers;
  in the latter case the counter for it moves and the result is -1.\<close>

lemma Submit_held:
  assumes "Submit api h b p = (status, p')" and "\<not> fault p'"
  shows "(p_stats p' PROVIDER_PC_RSSL_WRITE_NO_BUFFERS = p_stats p PROVIDER_PC_RSSL_WRITE_NO_BUFFERS \<and>
      held p' = (if status = 0 then held p else remove1 (buf_id b) (held p))) \<or>
    (p_stats p' PROVIDER_PC_RSSL_WRITE_NO_BUFFERS = p_stats p PROVIDER_PC_RSSL_WRITE_NO_BUFFERS + 1 \<and>
      status = -1 \<and> held p' = held p)"
  using assms by (auto simp: Submit_def Let_def split: option.splits prod.splits if_splits)

lemma Submit_status: "fst (Submit api h b p) \<in> {-1, 0, 1}"
  by (auto simp: Submit_def Let_def split: option.splits prod.splits)

end
