(* ===== verification/Client.thy ===== *)
theory Client
  imports Transport
begin

section \<open>A client session\<close>

text \<open>
  \<open>client_t\<close> of client.cc: the handlers of the messages of one session and the messages it
  sends. Every operation works on the provider's state and the address \<open>k\<close> of the session
  object. A result of \<open>False\<close> makes the provider abort the connection.

  \<^item> The request delegate (\<open>client_t::Delegate\<close>) is a record of two functions on the library
    state, one for each overload of \<open>OnRequest\<close>.
  \<^item> \<open>MAX_MSG_SIZE\<close> is the size of every buffer the session asks for. \<open>SendReply\<close> copies into one
    without a check, so a longer reply is a fault.
\<close>

definition MAX_MSG_SIZE :: nat where "MAX_MSG_SIZE = 4096"

definition kErrorNone :: string where "kErrorNone = ''''"
definition kErrorUnsupportedMsgClass :: string where
  "kErrorUnsupportedMsgClass = ''Unsupported message class.''"
definition kErrorUnsupportedRequest :: string where
  "kErrorUnsupportedRequest = ''Unsupported domain type in request.''"
definition kErrorUnsupportedDictionary :: string where
  "kErrorUnsupportedDictionary = ''Unsupported dictionary request.''"
definition kErrorLoginRequired :: string where
  "kErrorLoginRequired = ''Login required for request.''"

record 'u delegate =
  OnRequest :: "handle \<Rightarrow> u16 \<Rightarrow> u32 \<Rightarrow> u16 \<Rightarrow> string \<Rightarrow> bool \<Rightarrow> 'u \<Rightarrow> bool \<times> 'u"
  OnRequest_view :: "handle \<Rightarrow> u16 \<Rightarrow> u32 \<Rightarrow> u16 \<Rightarrow> string \<Rightarrow> bool \<Rightarrow> int list \<Rightarrow> 'u \<Rightarrow> bool \<times> 'u"

subsection \<open>Buffers and encoding on the provider state\<close>

definition get_buffer :: "'u rssl \<Rightarrow> handle \<Rightarrow> 'u prov \<Rightarrow> rssl_buffer option \<times> 'u prov" where
  "get_buffer api h p = (case rsslGetBuffer api h MAX_MSG_SIZE (world p) of
     (None, u) \<Rightarrow> (None, p\<lparr>world := u\<rparr>)
   | (Some b, u) \<Rightarrow> (Some b, p\<lparr>world := u, held := buf_id b # held p\<rparr>))"

definition release_buffer :: "'u rssl \<Rightarrow> rssl_buffer \<Rightarrow> 'u prov \<Rightarrow> 'u prov" where
  "release_buffer api b p = disown b (p\<lparr>world := snd (rsslReleaseBuffer api b (world p))\<rparr>)"

definition penc :: "(enc_iter \<times> 'u \<Rightarrow> bool \<times> enc_iter \<times> 'u) \<Rightarrow>
    enc_iter \<times> 'u prov \<Rightarrow> bool \<times> enc_iter \<times> 'u prov" where
  "penc f = (\<lambda>(it, p). case f (it, world p) of (ok, it', u) \<Rightarrow> (ok, it', p\<lparr>world := u\<rparr>))"

text \<open>\<open>rsslSetEncodeIteratorRWFVersion\<close> with the version members of the channel.\<close>

definition penc_version :: "'u rssl \<Rightarrow> handle \<Rightarrow> enc_iter \<times> 'u prov \<Rightarrow> bool \<times> enc_iter \<times> 'u prov" where
  "penc_version api h = (\<lambda>(it, p). penc (enc api (SetEncodeIteratorRWFVersion
     (majorVersion (chanp api p h)) (minorVersion (chanp api p h)))) (it, p))"

definition encoded_buffer :: "'u rssl \<Rightarrow> rssl_buffer \<Rightarrow> enc_iter \<Rightarrow> 'u prov \<Rightarrow> rssl_buffer" where
  "encoded_buffer api b it p =
     b\<lparr>buf_length := rsslGetEncodedBufferLength api it (world p), buf_data := Encoded it\<rparr>"

definition client_Submit :: "'u rssl \<Rightarrow> client_id \<Rightarrow> rssl_buffer \<Rightarrow> 'u prov \<Rightarrow> int \<times> 'u prov" where
  "client_Submit api k b p = (case Submit api (c_handle (getc p k)) b p of (status, p1) \<Rightarrow>
     (status, if status \<noteq> 0 then cstat k CLIENT_PC_RSSL_MSGS_SENT p1 else p1))"

text \<open>The common end of the senders: submit, then count \<open>pc\<close>, or clean up when the result is 0.\<close>

definition submit_or :: "'u rssl \<Rightarrow> client_id \<Rightarrow> rssl_buffer \<Rightarrow> client_pc \<Rightarrow>
    ('u prov \<Rightarrow> bool \<times> 'u prov) \<Rightarrow> 'u prov \<Rightarrow> bool \<times> 'u prov" where
  "submit_or api k b pc cleanup p = (case client_Submit api k b p of (status, p1) \<Rightarrow>
     if status = 0 then cleanup p1 else (True, cstat k pc p1))"

subsection \<open>Closing a stream\<close>

definition SendClose :: "'u rssl \<Rightarrow> client_id \<Rightarrow> u32 \<Rightarrow> u16 \<Rightarrow> domain_type \<Rightarrow> rssl_cbuf \<Rightarrow> bool \<Rightarrow>
    stream_state \<Rightarrow> state_code \<Rightarrow> string \<Rightarrow> 'u prov \<Rightarrow> bool \<times> 'u prov" where
  "SendClose api k request_token sid model_type item_name use_attribinfo sstate code text p =
    (let h = c_handle (getc p k) in
     case get_buffer api h p of
       (None, p1) \<Rightarrow> (False, p1)
     | (Some b, p1) \<Rightarrow>
        (case WriteRawClose api (cfg p1) (rwf_version (chanp api p1 h))
            (close_msg request_token sid model_type item_name use_attribinfo sstate code text)
            (buf_length b) (world p1) of (ok, it, n, u) \<Rightarrow>
          let p2 = p1\<lparr>world := u\<rparr>; cleanup = (\<lambda>q. (False, release_buffer api b q)) in
          if \<not> ok then cleanup p2
          else submit_or api k (b\<lparr>buf_length := n, buf_data := Encoded it\<rparr>)
                 CLIENT_PC_ITEM_CLOSED cleanup p2))"

definition Close_client :: "'u rssl \<Rightarrow> client_id \<Rightarrow> 'u prov \<Rightarrow> bool \<times> 'u prov" where
  "Close_client api k p =
    (if is_logged_in (getc p k) then
       SendClose api k (login_token (getc p k)) (service_id p) RSSL_DMT_LOGIN \<lparr>mem = [], len = 0\<rparr>
         False RSSL_STREAM_CLOSED RSSL_SC_NONE kErrorNone
         (updc k (\<lambda>c. c\<lparr>is_logged_in := False, tokens := {}\<rparr>) p)
     else (True, p))"

definition Initialize_client :: "'u rssl \<Rightarrow> client_id \<Rightarrow> 'u prov \<Rightarrow> bool \<times> 'u prov" where
  "Initialize_client api k p =
    (let h = c_handle (getc p k); now = universal_time api (world p);
         p1 = updc k (\<lambda>c. c\<lparr>c_last_activity := now\<rparr>) p in
     case rsslGetChannelInfo api h (world p1) of (rc, u) \<Rightarrow>
       let p2 = p1\<lparr>world := u\<rparr>; timeout = pingTimeout (chanp api p2 h) in
       if rc \<noteq> RSSL_RET_SUCCESS then (False, p2)
       else (True, updc k (\<lambda>c. c\<lparr>ping_interval := timeout div 3,
              next_ping := now + uint (timeout div 3), next_pong := now + uint timeout\<rparr>) p2))"

subsection \<open>Login\<close>

definition reject_response :: "u32 \<Rightarrow> rssl_msg" where
  "reject_response token = init_msg\<lparr>domainType := RSSL_DMT_LOGIN, msgClass := RSSL_MC_STATUS,
     containerType := RSSL_DT_NO_DATA, streamId := token, streamState := RSSL_STREAM_CLOSED,
     dataState := RSSL_DATA_SUSPECT, stateCode := RSSL_SC_NOT_ENTITLED,
     msg_flags := {RSSL_STMF_HAS_STATE}\<rparr>"

definition RejectLogin :: "'u rssl \<Rightarrow> client_id \<Rightarrow> u32 \<Rightarrow> 'u prov \<Rightarrow> bool \<times> 'u prov" where
  "RejectLogin api k token p =
    (let h = c_handle (getc p k); response = reject_response token in
     case get_buffer api h p of
       (None, p1) \<Rightarrow> (False, p1)
     | (Some b, p1) \<Rightarrow>
       let cleanup = (\<lambda>q. (False, release_buffer api b (cstat k CLIENT_PC_MMT_LOGIN_EXCEPTION q))) in
       (case seq_all
          [penc (enc api (SetEncodeIteratorBuffer (buf_length b))),
           penc_version api h,
           penc (enc api (EncodeMsg response))] ([], p1) of (ok, it, p2) \<Rightarrow>
        if \<not> ok then cleanup p2
        else let b' = encoded_buffer api b it p2 in
          (case rsslValidateMsg api response (world p2) of (valid, u) \<Rightarrow>
             let p3 = p2\<lparr>world := u\<rparr> in
             if \<not> valid then cleanup (cstat k CLIENT_PC_MMT_LOGIN_RESPONSE_MALFORMED p3)
             else submit_or api k b' CLIENT_PC_MMT_LOGIN_REJECTED cleanup
                    (cstat k CLIENT_PC_MMT_LOGIN_RESPONSE_VALIDATED p3))))"

definition login_response :: "rssl_msg \<Rightarrow> u32 \<Rightarrow> rssl_msg" where
  "login_response login_msg token = init_msg\<lparr>domainType := RSSL_DMT_LOGIN,
     msgClass := RSSL_MC_REFRESH,
     msg_flags := {RSSL_RFMF_SOLICITED, RSSL_RFMF_REFRESH_COMPLETE, RSSL_RFMF_HAS_MSG_KEY},
     containerType := RSSL_DT_NO_DATA, streamId := token,
     msgKey := init_key\<lparr>key_nameType := key_nameType (msgKey login_msg),
       key_name := key_name (msgKey login_msg),
       key_flags := {RSSL_MKF_HAS_NAME_TYPE, RSSL_MKF_HAS_NAME, RSSL_MKF_HAS_ATTRIB},
       key_attribContainerType := RSSL_DT_ELEMENT_LIST\<rparr>,
     streamState := RSSL_STREAM_OPEN, dataState := RSSL_DATA_OK, stateCode := RSSL_SC_NONE\<rparr>"

text \<open>The steps of the encoder before and after the one that is not followed by \<open>goto cleanup\<close>.\<close>

definition accept_login_start ::
  "'u rssl \<Rightarrow> handle \<Rightarrow> rssl_buffer \<Rightarrow> rssl_msg \<Rightarrow> (enc_iter \<times> 'u prov \<Rightarrow> bool \<times> enc_iter \<times> 'u prov) list" where
  "accept_login_start api h b response =
    [penc (enc api (SetEncodeIteratorBuffer (buf_length b))),
     penc_version api h,
     penc (enc_exp api RSSL_RET_ENCODE_MSG_KEY_OPAQUE (EncodeMsgInit response MAX_MSG_SIZE)),
     penc (enc api (EncodeElementListInit 4))]"

definition accept_login_rest :: "'u rssl \<Rightarrow> (enc_iter \<times> 'u prov \<Rightarrow> bool \<times> enc_iter \<times> 'u prov) list" where
  "accept_login_rest api =
    [penc (enc api (EncodeElementEntry RSSL_ENAME_PROV_PERM_EXP RSSL_DT_UINT (PUInt 1))),
     penc (enc api (EncodeElementEntry RSSL_ENAME_PROV_PERM_PROF RSSL_DT_UINT (PUInt 0))),
     penc (enc api (EncodeElementEntry RSSL_ENAME_SINGLE_OPEN RSSL_DT_UINT (PUInt 0))),
     penc (enc api EncodeElementListComplete),
     penc (enc api EncodeMsgKeyAttribComplete),
     penc (enc api EncodeMsgComplete)]"

definition AcceptLogin :: "'u rssl \<Rightarrow> client_id \<Rightarrow> rssl_msg \<Rightarrow> u32 \<Rightarrow> 'u prov \<Rightarrow> bool \<times> 'u prov" where
  "AcceptLogin api k login_msg token p =
    (let h = c_handle (getc p k) in
     case get_buffer api h p of
       (None, p1) \<Rightarrow> (False, p1)
     | (Some b, p1) \<Rightarrow>
       let cleanup = (\<lambda>q. (False, release_buffer api b (cstat k CLIENT_PC_MMT_LOGIN_EXCEPTION q))) in
       (case seq_all (accept_login_start api h b (login_response login_msg token)) ([], p1) of
          (ok, it, p2) \<Rightarrow>
        if \<not> ok then cleanup p2
        else (case penc (enc api (EncodeElementEntry RSSL_ENAME_ALLOW_SUSPECT_DATA RSSL_DT_UINT
                 (PUInt 0))) (it, p2) of (ok, it, p3) \<Rightarrow>
          if \<not> ok then (False, p3)
          else (case seq_all (accept_login_rest api) (it, p3) of (ok, it, p4) \<Rightarrow>
            if \<not> ok then cleanup p4
            else submit_or api k (encoded_buffer api b it p4) CLIENT_PC_MMT_LOGIN_ACCEPTED
                   cleanup p4))))"

text \<open>The loop over the entries of an element list; the list ends with \<open>END_OF_CONTAINER\<close>. The
  application name is only logged.\<close>

fun login_elements :: "(rssl_ret \<times> element) list \<Rightarrow> bool" where
  "login_elements [] = True"
| "login_elements ((rc, el) # xs) =
     (if rc = RSSL_RET_END_OF_CONTAINER then True
      else if rc = RSSL_RET_SUCCESS then login_elements xs
      else False)"

definition OnLoginAttribInfo :: "'u rssl \<Rightarrow> 'u prov \<Rightarrow> bool \<times> 'u prov" where
  "OnLoginAttribInfo api p = (case rsslDecodeElementList api (world p) of ((rc, xs), u) \<Rightarrow>
     (rc = RSSL_RET_SUCCESS \<and> login_elements xs, p\<lparr>world := u\<rparr>))"

definition valid_login :: "rssl_msg \<Rightarrow> bool" where
  "valid_login m =
    ((msg_flags m = {RSSL_RQMF_STREAMING} \<or> msg_flags m = {RSSL_RQMF_STREAMING, RSSL_RQMF_PAUSE} \<or>
      msg_flags m = {RSSL_RQMF_PAUSE}) \<and>
     RSSL_MKF_HAS_NAME \<in> key_flags (msgKey m) \<and> RSSL_MKF_HAS_NAME_TYPE \<in> key_flags (msgKey m))"

definition decode_login_attrib :: "'u rssl \<Rightarrow> rssl_msg \<Rightarrow> 'u prov \<Rightarrow> bool \<times> 'u prov" where
  "decode_login_attrib api m p = (case rsslDecodeMsgKeyAttrib api (world p) of (rc, u) \<Rightarrow>
     let p1 = p\<lparr>world := u\<rparr> in
     if rc \<noteq> RSSL_RET_SUCCESS then (False, p1)
     else if key_attribContainerType (msgKey m) \<noteq> RSSL_DT_ELEMENT_LIST then (True, p1)
     else OnLoginAttribInfo api p1)"

definition OnLoginRequest :: "'u rssl \<Rightarrow> client_id \<Rightarrow> rssl_msg \<Rightarrow> 'u prov \<Rightarrow> bool \<times> 'u prov" where
  "OnLoginRequest api k m p =
    (let p1 = cstat k CLIENT_PC_MMT_LOGIN_RECEIVED p;
         (valid, p2) = (if valid_login m then decode_login_attrib api m p1 else (False, p1)) in
     if \<not> valid then RejectLogin api k (streamId m) (cstat k CLIENT_PC_MMT_LOGIN_MALFORMED p2)
     else (case AcceptLogin api k m (streamId m) p2 of (ok, p3) \<Rightarrow>
       if \<not> ok then (False, p3)
       else (True, updc k (\<lambda>c. c\<lparr>is_logged_in := True, login_token := streamId m\<rparr>) p3)))"

subsection \<open>Directory and dictionary\<close>

definition directory_refresh_msg :: "u32 \<Rightarrow> dir_filter set \<Rightarrow> rssl_msg" where
  "directory_refresh_msg token fmask = init_msg\<lparr>domainType := RSSL_DMT_SOURCE,
     msgClass := RSSL_MC_REFRESH,
     msg_flags := {RSSL_RFMF_SOLICITED, RSSL_RFMF_REFRESH_COMPLETE, RSSL_RFMF_HAS_MSG_KEY},
     containerType := RSSL_DT_MAP,
     msgKey := init_key\<lparr>key_filter := fmask \<inter> {RDM_DIRECTORY_SERVICE_INFO_FILTER,
         RDM_DIRECTORY_SERVICE_STATE_FILTER, RDM_DIRECTORY_SERVICE_LOAD_FILTER},
       key_flags := {RSSL_MKF_HAS_FILTER}\<rparr>,
     streamId := token,
     streamState := RSSL_STREAM_OPEN, dataState := RSSL_DATA_OK, stateCode := RSSL_SC_NONE\<rparr>"

definition directory_update_msg :: "u32 \<Rightarrow> rssl_msg" where
  "directory_update_msg token = init_msg\<lparr>domainType := RSSL_DMT_SOURCE,
     msgClass := RSSL_MC_UPDATE,
     msg_flags := {RSSL_UPMF_DO_NOT_CONFLATE, RSSL_RFMF_HAS_MSG_KEY},
     containerType := RSSL_DT_MAP,
     msgKey := init_key\<lparr>key_filter := {RDM_DIRECTORY_SERVICE_STATE_FILTER},
       key_flags := {RSSL_MKF_HAS_FILTER}\<rparr>,
     streamId := token\<rparr>"

definition send_directory :: "'u rssl \<Rightarrow> client_id \<Rightarrow> rssl_msg \<Rightarrow> string option \<Rightarrow> dir_filter set \<Rightarrow>
    map_action \<Rightarrow> 'u prov \<Rightarrow> bool \<times> 'u prov" where
  "send_directory api k response name fmask action p =
    (let h = c_handle (getc p k) in
     case get_buffer api h p of
       (None, p1) \<Rightarrow> (False, p1)
     | (Some b, p1) \<Rightarrow>
       let cleanup = (\<lambda>q. (False, release_buffer api b q)) in
       (case seq_all
          [penc (enc api (SetEncodeIteratorBuffer (buf_length b))),
           penc_version api h,
           penc (enc_exp api RSSL_RET_ENCODE_CONTAINER (EncodeMsgInit response MAX_MSG_SIZE)),
           GetDirectoryMap api name fmask action,
           penc (enc api EncodeMsgComplete)] ([], p1) of (ok, it, p2) \<Rightarrow>
        if \<not> ok then cleanup p2
        else let b' = encoded_buffer api b it p2 in
          (case rsslValidateMsg api response (world p2) of (valid, u) \<Rightarrow>
             let p3 = p2\<lparr>world := u\<rparr> in
             if \<not> valid then cleanup (cstat k CLIENT_PC_MMT_DIRECTORY_MALFORMED p3)
             else submit_or api k b' CLIENT_PC_MMT_DIRECTORY_SENT cleanup
                    (cstat k CLIENT_PC_MMT_DIRECTORY_VALIDATED p3))))"

definition SendDirectoryRefresh ::
  "'u rssl \<Rightarrow> client_id \<Rightarrow> u32 \<Rightarrow> string option \<Rightarrow> dir_filter set \<Rightarrow> 'u prov \<Rightarrow> bool \<times> 'u prov" where
  "SendDirectoryRefresh api k token name fmask =
     send_directory api k (directory_refresh_msg token fmask) name fmask RSSL_MPEA_ADD_ENTRY"

definition SendDirectoryUpdate ::
  "'u rssl \<Rightarrow> client_id \<Rightarrow> u32 \<Rightarrow> string option \<Rightarrow> 'u prov \<Rightarrow> bool \<times> 'u prov" where
  "SendDirectoryUpdate api k token name =
     send_directory api k (directory_update_msg token) name {RDM_DIRECTORY_SERVICE_STATE_FILTER}
       RSSL_MPEA_UPDATE_ENTRY"

definition OnDirectoryRequest :: "'u rssl \<Rightarrow> client_id \<Rightarrow> rssl_msg \<Rightarrow> 'u prov \<Rightarrow> bool \<times> 'u prov" where
  "OnDirectoryRequest api k m p =
    (let p1 = updc k (\<lambda>c. c\<lparr>directory_token := streamId m\<rparr>)
           (cstat k CLIENT_PC_MMT_DIRECTORY_REQUEST_RECEIVED p);
         key = msgKey m; token = streamId m; fmask = key_filter key in
     if RSSL_MKF_HAS_NAME \<in> key_flags key then
       SendDirectoryRefresh api k token (Some (cbuf_cstr (key_name key))) fmask p1
     else if RSSL_MKF_HAS_SERVICE_ID \<in> key_flags key \<and> key_serviceId key \<noteq> 0 then
       if key_serviceId key = service_id p1
       then SendDirectoryRefresh api k token (Some (service_name (cfg p1))) fmask p1
       else SendDirectoryRefresh api k token None fmask p1
     else SendDirectoryRefresh api k token None fmask p1)"

definition OnSourceDirectoryUpdate :: "'u rssl \<Rightarrow> client_id \<Rightarrow> 'u prov \<Rightarrow> bool \<times> 'u prov" where
  "OnSourceDirectoryUpdate api k p =
     SendDirectoryUpdate api k (directory_token (getc p k)) (Some (service_name (cfg p))) p"

definition OnDictionaryRequest :: "'u rssl \<Rightarrow> client_id \<Rightarrow> rssl_msg \<Rightarrow> 'u prov \<Rightarrow> bool \<times> 'u prov" where
  "OnDictionaryRequest api k m p =
     SendClose api k (streamId m) (key_serviceId (msgKey m)) (domainType m) (key_name (msgKey m))
       (RSSL_RQMF_MSG_KEY_IN_UPDATES \<in> msg_flags m) RSSL_STREAM_CLOSED RSSL_SC_USAGE_ERROR
       kErrorUnsupportedDictionary (cstat k CLIENT_PC_MMT_DICTIONARY_REQUEST_RECEIVED p)"

subsection \<open>Items\<close>

text \<open>\<open>ParseView\<close> walks the element list of a view. Its result is \<open>False\<close> on every path of the
  source, and it leaves the vector of field ids as it found it.\<close>

fun parse_view_elements :: "'u rssl \<Rightarrow> (rssl_ret \<times> element) list \<Rightarrow> 'u \<Rightarrow> bool \<times> 'u" where
  "parse_view_elements api [] u = (False, u)"
| "parse_view_elements api ((rc, el) # xs) u =
     (if rc = RSSL_RET_END_OF_CONTAINER then (False, u)
      else if rc = RSSL_RET_SUCCESS then
        if el_name el = RSSL_ENAME_VIEW_TYPE \<and> el_dataType el = RSSL_DT_UINT then
          (case rsslDecodeUInt api u of (rc', u') \<Rightarrow>
             if rc' \<noteq> RSSL_RET_SUCCESS then (False, u') else parse_view_elements api xs u')
        else parse_view_elements api xs u
      else (False, u))"

definition ParseView :: "'u rssl \<Rightarrow> int list \<Rightarrow> 'u prov \<Rightarrow> bool \<times> int list \<times> 'u prov" where
  "ParseView api view p = (case rsslDecodeElementList api (world p) of ((rc, xs), u) \<Rightarrow>
     if rc \<noteq> RSSL_RET_SUCCESS then (False, view, p\<lparr>world := u\<rparr>)
     else (case parse_view_elements api xs u of (r, u') \<Rightarrow> (r, view, p\<lparr>world := u'\<rparr>)))"

definition lift_world :: "('u \<Rightarrow> bool \<times> 'u) \<Rightarrow> 'u prov \<Rightarrow> bool \<times> 'u prov" where
  "lift_world f p = (case f (world p) of (r, u) \<Rightarrow> (r, p\<lparr>world := u\<rparr>))"

definition OnItemRequest ::
  "'u rssl \<Rightarrow> 'u delegate \<Rightarrow> client_id \<Rightarrow> rssl_msg \<Rightarrow> 'u prov \<Rightarrow> bool \<times> 'u prov" where
  "OnItemRequest api del k m p =
    (let p1 = cstat k CLIENT_PC_ITEM_REQUEST_RECEIVED p;
         sid = key_serviceId (msgKey m);
         item_name = cbuf_string (key_name (msgKey m));
         use_attribinfo = (RSSL_RQMF_MSG_KEY_IN_UPDATES \<in> msg_flags m);
         token = streamId m; h = c_handle (getc p k) in
     if \<not> is_logged_in (getc p1 k) then
       SendClose api k token sid (domainType m) (string_cbuf item_name) use_attribinfo
         RSSL_STREAM_CLOSED RSSL_SC_USAGE_ERROR kErrorLoginRequired
         (cstat k CLIENT_PC_ITEM_REQUEST_BEFORE_LOGIN (cstat k CLIENT_PC_ITEM_REQUEST_REJECTED p1))
     else
       let p2 = cstat k (if RSSL_RQMF_STREAMING \<in> msg_flags m
                         then CLIENT_PC_ITEM_STREAMING_REQUEST_RECEIVED
                         else CLIENT_PC_ITEM_SNAPSHOT_REQUEST_RECEIVED) p1 in
       if token \<in> tokens (getc p2 k) then
         (True, cstat k CLIENT_PC_ITEM_REISSUE_REQUEST_RECEIVED p2)
       else
         let p3 = updc k (\<lambda>c. c\<lparr>tokens := insert token (tokens c)\<rparr>) p2;
             dispatch = (\<lambda>q. lift_world (OnRequest del h (rwf_version (chanp api q h)) token sid
                                item_name use_attribinfo) q) in
         if RSSL_RQMF_HAS_VIEW \<in> msg_flags m \<and> containerType m = RSSL_DT_ELEMENT_LIST then
           (case ParseView api [] p3 of (ok, view, p4) \<Rightarrow>
              if ok then lift_world (OnRequest_view del h (rwf_version (chanp api p4 h)) token sid
                           item_name use_attribinfo view) p4
              else dispatch p4)
         else dispatch p3)"

definition OnItemClose :: "client_id \<Rightarrow> rssl_msg \<Rightarrow> 'u prov \<Rightarrow> bool \<times> 'u prov" where
  "OnItemClose k m p =
    (let p1 = cstat k CLIENT_PC_ITEM_CLOSE_RECEIVED p; token = streamId m in
     if \<not> is_logged_in (getc p1 k) then (True, cstat k CLIENT_PC_CLOSE_MSGS_DISCARDED p1)
     else if domainType m \<noteq> RSSL_DMT_MARKET_PRICE then
       (True, cstat k CLIENT_PC_CLOSE_MSGS_DISCARDED p1)
     else if token \<notin> tokens (getc p1 k) then (True, cstat k CLIENT_PC_CLOSE_MSGS_DISCARDED p1)
     else (True, cstat k CLIENT_PC_ITEM_CLOSED
                   (updc k (\<lambda>c. c\<lparr>tokens := tokens c - {token}\<rparr>) p1)))"

text \<open>A reply of the worker threads, already encoded.\<close>

definition client_SendReply ::
  "'u rssl \<Rightarrow> client_id \<Rightarrow> u32 \<Rightarrow> u8 list \<Rightarrow> 'u prov \<Rightarrow> bool \<times> 'u prov" where
  "client_SendReply api k token data p =
    (if token \<notin> tokens (getc p k) then (True, p)
     else let p0 = updc k (\<lambda>c. c\<lparr>tokens := tokens c - {token}\<rparr>) p in
     (case get_buffer api (c_handle (getc p0 k)) p0 of
        (None, p1) \<Rightarrow> (False, p1)
      | (Some b, p1) \<Rightarrow>
        let p2 = (if length data \<le> MAX_MSG_SIZE then p1 else p1\<lparr>fault := True\<rparr>) in
        submit_or api k (b\<lparr>buf_length := of_nat (length data), buf_data := Raw data\<rparr>)
          CLIENT_PC_ITEM_SENT (\<lambda>q. (False, release_buffer api b q)) p2))"

subsection \<open>Dispatch\<close>

definition OnRequestMsg ::
  "'u rssl \<Rightarrow> 'u delegate \<Rightarrow> client_id \<Rightarrow> rssl_msg \<Rightarrow> 'u prov \<Rightarrow> bool \<times> 'u prov" where
  "OnRequestMsg api del k m p =
    (let p1 = cstat k CLIENT_PC_REQUEST_MSGS_RECEIVED p in
     case domainType m of
       RSSL_DMT_LOGIN \<Rightarrow> OnLoginRequest api k m p1
     | RSSL_DMT_SOURCE \<Rightarrow> OnDirectoryRequest api k m p1
     | RSSL_DMT_DICTIONARY \<Rightarrow> OnDictionaryRequest api k m p1
     | RSSL_DMT_MARKET_PRICE \<Rightarrow> OnItemRequest api del k m p1
     | _ \<Rightarrow> SendClose api k (streamId m) (key_serviceId (msgKey m)) (domainType m)
              (key_name (msgKey m)) (RSSL_RQMF_MSG_KEY_IN_UPDATES \<in> msg_flags m)
              RSSL_STREAM_CLOSED RSSL_SC_USAGE_ERROR kErrorUnsupportedRequest
              (cstat k CLIENT_PC_REQUEST_MSGS_REJECTED p1))"

definition OnCloseMsg :: "client_id \<Rightarrow> rssl_msg \<Rightarrow> 'u prov \<Rightarrow> bool \<times> 'u prov" where
  "OnCloseMsg k m p =
    (let p1 = cstat k CLIENT_PC_CLOSE_MSGS_RECEIVED p in
     case domainType m of
       RSSL_DMT_MARKET_PRICE \<Rightarrow> OnItemClose k m p1
     | RSSL_DMT_LOGIN \<Rightarrow>
         let p2 = cstat k CLIENT_PC_MMT_LOGIN_CLOSE_RECEIVED p1 in
         (True, if \<not> is_logged_in (getc p2 k) then cstat k CLIENT_PC_CLOSE_MSGS_DISCARDED p2
                else updc k (\<lambda>c. c\<lparr>is_logged_in := False, login_token := 0\<rparr>) p2)
     | RSSL_DMT_SOURCE \<Rightarrow> (True, cstat k CLIENT_PC_MMT_DIRECTORY_CLOSE_RECEIVED p1)
     | RSSL_DMT_DICTIONARY \<Rightarrow> (True, cstat k CLIENT_PC_CLOSE_MSGS_DISCARDED
                                  (cstat k CLIENT_PC_MMT_DICTIONARY_CLOSE_RECEIVED p1))
     | _ \<Rightarrow> (True, cstat k CLIENT_PC_CLOSE_MSGS_DISCARDED p1))"

definition client_OnMsg ::
  "'u rssl \<Rightarrow> 'u delegate \<Rightarrow> client_id \<Rightarrow> rssl_msg \<Rightarrow> 'u prov \<Rightarrow> bool \<times> 'u prov" where
  "client_OnMsg api del k m p =
    (let p1 = cstat k CLIENT_PC_RSSL_MSGS_RECEIVED p in
     case msgClass m of
       RSSL_MC_REQUEST \<Rightarrow> OnRequestMsg api del k m p1
     | RSSL_MC_CLOSE \<Rightarrow> OnCloseMsg k m p1
     | _ \<Rightarrow> SendClose api k (streamId m) (key_serviceId (msgKey m)) (domainType m)
              (key_name (msgKey m)) True RSSL_STREAM_CLOSED RSSL_SC_USAGE_ERROR
              kErrorUnsupportedMsgClass (cstat k CLIENT_PC_RSSL_MSGS_REJECTED p1))"

subsection \<open>Frames of the session operations\<close>

text \<open>What the transport may change in a session object while a message is sent: the count of
  pending writes, the time of the next ping and the counters. \<open>core\<close> is the rest.\<close>

definition core :: "client \<Rightarrow> client" where
  "core c = c\<lparr>pending_count := 0, next_ping := 0, c_stats := (\<lambda>_. 0)\<rparr>"

lemma core_eqD:
  assumes "core c = core d"
  shows "is_logged_in c = is_logged_in d" and "tokens c = tokens d"
    and "login_token c = login_token d" and "directory_token c = directory_token d"
    and "c_handle c = c_handle d" and "next_pong c = next_pong d" and "ping_interval c = ping_interval d"
  using assms by (auto simp: core_def dest: arg_cong [of _ _ is_logged_in] arg_cong [of _ _ tokens]
      arg_cong [of _ _ login_token] arg_cong [of _ _ directory_token] arg_cong [of _ _ c_handle]
      arg_cong [of _ _ next_pong] arg_cong [of _ _ ping_interval])

lemma core_small [simp]:
  "core (c\<lparr>pending_count := n\<rparr>) = core c" "core (c\<lparr>c_stats := st\<rparr>) = core c"
  "core (schedule_ping t c) = core c"
  by (simp_all add: core_def schedule_ping_def)

text \<open>\<open>quiet\<close>: no session appears, disappears or moves, a predicate on the library state is kept,
  and a live session whose channel does not dangle raises no fault. \<open>sends\<close> adds that the
  sessions keep their core.\<close>

definition quiet :: "('u \<Rightarrow> bool) \<Rightarrow> client_id \<Rightarrow> 'u prov \<Rightarrow> 'u prov \<Rightarrow> bool" where
  "quiet W k p p' \<longleftrightarrow> shape p' = shape p \<and> (W (world p) \<longrightarrow> W (world p')) \<and>
     (alive p k \<and> ptr_ok p (c_handle (getc p k)) \<longrightarrow> fault p' = fault p)"

definition sends :: "('u \<Rightarrow> bool) \<Rightarrow> client_id \<Rightarrow> 'u prov \<Rightarrow> 'u prov \<Rightarrow> bool" where
  "sends W k p p' \<longleftrightarrow> quiet W k p p' \<and> (\<forall>j. map_option core (objs p' j) = map_option core (objs p j))"

lemma quiet_refl [simp]: "quiet W k p p"
  by (simp add: quiet_def)

lemma quiet_trans:
  assumes pq: "quiet W k p q" and qr: "quiet W k q r"
  shows "quiet W k p r"
proof -
  have s: "shape q = shape p" using pq by (simp add: quiet_def)
  have "fault r = fault p" if "alive p k" "ptr_ok p (c_handle (getc p k))"
  proof -
    have "alive q k" using that(1) shape_eqD(8) [OF s] by simp
    moreover have "c_handle (getc q k) = c_handle (getc p k)" using that(1) shape_eqD(9) [OF s] by simp
    moreover have "ptr_ok q (c_handle (getc p k))" using that(2) ptr_ok_shape [OF s] by simp
    ultimately show ?thesis using pq qr that by (simp add: quiet_def)
  qed
  then show ?thesis using pq qr by (auto simp: quiet_def)
qed

lemma sends_refl [simp]: "sends W k p p"
  by (simp add: sends_def)

lemma sends_trans: "sends W k p q \<Longrightarrow> sends W k q r \<Longrightarrow> sends W k p r"
  by (auto simp: sends_def intro: quiet_trans)

lemma sends_quiet: "sends W k p q \<Longrightarrow> quiet W k p q"
  by (simp add: sends_def)

lemma sends_core:
  assumes "sends W k p q" "alive p j"
  shows "core (getc q j) = core (getc p j)"
proof -
  have "map_option core (objs q j) = map_option core (objs p j)" using assms(1) by (simp add: sends_def)
  then show ?thesis using assms(2) by (auto simp: alive_def getc_def)
qed

lemma quiet_updc:
  assumes "\<And>c. c_handle (f c) = c_handle c"
  shows "quiet W k p (updc k f p)"
  using shape_updc [of f k p] assms by (simp add: quiet_def fault_updc)

lemma sends_updc:
  assumes "\<And>c. core (f c) = core c"
  shows "sends W k p (updc k f p)"
proof -
  have "c_handle (f c) = c_handle c" for c using core_eqD(5) [OF assms] .
  then show ?thesis using quiet_updc [of f W k p] assms
    by (auto simp: sends_def updc_def split: option.splits)
qed

lemma sends_cstat [simp]: "sends W k p (cstat k pc p)"
  by (simp add: cstat_def sends_updc)

lemma quiet_cstat [simp]: "quiet W k p (cstat k pc p)"
  by (simp add: sends_quiet)

lemma sends_world: "(W (world p) \<Longrightarrow> W u) \<Longrightarrow> sends W k p (p\<lparr>world := u\<rparr>)"
  by (simp add: sends_def quiet_def)

lemma sends_fields [simp]:
  "sends W k p (p\<lparr>held := hs\<rparr>)" "sends W k p (p\<lparr>p_stats := st\<rparr>)" "sends W k p (disown b p)"
  by (simp_all add: sends_def quiet_def disown_def)

lemma core_on_user: "(\<And>c. core (f c) = core c) \<Longrightarrow>
    map_option core (objs (on_user h f p) j) = map_option core (objs p j)"
  by (auto simp: on_user_def updc_def split: option.splits)

lemma core_Submit: "map_option core (objs (snd (Submit api h b p)) j) = map_option core (objs p j)"
  by (auto simp: Submit_def Let_def await_write_def pstat_def core_on_user disown_def
      split: option.splits prod.splits)

lemma sends_Submit:
  assumes "keeps api W" "writes_end api"
  shows "sends W k p (snd (Submit api (c_handle (getc p k)) b p))"
  using assms by (simp add: sends_def quiet_def shape_Submit keeps_Submit fault_Submit core_Submit)

lemma sends_client_Submit:
  assumes "keeps api W" "writes_end api"
  shows "sends W k p (snd (client_Submit api k b p))"
  using sends_Submit [OF assms, of k p b]
  by (auto simp: client_Submit_def split: prod.splits intro: sends_trans)

lemma sends_submit_or:
  assumes "keeps api W" "writes_end api" and "\<And>q. sends W k q (snd (cleanup q))"
  shows "sends W k p (snd (submit_or api k b pc cleanup p))"
  using sends_client_Submit [OF assms(1,2), of k p b] assms(3)
  by (auto simp: submit_or_def split: prod.splits intro: sends_trans)

lemma sends_get_buffer:
  assumes k: "keeps api W" and run: "get_buffer api h p = (r, p1)"
  shows "sends W k p p1"
proof -
  obtain b u where g: "rsslGetBuffer api h MAX_MSG_SIZE (world p) = (b, u)" by force
  then have "sends W k p (p\<lparr>world := u\<rparr>)" using keepsD(7) [OF k] by (auto intro: sends_world)
  moreover have "sends W k (p\<lparr>world := u\<rparr>) p1"
    using run g by (auto simp: get_buffer_def sends_def quiet_def split: option.splits)
  ultimately show ?thesis by (rule sends_trans)
qed

lemma sends_release_buffer: "keeps api W \<Longrightarrow> sends W k p (release_buffer api b p)"
  by (cases "rsslReleaseBuffer api b (world p)")
    (auto simp: release_buffer_def sends_def quiet_def disown_def dest: keepsD)

text \<open>The encoders change nothing but the library state and the counter of their exceptions.\<close>

definition encodes :: "('u \<Rightarrow> bool) \<Rightarrow> (enc_iter \<times> 'u prov \<Rightarrow> bool \<times> enc_iter \<times> 'u prov) \<Rightarrow> bool" where
  "encodes W f \<longleftrightarrow> (\<forall>it p ok it' p'. f (it, p) = (ok, it', p') \<longrightarrow>
     (\<exists>u st. p' = p\<lparr>world := u, p_stats := st\<rparr> \<and> (W (world p) \<longrightarrow> W u) \<and>
        st PROVIDER_PC_RSSL_WRITE_NO_BUFFERS = p_stats p PROVIDER_PC_RSSL_WRITE_NO_BUFFERS))"

lemma encodesD:
  "encodes W f \<Longrightarrow> f (it, p) = (ok, it', p') \<Longrightarrow>
     \<exists>u st. p' = p\<lparr>world := u, p_stats := st\<rparr> \<and> (W (world p) \<longrightarrow> W u) \<and>
        st PROVIDER_PC_RSSL_WRITE_NO_BUFFERS = p_stats p PROVIDER_PC_RSSL_WRITE_NO_BUFFERS"
  unfolding encodes_def by blast

lemma encodes_penc: "stable W f \<Longrightarrow> encodes W (penc f)"
  unfolding encodes_def
proof (intro allI impI)
  fix it and p p' :: "'a prov" and ok it'
  assume st: "stable W f" and "penc f (it, p) = (ok, it', p')"
  then obtain u where "f (it, world p) = (ok, it', u)" "p' = p\<lparr>world := u\<rparr>"
    by (auto simp: penc_def split: prod.splits)
  then have "p' = p\<lparr>world := u, p_stats := p_stats p\<rparr>" "W (world p) \<longrightarrow> W u"
    using stableD [OF st] by auto
  then show "\<exists>u st. p' = p\<lparr>world := u, p_stats := st\<rparr> \<and> (W (world p) \<longrightarrow> W u) \<and>
      st PROVIDER_PC_RSSL_WRITE_NO_BUFFERS = p_stats p PROVIDER_PC_RSSL_WRITE_NO_BUFFERS" by blast
qed

lemma encodes_penc_version:
  assumes "keeps api W"
  shows "encodes W (penc_version api h)"
  using encodes_penc [OF stable_enc [OF assms]] by (auto simp: encodes_def penc_version_def)

lemma encodes_GetDirectoryMap:
  assumes k: "keeps api W"
  shows "encodes W (GetDirectoryMap api name fmask action)"
  unfolding encodes_def
proof (intro allI impI)
  fix it and p p' :: "'a prov" and ok it'
  assume run: "GetDirectoryMap api name fmask action (it, p) = (ok, it', p')"
  then obtain u where u: "p' = (if ok then p\<lparr>world := u\<rparr>
      else pstat PROVIDER_PC_DIRECTORY_MAP_EXCEPTION (p\<lparr>world := u\<rparr>))"
    using GetDirectoryMap_cases [OF run] by blast
  moreover have "W (world p) \<longrightarrow> W u" using keeps_GetDirectoryMap [OF k _ run] u by (auto split: if_splits)
  ultimately show "\<exists>u st. p' = p\<lparr>world := u, p_stats := st\<rparr> \<and> (W (world p) \<longrightarrow> W u) \<and>
      st PROVIDER_PC_RSSL_WRITE_NO_BUFFERS = p_stats p PROVIDER_PC_RSSL_WRITE_NO_BUFFERS"
    by (intro exI [of _ u] exI [of _ "p_stats p'"]) (simp add: pstat_def)
qed

lemma encodes_seq: "\<forall>f \<in> set fs. encodes W f \<Longrightarrow> encodes W (seq_all fs)"
proof (induction fs)
  case Nil
  have "\<exists>u st. p = p\<lparr>world := u, p_stats := st\<rparr> \<and> (W (world p) \<longrightarrow> W u) \<and>
      st PROVIDER_PC_RSSL_WRITE_NO_BUFFERS = p_stats p PROVIDER_PC_RSSL_WRITE_NO_BUFFERS" for p :: "'a prov"
    by (intro exI [of _ "world p"] exI [of _ "p_stats p"]) simp
  then show ?case by (simp add: encodes_def)
next
  case (Cons f fs)
  show ?case
    unfolding encodes_def
  proof (intro allI impI)
    fix it and p p' :: "'a prov" and ok it'
    assume run: "seq_all (f # fs) (it, p) = (ok, it', p')"
    obtain ok1 it1 p1 where f: "f (it, p) = (ok1, it1, p1)" by (cases "f (it, p)") auto
    obtain u st where p1: "p1 = p\<lparr>world := u, p_stats := st\<rparr>" "W (world p) \<longrightarrow> W u"
      "st PROVIDER_PC_RSSL_WRITE_NO_BUFFERS = p_stats p PROVIDER_PC_RSSL_WRITE_NO_BUFFERS"
      using encodesD [of W f it p ok1 it1 p1] f Cons.prems by auto
    show "\<exists>u st. p' = p\<lparr>world := u, p_stats := st\<rparr> \<and> (W (world p) \<longrightarrow> W u) \<and>
        st PROVIDER_PC_RSSL_WRITE_NO_BUFFERS = p_stats p PROVIDER_PC_RSSL_WRITE_NO_BUFFERS"
    proof (cases ok1)
      case False
      then show ?thesis using run f p1 by auto
    next
      case True
      then have "seq_all fs (it1, p1) = (ok, it', p')" using run f by simp
      then obtain u' st' where "p' = p1\<lparr>world := u', p_stats := st'\<rparr>" "W (world p1) \<longrightarrow> W u'"
        "st' PROVIDER_PC_RSSL_WRITE_NO_BUFFERS = p_stats p1 PROVIDER_PC_RSSL_WRITE_NO_BUFFERS"
        using encodesD [of W "seq_all fs" it1 p1 ok it' p'] Cons.IH Cons.prems by auto
      then show ?thesis using p1 by (intro exI [of _ u'] exI [of _ st']) simp
    qed
  qed
qed

lemma sends_encodes:
  assumes "encodes W f" "f (it, p) = (ok, it', p')"
  shows "sends W k p p'"
  using encodesD [OF assms] by (auto simp: sends_def quiet_def)

subsection \<open>Frames of the senders\<close>

lemma encodes_accept_login_start:
  "keeps api W \<Longrightarrow> encodes W (seq_all (accept_login_start api h b m))"
  unfolding accept_login_start_def
  by (intro encodes_seq) (simp add: encodes_penc encodes_penc_version stable_enc stable_enc_exp)

lemma encodes_accept_login_rest: "keeps api W \<Longrightarrow> encodes W (seq_all (accept_login_rest api))"
  unfolding accept_login_rest_def
  by (intro encodes_seq) (simp add: encodes_penc stable_enc)

lemma sends_SendClose:
  assumes k: "keeps api W" and w: "writes_end api"
  shows "sends W k p (snd (SendClose api k tok sid mt name ai ss code text p))"
proof -
  obtain r p1 where g: "get_buffer api (c_handle (getc p k)) p = (r, p1)" by force
  have s1: "sends W k p p1" using sends_get_buffer [OF k g] .
  show ?thesis
  proof (cases r)
    case None
    then show ?thesis using g s1 by (simp add: SendClose_def)
  next
    case (Some b)
    obtain ok it n u where c: "WriteRawClose api (cfg p1) (rwf_version (chanp api p1 (c_handle (getc p k))))
        (close_msg tok sid mt name ai ss code text) (buf_length b) (world p1) = (ok, it, n, u)"
      by (metis prod_cases4)
    have s2: "sends W k p1 (p1\<lparr>world := u\<rparr>)"
      using keeps_WriteRawClose [OF k _ c] by (intro sends_world) simp
    show ?thesis
      using g Some c s1 s2 sends_release_buffer [OF k]
        sends_submit_or [OF k w, of k "\<lambda>q. (False, release_buffer api b q)"]
      by (auto simp: SendClose_def Let_def intro: sends_trans)
  qed
qed

lemma sends_login_cleanup:
  "keeps api W \<Longrightarrow> sends W k q (release_buffer api b (cstat k CLIENT_PC_MMT_LOGIN_EXCEPTION q))"
  by (rule sends_trans [OF sends_cstat sends_release_buffer])

lemma sends_validate:
  "keeps api W \<Longrightarrow> rsslValidateMsg api m (world p) = (v, u) \<Longrightarrow> sends W k p (p\<lparr>world := u\<rparr>)"
  by (intro sends_world) (auto dest: keepsD)

lemma sends_RejectLogin:
  assumes k: "keeps api W" and w: "writes_end api"
  shows "sends W k p (snd (RejectLogin api k tok p))"
proof -
  obtain r p1 where g: "get_buffer api (c_handle (getc p k)) p = (r, p1)" by force
  have s1: "sends W k p p1" using sends_get_buffer [OF k g] .
  show ?thesis
  proof (cases r)
    case None
    then show ?thesis using g s1 by (simp add: RejectLogin_def Let_def)
  next
    case (Some b)
    define steps where "steps = seq_all [penc (enc api (SetEncodeIteratorBuffer (buf_length b))),
           penc_version api (c_handle (getc p k)), penc (enc api (EncodeMsg (reject_response tok)))]"
    have "encodes W steps" unfolding steps_def using k
      by (intro encodes_seq) (simp add: encodes_penc encodes_penc_version stable_enc)
    moreover obtain ok it p2 where st: "steps ([], p1) = (ok, it, p2)" by (metis prod_cases3)
    ultimately have s2: "sends W k p1 p2" by (rule sends_encodes)
    obtain v u where v: "rsslValidateMsg api (reject_response tok) (world p2) = (v, u)" by force
    have s3: "sends W k p2 (p2\<lparr>world := u\<rparr>)" using sends_validate [OF k v] .
    show ?thesis
      using g Some st [unfolded steps_def] v s1 s2 s3 sends_login_cleanup [OF k]
        sends_submit_or [OF k w, of k
          "\<lambda>q. (False, release_buffer api b (cstat k CLIENT_PC_MMT_LOGIN_EXCEPTION q))"]
      by (simp add: RejectLogin_def Let_def del: seq_all.simps)
        (meson sends_cstat sends_trans)
  qed
qed

lemma sends_AcceptLogin:
  assumes k: "keeps api W" and w: "writes_end api"
  shows "sends W k p (snd (AcceptLogin api k m tok p))"
proof -
  obtain r p1 where g: "get_buffer api (c_handle (getc p k)) p = (r, p1)" by force
  have s1: "sends W k p p1" using sends_get_buffer [OF k g] .
  show ?thesis
  proof (cases r)
    case None
    then show ?thesis using g s1 by (simp add: AcceptLogin_def Let_def)
  next
    case (Some b)
    define one where "one = penc (enc api
      (EncodeElementEntry RSSL_ENAME_ALLOW_SUSPECT_DATA RSSL_DT_UINT (PUInt 0)))"
    have e: "encodes W one" unfolding one_def using k by (simp add: encodes_penc stable_enc)
    obtain ok it p2 where a: "seq_all (accept_login_start api (c_handle (getc p k)) b
        (login_response m tok)) ([], p1) = (ok, it, p2)" by (metis prod_cases3)
    obtain ok3 it3 p3 where b: "one (it, p2) = (ok3, it3, p3)" by (metis prod_cases3)
    obtain ok4 it4 p4 where c: "seq_all (accept_login_rest api) (it3, p3) = (ok4, it4, p4)"
      by (metis prod_cases3)
    have s: "sends W k p p2" "sends W k p p3" "sends W k p p4"
      using s1 sends_encodes [OF encodes_accept_login_start [OF k] a] sends_encodes [OF e b]
        sends_encodes [OF encodes_accept_login_rest [OF k] c] by (meson sends_trans)+
    show ?thesis
      using g Some a b [unfolded one_def] c s sends_login_cleanup [OF k]
        sends_submit_or [OF k w, of k
          "\<lambda>q. (False, release_buffer api b (cstat k CLIENT_PC_MMT_LOGIN_EXCEPTION q))"]
      by (simp add: AcceptLogin_def Let_def del: seq_all.simps) (meson sends_trans)
  qed
qed

lemma sends_send_directory:
  assumes k: "keeps api W" and w: "writes_end api"
  shows "sends W k p (snd (send_directory api k m name fmask action p))"
proof -
  obtain r p1 where g: "get_buffer api (c_handle (getc p k)) p = (r, p1)" by force
  have s1: "sends W k p p1" using sends_get_buffer [OF k g] .
  show ?thesis
  proof (cases r)
    case None
    then show ?thesis using g s1 by (simp add: send_directory_def Let_def)
  next
    case (Some b)
    define steps where "steps = seq_all [penc (enc api (SetEncodeIteratorBuffer (buf_length b))),
           penc_version api (c_handle (getc p k)),
           penc (enc_exp api RSSL_RET_ENCODE_CONTAINER (EncodeMsgInit m MAX_MSG_SIZE)),
           GetDirectoryMap api name fmask action,
           penc (enc api EncodeMsgComplete)]"
    have "encodes W steps" unfolding steps_def using k
      by (intro encodes_seq)
        (simp add: encodes_penc encodes_penc_version stable_enc stable_enc_exp encodes_GetDirectoryMap)
    moreover obtain ok it p2 where st: "steps ([], p1) = (ok, it, p2)" by (metis prod_cases3)
    ultimately have s2: "sends W k p1 p2" by (rule sends_encodes)
    obtain v u where v: "rsslValidateMsg api m (world p2) = (v, u)" by force
    have s3: "sends W k p2 (p2\<lparr>world := u\<rparr>)" using sends_validate [OF k v] .
    show ?thesis
      using g Some st [unfolded steps_def] v s1 s2 s3 sends_release_buffer [OF k]
        sends_submit_or [OF k w, of k "\<lambda>q. (False, release_buffer api b q)"]
      by (simp add: send_directory_def Let_def del: seq_all.simps)
        (meson sends_cstat sends_trans)
  qed
qed

lemmas sends_senders = sends_SendClose sends_RejectLogin sends_AcceptLogin sends_send_directory

lemma sends_decode_login_attrib:
  assumes k: "keeps api W"
  shows "sends W k p (snd (decode_login_attrib api m p))"
proof -
  obtain rc u where d: "rsslDecodeMsgKeyAttrib api (world p) = (rc, u)" by force
  obtain rc' xs u' where e: "rsslDecodeElementList api u = ((rc', xs), u')" by (metis prod.exhaust)
  have "W (world p) \<Longrightarrow> W u" using keepsD(14) [OF k _ d] .
  moreover have "W u \<Longrightarrow> W u'" using keepsD(15) [OF k _ e] .
  ultimately show ?thesis using d e
    by (auto simp: decode_login_attrib_def OnLoginAttribInfo_def Let_def intro: sends_world)
qed

lemma parse_view_keeps:
  "keeps api W \<Longrightarrow> W u \<Longrightarrow> W (snd (parse_view_elements api xs u))"
  by (induction api xs u rule: parse_view_elements.induct) (auto dest: keepsD split: prod.splits)

lemma parse_view_false: "fst (parse_view_elements api xs u) = False"
  by (induction api xs u rule: parse_view_elements.induct) (auto split: prod.splits)

lemma ParseView_false: "ParseView api v p = (ok, v', q) \<Longrightarrow> \<not> ok \<and> v' = v"
  using parse_view_false [of api] by (auto simp: ParseView_def split: prod.splits if_splits) (metis fst_conv)+

lemma sends_ParseView:
  assumes k: "keeps api W" and run: "ParseView api v p = (ok, v', q)"
  shows "sends W k p q"
proof -
  obtain rc xs u where e: "rsslDecodeElementList api (world p) = ((rc, xs), u)" by (metis prod.exhaust)
  have "W (world p) \<Longrightarrow> W u" using keepsD(15) [OF k _ e] .
  then show ?thesis using run e parse_view_keeps [OF k, of u xs]
    by (auto simp: ParseView_def intro!: sends_world split: if_splits prod.splits)
qed

end
