(* ===== verification/Toy_Library.thy ===== *)
theory Toy_Library
  imports Transport
begin

section \<open>A small library that meets the contract\<close>

text \<open>
  A concrete instance of the parameter \<open>rssl\<close>, at which the hypotheses of the properties are
  discharged. Its state counts the accepted channels and records those that are active and those being initialised; every call
  succeeds, and what is read and decoded is fixed in advance. It shows that the hypotheses can
  hold together; nothing else depends on it.
\<close>

type_synonym toy_world = "nat \<times> nat set \<times> nat set"

definition toy :: "read_result \<Rightarrow> rssl_msg \<Rightarrow> toy_world rssl" where
  "toy rd m = \<lparr>
     rsslAccept = (\<lambda>n (c, a, i). (Some c, (Suc c, a - {c}, insert c i))),
     rsslInitChannel = (\<lambda>h (c, a, i). ((RSSL_RET_SUCCESS, \<lparr>ii_fd_change = False, ii_oldSocket = 0\<rparr>),
       (c, insert h a, i - {h}))),
     rsslGetChannelInfo = (\<lambda>h u. (RSSL_RET_SUCCESS, u)),
     rsslReadEx = (\<lambda>h u. (rd, u)),
     rsslWriteEx = (\<lambda>h b d u. (RSSL_RET_SUCCESS, u)),
     rsslFlush = (\<lambda>h u. (RSSL_RET_SUCCESS, u)),
     rsslPing = (\<lambda>h u. (RSSL_RET_SUCCESS, u)),
     rsslCloseChannel = (\<lambda>h (c, a, i). (RSSL_RET_SUCCESS, (c, a - {h}, i - {h}))),
     rsslCloseServer = (\<lambda>u. (RSSL_RET_SUCCESS, u)),
     rsslGetBuffer = (\<lambda>h n u. (Some \<lparr>buf_id = 7, buf_length = 4096, buf_data = Unset\<rparr>, u)),
     rsslReleaseBuffer = (\<lambda>b u. (RSSL_RET_SUCCESS, u)),
     rsslEncode = (\<lambda>it c u. (case c of
         EncodeMsgInit r n \<Rightarrow> if RSSL_MKF_HAS_ATTRIB \<in> key_flags (msgKey r)
           then RSSL_RET_ENCODE_MSG_KEY_OPAQUE else RSSL_RET_ENCODE_CONTAINER
       | _ \<Rightarrow> RSSL_RET_SUCCESS, u)),
     rsslGetEncodedBufferLength = (\<lambda>it u. 100),
     rsslValidateMsg = (\<lambda>m u. (True, u)),
     rsslSetDecodeIteratorRWFVersion = (\<lambda>x y u. (RSSL_RET_SUCCESS, u)),
     rsslSetDecodeIteratorBuffer = (\<lambda>b u. (RSSL_RET_SUCCESS, u)),
     rsslDecodeMsg = (\<lambda>u. ((RSSL_RET_SUCCESS, m), u)),
     rsslDecodeMsgKeyAttrib = (\<lambda>u. (RSSL_RET_SUCCESS, u)),
     rsslDecodeElementList = (\<lambda>u. ((RSSL_RET_SUCCESS, []), u)),
     rsslDecodeUInt = (\<lambda>u. (RSSL_RET_SUCCESS, u)),
     chan = (\<lambda>h (c, a, i). \<lparr>socketId = h + 10, oldSocketId = 0,
       state = (if h \<in> a then RSSL_CH_STATE_ACTIVE
         else if h \<in> i then RSSL_CH_STATE_INITIALIZING else RSSL_CH_STATE_CLOSED),
       majorVersion = 14, minorVersion = 1, pingTimeout = 30, clientIP = ''127.0.0.1''\<rparr>),
     universal_time = (\<lambda>u. 1000),
     uninitialised = (\<lambda>u. 0),
     issued = (\<lambda>(c, a, i). {0..<c})\<rparr>"

definition no_data :: read_result where
  "no_data = \<lparr>rd_rc = RSSL_ERROR 0, rd_buf = None, rd_bytesRead = 0, rd_uncompressedBytesRead = 0\<rparr>"

lemma toy_keeps: "keeps (toy rd m) W"
  by (simp add: keeps_def toy_def)

lemma toy_writes_end: "writes_end (toy rd m)"
  unfolding writes_end_def by (intro allI, subst write_loop.simps) (simp add: toy_def)

lemma toy_contract: "transport_contract (toy rd m)"
  by (auto simp: transport_contract_def toy_keeps) (auto simp: toy_def calm_def active_def initializing_def split: if_splits)

text \<open>A session in the making: the state of a provider with one client on one active channel.\<close>

definition toy_client :: client where
  "toy_client = client_init (toy no_data init_msg) 0 ''127.0.0.1'' (1, {0}, {})"

definition toy_prov :: "toy_world prov" where
  "toy_prov = (provider_init default_config None ({}, {}, {}) (toy no_data init_msg) (1, {0}, {}))
     \<lparr>connections := [0], clients := [(0, 5)], objs := [5 \<mapsto> toy_client], next_obj := 6,
      userSpec := [0 \<mapsto> 5]\<rparr>"

lemma toy_prov_alive [simp]: "alive toy_prov 5"
  by (simp add: alive_def toy_prov_def)

end
