(* ===== verification/Session.thy ===== *)
theory Session
  imports Client Toy_Library
begin

section \<open>What a session promises\<close>

text \<open>
  The contract of \<open>client_t\<close>: the pair of the login flag and the set of open streams evolves as
  the automaton \<open>session_step\<close> allows, whatever the library answers. \<open>client_OnMsg\<close> refines it,
  so facts about every run of the automaton hold of every run of a session.
\<close>

type_synonym session = "bool \<times> u32 set"

definition session_of :: "client_id \<Rightarrow> 'u prov \<Rightarrow> session" where
  "session_of k p = (is_logged_in (getc p k), tokens (getc p k))"

inductive session_step :: "rssl_msg \<Rightarrow> session \<Rightarrow> session \<Rightarrow> bool" where
  login: "msgClass m = RSSL_MC_REQUEST \<Longrightarrow> domainType m = RSSL_DMT_LOGIN \<Longrightarrow> valid_login m \<Longrightarrow>
    session_step m (l, ts) (True, ts)"
| open_item: "msgClass m = RSSL_MC_REQUEST \<Longrightarrow> domainType m = RSSL_DMT_MARKET_PRICE \<Longrightarrow>
    session_step m (True, ts) (True, insert (streamId m) ts)"
| close_item: "msgClass m = RSSL_MC_CLOSE \<Longrightarrow> domainType m = RSSL_DMT_MARKET_PRICE \<Longrightarrow>
    session_step m (True, ts) (True, ts - {streamId m})"
| logout: "msgClass m = RSSL_MC_CLOSE \<Longrightarrow> domainType m = RSSL_DMT_LOGIN \<Longrightarrow>
    session_step m (l, ts) (False, ts)"
| ignore: "\<not> (l \<and> domainType m = RSSL_DMT_MARKET_PRICE \<and>
      (msgClass m = RSSL_MC_REQUEST \<or> msgClass m = RSSL_MC_CLOSE)) \<Longrightarrow>
    \<not> (domainType m = RSSL_DMT_LOGIN \<and> msgClass m = RSSL_MC_CLOSE) \<Longrightarrow>
    session_step m (l, ts) (l, ts)"

inductive_cases session_stepE: "session_step m (l, ts) s'"

inductive session_run :: "rssl_msg list \<Rightarrow> session \<Rightarrow> session \<Rightarrow> bool" where
  run_nil: "session_run [] s s"
| run_cons: "session_step m s s' \<Longrightarrow> session_run ms s' s'' \<Longrightarrow> session_run (m # ms) s s''"

inductive_cases session_run_ConsE: "session_run (m # ms) s s'"

subsection \<open>Frames of the handlers\<close>

definition delegate_keeps :: "('u \<Rightarrow> bool) \<Rightarrow> 'u delegate \<Rightarrow> bool" where
  "delegate_keeps W del \<longleftrightarrow> (\<forall>h v t s n a u. W u \<longrightarrow> W (snd (OnRequest del h v t s n a u)))"

lemma quiet_lift:
  "(\<And>u. W u \<Longrightarrow> W (snd (f u))) \<Longrightarrow> sends W k p (snd (lift_world f p))"
  by (auto simp: lift_world_def split: prod.splits intro!: sends_world) (metis snd_conv)

lemma core_sends_getc:
  assumes "sends W k p q" "alive p k"
  shows "is_logged_in (getc q k) = is_logged_in (getc p k)" and "tokens (getc q k) = tokens (getc p k)"
    and "alive q k"
  using core_eqD(1,2) [OF sends_core [OF assms]] shape_eqD(8) [of q p k] assms
  by (simp_all add: sends_def quiet_def)

lemma session_of_sends: "sends W k p q \<Longrightarrow> alive p k \<Longrightarrow> session_of k q = session_of k p"
  by (simp add: session_of_def core_sends_getc)

text \<open>Each handler as a step that sends, or as one update of the session among sends.\<close>

lemma sends_OnDirectoryRequest_tail:
  assumes "keeps api W" "writes_end api"
  shows "sends W k p (snd (SendDirectoryRefresh api k tok name fmask p))"
  unfolding SendDirectoryRefresh_def by (rule sends_send_directory [OF assms])

text \<open>\<open>acts W k f p q\<close>: from \<open>p\<close> to \<open>q\<close> by sends around one application of \<open>f\<close> to the session.\<close>

definition acts :: "('u \<Rightarrow> bool) \<Rightarrow> client_id \<Rightarrow> (client \<Rightarrow> client) \<Rightarrow> 'u prov \<Rightarrow> 'u prov \<Rightarrow> bool" where
  "acts W k f p q \<longleftrightarrow> (\<exists>p1. sends W k p p1 \<and> sends W k (updc k f p1) q)"

lemma acts_intro: "sends W k p p1 \<Longrightarrow> sends W k (updc k f p1) q \<Longrightarrow> acts W k f p q"
  by (auto simp: acts_def)

lemma acts_quiet:
  assumes "acts W k f p q" "\<And>c. c_handle (f c) = c_handle c"
  shows "quiet W k p q"
proof -
  obtain p1 where s: "sends W k p p1" "sends W k (updc k f p1) q" using assms(1) by (auto simp: acts_def)
  have "quiet W k p1 (updc k f p1)" using assms(2) by (rule quiet_updc)
  then show ?thesis using s sends_quiet quiet_trans by metis
qed

lemma acts_session:
  assumes "acts W k f p q" "alive p k"
  shows "\<exists>c. is_logged_in c = is_logged_in (getc p k) \<and> tokens c = tokens (getc p k) \<and>
    session_of k q = (is_logged_in (f c), tokens (f c))"
proof -
  obtain p1 where s: "sends W k p p1" "sends W k (updc k f p1) q" using assms(1) by (auto simp: acts_def)
  have a: "alive p1 k" using s(1) assms(2) core_sends_getc(3) by blast
  then obtain c where c: "objs p1 k = Some c" by (auto simp: alive_def)
  have "session_of k q = session_of k (updc k f p1)" using s(2) a by (intro session_of_sends) auto
  then have "session_of k q = (is_logged_in (f (getc p1 k)), tokens (f (getc p1 k)))"
    using c by (simp add: session_of_def)
  then show ?thesis using core_sends_getc(1,2) [OF s(1) assms(2)] by blast
qed

lemma acts_prefix: "sends W k p q \<Longrightarrow> acts W k f q r \<Longrightarrow> acts W k f p r"
  unfolding acts_def by (meson sends_trans)

lemma getc_cstat [simp]:
  "is_logged_in (getc (cstat j pc p) k) = is_logged_in (getc p k)"
  "tokens (getc (cstat j pc p) k) = tokens (getc p k)"
  "c_handle (getc (cstat j pc p) k) = c_handle (getc p k)"
  by (simp_all add: getc_def cstat_def updc_def split: option.splits)

lemma sends_then_cstat: "sends W k p q \<Longrightarrow> sends W k p (cstat k pc q)"
  using sends_trans [OF _ sends_cstat] .

lemma sends_then_SendClose:
  "keeps api W \<Longrightarrow> writes_end api \<Longrightarrow> sends W k p q \<Longrightarrow>
     sends W k p (snd (SendClose api k t s dt n a ss c tx q))"
  using sends_trans [OF _ sends_SendClose] .

lemma sends_then_RejectLogin:
  "keeps api W \<Longrightarrow> writes_end api \<Longrightarrow> sends W k p q \<Longrightarrow> sends W k p (snd (RejectLogin api k t q))"
  using sends_trans [OF _ sends_RejectLogin] .

lemma OnLoginRequest_effect:
  assumes k: "keeps api W" and w: "writes_end api"
  shows "sends W k p (snd (OnLoginRequest api k m p)) \<or>
    valid_login m \<and> acts W k (\<lambda>c. c\<lparr>is_logged_in := True, login_token := streamId m\<rparr>) p
      (snd (OnLoginRequest api k m p))"
proof -
  define p1 where "p1 = cstat k CLIENT_PC_MMT_LOGIN_RECEIVED p"
  obtain v p2 where d: "(if valid_login m then decode_login_attrib api m p1 else (False, p1)) = (v, p2)"
    by force
  have "sends W k p1 p2"
    using d sends_decode_login_attrib [OF k, where k = k and m = m and p = p1] by (auto split: if_splits)
  then have s2: "sends W k p p2" unfolding p1_def by (rule sends_trans [OF sends_cstat])
  have vl: "v \<Longrightarrow> valid_login m" using d by (auto split: if_splits)
  show ?thesis
  proof (cases v)
    case False
    have "OnLoginRequest api k m p = RejectLogin api k (streamId m) (cstat k CLIENT_PC_MMT_LOGIN_MALFORMED p2)"
      unfolding OnLoginRequest_def Let_def p1_def [symmetric] d using False by simp
    then show ?thesis
      using s2 by (simp add: sends_then_RejectLogin [OF k w] sends_then_cstat)
  next
    case True
    obtain ok p3 where a: "AcceptLogin api k m (streamId m) p2 = (ok, p3)" by force
    have s3: "sends W k p p3" using s2 sends_AcceptLogin [OF k w, where k = k and m = m and tok = "streamId m" and p = p2] a
      by (auto intro: sends_trans)
    have "snd (OnLoginRequest api k m p) = (if ok then
        updc k (\<lambda>c. c\<lparr>is_logged_in := True, login_token := streamId m\<rparr>) p3 else p3)"
      unfolding OnLoginRequest_def Let_def p1_def [symmetric] d using True a by simp
    then show ?thesis using s3 vl True by (auto intro: acts_intro)
  qed
qed

lemma OnDirectoryRequest_effect:
  assumes k: "keeps api W" and w: "writes_end api"
  shows "acts W k (\<lambda>c. c\<lparr>directory_token := streamId m\<rparr>) p (snd (OnDirectoryRequest api k m p))"
proof (rule acts_intro)
  show "sends W k p (cstat k CLIENT_PC_MMT_DIRECTORY_REQUEST_RECEIVED p)" by simp
  show "sends W k (updc k (\<lambda>c. c\<lparr>directory_token := streamId m\<rparr>)
      (cstat k CLIENT_PC_MMT_DIRECTORY_REQUEST_RECEIVED p)) (snd (OnDirectoryRequest api k m p))"
    using sends_OnDirectoryRequest_tail [OF k w] by (simp add: OnDirectoryRequest_def Let_def)
qed

lemma OnItemRequest_effect:
  assumes k: "keeps api W" and w: "writes_end api" and d: "delegate_keeps W del"
  shows "if is_logged_in (getc p k) \<and> streamId m \<notin> tokens (getc p k)
    then acts W k (\<lambda>c. c\<lparr>tokens := insert (streamId m) (tokens c)\<rparr>) p (snd (OnItemRequest api del k m p))
    else sends W k p (snd (OnItemRequest api del k m p))"
proof -
  have disp: "sends W k q (snd (lift_world (OnRequest del h v t s n a) q))" for q h v t s n a
    using d by (intro quiet_lift) (auto simp: delegate_keeps_def)
  show ?thesis
  proof (cases "is_logged_in (getc p k) \<and> streamId m \<notin> tokens (getc p k)")
    case False
    then show ?thesis
      by (auto simp: OnItemRequest_def Let_def intro!: sends_then_cstat sends_then_SendClose [OF k w])
  next
    case True
    define p2 where "p2 = cstat k (if RSSL_RQMF_STREAMING \<in> msg_flags m
                         then CLIENT_PC_ITEM_STREAMING_REQUEST_RECEIVED
                         else CLIENT_PC_ITEM_SNAPSHOT_REQUEST_RECEIVED)
        (cstat k CLIENT_PC_ITEM_REQUEST_RECEIVED p)"
    define p3 where "p3 = updc k (\<lambda>c. c\<lparr>tokens := insert (streamId m) (tokens c)\<rparr>) p2"
    obtain ok v p4 where pv: "ParseView api [] p3 = (ok, v, p4)" by (metis prod_cases3)
    have "sends W k p3 (snd (OnItemRequest api del k m p))"
      using True pv disp sends_trans [OF sends_ParseView [OF k pv] disp] ParseView_false [OF pv]
      by (auto simp: OnItemRequest_def Let_def p3_def p2_def)
    moreover have "sends W k p p2" unfolding p2_def by (intro sends_then_cstat sends_refl)
    ultimately show ?thesis using True unfolding p3_def by (simp add: acts_intro)
  qed
qed

lemma OnCloseMsg_effect:
  "if domainType m = RSSL_DMT_LOGIN \<and> is_logged_in (getc p k)
     then acts W k (\<lambda>c. c\<lparr>is_logged_in := False, login_token := 0\<rparr>) p (snd (OnCloseMsg k m p))
   else if domainType m = RSSL_DMT_MARKET_PRICE \<and> is_logged_in (getc p k) \<and>
       streamId m \<in> tokens (getc p k)
     then acts W k (\<lambda>c. c\<lparr>tokens := tokens c - {streamId m}\<rparr>) p (snd (OnCloseMsg k m p))
   else sends W k p (snd (OnCloseMsg k m p))"
proof -
  have small: "sends W k p (cstat k x p)" "sends W k p (cstat k x (cstat k y p))"
    "sends W k p (cstat k x (cstat k y (cstat k z p)))" for p x y z
    by (intro sends_then_cstat sends_refl)+
  show ?thesis
    using small acts_intro [OF small(2) sends_refl] acts_intro [OF small(2) sends_cstat]
    by (cases "domainType m") (auto simp: OnCloseMsg_def OnItemClose_def Let_def)
qed


text \<open>The whole message handler.\<close>

definition refines :: "('u \<Rightarrow> bool) \<Rightarrow> client_id \<Rightarrow> rssl_msg \<Rightarrow> 'u prov \<Rightarrow> 'u prov \<Rightarrow> bool" where
  "refines W k m p q \<longleftrightarrow> quiet W k p q \<and>
     (alive p k \<longrightarrow> session_step m (session_of k p) (session_of k q))"

lemma refines_sends:
  "sends W k p q \<Longrightarrow> session_step m (session_of k p) (session_of k p) \<Longrightarrow> refines W k m p q"
  by (simp add: refines_def sends_quiet session_of_sends)

lemma refines_acts:
  assumes "acts W k f p q" and "\<And>c. c_handle (f c) = c_handle c"
    and "\<And>c. is_logged_in c = is_logged_in (getc p k) \<Longrightarrow> tokens c = tokens (getc p k) \<Longrightarrow>
      session_step m (session_of k p) (is_logged_in (f c), tokens (f c))"
  shows "refines W k m p q"
  using acts_quiet [OF assms(1,2)] acts_session [OF assms(1)] assms(3)
  by (auto simp: refines_def)

lemma session_step_open:
  "msgClass m = RSSL_MC_REQUEST \<Longrightarrow> domainType m = RSSL_DMT_MARKET_PRICE \<Longrightarrow>
     session_step m (l, ts) (l, if l then insert (streamId m) ts else ts)"
  using open_item [of m ts] ignore [of False m ts] by (cases l) auto

lemma session_step_close:
  "msgClass m = RSSL_MC_CLOSE \<Longrightarrow> domainType m = RSSL_DMT_MARKET_PRICE \<Longrightarrow>
     session_step m (l, ts) (l, if l then ts - {streamId m} else ts)"
  using close_item [of m ts] ignore [of False m ts] by (cases l) auto

lemma refines_OnRequestMsg:
  assumes k: "keeps api W" and w: "writes_end api" and d: "delegate_keeps W del"
    and m: "msgClass m = RSSL_MC_REQUEST"
  shows "refines W k m p (snd (OnRequestMsg api del k m p))"
proof -
  define p1 where "p1 = cstat k CLIENT_PC_REQUEST_MSGS_RECEIVED p"
  have pre: "sends W k p p1" unfolding p1_def by simp
  have lg: "is_logged_in (getc p1 k) = is_logged_in (getc p k)" "tokens (getc p1 k) = tokens (getc p k)"
    by (simp_all add: p1_def)
  have stay: "session_step m (session_of k p) (session_of k p)"
    if "domainType m \<noteq> RSSL_DMT_MARKET_PRICE"
    using that m by (auto simp: session_of_def intro: ignore)
  show ?thesis
  proof (cases "domainType m")
    case RSSL_DMT_LOGIN
    then have e: "OnRequestMsg api del k m p = OnLoginRequest api k m p1"
      by (simp add: OnRequestMsg_def Let_def p1_def)
    from OnLoginRequest_effect [OF k w, of k p1 m] show ?thesis
    proof
      assume "sends W k p1 (snd (OnLoginRequest api k m p1))"
      then show ?thesis using e stay RSSL_DMT_LOGIN by (simp add: refines_sends sends_trans [OF pre])
    next
      assume a: "valid_login m \<and> acts W k (\<lambda>c. c\<lparr>is_logged_in := True, login_token := streamId m\<rparr>) p1
        (snd (OnLoginRequest api k m p1))"
      show ?thesis
        by (rule refines_acts [OF acts_prefix [OF pre conjunct2 [OF a], folded e]])
          (use a m RSSL_DMT_LOGIN in \<open>auto simp: session_of_def intro: login\<close>)
    qed
  next
    case RSSL_DMT_SOURCE
    then have e: "OnRequestMsg api del k m p = OnDirectoryRequest api k m p1"
      by (simp add: OnRequestMsg_def Let_def p1_def)
    show ?thesis
      by (rule refines_acts [OF acts_prefix [OF pre OnDirectoryRequest_effect [OF k w,
          where k = k and m = m and p = p1], folded e]])
        (use stay RSSL_DMT_SOURCE in \<open>auto simp: session_of_def\<close>)
  next
    case RSSL_DMT_MARKET_PRICE
    then have e: "OnRequestMsg api del k m p = OnItemRequest api del k m p1"
      by (simp add: OnRequestMsg_def Let_def p1_def)
    note step = session_step_open [OF m RSSL_DMT_MARKET_PRICE, of "is_logged_in (getc p k)" "tokens (getc p k)"]
    show ?thesis
    proof (cases "is_logged_in (getc p1 k) \<and> streamId m \<notin> tokens (getc p1 k)")
      case True
      then have a: "acts W k (\<lambda>c. c\<lparr>tokens := insert (streamId m) (tokens c)\<rparr>) p1
          (snd (OnItemRequest api del k m p1))"
        using OnItemRequest_effect [OF k w d, of p1 k m] by simp
      show ?thesis
        by (rule refines_acts [OF acts_prefix [OF pre a, folded e]])
          (use True step lg in \<open>auto simp: session_of_def\<close>)
    next
      case False
      then have "sends W k p1 (snd (OnItemRequest api del k m p1))"
        using OnItemRequest_effect [OF k w d, of p1 k m] by (simp split: if_splits)
      then show ?thesis using e False step lg
        by (intro refines_sends) (auto simp: session_of_def insert_absorb intro: sends_trans [OF pre])
    qed
  qed (use pre stay in \<open>auto simp: OnRequestMsg_def Let_def p1_def OnDictionaryRequest_def
      intro!: refines_sends sends_then_cstat sends_then_SendClose [OF k w]\<close>)
qed

lemma refines_OnCloseMsg:
  assumes m: "msgClass m = RSSL_MC_CLOSE"
  shows "refines W k m p (snd (OnCloseMsg k m p))"
proof (cases "domainType m = RSSL_DMT_LOGIN")
  case True
  have step: "session_step m (l, ts) (False, ts)" for l ts using m True by (rule logout)
  show ?thesis
  proof (cases "is_logged_in (getc p k)")
    case l: True
    then have a: "acts W k (\<lambda>c. c\<lparr>is_logged_in := False, login_token := 0\<rparr>) p (snd (OnCloseMsg k m p))"
      using OnCloseMsg_effect [of m p k W] True by simp
    show ?thesis by (rule refines_acts [OF a]) (auto simp: session_of_def step)
  next
    case False
    then show ?thesis using OnCloseMsg_effect [of m p k W] True step
      by (intro refines_sends) (auto simp: session_of_def)
  qed
next
  case False
  note step = session_step_close [OF m, of "is_logged_in (getc p k)" "tokens (getc p k)"]
  show ?thesis
  proof (cases "domainType m = RSSL_DMT_MARKET_PRICE \<and> is_logged_in (getc p k) \<and>
      streamId m \<in> tokens (getc p k)")
    case True
    then have a: "acts W k (\<lambda>c. c\<lparr>tokens := tokens c - {streamId m}\<rparr>) p (snd (OnCloseMsg k m p))"
      using OnCloseMsg_effect [of m p k W] by simp
    show ?thesis by (rule refines_acts [OF a]) (use step True in \<open>auto simp: session_of_def\<close>)
  next
    case f: False
    have "sends W k p (snd (OnCloseMsg k m p))"
      using OnCloseMsg_effect [of m p k W] f False by (simp split: if_splits)
    moreover have "session_step m (session_of k p) (session_of k p)"
      using step f False by (cases "domainType m = RSSL_DMT_MARKET_PRICE")
        (auto simp: session_of_def split: if_splits intro: ignore)
    ultimately show ?thesis by (rule refines_sends)
  qed
qed

lemma refines_client_OnMsg:
  assumes k: "keeps api W" and w: "writes_end api" and d: "delegate_keeps W del"
  shows "refines W k m p (snd (client_OnMsg api del k m p))"
proof -
  define p1 where "p1 = cstat k CLIENT_PC_RSSL_MSGS_RECEIVED p"
  have pre: "sends W k p p1" unfolding p1_def by simp
  have chain: "refines W k m p1 q \<Longrightarrow> refines W k m p q" for q
    using quiet_trans [OF sends_quiet [OF pre]] pre
    by (auto simp: refines_def session_of_def p1_def)
  have reject: "refines W k m p (snd (SendClose api k t s dt n a ss c tx
      (cstat k CLIENT_PC_RSSL_MSGS_REJECTED p1)))"
    if "msgClass m \<noteq> RSSL_MC_REQUEST" "msgClass m \<noteq> RSSL_MC_CLOSE" for t s dt n a ss c tx
    using that by (intro refines_sends sends_then_SendClose [OF k w] sends_then_cstat pre)
      (auto simp: session_of_def intro: ignore)
  show ?thesis
    using chain [OF refines_OnRequestMsg [OF k w d]] chain [OF refines_OnCloseMsg] reject
    by (cases "msgClass m") (simp_all add: client_OnMsg_def Let_def p1_def)
qed

subsection \<open>Who owns a buffer\<close>

text \<open>\<open>settles hs p r\<close>: when a sender ends with the result \<open>r\<close>, the buffers held are \<open>hs\<close>; or the library had no
  buffers for the write, which is counted, and one more buffer is held although the sender reports success. (A
  sender may also hang or fault.)\<close>

definition settles :: "nat list \<Rightarrow> 'u prov \<Rightarrow> bool \<times> 'u prov \<Rightarrow> bool" where
  "settles hs p r \<longleftrightarrow> (case r of (ok, q) \<Rightarrow> \<not> fault q \<longrightarrow>
     (p_stats q PROVIDER_PC_RSSL_WRITE_NO_BUFFERS = p_stats p PROVIDER_PC_RSSL_WRITE_NO_BUFFERS \<and> held q = hs) \<or>
     (p_stats q PROVIDER_PC_RSSL_WRITE_NO_BUFFERS = p_stats p PROVIDER_PC_RSSL_WRITE_NO_BUFFERS + 1 \<and> ok \<and>
       (\<exists>b. held q = b # hs)))"

lemma release_buffer_simps [simp]:
  "held (release_buffer api b p) = remove1 (buf_id b) (held p)"
  "p_stats (release_buffer api b p) = p_stats p" "fault (release_buffer api b p) = fault p"
  by (simp_all add: release_buffer_def disown_def)

lemma fault_cstat_mono: "\<not> fault (cstat k pc p) \<Longrightarrow> \<not> fault p"
  by (simp add: fault_cstat)

lemma settles_submit_or:
  assumes h: "held p = buf_id b # hs"
    and c: "\<And>q. held (snd (cleanup q)) = remove1 (buf_id b) (held q)"
      "\<And>q. p_stats (snd (cleanup q)) = p_stats q" "\<And>q. fault q \<Longrightarrow> fault (snd (cleanup q))"
    and same: "buf_id b' = buf_id b"
  shows "settles hs p (submit_or api k b' pc cleanup p)"
proof -
  obtain st q where sub: "Submit api (c_handle (getc p k)) b' p = (st, q)" by force
  show ?thesis
  proof (cases "st = 0")
    case True
    have "\<not> fault (snd (cleanup q)) \<Longrightarrow> \<not> fault q" using c(3) by blast
    then show ?thesis using sub True Submit_held [OF sub] c(1,2) h same
      by (auto simp: settles_def submit_or_def client_Submit_def case_prod_beta)
  next
    case False
    then show ?thesis using sub Submit_held [OF sub] h same
      by (auto simp: settles_def submit_or_def client_Submit_def fault_cstat split: if_splits)
  qed
qed

lemma get_buffer_cases:
  assumes "get_buffer api h p = (r, p1)"
  shows "case r of None \<Rightarrow> held p1 = held p | Some b \<Rightarrow> held p1 = buf_id b # held p"
    and "p_stats p1 = p_stats p" and "fault p1 = fault p"
  using assms by (auto simp: get_buffer_def split: prod.splits option.splits)

lemma keeps_True: "keeps api (\<lambda>_. True)"
  by (simp add: keeps_def)

lemma settles_SendClose: "settles (held p) p (SendClose api k tok sid mt name ai ss code text p)"
proof -
  obtain r p1 where g: "get_buffer api (c_handle (getc p k)) p = (r, p1)" by force
  note gc = get_buffer_cases [OF g]
  show ?thesis
  proof (cases r)
    case None
    then show ?thesis using g gc by (simp add: SendClose_def settles_def)
  next
    case (Some b)
    obtain ok it n u where c: "WriteRawClose api (cfg p1) (rwf_version (chanp api p1 (c_handle (getc p k))))
        (close_msg tok sid mt name ai ss code text) (buf_length b) (world p1) = (ok, it, n, u)"
      by (metis prod_cases4)
    let ?p2 = "p1\<lparr>world := u\<rparr>" and ?b = "b\<lparr>buf_length := n, buf_data := Encoded it\<rparr>"
    have "settles (held p) ?p2 (submit_or api k ?b CLIENT_PC_ITEM_CLOSED
        (\<lambda>q. (False, release_buffer api b q)) ?p2)"
      using gc(1) Some by (intro settles_submit_or) auto
    then show ?thesis
      using g Some c gc by (auto simp: SendClose_def Let_def settles_def)
  qed
qed

lemma settles_send_directory: "settles (held p) p (send_directory api k m name fmask action p)"
proof -
  obtain r p1 where g: "get_buffer api (c_handle (getc p k)) p = (r, p1)" by force
  note gc = get_buffer_cases [OF g]
  show ?thesis
  proof (cases r)
    case None
    then show ?thesis using g gc by (simp add: send_directory_def Let_def settles_def)
  next
    case (Some b)
    define steps where "steps = seq_all [penc (enc api (SetEncodeIteratorBuffer (buf_length b))),
           penc_version api (c_handle (getc p k)),
           penc (enc_exp api RSSL_RET_ENCODE_CONTAINER (EncodeMsgInit m MAX_MSG_SIZE)),
           GetDirectoryMap api name fmask action,
           penc (enc api EncodeMsgComplete)]"
    have "encodes (\<lambda>_. True) steps" unfolding steps_def
      by (intro encodes_seq) (simp add: keeps_True encodes_penc encodes_penc_version stable_enc
          stable_enc_exp encodes_GetDirectoryMap)
    moreover obtain ok it p2 where st: "steps ([], p1) = (ok, it, p2)" by (metis prod_cases3)
    ultimately obtain u st2 where p2: "p2 = p1\<lparr>world := u, p_stats := st2\<rparr>"
        "st2 PROVIDER_PC_RSSL_WRITE_NO_BUFFERS = p_stats p1 PROVIDER_PC_RSSL_WRITE_NO_BUFFERS"
      using encodesD [of "\<lambda>_. True" steps "[]" p1 ok it p2] by blast
    obtain v w where v: "rsslValidateMsg api m (world p2) = (v, w)" by force
    let ?p3 = "cstat k CLIENT_PC_MMT_DIRECTORY_VALIDATED (p2\<lparr>world := w\<rparr>)"
    have "settles (held p) ?p3 (submit_or api k (encoded_buffer api b it p2)
        CLIENT_PC_MMT_DIRECTORY_SENT (\<lambda>q. (False, release_buffer api b q)) ?p3)"
      using gc(1) Some p2 by (intro settles_submit_or) (auto simp: encoded_buffer_def)
    then show ?thesis
      using g Some st [unfolded steps_def] v gc p2
      by (auto simp: send_directory_def Let_def settles_def simp del: seq_all.simps)
  qed
qed

lemma settles_RejectLogin: "settles (held p) p (RejectLogin api k tok p)"
proof -
  obtain r p1 where g: "get_buffer api (c_handle (getc p k)) p = (r, p1)" by force
  note gc = get_buffer_cases [OF g]
  show ?thesis
  proof (cases r)
    case None
    then show ?thesis using g gc by (simp add: RejectLogin_def Let_def settles_def)
  next
    case (Some b)
    define steps where "steps = seq_all [penc (enc api (SetEncodeIteratorBuffer (buf_length b))),
           penc_version api (c_handle (getc p k)), penc (enc api (EncodeMsg (reject_response tok)))]"
    have "encodes (\<lambda>_. True) steps" unfolding steps_def
      by (intro encodes_seq) (simp add: keeps_True encodes_penc encodes_penc_version stable_enc)
    moreover obtain ok it p2 where st: "steps ([], p1) = (ok, it, p2)" by (metis prod_cases3)
    ultimately obtain u st2 where p2: "p2 = p1\<lparr>world := u, p_stats := st2\<rparr>"
        "st2 PROVIDER_PC_RSSL_WRITE_NO_BUFFERS = p_stats p1 PROVIDER_PC_RSSL_WRITE_NO_BUFFERS"
      using encodesD [of "\<lambda>_. True" steps "[]" p1 ok it p2] by blast
    obtain v w where v: "rsslValidateMsg api (reject_response tok) (world p2) = (v, w)" by force
    let ?p3 = "cstat k CLIENT_PC_MMT_LOGIN_RESPONSE_VALIDATED (p2\<lparr>world := w\<rparr>)"
    have "settles (held p) ?p3 (submit_or api k (encoded_buffer api b it p2)
        CLIENT_PC_MMT_LOGIN_REJECTED
        (\<lambda>q. (False, release_buffer api b (cstat k CLIENT_PC_MMT_LOGIN_EXCEPTION q))) ?p3)"
      using gc(1) Some p2 by (intro settles_submit_or) (auto simp: encoded_buffer_def fault_cstat)
    then show ?thesis
      using g Some st [unfolded steps_def] v gc p2
      by (auto simp: RejectLogin_def Let_def settles_def simp del: seq_all.simps)
  qed
qed

lemma settles_SendReply: "settles (held p) p (client_SendReply api k tok data p)"
proof (cases "tok \<in> tokens (getc p k)")
  case False
  then show ?thesis by (simp add: client_SendReply_def settles_def)
next
  case True
  define p0 where "p0 = updc k (\<lambda>c. c\<lparr>tokens := tokens c - {tok}\<rparr>) p"
  obtain r p1 where g: "get_buffer api (c_handle (getc p0 k)) p0 = (r, p1)" by force
  note gc = get_buffer_cases [OF g]
  have p0: "held p0 = held p" "p_stats p0 = p_stats p" by (simp_all add: p0_def)
  show ?thesis
  proof (cases r)
    case None
    then show ?thesis using g gc True p0
      by (simp add: client_SendReply_def Let_def settles_def p0_def [symmetric])
  next
    case (Some b)
    let ?p2 = "if length data \<le> MAX_MSG_SIZE then p1 else p1\<lparr>fault := True\<rparr>"
    let ?b = "b\<lparr>buf_length := of_nat (length data), buf_data := Raw data\<rparr>"
    have "settles (held p) ?p2 (submit_or api k ?b CLIENT_PC_ITEM_SENT
        (\<lambda>q. (False, release_buffer api b q)) ?p2)"
      using gc(1) Some p0 by (intro settles_submit_or) auto
    then show ?thesis
      using g Some gc True p0
      by (auto simp: client_SendReply_def Let_def settles_def p0_def [symmetric])
  qed
qed

text \<open>\<open>AcceptLogin\<close> loses the buffer on one path: where the encoding of the first element is
  refused.\<close>

lemma AcceptLogin_ownership:
  "settles (held p) p (AcceptLogin api k m tok p) \<or>
   (\<exists>b u st. AcceptLogin api k m tok p = (False, p\<lparr>world := u, p_stats := st, held := b # held p\<rparr>) \<and>
     st PROVIDER_PC_RSSL_WRITE_NO_BUFFERS = p_stats p PROVIDER_PC_RSSL_WRITE_NO_BUFFERS \<and>
     (\<exists>it v rc. rsslEncode api it (EncodeElementEntry RSSL_ENAME_ALLOW_SUSPECT_DATA RSSL_DT_UINT (PUInt 0)) v = (rc, u) \<and>
        rc \<noteq> RSSL_RET_SUCCESS))"
proof -
  obtain r p1 where g: "get_buffer api (c_handle (getc p k)) p = (r, p1)" by force
  note gc = get_buffer_cases [OF g]
  show ?thesis
  proof (cases r)
    case None
    then show ?thesis using g gc by (simp add: AcceptLogin_def Let_def settles_def)
  next
    case (Some b)
    define one where "one = penc (enc api
      (EncodeElementEntry RSSL_ENAME_ALLOW_SUSPECT_DATA RSSL_DT_UINT (PUInt 0)))"
    note k = keeps_True [of api]
    have e: "encodes (\<lambda>_. True) one" unfolding one_def by (simp add: k encodes_penc stable_enc)
    have p1: "\<exists>u. p1 = p\<lparr>world := u, held := buf_id b # held p\<rparr>"
      using g Some by (auto simp: get_buffer_def split: prod.splits option.splits)
    obtain ok it p2 where a: "seq_all (accept_login_start api (c_handle (getc p k)) b
        (login_response m tok)) ([], p1) = (ok, it, p2)" by (metis prod_cases3)
    obtain u2 st2 where p2: "p2 = p1\<lparr>world := u2, p_stats := st2\<rparr>"
      "st2 PROVIDER_PC_RSSL_WRITE_NO_BUFFERS = p_stats p1 PROVIDER_PC_RSSL_WRITE_NO_BUFFERS"
      using encodesD [OF encodes_accept_login_start [OF k] a] by blast
    obtain ok3 it3 p3 where b: "one (it, p2) = (ok3, it3, p3)" by (metis prod_cases3)
    obtain u3 st3 where p3: "p3 = p2\<lparr>world := u3, p_stats := st3\<rparr>"
      "st3 PROVIDER_PC_RSSL_WRITE_NO_BUFFERS = p_stats p2 PROVIDER_PC_RSSL_WRITE_NO_BUFFERS"
      using encodesD [OF e b] by blast
    obtain ok4 it4 p4 where c: "seq_all (accept_login_rest api) (it3, p3) = (ok4, it4, p4)"
      by (metis prod_cases3)
    obtain u4 st4 where p4: "p4 = p3\<lparr>world := u4, p_stats := st4\<rparr>"
      "st4 PROVIDER_PC_RSSL_WRITE_NO_BUFFERS = p_stats p3 PROVIDER_PC_RSSL_WRITE_NO_BUFFERS"
      using encodesD [OF encodes_accept_login_rest [OF k] c] by blast
    have sub: "settles (held p) p4 (submit_or api k (encoded_buffer api b it4 p4)
        CLIENT_PC_MMT_LOGIN_ACCEPTED
        (\<lambda>q. (False, release_buffer api b (cstat k CLIENT_PC_MMT_LOGIN_EXCEPTION q))) p4)"
      using gc(1) Some p2 p3 p4 by (intro settles_submit_or) (auto simp: encoded_buffer_def fault_cstat)
    show ?thesis
    proof (cases "ok \<and> \<not> ok3")
      case True
      then have "AcceptLogin api k m tok p = (False, p3)" using g Some a b [unfolded one_def]
        by (simp add: AcceptLogin_def Let_def del: seq_all.simps)
      moreover have "p3 = p\<lparr>world := u3, p_stats := st3, held := buf_id b # held p\<rparr>"
        "st3 PROVIDER_PC_RSSL_WRITE_NO_BUFFERS = p_stats p PROVIDER_PC_RSSL_WRITE_NO_BUFFERS"
        using p1 p2 p3 by auto
      moreover have "\<exists>it v rc. rsslEncode api it
          (EncodeElementEntry RSSL_ENAME_ALLOW_SUSPECT_DATA RSSL_DT_UINT (PUInt 0)) v = (rc, u3) \<and> rc \<noteq> RSSL_RET_SUCCESS"
      proof -
        obtain rc w where e: "rsslEncode api it
          (EncodeElementEntry RSSL_ENAME_ALLOW_SUSPECT_DATA RSSL_DT_UINT (PUInt 0)) (world p2) = (rc, w)" by force
        then have "rc \<noteq> RSSL_RET_SUCCESS" "world p3 = w"
          using b [unfolded one_def] True by (auto simp: penc_def enc_def enc_exp_def)
        then show ?thesis using e p3(1) by auto
      qed
      ultimately show ?thesis by blast
    next
      case False
      then show ?thesis
        using g Some a b [unfolded one_def] c sub gc p2 p3 p4
        by (auto simp: AcceptLogin_def Let_def settles_def simp del: seq_all.simps)
    qed
  qed
qed

subsection \<open>Replies and dispatch\<close>

lemma getc_core:
  assumes "map_option core (objs q k) = map_option core (objs p k)" "alive p k"
  shows "tokens (getc q k) = tokens (getc p k)"
proof -
  obtain c where c: "objs p k = Some c" using assms(2) by (auto simp: alive_def)
  then obtain d where "objs q k = Some d" "core d = core c" using assms(1) by auto
  then show ?thesis using c core_eqD(2) [of d c] by (simp add: getc_def)
qed

lemma tokens_SendReply:
  assumes w: "writes_end api" and a: "alive p k"
  shows "tokens (getc (snd (client_SendReply api k tok data p)) k) = tokens (getc p k) - {tok}"
proof (cases "tok \<in> tokens (getc p k)")
  case False
  then show ?thesis by (simp add: client_SendReply_def)
next
  case True
  note k = keeps_True [of api]
  define p0 where "p0 = updc k (\<lambda>c. c\<lparr>tokens := tokens c - {tok}\<rparr>) p"
  have p0: "alive p0 k" "tokens (getc p0 k) = tokens (getc p k) - {tok}"
    using a by (auto simp: p0_def) (auto simp: alive_def)
  obtain r p1 where g: "get_buffer api (c_handle (getc p0 k)) p0 = (r, p1)" by force
  have s1: "sends (\<lambda>_. True) k p0 p1" using sends_get_buffer [OF k g] .
  have "map_option core (objs (snd (client_SendReply api k tok data p)) k) = map_option core (objs p0 k)"
  proof (cases r)
    case None
    then show ?thesis using g True s1
      by (simp add: client_SendReply_def Let_def p0_def [symmetric] sends_def)
  next
    case (Some b)
    let ?p2 = "if length data \<le> MAX_MSG_SIZE then p1 else p1\<lparr>fault := True\<rparr>"
    let ?b = "b\<lparr>buf_length := of_nat (length data), buf_data := Raw data\<rparr>"
    have e: "client_SendReply api k tok data p = submit_or api k ?b CLIENT_PC_ITEM_SENT
        (\<lambda>q. (False, release_buffer api b q)) ?p2"
      using g True Some by (simp add: client_SendReply_def Let_def p0_def [symmetric])
    have "sends (\<lambda>_. True) k ?p2 (snd (client_SendReply api k tok data p))"
      unfolding e by (rule sends_submit_or [OF k w]) (simp add: sends_release_buffer [OF k])
    then have "map_option core (objs (snd (client_SendReply api k tok data p)) k) =
        map_option core (objs p1 k)"
      by (simp add: sends_def split: if_splits)
    then show ?thesis using s1 by (simp add: sends_def)
  qed
  then show ?thesis using p0 getc_core by metis
qed

lemma OnItemRequest_dispatch:
  assumes a: "alive p k" and l: "is_logged_in (getc p k)" and t: "streamId m \<notin> tokens (getc p k)"
    and run: "OnItemRequest api del k m p = (ok, q)"
  shows "\<exists>u. (RSSL_RQMF_HAS_VIEW \<notin> msg_flags m \<longrightarrow> u = world p) \<and>
    (ok, world q) = OnRequest del (c_handle (getc p k)) (rwf_version (chan api (c_handle (getc p k)) u))
      (streamId m) (key_serviceId (msgKey m)) (cbuf_string (key_name (msgKey m)))
      (RSSL_RQMF_MSG_KEY_IN_UPDATES \<in> msg_flags m) u"
proof -
  define p3 where "p3 = updc k (\<lambda>c. c\<lparr>tokens := insert (streamId m) (tokens c)\<rparr>)
      (cstat k (if RSSL_RQMF_STREAMING \<in> msg_flags m
                then CLIENT_PC_ITEM_STREAMING_REQUEST_RECEIVED
                else CLIENT_PC_ITEM_SNAPSHOT_REQUEST_RECEIVED)
        (cstat k CLIENT_PC_ITEM_REQUEST_RECEIVED p))"
  have w3: "world p3 = world p" by (simp add: p3_def)
  obtain v vs p4 where pv: "ParseView api [] p3 = (v, vs, p4)" by (metis prod_cases3)
  define q0 where "q0 = (if RSSL_RQMF_HAS_VIEW \<in> msg_flags m \<and> containerType m = RSSL_DT_ELEMENT_LIST
    then p4 else p3)"
  have "OnItemRequest api del k m p = lift_world (OnRequest del (c_handle (getc p k))
      (rwf_version (chanp api q0 (c_handle (getc p k)))) (streamId m) (key_serviceId (msgKey m))
      (cbuf_string (key_name (msgKey m))) (RSSL_RQMF_MSG_KEY_IN_UPDATES \<in> msg_flags m)) q0"
    using l t pv ParseView_false [OF pv] by (auto simp: OnItemRequest_def Let_def p3_def q0_def)
  then show ?thesis
    using run w3 by (intro exI [of _ "world q0"]) (auto simp: q0_def lift_world_def chanp_def split: prod.splits)
qed

lemma OnItemRequest_reissue:
  assumes "is_logged_in (getc p k)" "streamId m \<in> tokens (getc p k)"
    and "OnItemRequest api del k m p = (ok, q)"
  shows "ok" and "world q = world p" and "held q = held p" and "p_stats q = p_stats p"
  using assms by (auto simp: OnItemRequest_def Let_def)

lemma OnItemRequest_view_unused:
  "OnItemRequest api (del\<lparr>OnRequest_view := g\<rparr>) k m p = OnItemRequest api del k m p"
proof -
  have f: "ParseView api [] q = (False, [], snd (snd (ParseView api [] q)))" for q
    using ParseView_false [of api "[]" q] by (cases "ParseView api [] q") auto
  show ?thesis
    unfolding OnItemRequest_def Let_def by (subst (1 2) f) simp
qed

lemma OnItemRequest_logged_out:
  "\<not> is_logged_in (getc p k) \<Longrightarrow> OnItemRequest api d1 k m p = OnItemRequest api d2 k m p"
  by (simp add: OnItemRequest_def Let_def)

text \<open>A run of the handler over a list of messages, stopped by the first one that asks for the
  connection to be aborted.\<close>

fun client_run :: "'u rssl \<Rightarrow> 'u delegate \<Rightarrow> client_id \<Rightarrow> rssl_msg list \<Rightarrow> 'u prov \<Rightarrow> bool \<times> 'u prov" where
  "client_run api del k [] p = (True, p)"
| "client_run api del k (m # ms) p = (case client_OnMsg api del k m p of (ok, q) \<Rightarrow>
     if ok then client_run api del k ms q else (False, q))"

definition is_login :: "rssl_msg \<Rightarrow> bool" where
  "is_login m \<longleftrightarrow> msgClass m = RSSL_MC_REQUEST \<and> domainType m = RSSL_DMT_LOGIN \<and> valid_login m"

lemma session_step_no_login:
  "session_step m (False, ts) s' \<Longrightarrow> \<not> is_login m \<Longrightarrow> s' = (False, ts)"
  by (auto simp: is_login_def elim: session_stepE)

lemma client_OnMsg_delegate_unused:
  "\<not> is_logged_in (getc p k) \<Longrightarrow> client_OnMsg api d1 k m p = client_OnMsg api d2 k m p"
  by (auto simp: client_OnMsg_def OnRequestMsg_def Let_def OnItemRequest_logged_out [of _ _ api d1 m d2]
      split: msg_class.split domain_type.split)

lemma quiet_alive: "quiet W k p q \<Longrightarrow> alive q j = alive p j"
  by (auto simp: quiet_def dest: shape_eqD(8) [of q p j])

lemma client_run_logged_out:
  assumes w: "writes_end api"
  shows "alive p k \<Longrightarrow> \<not> is_logged_in (getc p k) \<Longrightarrow> \<forall>m \<in> set ms. \<not> is_login m \<Longrightarrow>
    session_of k (snd (client_run api d1 k ms p)) = session_of k p \<and>
    client_run api d1 k ms p = client_run api d2 k ms p"
proof (induction ms arbitrary: p)
  case Nil
  show ?case by simp
next
  case (Cons m ms)
  obtain ok q where run: "client_OnMsg api d1 k m p = (ok, q)" by force
  have run2: "client_OnMsg api d2 k m p = (ok, q)"
    using run client_OnMsg_delegate_unused [OF Cons.prems(2)] by metis
  have r: "refines (\<lambda>_. True) k m p q"
    using refines_client_OnMsg [OF keeps_True w, of d1 k m p] run by (simp add: delegate_keeps_def)
  then have s: "session_of k q = session_of k p"
    using Cons.prems session_step_no_login [of m "tokens (getc p k)" "session_of k q"]
    by (auto simp: refines_def session_of_def)
  have "alive q k" using r Cons.prems(1) quiet_alive [of "\<lambda>_. True" k p q k]
    by (simp add: refines_def)
  moreover have "\<not> is_logged_in (getc q k)" using s Cons.prems(2) by (simp add: session_of_def)
  moreover have "\<forall>m \<in> set ms. \<not> is_login m" using Cons.prems(3) by simp
  ultimately have "session_of k (snd (client_run api d1 k ms q)) = session_of k q \<and>
      client_run api d1 k ms q = client_run api d2 k ms q"
    by (intro Cons.IH)
  with s show ?case using run run2 by (cases ok) auto
qed

subsection \<open>Directory requests for another service, closing a session\<close>

lemma seq_all_penc_cfg:
  "encodes W (seq_all fs) \<Longrightarrow> seq_all fs (it, p) = (ok, it', q) \<Longrightarrow> cfg q = cfg p"
  using encodesD [of W "seq_all fs" it p ok it' q] by auto

lemma send_directory_mismatch:
  assumes "name \<noteq> service_name (cfg p)"
  shows "\<not> fst (send_directory api k m (Some name) fmask action p)"
proof -
  obtain r p1 where g: "get_buffer api (c_handle (getc p k)) p = (r, p1)" by force
  show ?thesis
  proof (cases r)
    case None
    then show ?thesis using g by (simp add: send_directory_def Let_def)
  next
    case (Some b)
    define pre where "pre = [penc (enc api (SetEncodeIteratorBuffer (buf_length b))),
           penc_version api (c_handle (getc p k)),
           penc (enc_exp api RSSL_RET_ENCODE_CONTAINER (EncodeMsgInit m MAX_MSG_SIZE))]"
    define post where "post = [GetDirectoryMap api (Some name) fmask action, penc (enc api EncodeMsgComplete)]"
    have e: "encodes (\<lambda>_. True) (seq_all pre)" unfolding pre_def
      by (intro encodes_seq) (simp add: keeps_True encodes_penc encodes_penc_version stable_enc stable_enc_exp)
    obtain ok1 it1 q1 where run: "seq_all pre ([], p1) = (ok1, it1, q1)" by (metis prod_cases3)
    have "cfg q1 = cfg p" using seq_all_penc_cfg [OF e run] g
      by (auto simp: get_buffer_def split: prod.splits option.splits)
    then have "\<not> fst (GetDirectoryMap api (Some name) fmask action (it1, q1))"
      using assms by (simp add: GetDirectoryMap_mismatch)
    then have "\<not> fst (seq_all post (it1, q1))"
      unfolding post_def by (auto split: prod.splits)
    then have "\<not> fst (seq_all (pre @ post) ([], p1))"
      using run by (cases ok1) (simp_all add: seq_all_append)
    then show ?thesis
      using g Some unfolding pre_def post_def
      by (auto simp: send_directory_def Let_def simp del: seq_all.simps split: prod.splits)
  qed
qed

lemma cfg_small [simp]: "cfg (updc k f p) = cfg p" "cfg (cstat k pc p) = cfg p"
  by (auto simp: updc_def cstat_def split: option.splits)

lemma Close_client_session:
  assumes w: "writes_end api" and a: "alive p k"
  shows "session_of k (snd (Close_client api k p)) =
    (False, if is_logged_in (getc p k) then {} else tokens (getc p k))"
proof (cases "is_logged_in (getc p k)")
  case False
  then show ?thesis by (simp add: Close_client_def session_of_def)
next
  case True
  define p1 where "p1 = updc k (\<lambda>c. c\<lparr>is_logged_in := False, tokens := {}\<rparr>) p"
  obtain c where c: "objs p k = Some c" using a by (auto simp: alive_def)
  then have p1: "alive p1 k" "session_of k p1 = (False, {})"
    by (auto simp: p1_def session_of_def) (simp add: alive_def)
  have "sends (\<lambda>_. True) k p1 (snd (Close_client api k p))"
    using True by (simp add: Close_client_def p1_def sends_SendClose [OF keeps_True w])
  then show ?thesis using session_of_sends p1 True by fastforce
qed

subsection \<open>Properties\<close>

definition toy_delegate :: "'u delegate" where
  "toy_delegate = \<lparr>OnRequest = (\<lambda>h v t s n a u. (True, u)),
     OnRequest_view = (\<lambda>h v t s n a l u. (True, u))\<rparr>"

definition toy_login :: rssl_msg where
  "toy_login = init_msg\<lparr>msgClass := RSSL_MC_REQUEST, domainType := RSSL_DMT_LOGIN, streamId := 1,
     msg_flags := {RSSL_RQMF_STREAMING},
     msgKey := init_key\<lparr>key_flags := {RSSL_MKF_HAS_NAME, RSSL_MKF_HAS_NAME_TYPE}\<rparr>\<rparr>"

definition toy_item :: rssl_msg where
  "toy_item = init_msg\<lparr>msgClass := RSSL_MC_REQUEST, domainType := RSSL_DMT_MARKET_PRICE,
     streamId := 6, msg_flags := {RSSL_RQMF_STREAMING}\<rparr>"

abbreviation "toy_api \<equiv> toy no_data init_msg"

definition toy_logged_in :: "toy_world prov" where
  "toy_logged_in = toy_prov\<lparr>objs := [5 \<mapsto> toy_client\<lparr>is_logged_in := True, tokens := {9}\<rparr>]\<rparr>"

lemma toy_logged_in_facts:
  "alive toy_logged_in 5" "is_logged_in (getc toy_logged_in 5)" "streamId toy_item \<notin> tokens (getc toy_logged_in 5)"
  by (simp_all add: alive_def getc_def toy_logged_in_def toy_item_def)

lemma toy_prov_facts:
  "ptr_ok toy_prov (c_handle (getc toy_prov 5))" "\<not> is_logged_in (getc toy_prov 5)"
  by (simp_all add: ptr_ok_def getc_def toy_prov_def toy_client_def client_init_def alive_def)

text \<open>C4: the handler of a session refines the session automaton: whatever message arrives and
  whatever the library and the delegate answer, the login flag and the set of open streams move
  by one step of \<open>session_step\<close>, no session appears, disappears or is repointed, and no dangling
  pointer is followed.\<close>

theorem client_OnMsg_session_step:
  assumes "writes_end api" and "alive p k" and "ptr_ok p (c_handle (getc p k))"
  shows "case client_OnMsg api del k m p of (ok, q) \<Rightarrow>
    session_step m (session_of k p) (session_of k q) \<and> shape q = shape p \<and> fault q = fault p"
  using refines_client_OnMsg [OF keeps_True assms(1), of del k m p] assms
  by (auto simp: delegate_keeps_def refines_def quiet_def split: prod.splits)

theorem client_OnMsg_session_step_witness:
  "case client_OnMsg toy_api toy_delegate 5 toy_login toy_prov of (ok, q) \<Rightarrow>
    session_step toy_login (session_of 5 toy_prov) (session_of 5 q) \<and> shape q = shape toy_prov \<and>
    fault q = fault toy_prov"
  by (rule client_OnMsg_session_step [OF toy_writes_end toy_prov_alive toy_prov_facts(1)])

text \<open>C8: before an acceptable login request has been seen, no run of messages opens a stream, and
  the request delegate has no influence on the run: it is never called.\<close>

theorem no_stream_before_login:
  assumes "writes_end api" and "alive p k" and "\<not> is_logged_in (getc p k)"
    and "\<forall>m \<in> set ms. \<not> is_login m"
  shows "session_of k (snd (client_run api d1 k ms p)) = session_of k p \<and>
    client_run api d1 k ms p = client_run api d2 k ms p"
  by (rule client_run_logged_out [OF assms])

theorem no_stream_before_login_witness:
  "session_of 5 (snd (client_run toy_api toy_delegate 5 [toy_item, toy_item] toy_prov)) =
     session_of 5 toy_prov \<and>
   client_run toy_api toy_delegate 5 [toy_item, toy_item] toy_prov =
   client_run toy_api (toy_delegate\<lparr>OnRequest := (\<lambda>h v t s n a u. (False, u))\<rparr>) 5
     [toy_item, toy_item] toy_prov"
  by (rule no_stream_before_login [OF toy_writes_end toy_prov_alive toy_prov_facts(2)])
    (simp add: is_login_def toy_item_def)



text \<open>C11: a reply closes its stream, so that a second reply on the same stream is dropped without
  any effect, whatever its content.\<close>

theorem reply_at_most_once:
  assumes "writes_end api" and "alive p k"
  shows "case client_SendReply api k tok data p of (ok, q) \<Rightarrow>
    tokens (getc q k) = tokens (getc p k) - {tok} \<and>
    client_SendReply api k tok data' q = (True, q)"
  using tokens_SendReply [OF assms, of tok data]
  by (cases "client_SendReply api k tok data p") (simp add: client_SendReply_def [of _ _ _ data'])

theorem reply_at_most_once_witness:
  "case client_SendReply toy_api 5 9 [1, 2] toy_logged_in of (ok, q) \<Rightarrow>
    tokens (getc q 5) = tokens (getc toy_logged_in 5) - {9} \<and>
    client_SendReply toy_api 5 9 [3] q = (True, q)"
  by (rule reply_at_most_once [OF toy_writes_end toy_logged_in_facts(1)])

text \<open>C26: each of the six senders of a session ends with the buffers it started with, on every path, with two
  exceptions. When the library has no buffers for the write, which is counted, the buffer is kept and the sender
  reports success. \<open>AcceptLogin\<close> alone also keeps it, and fails with nothing counted, where the library refuses the
  first element of the response.\<close>

theorem senders_return_buffers:
  "settles (held p) p (SendClose api k tok sid mt name ai ss code text p) \<and>
   settles (held p) p (SendDirectoryRefresh api k tok svc fmask p) \<and>
   settles (held p) p (SendDirectoryUpdate api k tok svc p) \<and>
   settles (held p) p (RejectLogin api k tok p) \<and>
   settles (held p) p (client_SendReply api k tok data p) \<and>
   (settles (held p) p (AcceptLogin api k m tok p) \<or>
    (\<exists>b u st. AcceptLogin api k m tok p = (False, p\<lparr>world := u, p_stats := st, held := b # held p\<rparr>) \<and>
      st PROVIDER_PC_RSSL_WRITE_NO_BUFFERS = p_stats p PROVIDER_PC_RSSL_WRITE_NO_BUFFERS \<and>
      (\<exists>it v rc. rsslEncode api it (EncodeElementEntry RSSL_ENAME_ALLOW_SUSPECT_DATA RSSL_DT_UINT (PUInt 0)) v = (rc, u) \<and>
         rc \<noteq> RSSL_RET_SUCCESS)))"
  using AcceptLogin_ownership [of p api k m tok]
  by (simp add: settles_SendClose SendDirectoryRefresh_def SendDirectoryUpdate_def
      settles_send_directory settles_RejectLogin settles_SendReply)

text \<open>\<open>AcceptLogin\<close> does keep its buffer at a library that refuses the first element.\<close>

theorem accept_login_leak:
  "let refusing = toy_api\<lparr>rsslEncode := (\<lambda>it c u. (case c of
        EncodeElementEntry n d v \<Rightarrow> RSSL_RET_FAILURE | _ \<Rightarrow> fst (rsslEncode toy_api it c u), u))\<rparr>
    in case client_OnMsg refusing toy_delegate 5 toy_login toy_prov of (ok, q) \<Rightarrow>
      \<not> ok \<and> held q = [7] \<and> c_stats (getc q 5) CLIENT_PC_MMT_LOGIN_EXCEPTION = 0"
  by (simp add: Let_def client_OnMsg_def OnRequestMsg_def OnLoginRequest_def toy_login_def init_msg_def
      init_key_def valid_login_def decode_login_attrib_def toy_def AcceptLogin_def toy_prov_def
      provider_init_def getc_def cstat_def updc_def toy_client_def client_init_def get_buffer_def
      accept_login_start_def penc_def penc_version_def enc_def enc_exp_def login_response_def
      chanp_def bump_def)

text \<open>A directory request that names another service aborts the connection, whereas one with an
  unknown service id is answered with the whole directory.\<close>

theorem directory_request_by_name:
  "if RSSL_MKF_HAS_NAME \<in> key_flags (msgKey m) \<and>
      cbuf_cstr (key_name (msgKey m)) \<noteq> service_name (cfg p)
   then \<not> fst (OnDirectoryRequest api k m p)
   else if RSSL_MKF_HAS_NAME \<notin> key_flags (msgKey m) \<and>
      key_serviceId (msgKey m) \<noteq> service_id p
   then OnDirectoryRequest api k m p = SendDirectoryRefresh api k (streamId m) None
      (key_filter (msgKey m)) (updc k (\<lambda>c. c\<lparr>directory_token := streamId m\<rparr>)
        (cstat k CLIENT_PC_MMT_DIRECTORY_REQUEST_RECEIVED p))
   else True"
proof -
  have "service_id (updc k f (cstat k x p)) = service_id p" for f x
    by (auto simp: updc_def cstat_def split: option.splits)
  then show ?thesis
    by (simp add: OnDirectoryRequest_def Let_def SendDirectoryRefresh_def send_directory_mismatch)
qed

text \<open>Closing a logged-in session logs it out and drops its streams, so that a late reply is
  dropped; closing one that is not logged in leaves the streams that a logout left behind.\<close>

theorem close_drops_streams:
  assumes "writes_end api" and "alive p k"
  shows "session_of k (snd (Close_client api k p)) =
    (False, if is_logged_in (getc p k) then {} else tokens (getc p k))"
  by (rule Close_client_session [OF assms])

theorem close_drops_streams_witness:
  "session_of 5 (snd (Close_client toy_api 5 toy_logged_in)) = (False, {})"
  using close_drops_streams [OF toy_writes_end toy_logged_in_facts(1), of no_data init_msg]
    toy_logged_in_facts(2) by simp

end
