(* ===== verification/Provider.thy ===== *)
theory Provider
  imports Session
begin

section \<open>The provider\<close>

text \<open>
  \<open>provider_t\<close> of provider.cc: the handlers of a connection, the work loop and shutdown.

  \<^item> The reply delegate (\<open>provider_t::Delegate\<close>, called when the reply socket is readable) is a
    function \<open>on_read\<close> on the provider state, because the delegate calls back into \<open>SendReply\<close>.
  \<^item> \<open>connections_\<close> is walked with one iterator that may erase the element it is at; nothing
    else is removed meanwhile and \<open>OnConnection\<close> appends before the walk, so the walk is a
    recursion over the list as it was at the start.
  \<^item> \<open>clients_\<close> is a list of pairs in the map's iteration order. As \<open>emplace\<close> does, an insertion
    leaves an existing entry alone; then the new session object dies with its last reference.
  \<^item> \<open>select\<close> is the operating system's: it returns any count and any subsets of the watched sets.
\<close>

definition OnCanWriteWithoutBlocking :: "'u rssl \<Rightarrow> handle \<Rightarrow> 'u prov \<Rightarrow> 'u prov" where
  "OnCanWriteWithoutBlocking api h p = (case rsslFlush api h (world p) of (rc, u) \<Rightarrow>
     let p1 = p\<lparr>world := u\<rparr> in
     if rc = RSSL_RET_SUCCESS then
       let p2 = pstat PROVIDER_PC_RSSL_FLUSH p1;
           p3 = p2\<lparr>in_wfds := in_wfds p2 - {socketId (chanp api p2 h)}\<rparr> in
       (case userSpec p3 h of None \<Rightarrow> p3
        | Some k \<Rightarrow> updc k (\<lambda>c. schedule_ping (last_activity p) (c\<lparr>pending_count := 0\<rparr>))
                     (pstat_add PROVIDER_PC_RSSL_MSGS_SENT (pending_count (getc p3 k)) p3))
     else p1)"

definition RejectConnection :: "'u rssl \<Rightarrow> 'u prov \<Rightarrow> 'u prov" where
  "RejectConnection api p =
     pstat PROVIDER_PC_CONNECTION_REJECTED (p\<lparr>world := snd (rsslAccept api True (world p))\<rparr>)"

definition watch_connection :: "sock \<Rightarrow> 'u prov \<Rightarrow> 'u prov" where
  "watch_connection s p = p\<lparr>in_rfds := insert s (in_rfds p), in_efds := insert s (in_efds p)\<rparr>"

definition AcceptConnection :: "'u rssl \<Rightarrow> 'u prov \<Rightarrow> 'u prov" where
  "AcceptConnection api p = (case rsslAccept api False (world p) of
     (None, u) \<Rightarrow> p\<lparr>world := u\<rparr>
   | (Some h, u) \<Rightarrow>
       let p1 = p\<lparr>world := u, connections := connections p @ [h]\<rparr> in
       pstat PROVIDER_PC_CONNECTION_ACCEPTED (watch_connection (socketId (chanp api p1 h)) p1))"

definition OnConnection :: "'u rssl \<Rightarrow> 'u prov \<Rightarrow> 'u prov" where
  "OnConnection api p = (let p1 = pstat PROVIDER_PC_CONNECTION_RECEIVED p in
     if \<not> is_accepting_connections p1 \<or> length (connections p1) = session_capacity (cfg p1)
     then RejectConnection api p1 else AcceptConnection api p1)"

definition RejectClientSession :: "'u rssl \<Rightarrow> handle \<Rightarrow> 'u prov \<Rightarrow> 'u prov" where
  "RejectClientSession api h p = pstat PROVIDER_PC_CLIENT_SESSION_REJECTED (Close_channel api h p)"

definition new_client :: "'u rssl \<Rightarrow> handle \<Rightarrow> string \<Rightarrow> 'u prov \<Rightarrow> client_id \<times> 'u prov" where
  "new_client api h address p = (let k = next_obj p in
     (k, p\<lparr>objs := (objs p)(k \<mapsto> client_init api h address (world p)), next_obj := k + 1\<rparr>))"

definition free_client :: "client_id \<Rightarrow> 'u prov \<Rightarrow> 'u prov" where
  "free_client k p = p\<lparr>objs := (objs p)(k := None)\<rparr>"

text \<open>The lowest version seen so far; 0 means none.\<close>

definition lower_version :: "u16 \<Rightarrow> u16 \<Rightarrow> u16" where
  "lower_version seen v = (if seen = 0 then v else if seen > v then v else seen)"

definition AcceptClientSession :: "'u rssl \<Rightarrow> handle \<Rightarrow> string \<Rightarrow> 'u prov \<Rightarrow> bool \<times> 'u prov" where
  "AcceptClientSession api h address p =
    (let (k, p1) = new_client api h address p;
         (ok, p2) = Initialize_client api k p1 in
     if \<not> ok then (False, pstat PROVIDER_PC_CLIENT_INIT_EXCEPTION (free_client k p2))
     else
       let p3 = p2\<lparr>userSpec := (userSpec p2)(h \<mapsto> k),
             min_rwf_version := lower_version (min_rwf_version p2) (rwf_version (chanp api p2 h))\<rparr>;
           p4 = (if h \<in> fst ` set (clients p3) then free_client k p3
                 else p3\<lparr>clients := clients p3 @ [(h, k)]\<rparr>) in
       (True, pstat PROVIDER_PC_CLIENT_SESSION_ACCEPTED p4))"

definition OnActiveClientSession :: "'u rssl \<Rightarrow> handle \<Rightarrow> 'u prov \<Rightarrow> 'u prov" where
  "OnActiveClientSession api h p =
    (let p1 = pstat PROVIDER_PC_OMM_ACTIVE_CLIENT_SESSION_RECEIVED p;
         address = clientIP (chanp api p1 h) in
     if \<not> is_accepting_connections p1 \<or> length (clients p1) = session_capacity (cfg p1)
     then RejectClientSession api h p1
     else (case AcceptClientSession api h address p1 of (ok, p2) \<Rightarrow>
       if ok then p2 else RejectClientSession api h p2))"

definition OnInitializingState :: "'u rssl \<Rightarrow> handle \<Rightarrow> 'u prov \<Rightarrow> 'u prov" where
  "OnInitializingState api h p = (case rsslInitChannel api h (world p) of ((rc, info), u) \<Rightarrow>
     let p1 = p\<lparr>world := u\<rparr> in
     if rc = RSSL_RET_CHAN_INIT_IN_PROGRESS then
       if ii_fd_change info then
         let p2 = pstat PROVIDER_PC_RSSL_PROTOCOL_DOWNGRADE p1;
             p3 = p2\<lparr>in_rfds := in_rfds p2 - {ii_oldSocket info},
                     in_efds := in_efds p2 - {ii_oldSocket info}\<rparr> in
         watch_connection (socketId (chanp api p3 h)) p3
       else p1
     else if rc = RSSL_RET_SUCCESS then
       let p2 = OnActiveClientSession api h p1 in watch_connection (socketId (chanp api p2 h)) p2
     else p1)"

text \<open>A message that was decoded: validation in debug mode, then the session's handler.\<close>

definition OnMsg_decoded :: "'u rssl \<Rightarrow> 'u delegate \<Rightarrow> handle \<Rightarrow> rssl_msg \<Rightarrow> 'u prov \<Rightarrow> 'u prov" where
  "OnMsg_decoded api del h msg p =
    (let p1 = pstat PROVIDER_PC_RSSL_MSGS_DECODED p;
         (valid, p2) = (if debug_mode (cfg p) then lift_world (rsslValidateMsg api msg) p1 else (True, p1)) in
     if \<not> valid then Abort api h (pstat PROVIDER_PC_RSSL_MSGS_MALFORMED p2)
     else
       let p3 = (if debug_mode (cfg p) then pstat PROVIDER_PC_RSSL_MSGS_VALIDATED p2 else p2) in
       (case userSpec p3 h of None \<Rightarrow> p3\<lparr>fault := True\<rparr>
        | Some k \<Rightarrow> (case client_OnMsg api del k msg p3 of (ok, p4) \<Rightarrow>
            if ok then p4 else Abort api h p4)))"

definition OnMsg :: "'u rssl \<Rightarrow> 'u delegate \<Rightarrow> handle \<Rightarrow> rssl_buffer \<Rightarrow> 'u prov \<Rightarrow> 'u prov" where
  "OnMsg api del h buf p =
    (case rsslSetDecodeIteratorRWFVersion api (majorVersion (chanp api p h)) (minorVersion (chanp api p h))
        (world p) of (rc, u1) \<Rightarrow>
     let p1 = p\<lparr>world := u1\<rparr> in
     if rc \<noteq> RSSL_RET_SUCCESS then Abort api h (pstat PROVIDER_PC_RWF_VERSION_UNSUPPORTED p1)
     else (case rsslSetDecodeIteratorBuffer api buf u1 of (rc, u2) \<Rightarrow>
       let p2 = p\<lparr>world := u2\<rparr> in
       if rc \<noteq> RSSL_RET_SUCCESS then Abort api h (pstat PROVIDER_PC_RSSL_MSGS_MALFORMED p2)
       else (case rsslDecodeMsg api u2 of ((rc, msg), u3) \<Rightarrow>
         let p3 = p\<lparr>world := u3\<rparr> in
         if rc \<noteq> RSSL_RET_SUCCESS then Abort api h (pstat PROVIDER_PC_RSSL_MSGS_MALFORMED p3)
         else OnMsg_decoded api del h msg p3)))"

definition refresh_pong :: "'u rssl \<Rightarrow> handle \<Rightarrow> 'u prov \<Rightarrow> 'u prov" where
  "refresh_pong api h p = on_user h (schedule_pong (last_activity p) (pingTimeout (chanp api p h))) p"

definition fd_change :: "'u rssl \<Rightarrow> handle \<Rightarrow> 'u prov \<Rightarrow> 'u prov" where
  "fd_change api h p =
    (let p1 = pstat PROVIDER_PC_RSSL_RECONNECT p; old = oldSocketId (chanp api p1 h) in
     watch_connection (socketId (chanp api p1 h))
       (p1\<lparr>in_rfds := in_rfds p1 - {old}, in_efds := in_efds p1 - {old}\<rparr>))"

text \<open>\<open>check_closed_state\<close>: a channel that is closed falls through into the case of a changed
  descriptor.\<close>

definition check_closed_state :: "'u rssl \<Rightarrow> handle \<Rightarrow> 'u prov \<Rightarrow> 'u prov" where
  "check_closed_state api h p =
     (if state (chanp api p h) \<noteq> RSSL_CH_STATE_CLOSED then p else fd_change api h p)"

definition OnActiveState :: "'u rssl \<Rightarrow> 'u delegate \<Rightarrow> handle \<Rightarrow> 'u prov \<Rightarrow> 'u prov" where
  "OnActiveState api del h p = (case rsslReadEx api h (world p) of (r, u) \<Rightarrow>
     let p1 = pstat_add PROVIDER_PC_UNCOMPRESSED_BYTES_RECEIVED (rd_uncompressedBytesRead r)
               (pstat_add PROVIDER_PC_BYTES_RECEIVED (rd_bytesRead r) (p\<lparr>world := u\<rparr>)) in
     case rd_rc r of
       RSSL_RET_CONGESTION_DETECTED \<Rightarrow>
         check_closed_state api h (pstat PROVIDER_PC_RSSL_CONGESTION_DETECTED p1)
     | RSSL_RET_SLOW_READER \<Rightarrow> check_closed_state api h (pstat PROVIDER_PC_RSSL_SLOW_READER p1)
     | RSSL_RET_PACKET_GAP_DETECTED \<Rightarrow>
         check_closed_state api h (pstat PROVIDER_PC_RSSL_PACKET_GAP_DETECTED p1)
     | RSSL_RET_READ_FD_CHANGE \<Rightarrow> fd_change api h p1
     | RSSL_RET_READ_PING \<Rightarrow> refresh_pong api h (pstat PROVIDER_PC_RSSL_PONG_RECEIVED p1)
     | RSSL_RET_FAILURE \<Rightarrow> pstat PROVIDER_PC_RSSL_READ_FAILURE p1
     | rc \<Rightarrow>
         let p2 = (case rd_buf r of None \<Rightarrow> p1
                   | Some buf \<Rightarrow> refresh_pong api h
                       (OnMsg api del h buf (pstat PROVIDER_PC_RSSL_MSGS_RECEIVED p1))) in
         if positive rc
         then p2\<lparr>out_rfds := insert (socketId (chanp api p2 h)) (out_rfds p2)\<rparr> else p2)"

definition OnCanReadWithoutBlocking :: "'u rssl \<Rightarrow> 'u delegate \<Rightarrow> handle \<Rightarrow> 'u prov \<Rightarrow> 'u prov" where
  "OnCanReadWithoutBlocking api del h p = (case state (chanp api p h) of
     RSSL_CH_STATE_CLOSED \<Rightarrow> Abort api h p
   | RSSL_CH_STATE_INACTIVE \<Rightarrow> p
   | RSSL_CH_STATE_INITIALIZING \<Rightarrow> OnInitializingState api h p
   | RSSL_CH_STATE_ACTIVE \<Rightarrow> OnActiveState api del h p
   | RSSL_CH_STATE_OTHER n \<Rightarrow> p)"

subsection \<open>The work loop\<close>

text \<open>The keepalive of one connection, and its removal after a socket exception.\<close>

definition keepalive :: "'u rssl \<Rightarrow> handle \<Rightarrow> 'u prov \<Rightarrow> 'u prov" where
  "keepalive api h p = (case userSpec p h of None \<Rightarrow> p
   | Some k \<Rightarrow>
     if state (chanp api p h) \<noteq> RSSL_CH_STATE_ACTIVE then p
     else
       let p0 = (if alive p k then p else p\<lparr>fault := True\<rparr>);
           p1 = (if last_activity p0 \<ge> next_ping (getc p0 k) then snd (Ping api h p0) else p0) in
       if last_activity p1 \<ge> next_pong (getc p1 k)
       then Abort api h (pstat PROVIDER_PC_RSSL_PONG_TIMEOUT p1) else p1)"

definition erase_client :: "handle \<Rightarrow> 'u prov \<Rightarrow> 'u prov" where
  "erase_client h p = (case map_of (clients p) h of None \<Rightarrow> p
   | Some k \<Rightarrow> free_client k (p\<lparr>clients := erase_key h (clients p)\<rparr>))"

definition disconnect :: "'u rssl \<Rightarrow> handle \<Rightarrow> 'u prov \<Rightarrow> 'u prov" where
  "disconnect api h p =
    (let p1 = pstat PROVIDER_PC_CONNECTION_EXCEPTION p;
         p2 = erase_client h (p1\<lparr>connections := remove1 h (connections p1)\<rparr>);
         s = socketId (chanp api p2 h);
         p3 = p2\<lparr>in_rfds := in_rfds p2 - {s}, in_wfds := in_wfds p2 - {s}, in_efds := in_efds p2 - {s}\<rparr> in
     if state (chanp api p3 h) \<noteq> RSSL_CH_STATE_CLOSED then Close_channel api h p3 else p3)"

definition check_exception :: "'u rssl \<Rightarrow> handle \<Rightarrow> 'u prov \<Rightarrow> 'u prov" where
  "check_exception api h p =
     (if socketId (chanp api p h) \<in> out_efds p then disconnect api h p else p)"

definition check_incoming :: "'u rssl \<Rightarrow> 'u delegate \<Rightarrow> handle \<Rightarrow> bool \<times> 'u prov \<Rightarrow> bool \<times> 'u prov" where
  "check_incoming api del h = (\<lambda>(did_work, p). let s = socketId (chanp api p h) in
     if s \<in> out_rfds p
     then (True, OnCanReadWithoutBlocking api del h (p\<lparr>out_rfds := out_rfds p - {s}\<rparr>))
     else (did_work, p))"

definition check_outgoing :: "'u rssl \<Rightarrow> handle \<Rightarrow> bool \<times> 'u prov \<Rightarrow> bool \<times> 'u prov" where
  "check_outgoing api h = (\<lambda>(did_work, p). let s = socketId (chanp api p h) in
     if s \<in> out_wfds p
     then (True, OnCanWriteWithoutBlocking api h (p\<lparr>out_wfds := out_wfds p - {s}\<rparr>))
     else (did_work, p))"

fun timeout_pass :: "'u rssl \<Rightarrow> handle list \<Rightarrow> 'u prov \<Rightarrow> 'u prov" where
  "timeout_pass api [] p = p"
| "timeout_pass api (h # hs) p = timeout_pass api hs (check_exception api h (keepalive api h p))"

fun service_pass :: "'u rssl \<Rightarrow> 'u delegate \<Rightarrow> handle list \<Rightarrow> bool \<times> 'u prov \<Rightarrow> bool \<times> 'u prov" where
  "service_pass api del [] s = s"
| "service_pass api del (h # hs) s =
     (case check_outgoing api h (check_incoming api del h s) of (did_work, p) \<Rightarrow>
        service_pass api del hs (did_work, check_exception api h (keepalive api h p)))"

text \<open>The external reply socket and the listening socket.\<close>

definition check_reply :: "('u prov \<Rightarrow> bool \<times> 'u prov) \<Rightarrow> 'u prov \<Rightarrow> bool \<times> 'u prov" where
  "check_reply on_read p = (case reply_sock p of
     None \<Rightarrow> (False, p)
   | Some s \<Rightarrow>
     if s \<in> out_rfds p then
       (case on_read p of (again, p1) \<Rightarrow>
          (True, if again then p1 else p1\<lparr>out_rfds := out_rfds p1 - {s}\<rparr>))
     else (False, p))"

definition check_listen :: "'u rssl \<Rightarrow> bool \<times> 'u prov \<Rightarrow> bool \<times> 'u prov" where
  "check_listen api = (\<lambda>(did_work, p). case rssl_sock p of
     None \<Rightarrow> (did_work, p\<lparr>fault := True\<rparr>)
   | Some s \<Rightarrow>
     if s \<in> out_rfds p then (True, OnConnection api (p\<lparr>out_rfds := out_rfds p - {s}\<rparr>))
     else (did_work, p))"

definition DoWork :: "'u rssl \<Rightarrow> 'u delegate \<Rightarrow> ('u prov \<Rightarrow> bool \<times> 'u prov) \<Rightarrow> 'u prov \<Rightarrow> bool \<times> 'u prov" where
  "DoWork api del on_read p =
    (let p0 = p\<lparr>last_activity := universal_time api (world p)\<rparr> in
     if out_nfds p0 \<le> 0 then (False, timeout_pass api (connections p0) p0)
     else
       let (did_work, p1) = check_listen api (check_reply on_read p0) in
       service_pass api del (connections p1) (did_work, p1))"

definition SendReply :: "'u rssl \<Rightarrow> handle \<Rightarrow> u32 \<Rightarrow> u8 list \<Rightarrow> 'u prov \<Rightarrow> bool \<times> 'u prov" where
  "SendReply api h token data p = (case map_of (clients p) h of
     None \<Rightarrow> (False, p) | Some k \<Rightarrow> client_SendReply api k token data p)"

definition Quit :: "'u prov \<Rightarrow> 'u prov" where
  "Quit p = p\<lparr>keep_running := False\<rparr>"

definition watch_listeners :: "'u prov \<Rightarrow> 'u prov" where
  "watch_listeners p = p\<lparr>
     in_rfds := (case rssl_sock p of None \<Rightarrow> {} | Some s \<Rightarrow> {s}) \<union>
                (case reply_sock p of None \<Rightarrow> {} | Some s \<Rightarrow> {s}),
     in_wfds := {}, in_efds := {}, out_nfds := 0,
     fault := (fault p \<or> rssl_sock p = None)\<rparr>"

text \<open>\<open>Run\<close> as a step relation: \<open>Working\<close> is the top of the loop, \<open>Waiting\<close> the call of \<open>select\<close>.
  Another thread may call \<open>Quit\<close> between any two steps.\<close>

datatype phase = Working | Waiting | Stopped

inductive run_step :: "'u rssl \<Rightarrow> 'u delegate \<Rightarrow> ('u prov \<Rightarrow> bool \<times> 'u prov) \<Rightarrow>
    phase \<times> 'u prov \<Rightarrow> phase \<times> 'u prov \<Rightarrow> bool"
  for api del on_read where
  work: "DoWork api del on_read p = (did_work, q) \<Longrightarrow> keep_running q \<Longrightarrow>
    run_step api del on_read (Working, p) (if did_work then Working else Waiting, q)"
| stop: "DoWork api del on_read p = (did_work, q) \<Longrightarrow> \<not> keep_running q \<Longrightarrow>
    run_step api del on_read (Working, p) (Stopped, q\<lparr>keep_running := True\<rparr>)"
| select: "r \<subseteq> in_rfds p \<Longrightarrow> w \<subseteq> in_wfds p \<Longrightarrow> e \<subseteq> in_efds p \<Longrightarrow>
    run_step api del on_read (Waiting, p)
      (Working, p\<lparr>out_rfds := r, out_wfds := w, out_efds := e, out_nfds := n\<rparr>)"
| quit: "run_step api del on_read (ph, p) (ph, Quit p)"

inductive run_reach :: "'u rssl \<Rightarrow> 'u delegate \<Rightarrow> ('u prov \<Rightarrow> bool \<times> 'u prov) \<Rightarrow>
    'u prov \<Rightarrow> phase \<times> 'u prov \<Rightarrow> bool"
  for api del on_read p0 where
  start: "run_reach api del on_read p0 (Working, watch_listeners p0)"
| step: "run_reach api del on_read p0 s \<Longrightarrow> run_step api del on_read s s' \<Longrightarrow>
    run_reach api del on_read p0 s'"


subsection \<open>Start and shutdown\<close>

text \<open>\<open>version_ok\<close> is the answer of \<open>VerifyVersion\<close>, \<open>bound\<close> the socket of the server that \<open>rsslBind\<close>
  created. A failed \<open>CHECK\<close> is only logged.\<close>

definition Initialize_provider ::
  "'u rssl \<Rightarrow> bool \<Rightarrow> sock option \<Rightarrow> 'u prov \<Rightarrow> bool \<times> 'u prov" where
  "Initialize_provider api version_ok bound p =
    (let p1 = p\<lparr>last_activity := universal_time api (world p)\<rparr> in
     if \<not> version_ok then (False, p1)
     else case bound of None \<Rightarrow> (False, p1)
     | Some s \<Rightarrow> (True, p1\<lparr>rssl_sock := Some s\<rparr>))"

partial_function (option) flush_loop :: "'u rssl \<Rightarrow> handle \<Rightarrow> 'u \<Rightarrow> (rssl_ret \<times> 'u) option" where
  "flush_loop api h u = (case rsslFlush api h u of (rc, u') \<Rightarrow>
     if positive rc then flush_loop api h u' else Some (rc, u'))"

definition close_session :: "'u rssl \<Rightarrow> handle \<times> client_id \<Rightarrow> 'u prov \<Rightarrow> 'u prov option" where
  "close_session api = (\<lambda>(h0, k) p.
    let p1 = snd (Close_client api k p); h = c_handle (getc p1 k); ch = chanp api p1 h in
    if state ch = RSSL_CH_STATE_ACTIVE \<and> socketId ch \<in> in_wfds p1 then
      (case flush_loop api h (world p1) of
         None \<Rightarrow> None
       | Some (rc, u) \<Rightarrow>
           let p2 = p1\<lparr>world := u\<rparr> in
           Some (if rc = RSSL_RET_SUCCESS then
             let p3 = pstat PROVIDER_PC_RSSL_FLUSH (updc k (\<lambda>c. c\<lparr>pending_count := 0\<rparr>)
                   (pstat_add PROVIDER_PC_RSSL_MSGS_SENT (pending_count (getc p2 k)) p2)) in
             p3\<lparr>in_wfds := in_wfds p3 - {socketId (chanp api p3 h)}\<rparr>
           else p2))
    else Some p1)"

fun close_sessions :: "'u rssl \<Rightarrow> (handle \<times> client_id) list \<Rightarrow> 'u prov \<Rightarrow> 'u prov option" where
  "close_sessions api [] p = Some p"
| "close_sessions api (e # es) p = (case close_session api e p of
     None \<Rightarrow> None | Some q \<Rightarrow> close_sessions api es q)"

definition active_tokens :: "'u prov \<Rightarrow> nat" where
  "active_tokens p = sum_list (map (\<lambda>(h, k). card (tokens (getc p k))) (clients p))"

text \<open>The second pass of \<open>Close\<close>: work until no session has an open stream. \<open>select\<close> is the call of
  the operating system.\<close>

partial_function (option) drain ::
  "('u prov \<Rightarrow> bool \<times> 'u prov) \<Rightarrow> ('u prov \<Rightarrow> 'u prov) \<Rightarrow> 'u prov \<Rightarrow> 'u prov option" where
  "drain work select p = (case work p of (did_work, q) \<Rightarrow>
     if active_tokens q = 0 then Some q
     else drain work select (if did_work then q else select q))"

definition close_channels :: "'u rssl \<Rightarrow> 'u prov \<Rightarrow> 'u prov" where
  "close_channels api p = (fold (Close_channel api) (connections p) p)\<lparr>connections := []\<rparr>"

definition Close_provider :: "'u rssl \<Rightarrow> 'u delegate \<Rightarrow> ('u prov \<Rightarrow> bool \<times> 'u prov) \<Rightarrow>
    ('u prov \<Rightarrow> 'u prov) \<Rightarrow> 'u prov \<Rightarrow> 'u prov option" where
  "Close_provider api del on_read select p =
    (let p1 = p\<lparr>is_accepting_connections := False, is_accepting_requests := False\<rparr>;
         p2 = fold (\<lambda>(h, k) q. snd (OnSourceDirectoryUpdate api k q)) (clients p1) p1 in
     case (if rssl_sock p2 \<noteq> None \<and> clients p2 \<noteq> []
           then drain (DoWork api del on_read) select (watch_listeners p2) else Some p2) of
       None \<Rightarrow> None
     | Some p3 \<Rightarrow>
       (case close_sessions api (clients p3) p3 of
          None \<Rightarrow> None
        | Some p4 \<Rightarrow>
            let p5 = fold (\<lambda>(h, k). free_client k) (clients p4) p4\<lparr>clients := []\<rparr>;
                p6 = (if rssl_sock p5 = None then p5
                      else p5\<lparr>world := snd (rsslCloseServer api (world p5)), rssl_sock := None\<rparr>)
            in Some (close_channels api p6)))"

subsection \<open>When the loops of the shutdown end\<close>

interpretation fl: retry_loop "flush_loop api h" "\<lambda>u. positive (fst (rsslFlush api h u))"
    "\<lambda>u. snd (rsslFlush api h u)" "rsslFlush api h" for api h
proof unfold_locales
  fix u
  show "flush_loop api h u = (if positive (fst (rsslFlush api h u))
      then flush_loop api h (snd (rsslFlush api h u)) else Some (rsslFlush api h u))"
    by (subst flush_loop.simps) (simp add: case_prod_beta)
next
  fix u r
  assume run: "flush_loop api h u = Some r"
  show "\<exists>n. \<not> positive (fst (rsslFlush api h (((\<lambda>u. snd (rsslFlush api h u)) ^^ n) u)))"
  proof (rule flush_loop.raw_induct [where P = "\<lambda>api h u r. \<exists>n. \<not> positive (fst (rsslFlush api h
        (((\<lambda>u. snd (rsslFlush api h u)) ^^ n) u)))", OF _ run])
    fix f and api' :: "'b rssl" and h u r
    assume IH: "\<And>api h u r. f api h u = Some r \<Longrightarrow> \<exists>n. \<not> positive (fst (rsslFlush api h
        (((\<lambda>u. snd (rsslFlush api h u)) ^^ n) u)))"
      and eq: "(case rsslFlush api' h u of (rc, u') \<Rightarrow>
        if positive rc then f api' h u' else Some (rc, u')) = Some r"
    let ?nxt = "\<lambda>u. snd (rsslFlush api' h u)"
    show "\<exists>n. \<not> positive (fst (rsslFlush api' h ((?nxt ^^ n) u)))"
    proof (cases "positive (fst (rsslFlush api' h u))")
      case True
      then have "f api' h (?nxt u) = Some r" using eq by (simp add: case_prod_beta)
      then obtain n where "\<not> positive (fst (rsslFlush api' h ((?nxt ^^ n) (?nxt u))))" using IH by blast
      then show ?thesis by (intro exI [of _ "Suc n"]) (simp only: funpow_Suc_right comp_apply not_False_eq_True)
    next
      case False
      then show ?thesis by (intro exI [of _ 0]) simp
    qed
  qed
qed

text \<open>One round of the draining loop: work, then \<open>select\<close> when nothing was done.\<close>

definition drain_round :: "('u prov \<Rightarrow> bool \<times> 'u prov) \<Rightarrow> ('u prov \<Rightarrow> 'u prov) \<Rightarrow> 'u prov \<Rightarrow> 'u prov" where
  "drain_round work select p = (case work p of (did_work, q) \<Rightarrow> if did_work then q else select q)"

interpretation dr: retry_loop "drain work select" "\<lambda>p. active_tokens (snd (work p)) \<noteq> 0"
    "drain_round work select" "\<lambda>p. snd (work p)" for work select
proof unfold_locales
  fix p
  show "drain work select p = (if active_tokens (snd (work p)) \<noteq> 0
      then drain work select (drain_round work select p) else Some (snd (work p)))"
    by (subst drain.simps) (simp add: case_prod_beta drain_round_def)
next
  fix p r
  assume run: "drain work select p = Some r"
  show "\<exists>n. \<not> active_tokens (snd (work ((drain_round work select ^^ n) p))) \<noteq> 0"
  proof (rule drain.raw_induct [where P = "\<lambda>work select p r. \<exists>n. \<not> active_tokens (snd (work
        ((drain_round work select ^^ n) p))) \<noteq> 0", OF _ run])
    fix f and work :: "'b prov \<Rightarrow> bool \<times> 'b prov" and select p r
    assume IH: "\<And>work select p r. f work select p = Some r \<Longrightarrow>
        \<exists>n. \<not> active_tokens (snd (work ((drain_round work select ^^ n) p))) \<noteq> 0"
      and eq: "(case work p of (did_work, q) \<Rightarrow> if active_tokens q = 0 then Some q
        else f work select (if did_work then q else select q)) = Some r"
    show "\<exists>n. \<not> active_tokens (snd (work ((drain_round work select ^^ n) p))) \<noteq> 0"
    proof (cases "active_tokens (snd (work p)) = 0")
      case False
      then have "f work select (drain_round work select p) = Some r"
        using eq by (simp add: case_prod_beta drain_round_def)
      then obtain n where "\<not> active_tokens (snd (work ((drain_round work select ^^ n) (drain_round work select p)))) \<noteq> 0"
        using IH by blast
      moreover have "(drain_round work select ^^ Suc n) p = (drain_round work select ^^ n) (drain_round work select p)"
        by (simp only: funpow_Suc_right comp_apply)
      ultimately show ?thesis by metis
    next
      case True
      then show ?thesis by (intro exI [of _ 0]) simp
    qed
  qed
qed

subsection \<open>The invariant of the connection directory\<close>

text \<open>
  \<open>pinv\<close>: the connections are distinct handles that the library has given out and are no more
  than the session capacity; the sessions belong to connections, one each, and are exactly the
  live session objects; a channel points to its own live session or to nothing, and to its
  session when it is active; and no channel that has a session is still being initialised.
\<close>

text \<open>The handles in \<open>X\<close> are exempt from the last but one condition: a channel that just became
  active and has no session yet.\<close>

definition pinv_except :: "handle set \<Rightarrow> 'u rssl \<Rightarrow> 'u prov \<Rightarrow> bool" where
  "pinv_except X api p \<longleftrightarrow>
     distinct (connections p) \<and> set (connections p) \<subseteq> issued api (world p) \<and>
     length (connections p) \<le> session_capacity (cfg p) \<and>
     distinct (map fst (clients p)) \<and> fst ` set (clients p) \<subseteq> set (connections p) \<and>
     distinct (map snd (clients p)) \<and>
     (\<forall>k. alive p k \<longleftrightarrow> k \<in> snd ` set (clients p)) \<and>
     (\<forall>h k. (h, k) \<in> set (clients p) \<longrightarrow> c_handle (getc p k) = h \<and> userSpec p h = Some k) \<and>
     (\<forall>k. alive p k \<longrightarrow> k < next_obj p) \<and>
     (\<forall>h k. userSpec p h = Some k \<longrightarrow> h \<in> issued api (world p)) \<and>
     (\<forall>h \<in> set (connections p). \<forall>k. userSpec p h = Some k \<longrightarrow> (h, k) \<in> set (clients p)) \<and>
     (\<forall>h \<in> set (connections p). h \<notin> X \<longrightarrow> active api (world p) h \<longrightarrow> userSpec p h \<noteq> None) \<and>
     (\<forall>h \<in> fst ` set (clients p). \<not> initializing api (world p) h)"

definition pinv :: "'u rssl \<Rightarrow> 'u prov \<Rightarrow> bool" where
  "pinv api p \<longleftrightarrow> pinv_except {} api p"

text \<open>A good state: the invariant, a listening server, and no fault so far.\<close>

definition good_except :: "handle set \<Rightarrow> 'u rssl \<Rightarrow> 'u prov \<Rightarrow> bool" where
  "good_except X api p \<longleftrightarrow> pinv_except X api p \<and> rssl_sock p \<noteq> None \<and> \<not> fault p"

definition good :: "'u rssl \<Rightarrow> 'u prov \<Rightarrow> bool" where
  "good api p \<longleftrightarrow> good_except {} api p"

lemma pinvD:
  assumes "pinv_except X api p"
  shows "distinct (connections p)" and "set (connections p) \<subseteq> issued api (world p)"
    and "length (connections p) \<le> session_capacity (cfg p)"
    and "distinct (map fst (clients p))" and "fst ` set (clients p) \<subseteq> set (connections p)"
    and "distinct (map snd (clients p))" and "alive p k \<longleftrightarrow> k \<in> snd ` set (clients p)"
    and "(h, k) \<in> set (clients p) \<Longrightarrow> c_handle (getc p k) = h"
    and "(h, k) \<in> set (clients p) \<Longrightarrow> userSpec p h = Some k"
    and "alive p k \<Longrightarrow> k < next_obj p"
    and "userSpec p h = Some k \<Longrightarrow> h \<in> issued api (world p)"
    and "h \<in> set (connections p) \<Longrightarrow> userSpec p h = Some k \<Longrightarrow> (h, k) \<in> set (clients p)"
    and "h \<in> set (connections p) \<Longrightarrow> h \<notin> X \<Longrightarrow> active api (world p) h \<Longrightarrow> userSpec p h \<noteq> None"
    and "h \<in> fst ` set (clients p) \<Longrightarrow> \<not> initializing api (world p) h"
proof -
  from assms have i7: "\<forall>k. alive p k \<longleftrightarrow> k \<in> snd ` set (clients p)"
    and i8: "\<forall>h k. (h, k) \<in> set (clients p) \<longrightarrow> c_handle (getc p k) = h \<and> userSpec p h = Some k"
    and i10: "\<forall>k. alive p k \<longrightarrow> k < next_obj p"
    and i11: "\<forall>h k. userSpec p h = Some k \<longrightarrow> h \<in> issued api (world p)"
    and i12: "\<forall>h \<in> set (connections p). \<forall>k. userSpec p h = Some k \<longrightarrow> (h, k) \<in> set (clients p)"
    and i13: "\<forall>h \<in> set (connections p). h \<notin> X \<longrightarrow> active api (world p) h \<longrightarrow> userSpec p h \<noteq> None"
    and i14: "\<forall>h \<in> fst ` set (clients p). \<not> initializing api (world p) h"
    unfolding pinv_except_def by - (elim conjE, assumption)+
  show "distinct (connections p)" "set (connections p) \<subseteq> issued api (world p)"
    "length (connections p) \<le> session_capacity (cfg p)"
    "distinct (map fst (clients p))" "fst ` set (clients p) \<subseteq> set (connections p)"
    "distinct (map snd (clients p))"
    using assms unfolding pinv_except_def by - (elim conjE, assumption)+
  show "alive p k \<longleftrightarrow> k \<in> snd ` set (clients p)" using i7 by (rule spec)
  show "(h, k) \<in> set (clients p) \<Longrightarrow> c_handle (getc p k) = h"
    "(h, k) \<in> set (clients p) \<Longrightarrow> userSpec p h = Some k" using i8 by simp_all
  show "alive p k \<Longrightarrow> k < next_obj p" using i10 by simp
  show "userSpec p h = Some k \<Longrightarrow> h \<in> issued api (world p)" using i11 by simp
  show "h \<in> set (connections p) \<Longrightarrow> userSpec p h = Some k \<Longrightarrow> (h, k) \<in> set (clients p)" using i12 by simp
  show "h \<in> set (connections p) \<Longrightarrow> h \<notin> X \<Longrightarrow> active api (world p) h \<Longrightarrow> userSpec p h \<noteq> None"
    using i13 by blast
  show "h \<in> fst ` set (clients p) \<Longrightarrow> \<not> initializing api (world p) h" using i14 by blast
qed

lemma pinvI:
  assumes "distinct (connections p)" and "set (connections p) \<subseteq> issued api (world p)"
    and "length (connections p) \<le> session_capacity (cfg p)"
    and "distinct (map fst (clients p))" and "fst ` set (clients p) \<subseteq> set (connections p)"
    and "distinct (map snd (clients p))" and "\<And>k. alive p k \<longleftrightarrow> k \<in> snd ` set (clients p)"
    and "\<And>h k. (h, k) \<in> set (clients p) \<Longrightarrow> c_handle (getc p k) = h"
    and "\<And>h k. (h, k) \<in> set (clients p) \<Longrightarrow> userSpec p h = Some k"
    and "\<And>k. alive p k \<Longrightarrow> k < next_obj p"
    and "\<And>h k. userSpec p h = Some k \<Longrightarrow> h \<in> issued api (world p)"
    and "\<And>h k. h \<in> set (connections p) \<Longrightarrow> userSpec p h = Some k \<Longrightarrow> (h, k) \<in> set (clients p)"
    and "\<And>h. h \<in> set (connections p) \<Longrightarrow> h \<notin> X \<Longrightarrow> active api (world p) h \<Longrightarrow> userSpec p h \<noteq> None"
    and "\<And>h. h \<in> fst ` set (clients p) \<Longrightarrow> \<not> initializing api (world p) h"
  shows "pinv_except X api p"
  unfolding pinv_except_def
  by (intro conjI allI ballI impI; rule assms; assumption?)

lemma goodD:
  "good_except X api p \<Longrightarrow> pinv_except X api p"
  "good_except X api p \<Longrightarrow> rssl_sock p \<noteq> None" "good_except X api p \<Longrightarrow> \<not> fault p"
  by (simp_all add: good_except_def)

lemma pinv_calm:
  assumes I: "pinv_except X api p" and s: "shape q = shape p" and c: "calm api (world p) (world q)"
  shows "pinv_except X api q"
proof -
  note e = shape_eqD [OF s]
  have al: "(h, k) \<in> set (clients p) \<Longrightarrow> alive p k" for h k
    using pinvD(7) [OF I] by force
  have iss: "issued api (world q) = issued api (world p)"
    and act: "\<And>h. active api (world q) h \<Longrightarrow> active api (world p) h"
    and ini: "\<And>h. initializing api (world q) h \<Longrightarrow> initializing api (world p) h"
    using c by (auto simp: calm_def)
  show ?thesis
  proof (rule pinvI)
    fix h k assume "(h, k) \<in> set (clients q)"
    then show "c_handle (getc q k) = h" using e(2) e(9) [OF al] pinvD(8) [OF I] by simp
  next
    fix h assume "h \<in> set (connections q)" "h \<notin> X" "active api (world q) h"
    then show "userSpec q h \<noteq> None" using e(1,4) act pinvD(13) [OF I] by simp
  next
    fix h assume "h \<in> fst ` set (clients q)"
    then show "\<not> initializing api (world q) h" using e(2) ini pinvD(14) [OF I] by auto
  next
    fix k
    show "alive q k = (k \<in> snd ` set (clients q))" using e(2,8) pinvD(7) [OF I] by simp
    show "alive q k \<Longrightarrow> k < next_obj q" using e(3,8) pinvD(10) [OF I] by simp
  next
    fix h k
    show "(h, k) \<in> set (clients q) \<Longrightarrow> userSpec q h = Some k" using e(2,4) pinvD(9) [OF I] by simp
    show "userSpec q h = Some k \<Longrightarrow> h \<in> issued api (world q)" using e(4) iss pinvD(11) [OF I] by simp
    show "h \<in> set (connections q) \<Longrightarrow> userSpec q h = Some k \<Longrightarrow> (h, k) \<in> set (clients q)"
      using e(1,2,4) pinvD(12) [OF I] by simp
  qed (simp_all only: e(1,2,5) iss pinvD(1-6) [OF I])
qed

lemma good_calm:
  assumes "good_except X api p" and s: "shape q = shape p" and "calm api (world p) (world q)"
    and "fault q = fault p"
  shows "good_except X api q"
  using assms pinv_calm [OF goodD(1) s] shape_eqD(6) [OF s] by (simp add: good_except_def)

lemma good_user:
  assumes g: "good_except X api p" and h: "h \<in> set (connections p)" "userSpec p h = Some k"
  shows "alive p k" and "c_handle (getc p k) = h"
proof -
  have hk: "(h, k) \<in> set (clients p)" using pinvD(12) [OF goodD(1) [OF g] h] .
  then show "c_handle (getc p k) = h" using pinvD(8) [OF goodD(1) [OF g]] by blast
  show "alive p k" using hk pinvD(7) [OF goodD(1) [OF g]] by force
qed

lemma good_ptr_ok: "good_except X api p \<Longrightarrow> h \<in> set (connections p) \<Longrightarrow> ptr_ok p h"
  unfolding ptr_ok_def using good_user(1) by blast

lemma contract_keeps: "transport_contract api \<Longrightarrow> keeps api (calm api u0)"
  by (simp add: transport_contract_def)

lemma contract_accept:
  assumes "transport_contract api" and a: "rsslAccept api n u = (Some h, u')"
  shows "h \<notin> issued api u" and "issued api u' = insert h (issued api u)" and "\<not> active api u' h"
    and "active api u' h' \<Longrightarrow> active api u h'"
    and "h' \<noteq> h \<Longrightarrow> initializing api u' h' \<Longrightarrow> initializing api u h'"
proof -
  from assms(1) have "\<forall>n u h u'. rsslAccept api n u = (Some h, u') \<longrightarrow>
        h \<notin> issued api u \<and> issued api u' = insert h (issued api u) \<and> \<not> active api u' h \<and>
        (\<forall>h'. active api u' h' \<longrightarrow> active api u h') \<and>
        (\<forall>h'. h' \<noteq> h \<longrightarrow> initializing api u' h' \<longrightarrow> initializing api u h')"
    unfolding transport_contract_def by (elim conjE) assumption
  with a show "h \<notin> issued api u" "issued api u' = insert h (issued api u)" "\<not> active api u' h"
    "active api u' h' \<Longrightarrow> active api u h'"
    "h' \<noteq> h \<Longrightarrow> initializing api u' h' \<Longrightarrow> initializing api u h'" by simp_all
qed

lemma contract_accept_none:
  assumes "transport_contract api" and "rsslAccept api n u = (None, u')"
  shows "calm api u u'"
proof -
  from assms(1) have "\<forall>n u u'. rsslAccept api n u = (None, u') \<longrightarrow> calm api u u'"
    unfolding transport_contract_def by (elim conjE) assumption
  with assms(2) show ?thesis by simp
qed

lemma contract_init:
  assumes "transport_contract api" and i: "rsslInitChannel api h u = ((rc, info), u')"
  shows "issued api u' = issued api u"
    and "active api u' h' \<Longrightarrow> active api u h' \<or> (h' = h \<and> rc = RSSL_RET_SUCCESS)"
    and "initializing api u' h' \<Longrightarrow> initializing api u h'"
    and "rc = RSSL_RET_SUCCESS \<Longrightarrow> \<not> initializing api u' h"
proof -
  from assms(1) have "\<forall>h u rc i u'. rsslInitChannel api h u = ((rc, i), u') \<longrightarrow>
        issued api u' = issued api u \<and>
        (\<forall>h'. active api u' h' \<longrightarrow> active api u h' \<or> (h' = h \<and> rc = RSSL_RET_SUCCESS)) \<and>
        (\<forall>h'. initializing api u' h' \<longrightarrow> initializing api u h') \<and>
        (rc = RSSL_RET_SUCCESS \<longrightarrow> \<not> initializing api u' h)"
    unfolding transport_contract_def by (elim conjE) assumption
  with i show "issued api u' = issued api u"
    "active api u' h' \<Longrightarrow> active api u h' \<or> (h' = h \<and> rc = RSSL_RET_SUCCESS)"
    "initializing api u' h' \<Longrightarrow> initializing api u h'"
    "rc = RSSL_RET_SUCCESS \<Longrightarrow> \<not> initializing api u' h" by (metis (no_types))+
qed

lemma contract_close:
  assumes "transport_contract api" and "rsslCloseChannel api h u = (rc, u')"
  shows "calm api u u'" and "\<not> active api u' h"
proof -
  from assms(1) have "\<forall>h u rc u'. rsslCloseChannel api h u = (rc, u') \<longrightarrow> calm api u u' \<and> \<not> active api u' h"
    unfolding transport_contract_def by (elim conjE) assumption
  with assms(2) show "calm api u u'" "\<not> active api u' h" by blast+
qed

lemma contract_calm:
  assumes "transport_contract api"
  shows "rsslFlush api h u = (r4, u') \<Longrightarrow> calm api u u'"
    and "rsslReadEx api h u = (r2, u') \<Longrightarrow> calm api u u'"
    and "rsslSetDecodeIteratorRWFVersion api va vb u = (r11, u') \<Longrightarrow> calm api u u'"
    and "rsslSetDecodeIteratorBuffer api b u = (r12, u') \<Longrightarrow> calm api u u'"
    and "rsslDecodeMsg api u = (r13, u') \<Longrightarrow> calm api u u'"
    and "rsslValidateMsg api m u = (r10, u') \<Longrightarrow> calm api u u'"
    and "rsslGetChannelInfo api h u = (r1, u') \<Longrightarrow> calm api u u'"
  by (rule keepsD(4,2,11,12,13,10,1) [OF contract_keeps [OF assms, of u] calm_refl], assumption)+

text \<open>\<open>stays p q\<close>: a step that leaves the directory alone and is calm.\<close>

definition stays :: "'u rssl \<Rightarrow> 'u prov \<Rightarrow> 'u prov \<Rightarrow> bool" where
  "stays api p q \<longleftrightarrow> shape q = shape p \<and> calm api (world p) (world q)"

lemma stays_refl [simp]: "stays api p p"
  by (simp add: stays_def)

lemma stays_trans: "stays api p q \<Longrightarrow> stays api q r \<Longrightarrow> stays api p r"
  unfolding stays_def by (metis calm_trans)

lemma stays_connections: "stays api p q \<Longrightarrow> connections q = connections p"
  unfolding stays_def by (elim conjE) (rule shape_eqD(1))

lemma good_stays:
  "good_except X api p \<Longrightarrow> stays api p q \<Longrightarrow> fault q = fault p \<Longrightarrow> good_except X api q"
  unfolding stays_def by (elim conjE) (rule good_calm)

lemma stays_Ping: "transport_contract api \<Longrightarrow> stays api p (snd (Ping api h p))"
  using keeps_Ping [OF contract_keeps calm_refl] by (simp add: stays_def shape_Ping)

lemma stays_Submit: "transport_contract api \<Longrightarrow> stays api p (snd (Submit api h b p))"
  using keeps_Submit [OF contract_keeps calm_refl] by (simp add: stays_def shape_Submit)

lemma stays_watch [simp]: "stays api p (watch_connection s p)"
  by (simp add: stays_def watch_connection_def shape_def)

lemma watch_fault [simp]: "fault (watch_connection s p) = fault p"
  by (simp add: watch_connection_def)

lemma good_cong:
  assumes "shape q = shape p" "world q = world p" "fault q = fault p"
  shows "good_except X api q = good_except X api p"
  using good_calm [of X api p q] good_calm [of X api q p] assms by auto

lemma good_watch [simp]: "good_except X api (watch_connection s p) = good_except X api p"
  by (rule good_cong) (simp_all add: watch_connection_def)

lemma shape_run [simp]: "shape (p\<lparr>keep_running := b\<rparr>) = shape p"
  by (simp add: shape_def)

lemma good_fields [simp]:
  "good_except X api (pstat pc p) = good_except X api p"
  "good_except X api (pstat_add pc n p) = good_except X api p"
  "good_except X api (p\<lparr>out_rfds := S\<rparr>) = good_except X api p"
  "good_except X api (p\<lparr>out_wfds := S\<rparr>) = good_except X api p"
  "good_except X api (p\<lparr>in_rfds := S, in_efds := T\<rparr>) = good_except X api p"
  "good_except X api (Abort api' h p) = good_except X api p"
  by (rule good_cong, simp, simp, simp)+

lemma connections_fields [simp]:
  "connections (pstat pc p) = connections p" "connections (pstat_add pc n p) = connections p"
  "connections (Abort api h p) = connections p" "connections (watch_connection s p) = connections p"
  "connections (updc k f p) = connections p" "connections (on_user h f p) = connections p"
  "clients (pstat pc p) = clients p" "userSpec (pstat pc p) = userSpec p"
  "userSpec (pstat_add pc n p) = userSpec p" "clients (pstat_add pc n p) = clients p"
  by (auto simp: pstat_def pstat_add_def Abort_def Let_def watch_connection_def updc_def on_user_def
      split: option.splits)

lemma good_user_update:
  assumes g: "good_except X api p" and h: "h \<in> set (connections p)" "userSpec p h = Some k"
    and f: "\<And>c. c_handle (f c) = c_handle c"
  shows "good_except X api (updc k f p)"
  using good_user [OF g h] by (intro good_calm [OF g]) (simp_all add: shape_updc f fault_updc)

lemma good_on_user:
  assumes g: "good_except X api p" and h: "h \<in> set (connections p)"
    and f: "\<And>c. c_handle (f c) = c_handle c"
  shows "good_except X api (on_user h f p)"
  using good_user_update [OF g h _ f] g by (simp add: on_user_def split: option.splits)

subsection \<open>The handlers keep the invariant\<close>

text \<open>The request delegate does not touch the channels.\<close>

definition delegate_calm :: "'u rssl \<Rightarrow> 'u delegate \<Rightarrow> bool" where
  "delegate_calm api del \<longleftrightarrow> (\<forall>u0. delegate_keeps (calm api u0) del)"

lemma good_OnCanWrite:
  assumes c: "transport_contract api" and g: "good_except X api p" and h: "h \<in> set (connections p)"
  shows "good_except X api (OnCanWriteWithoutBlocking api h p)"
    and "connections (OnCanWriteWithoutBlocking api h p) = connections p"
proof -
  obtain rc u where f: "rsslFlush api h (world p) = (rc, u)" by force
  have g1: "good_except X api (p\<lparr>world := u\<rparr>)"
    by (rule good_calm [OF g]) (simp_all add: contract_calm(1) [OF c f])
  define p3 where "p3 = (pstat PROVIDER_PC_RSSL_FLUSH (p\<lparr>world := u\<rparr>))
    \<lparr>in_wfds := in_wfds (pstat PROVIDER_PC_RSSL_FLUSH (p\<lparr>world := u\<rparr>)) - {socketId (chanp api (pstat PROVIDER_PC_RSSL_FLUSH (p\<lparr>world := u\<rparr>)) h)}\<rparr>"
  have g3: "good_except X api p3"
    using g1 by (subst good_cong [of p3 "p\<lparr>world := u\<rparr>"]) (simp_all add: p3_def pstat_def)
  have p3: "userSpec p3 = userSpec p" "connections p3 = connections p" by (simp_all add: p3_def)
  have e: "OnCanWriteWithoutBlocking api h p = (if rc = RSSL_RET_SUCCESS then
      (case userSpec p3 h of None \<Rightarrow> p3
        | Some k \<Rightarrow> updc k (\<lambda>c. schedule_ping (last_activity p) (c\<lparr>pending_count := 0\<rparr>))
                     (pstat_add PROVIDER_PC_RSSL_MSGS_SENT (pending_count (getc p3 k)) p3))
      else p\<lparr>world := u\<rparr>)"
    unfolding OnCanWriteWithoutBlocking_def f Let_def p3_def by simp
  show "good_except X api (OnCanWriteWithoutBlocking api h p)"
    unfolding e using g1 g3 h p3
    by (auto split: option.splits intro!: good_user_update)
  show "connections (OnCanWriteWithoutBlocking api h p) = connections p"
    unfolding e using p3 by (simp split: option.splits)
qed

text \<open>\<open>tame p q\<close>: \<open>stays\<close> and no fault.\<close>

definition tame :: "'u rssl \<Rightarrow> 'u prov \<Rightarrow> 'u prov \<Rightarrow> bool" where
  "tame api p q \<longleftrightarrow> stays api p q \<and> fault q = fault p"

lemma tame_trans: "tame api p q \<Longrightarrow> tame api q r \<Longrightarrow> tame api p r"
  unfolding tame_def using stays_trans by metis

lemma tame_small:
  "tame api p p" "tame api p (pstat pc p)" "tame api p (Abort api' h p)"
  by (simp_all add: tame_def stays_def)

lemma tame_world: "calm api (world p) u \<Longrightarrow> tame api p (p\<lparr>world := u\<rparr>)"
  by (simp add: tame_def stays_def)

lemma tame_Abort_pstat: "tame api p q \<Longrightarrow> tame api p (Abort api' h (pstat pc q))"
  using tame_trans [OF tame_trans [OF _ tame_small(2)] tame_small(3)] .

lemma good_tame: "good_except X api p \<Longrightarrow> tame api p q \<Longrightarrow> good_except X api q"
  unfolding tame_def by (elim conjE) (rule good_stays)

lemma tame_connections: "tame api p q \<Longrightarrow> connections q = connections p"
  unfolding tame_def using stays_connections by blast

lemma tame_OnMsg_decoded:
  assumes c: "transport_contract api" and w: "writes_end api" and d: "delegate_calm api del"
    and g: "good_except X api p" and h: "h \<in> set (connections p)" and u: "userSpec p h \<noteq> None"
  shows "tame api p (OnMsg_decoded api del h msg p)"
proof -
  let ?p1 = "pstat PROVIDER_PC_RSSL_MSGS_DECODED p"
  obtain valid p2 where v: "(if debug_mode (cfg p) then lift_world (rsslValidateMsg api msg) ?p1
      else (True, ?p1)) = (valid, p2)" by force
  have "tame api ?p1 p2"
  proof (cases "debug_mode (cfg p)")
    case True
    obtain w u where wu: "rsslValidateMsg api msg (world ?p1) = (w, u)" by force
    then have "p2 = ?p1\<lparr>world := u\<rparr>" using v True by (simp add: lift_world_def)
    then show ?thesis using tame_world [OF contract_calm(6) [OF c wu]] by simp
  next
    case False
    then show ?thesis using v by (simp add: tame_small)
  qed
  then have t2: "tame api p p2" by (rule tame_trans [OF tame_small(2)])
  define p3 where "p3 = (if debug_mode (cfg p) then pstat PROVIDER_PC_RSSL_MSGS_VALIDATED p2 else p2)"
  have t3: "tame api p p3" unfolding p3_def using t2 tame_trans [OF t2 tame_small(2)] by simp
  obtain k where k: "userSpec p3 h = Some k"
    using u t3 shape_eqD(4) [of p3 p] by (auto simp: tame_def stays_def)
  have g3: "good_except X api p3" by (rule good_tame [OF g t3])
  have h3: "h \<in> set (connections p3)" using h tame_connections [OF t3] by simp
  obtain ok p4 where m: "client_OnMsg api del k msg p3 = (ok, p4)" by force
  have "quiet (calm api (world p3)) k p3 p4"
    using refines_client_OnMsg [OF contract_keeps [OF c, of "world p3"] w, of del k msg p3] d m
    by (simp add: refines_def delegate_calm_def)
  then have "tame api p3 p4"
    using good_user [OF g3 h3 k] good_ptr_ok [OF g3 h3] by (simp add: quiet_def stays_def tame_def)
  then have t4: "tame api p p4" by (rule tame_trans [OF t3])
  have e: "OnMsg_decoded api del h msg p = (if \<not> valid then Abort api h (pstat PROVIDER_PC_RSSL_MSGS_MALFORMED p2)
      else if ok then p4 else Abort api h p4)"
    unfolding OnMsg_decoded_def Let_def v prod.case p3_def [symmetric] using k m by simp
  show ?thesis
    unfolding e using tame_Abort_pstat [OF t2] t4 tame_trans [OF t4 tame_small(3)] by simp
qed

lemma tame_OnMsg:
  assumes c: "transport_contract api" and w: "writes_end api" and d: "delegate_calm api del"
    and g: "good_except X api p" and h: "h \<in> set (connections p)" and u: "userSpec p h \<noteq> None"
  shows "tame api p (OnMsg api del h buf p)"
proof -
  obtain rc1 u1 where 1: "rsslSetDecodeIteratorRWFVersion api (majorVersion (chanp api p h))
      (minorVersion (chanp api p h)) (world p) = (rc1, u1)" by force
  obtain rc2 u2 where 2: "rsslSetDecodeIteratorBuffer api buf u1 = (rc2, u2)" by force
  obtain rc3 msg u3 where 3: "rsslDecodeMsg api u2 = ((rc3, msg), u3)" by (metis prod.exhaust)
  have c1: "calm api (world p) u1" using contract_calm(3) [OF c 1] .
  have c2: "calm api (world p) u2" using calm_trans [OF c1 contract_calm(4) [OF c 2]] .
  have c3: "calm api (world p) u3" using calm_trans [OF c2 contract_calm(5) [OF c 3]] .
  have t3: "tame api p (p\<lparr>world := u3\<rparr>)" using c3 by (rule tame_world)
  have "tame api (p\<lparr>world := u3\<rparr>) (OnMsg_decoded api del h msg (p\<lparr>world := u3\<rparr>))"
    using h u by (intro tame_OnMsg_decoded [OF c w d good_tame [OF g t3]]) simp_all
  then have t: "tame api p (OnMsg_decoded api del h msg (p\<lparr>world := u3\<rparr>))"
    by (rule tame_trans [OF t3])
  note ab = tame_Abort_pstat [OF tame_world]
  show ?thesis
    unfolding OnMsg_def 1 2 3 Let_def prod.case using t ab [OF c1] ab [OF c2] ab [OF c3] by simp
qed

lemma good_refresh_pong:
  "good_except X api p \<Longrightarrow> h \<in> set (connections p) \<Longrightarrow> good_except X api (refresh_pong api' h p)"
  unfolding refresh_pong_def by (rule good_on_user) simp_all

lemma good_fd_change [simp]: "good_except X api (fd_change api' h p) = good_except X api p"
  by (simp add: fd_change_def Let_def)

lemma connections_fd_change [simp]: "connections (fd_change api h p) = connections p"
  by (simp add: fd_change_def Let_def)

lemma good_OnActiveState:
  assumes c: "transport_contract api" and w: "writes_end api" and d: "delegate_calm api del"
    and g: "good_except X api p" and h: "h \<in> set (connections p)" and u: "userSpec p h \<noteq> None"
  shows "good_except X api (OnActiveState api del h p)"
    and "connections (OnActiveState api del h p) = connections p"
proof -
  obtain r v where r: "rsslReadEx api h (world p) = (r, v)" by force
  define p1 where "p1 = pstat_add PROVIDER_PC_UNCOMPRESSED_BYTES_RECEIVED (rd_uncompressedBytesRead r)
               (pstat_add PROVIDER_PC_BYTES_RECEIVED (rd_bytesRead r) (p\<lparr>world := v\<rparr>))"
  have "good_except X api (p\<lparr>world := v\<rparr>)"
    by (rule good_calm [OF g]) (simp_all add: contract_calm(2) [OF c r])
  then have g1: "good_except X api p1" by (simp add: p1_def)
  have p1: "connections p1 = connections p" "userSpec p1 h \<noteq> None" using u by (simp_all add: p1_def)
  have closed: "good_except X api (check_closed_state api h (pstat pc p1))"
    "connections (check_closed_state api h (pstat pc p1)) = connections p" for pc
    using g1 p1 by (simp_all add: check_closed_state_def)
  have msg: "good_except X api (refresh_pong api h (OnMsg api del h buf (pstat pc p1)))"
    "connections (refresh_pong api h (OnMsg api del h buf (pstat pc p1))) = connections p" for buf pc
  proof -
    have g2: "good_except X api (pstat pc p1)" "h \<in> set (connections (pstat pc p1))"
      "userSpec (pstat pc p1) h \<noteq> None" using g1 p1 h by simp_all
    note m = tame_OnMsg [OF c w d g2, of buf]
    have cn: "connections (OnMsg api del h buf (pstat pc p1)) = connections p"
      using tame_connections [OF m] p1 by simp
    then show "good_except X api (refresh_pong api h (OnMsg api del h buf (pstat pc p1)))"
      using good_tame [OF g2(1) m] h by (simp add: good_refresh_pong)
    show "connections (refresh_pong api h (OnMsg api del h buf (pstat pc p1))) = connections p"
      using cn by (simp add: refresh_pong_def)
  qed
  define p2 where "p2 = (case rd_buf r of None \<Rightarrow> p1 | Some buf \<Rightarrow> refresh_pong api h
      (OnMsg api del h buf (pstat PROVIDER_PC_RSSL_MSGS_RECEIVED p1)))"
  have p2: "good_except X api p2" "connections p2 = connections p"
    using g1 p1 msg by (simp_all add: p2_def split: option.splits)
  have pong: "good_except X api (refresh_pong api h (pstat pc p1))"
    "connections (refresh_pong api h (pstat pc p1)) = connections p" for pc
    using g1 p1 h by (simp_all add: good_refresh_pong) (simp add: refresh_pong_def)
  have e: "OnActiveState api del h p = (case rd_rc r of
       RSSL_RET_CONGESTION_DETECTED \<Rightarrow>
         check_closed_state api h (pstat PROVIDER_PC_RSSL_CONGESTION_DETECTED p1)
     | RSSL_RET_SLOW_READER \<Rightarrow> check_closed_state api h (pstat PROVIDER_PC_RSSL_SLOW_READER p1)
     | RSSL_RET_PACKET_GAP_DETECTED \<Rightarrow>
         check_closed_state api h (pstat PROVIDER_PC_RSSL_PACKET_GAP_DETECTED p1)
     | RSSL_RET_READ_FD_CHANGE \<Rightarrow> fd_change api h p1
     | RSSL_RET_READ_PING \<Rightarrow> refresh_pong api h (pstat PROVIDER_PC_RSSL_PONG_RECEIVED p1)
     | RSSL_RET_FAILURE \<Rightarrow> pstat PROVIDER_PC_RSSL_READ_FAILURE p1
     | rc \<Rightarrow> if positive rc
         then p2\<lparr>out_rfds := insert (socketId (chanp api p2 h)) (out_rfds p2)\<rparr> else p2)"
    unfolding OnActiveState_def r p2_def p1_def Let_def by (simp split: rssl_ret.split)
  show "good_except X api (OnActiveState api del h p)"
    unfolding e using closed g1 pong p2 by (cases "rd_rc r") simp_all
  show "connections (OnActiveState api del h p) = connections p"
    unfolding e using closed p1 pong p2 by (cases "rd_rc r") simp_all
qed

subsection \<open>Sessions begin and end\<close>

lemma good_RejectConnection:
  assumes c: "transport_contract api" and g: "good api p"
  shows "good api (RejectConnection api p)"
proof -
  obtain r u where a: "rsslAccept api True (world p) = (r, u)" by force
  note I = goodD(1) [OF g [unfolded good_def]]
  have "pinv_except {} api (p\<lparr>world := u\<rparr>)"
  proof (cases r)
    case None
    then have "calm api (world p) u" using contract_accept_none [OF c] a by simp
    then show ?thesis using pinv_calm [OF I] by simp
  next
    case (Some h)
    note n = contract_accept(1,2,4,5) [OF c a [unfolded Some]]
    show ?thesis
    proof (rule pinvI)
      fix h' assume h': "h' \<in> fst ` set (clients (p\<lparr>world := u\<rparr>))"
      then have "h' \<noteq> h" using pinvD(2,5) [OF I] n(1) by auto
      then show "\<not> initializing api (world (p\<lparr>world := u\<rparr>)) h'"
        using n(4) [of h'] h' pinvD(14) [OF I, of h'] by auto
    next
      show "set (connections (p\<lparr>world := u\<rparr>)) \<subseteq> issued api (world (p\<lparr>world := u\<rparr>))"
        using pinvD(2) [OF I] n(2) by auto
    next
      fix h' k assume "userSpec (p\<lparr>world := u\<rparr>) h' = Some k"
      then show "h' \<in> issued api (world (p\<lparr>world := u\<rparr>))" using pinvD(11) [OF I] n(2) by simp
    next
      fix h' assume "h' \<in> set (connections (p\<lparr>world := u\<rparr>))" "active api (world (p\<lparr>world := u\<rparr>)) h'"
      then show "userSpec (p\<lparr>world := u\<rparr>) h' \<noteq> None" using pinvD(13) [OF I] n(3) by simp
    next
      fix j
      show "alive (p\<lparr>world := u\<rparr>) j = (j \<in> snd ` set (clients (p\<lparr>world := u\<rparr>)))"
        using pinvD(7) [OF I, of j] by simp
      show "alive (p\<lparr>world := u\<rparr>) j \<Longrightarrow> j < next_obj (p\<lparr>world := u\<rparr>)"
        using pinvD(10) [OF I, of j] by simp
    next
      fix h' j
      show "(h', j) \<in> set (clients (p\<lparr>world := u\<rparr>)) \<Longrightarrow> c_handle (getc (p\<lparr>world := u\<rparr>) j) = h'"
        using pinvD(8) [OF I, of h' j] by (simp add: getc_def)
      show "(h', j) \<in> set (clients (p\<lparr>world := u\<rparr>)) \<Longrightarrow> userSpec (p\<lparr>world := u\<rparr>) h' = Some j"
        using pinvD(9) [OF I, of h' j] by simp
      show "h' \<in> set (connections (p\<lparr>world := u\<rparr>)) \<Longrightarrow> userSpec (p\<lparr>world := u\<rparr>) h' = Some j \<Longrightarrow>
          (h', j) \<in> set (clients (p\<lparr>world := u\<rparr>))"
        using pinvD(12) [OF I, of h' j] by simp
    qed (use pinvD(1,3-6) [OF I] in simp_all)
  qed
  then have "good_except {} api (p\<lparr>world := u\<rparr>)"
    using goodD(2,3) [OF g [unfolded good_def]] by (simp add: good_except_def)
  then show ?thesis using a by (simp add: good_def RejectConnection_def)
qed

lemma good_AcceptConnection:
  assumes c: "transport_contract api" and g: "good api p"
    and cap: "length (connections p) < session_capacity (cfg p)"
  shows "good api (AcceptConnection api p)"
proof -
  obtain r u where a: "rsslAccept api False (world p) = (r, u)" by force
  note I = goodD(1) [OF g [unfolded good_def]]
  show ?thesis
  proof (cases r)
    case None
    then have "calm api (world p) u" using contract_accept_none [OF c] a by simp
    then show ?thesis using good_calm [of "{}" api p "p\<lparr>world := u\<rparr>"] g None a
      by (simp add: AcceptConnection_def good_def)
  next
    case (Some h)
    note n = contract_accept [OF c a [unfolded Some]]
    have h: "h \<notin> set (connections p)" "userSpec p h = None"
      using n(1) pinvD(2,11) [OF I] by (auto intro: ccontr)
    let ?q = "p\<lparr>world := u, connections := connections p @ [h]\<rparr>"
    have "pinv_except {} api ?q"
    proof (rule pinvI)
      fix h' assume h': "h' \<in> fst ` set (clients ?q)"
      then have "h' \<noteq> h" using pinvD(2,5) [OF I] n(1) by auto
      then show "\<not> initializing api (world ?q) h'"
        using n(5) [of h'] h' pinvD(14) [OF I, of h'] by auto
    next
      show "set (connections ?q) \<subseteq> issued api (world ?q)" using pinvD(2) [OF I] n(2) by auto
    next
      fix h' k assume "userSpec ?q h' = Some k"
      then show "h' \<in> issued api (world ?q)" using pinvD(11) [OF I] n(2) by simp
    next
      fix h' assume "h' \<in> set (connections ?q)" "active api (world ?q) h'"
      then show "userSpec ?q h' \<noteq> None" using pinvD(13) [OF I] n(3,4) by auto
    next
      fix h' k assume "h' \<in> set (connections ?q)" "userSpec ?q h' = Some k"
      then show "(h', k) \<in> set (clients ?q)" using pinvD(12) [OF I] h(2) by auto
    next
      show "fst ` set (clients ?q) \<subseteq> set (connections ?q)" using pinvD(5) [OF I] by auto
    next
      fix j
      show "alive ?q j = (j \<in> snd ` set (clients ?q))"
        using pinvD(7) [OF I, of j] by (simp add: alive_def)
      show "alive ?q j \<Longrightarrow> j < next_obj ?q"
        using pinvD(10) [OF I, of j] by (simp add: alive_def)
    next
      fix h' j
      show "(h', j) \<in> set (clients ?q) \<Longrightarrow> c_handle (getc ?q j) = h'"
        using pinvD(8) [OF I, of h' j] by (simp add: getc_def)
      show "(h', j) \<in> set (clients ?q) \<Longrightarrow> userSpec ?q h' = Some j"
        using pinvD(9) [OF I, of h' j] by simp
    qed (use pinvD(1,3,4,6) [OF I] h cap in simp_all)
    then show ?thesis using Some a goodD(2,3) [OF g [unfolded good_def]]
      by (simp add: AcceptConnection_def Let_def good_def) (simp add: good_except_def)
  qed
qed

lemma good_OnConnection:
  assumes c: "transport_contract api" and g: "good api p"
  shows "good api (OnConnection api p)"
proof -
  have "length (connections p) \<le> session_capacity (cfg p)"
    using pinvD(3) [OF goodD(1) [OF g [unfolded good_def]]] .
  moreover have "cfg (pstat pc p) = cfg p" for pc by (simp add: pstat_def)
  moreover have "good api (pstat pc p)" for pc using g by (simp add: good_def)
  ultimately show ?thesis
    using good_RejectConnection [OF c] good_AcceptConnection [OF c] by (auto simp: OnConnection_def Let_def)
qed

lemma good_Close_channel:
  assumes c: "transport_contract api" and g: "good_except {h} api p"
  shows "good api (Close_channel api h p)" and "connections (Close_channel api h p) = connections p"
proof -
  obtain rc u where a: "rsslCloseChannel api h (world p) = (rc, u)" by force
  then have u: "calm api (world p) u" "\<not> active api u h"
    using contract_close [OF c] by blast+
  have e: "Close_channel api h p = p\<lparr>world := u\<rparr>" by (simp add: Close_channel_def a)
  have g1: "good_except {h} api (p\<lparr>world := u\<rparr>)" by (rule good_calm [OF g]) (simp_all add: u)
  note I = goodD(1) [OF g1]
  have "pinv_except {} api (p\<lparr>world := u\<rparr>)"
  proof (rule pinvI)
    fix h' assume "h' \<in> set (connections (p\<lparr>world := u\<rparr>))" "active api (world (p\<lparr>world := u\<rparr>)) h'"
    then show "userSpec (p\<lparr>world := u\<rparr>) h' \<noteq> None" using pinvD(13) [OF I] u(2) by auto
  qed (rule pinvD [OF I]; assumption?)+
  then show "good api (Close_channel api h p)" using goodD(2,3) [OF g1]
    unfolding e good_def good_except_def by simp
  show "connections (Close_channel api h p) = connections p" by (simp add: e)
qed

lemma good_except_mono: "good_except {} api p \<Longrightarrow> good_except X api p"
proof -
  assume g: "good_except {} api p"
  have "pinv_except X api p"
    by (rule pinvI; rule pinvD [OF goodD(1) [OF g]]; (assumption | simp)?)
  then show ?thesis using goodD(2,3) [OF g] by (simp add: good_except_def)
qed


lemma Initialize_client_frame:
  assumes c: "transport_contract api" and i: "Initialize_client api k p = (ok, q)"
    and a: "objs p k = Some cl"
  shows "\<exists>cl' u. q = p\<lparr>objs := (objs p)(k \<mapsto> cl'), world := u\<rparr> \<and> c_handle cl' = c_handle cl \<and>
    calm api (world p) u"
proof -
  obtain rc u where r: "rsslGetChannelInfo api (c_handle (getc p k)) (world p) = (rc, u)" by force
  have w: "updc k f p = p\<lparr>objs := (objs p)(k \<mapsto> f cl)\<rparr>" for f using a by (rule updc_alive)
  have "q = p\<lparr>objs := objs q, world := u\<rparr> \<and>
      (\<exists>cl'. objs q = (objs p)(k \<mapsto> cl') \<and> c_handle cl' = c_handle cl)"
    using i r unfolding Initialize_client_def Let_def w
    by (auto simp: updc_def split: if_splits)
  then show ?thesis using contract_calm(7) [OF c r] by metis
qed

text \<open>The new session object, once it is initialised: it is the only change.\<close>

lemma good_new_session:
  assumes g: "good_except {h} api p" and h: "h \<in> set (connections p)" "h \<notin> fst ` set (clients p)"
    and ini: "\<not> initializing api (world p) h"
    and k: "k = next_obj p" and u: "calm api (world p) u"
    and c: "c_handle cl = h"
  shows "good api (p\<lparr>objs := (objs p)(k \<mapsto> cl), next_obj := k + 1, world := u,
    userSpec := (userSpec p)(h \<mapsto> k), clients := clients p @ [(h, k)]\<rparr>)" (is "good api ?q")
proof -
  note I = goodD(1) [OF g]
  have k_new: "k \<notin> snd ` set (clients p)" 
  proof
    assume "k \<in> snd ` set (clients p)"
    then have "k < next_obj p" using pinvD(10) [OF I, of k] pinvD(7) [OF I, of k] by simp
    then show False using k by simp
  qed
  have iss: "issued api u = issued api (world p)"
    and act: "\<And>h. active api u h \<Longrightarrow> active api (world p) h"
    and init: "\<And>h. initializing api u h \<Longrightarrow> initializing api (world p) h"
    using u by (auto simp: calm_def)
  have "pinv_except {} api ?q"
  proof (rule pinvI)
    fix j
    show "alive ?q j = (j \<in> snd ` set (clients ?q))"
      using pinvD(7) [OF I, of j] by (auto simp: alive_def)
    show "alive ?q j \<Longrightarrow> j < next_obj ?q"
      using pinvD(10) [OF I, of j] k by (auto simp: alive_def split: if_splits)
  next
    fix h' j assume hj: "(h', j) \<in> set (clients ?q)"
    have n: "(h', j) \<in> set (clients p) \<Longrightarrow> j \<noteq> k \<and> h' \<noteq> h" using k_new h(2) by force
    show "c_handle (getc ?q j) = h'"
      using hj n pinvD(8) [OF I, of h' j] c by (auto simp: getc_def)
    show "userSpec ?q h' = Some j"
      using hj n pinvD(9) [OF I, of h' j] by auto
  next
    fix h' j assume "userSpec ?q h' = Some j"
    then show "h' \<in> issued api (world ?q)"
      using pinvD(2) [OF I] pinvD(11) [OF I, of h' j] h(1) iss by (auto split: if_splits)
  next
    fix h' j assume "h' \<in> set (connections ?q)" "userSpec ?q h' = Some j"
    then show "(h', j) \<in> set (clients ?q)" using pinvD(12) [OF I, of h' j] by (auto split: if_splits)
  next
    fix h' assume "h' \<in> set (connections ?q)" "active api (world ?q) h'"
    then show "userSpec ?q h' \<noteq> None" using pinvD(13) [OF I, of h'] act by auto
  next
    fix h' assume "h' \<in> fst ` set (clients ?q)"
    then show "\<not> initializing api (world ?q) h'"
      using pinvD(14) [OF I, of h'] init [of h'] ini by auto
  next
    show "distinct (map fst (clients ?q))" using pinvD(4) [OF I] h(2) by auto
    show "distinct (map snd (clients ?q))" using pinvD(6) [OF I] k_new by auto
    show "fst ` set (clients ?q) \<subseteq> set (connections ?q)" using pinvD(5) [OF I] h(1) by auto
    show "set (connections ?q) \<subseteq> issued api (world ?q)" using pinvD(2) [OF I] iss by simp
  qed (use pinvD(1,3) [OF I] in simp_all)
  then show ?thesis using goodD(2,3) [OF g] by (simp add: good_def good_except_def)
qed


lemma good_next_obj:
  assumes g: "good_except X api p" and n: "next_obj p \<le> n"
  shows "good_except X api (p\<lparr>next_obj := n\<rparr>)" (is "good_except X api ?q")
proof -
  note I = goodD(1) [OF g]
  have sel: "alive ?q = alive p" "getc ?q = getc p" "connections ?q = connections p"
    "clients ?q = clients p" "world ?q = world p" "userSpec ?q = userSpec p" "cfg ?q = cfg p"
    by (simp_all add: fun_eq_iff alive_def getc_def)
  have "pinv_except X api ?q"
  proof (rule pinvI, unfold sel)
    fix j assume "alive p j"
    then show "j < next_obj ?q" using pinvD(10) [OF I, of j] n by simp
  qed (rule pinvD [OF I]; assumption?)+
  then show ?thesis using goodD(2,3) [OF g] by (simp add: good_except_def)
qed

lemma good_AcceptClientSession:
  assumes c: "transport_contract api" and g: "good_except {h} api p"
    and h: "h \<in> set (connections p)" "h \<notin> fst ` set (clients p)"
    and ini: "\<not> initializing api (world p) h"
    and run: "AcceptClientSession api h address p = (ok, q)"
  shows "if ok then good api q else good_except {h} api q" and "connections q = connections p"
proof -
  define k where "k = next_obj p"
  define p1 where "p1 = p\<lparr>objs := (objs p)(k \<mapsto> client_init api h address (world p)), next_obj := k + 1\<rparr>"
  have n: "new_client api h address p = (k, p1)" by (simp add: new_client_def k_def p1_def Let_def)
  obtain ok1 p2 where i: "Initialize_client api k p1 = (ok1, p2)" by force
  have k1: "objs p1 k = Some (client_init api h address (world p))" by (simp add: p1_def)
  obtain cl u where p2: "p2 = p1\<lparr>objs := (objs p1)(k \<mapsto> cl), world := u\<rparr>"
    "c_handle cl = h" "calm api (world p1) u"
    using Initialize_client_frame [OF c i k1] by (auto simp: client_init_def)
  have fresh: "objs p k = None"
  proof (rule ccontr)
    assume "objs p k \<noteq> None"
    then have "alive p k" by (simp add: alive_def)
    then show False using pinvD(10) [OF goodD(1) [OF g], of k] k_def by simp
  qed
  have "(if ok then good api q else good_except {h} api q) \<and> connections q = connections p"
  proof (cases ok1)
    case False
    have same: "(objs p)(k := None) = objs p" using fresh by (simp add: fun_upd_idem)
    have e: "q = pstat PROVIDER_PC_CLIENT_INIT_EXCEPTION
        (p\<lparr>objs := objs p, next_obj := k + 1, world := u\<rparr>)" "\<not> ok"
      using run n i False p2 same by (auto simp: AcceptClientSession_def Let_def free_client_def p1_def)
    have "good_except {h} api (p\<lparr>world := u\<rparr>)"
      using p2(3) by (intro good_calm [OF g]) (simp_all add: p1_def)
    then have "good_except {h} api (p\<lparr>world := u, next_obj := k + 1\<rparr>)"
      by (rule good_next_obj) (simp add: k_def)
    moreover have "p\<lparr>objs := objs p, next_obj := k + 1, world := u\<rparr> = p\<lparr>world := u, next_obj := k + 1\<rparr>"
      by (cases p) simp
    ultimately have "good_except {h} api (p\<lparr>objs := objs p, next_obj := k + 1, world := u\<rparr>)"
      by metis
    then show ?thesis using e by simp
  next
    case True
    define p3 where "p3 = p2\<lparr>userSpec := (userSpec p2)(h \<mapsto> k),
             min_rwf_version := lower_version (min_rwf_version p2) (rwf_version (chanp api p2 h))\<rparr>"
    have e: "q = pstat PROVIDER_PC_CLIENT_SESSION_ACCEPTED (p3\<lparr>clients := clients p3 @ [(h, k)]\<rparr>)" "ok"
      using run n i True h(2) p2 by (auto simp: AcceptClientSession_def Let_def p3_def p1_def)
    let ?r = "p\<lparr>objs := (objs p)(k \<mapsto> cl), next_obj := k + 1, world := u,
      userSpec := (userSpec p)(h \<mapsto> k), clients := clients p @ [(h, k)]\<rparr>"
    have "good api ?r"
      using p2(3) by (intro good_new_session [OF g h ini k_def _ p2(2)]) (simp add: p1_def)
    then have gr: "good_except {} api ?r" by (simp only: good_def)
    have "shape (p3\<lparr>clients := clients p3 @ [(h, k)]\<rparr>) = shape ?r"
      "world (p3\<lparr>clients := clients p3 @ [(h, k)]\<rparr>) = world ?r"
      "fault (p3\<lparr>clients := clients p3 @ [(h, k)]\<rparr>) = fault ?r"
      by (simp_all add: p3_def p2(1) p1_def shape_def)
    from good_cong [OF this, THEN iffD2, OF gr]
    have "good_except {} api (p3\<lparr>clients := clients p3 @ [(h, k)]\<rparr>)" .
    then have "good api q" using e(1) by (simp add: good_def)
    moreover have "connections q = connections p" using e(1) by (simp add: p3_def p2(1) p1_def)
    ultimately show ?thesis using e(2) by simp
  qed
  then show "if ok then good api q else good_except {h} api q" "connections q = connections p" by simp_all
qed

lemma good_RejectClientSession:
  assumes "transport_contract api" "good_except {h} api p"
  shows "good api (RejectClientSession api h p)"
    and "connections (RejectClientSession api h p) = connections p"
  using good_Close_channel [OF assms] by (simp_all add: RejectClientSession_def good_def)

lemma good_OnActiveClientSession:
  assumes c: "transport_contract api" and g: "good_except {h} api p"
    and h: "h \<in> set (connections p)" "h \<notin> fst ` set (clients p)"
    and ini: "\<not> initializing api (world p) h"
  shows "good api (OnActiveClientSession api h p)"
    and "connections (OnActiveClientSession api h p) = connections p"
proof -
  let ?p1 = "pstat PROVIDER_PC_OMM_ACTIVE_CLIENT_SESSION_RECEIVED p"
  have g1: "good_except {h} api ?p1" and h1: "h \<in> set (connections ?p1)" "h \<notin> fst ` set (clients ?p1)"
    and i1: "\<not> initializing api (world ?p1) h"
    using g h ini by simp_all
  obtain ok p2 where a: "AcceptClientSession api h (clientIP (chanp api ?p1 h)) ?p1 = (ok, p2)" by force
  note acc = good_AcceptClientSession [OF c g1 h1 i1 a]
  note rej = good_RejectClientSession [OF c]
  show "good api (OnActiveClientSession api h p)"
    using a acc(1) rej(1) [OF g1] rej(1) [of h p2]
    by (auto simp: OnActiveClientSession_def Let_def split: if_splits)
  show "connections (OnActiveClientSession api h p) = connections p"
    using a acc rej(2) [OF g1] rej(2) [of h p2]
    by (auto simp: OnActiveClientSession_def Let_def split: if_splits)
qed

lemma good_OnInitializingState:
  assumes c: "transport_contract api" and g: "good api p" and h: "h \<in> set (connections p)"
    and ini: "initializing api (world p) h"
  shows "good api (OnInitializingState api h p)"
    and "connections (OnInitializingState api h p) = connections p"
proof -
  obtain rc info u where r: "rsslInitChannel api h (world p) = ((rc, info), u)" by (metis prod.exhaust)
  note n = contract_init [OF c r]
  note I = goodD(1) [OF g [unfolded good_def]]
  let ?p1 = "p\<lparr>world := u\<rparr>"
  have nc: "h \<notin> fst ` set (clients p)" using pinvD(14) [OF I, of h] ini by blast
  define X where "X = (if rc = RSSL_RET_SUCCESS then {h} else {})"
  have "calm api (world p) u \<or> rc = RSSL_RET_SUCCESS" using n by (auto simp: calm_def)
  have "pinv_except X api ?p1"
  proof (rule pinvI)
    fix h' assume "h' \<in> set (connections ?p1)" "h' \<notin> X" "active api (world ?p1) h'"
    then show "userSpec ?p1 h' \<noteq> None"
      using pinvD(13) [OF I, of h'] n(2) [of h'] by (auto simp: X_def split: if_splits)
  next
    fix h' assume "h' \<in> fst ` set (clients ?p1)"
    then show "\<not> initializing api (world ?p1) h'" using pinvD(14) [OF I, of h'] n(3) [of h'] by auto
  next
    fix j
    show "alive ?p1 j = (j \<in> snd ` set (clients ?p1))" using pinvD(7) [OF I, of j] by simp
    show "alive ?p1 j \<Longrightarrow> j < next_obj ?p1" using pinvD(10) [OF I, of j] by simp
  next
    fix h' j
    show "(h', j) \<in> set (clients ?p1) \<Longrightarrow> c_handle (getc ?p1 j) = h'"
      using pinvD(8) [OF I, of h' j] by (simp add: getc_def)
    show "(h', j) \<in> set (clients ?p1) \<Longrightarrow> userSpec ?p1 h' = Some j"
      using pinvD(9) [OF I, of h' j] by simp
    show "userSpec ?p1 h' = Some j \<Longrightarrow> h' \<in> issued api (world ?p1)"
      using pinvD(11) [OF I, of h' j] n(1) by simp
    show "h' \<in> set (connections ?p1) \<Longrightarrow> userSpec ?p1 h' = Some j \<Longrightarrow> (h', j) \<in> set (clients ?p1)"
      using pinvD(12) [OF I, of h' j] by simp
  qed (use pinvD(1-6) [OF I] n(1) in simp_all)
  then have g1: "good_except X api ?p1"
    using goodD(2,3) [OF g [unfolded good_def]] by (simp add: good_except_def)
  have "good api (OnInitializingState api h p) \<and>
    connections (OnInitializingState api h p) = connections p"
  proof (cases "rc = RSSL_RET_SUCCESS")
    case True
    have pre: "good_except {h} api ?p1" "h \<in> set (connections ?p1)" "h \<notin> fst ` set (clients ?p1)"
      "\<not> initializing api (world ?p1) h"
      using g1 h nc n(4) [OF True] True by (simp_all add: X_def)
    note o = good_OnActiveClientSession [OF c pre]
    then show ?thesis using r True by (simp add: OnInitializingState_def Let_def good_def)
  next
    case False
    then have "good api ?p1" using g1 by (simp add: X_def good_def)
    then show ?thesis using r False by (simp add: OnInitializingState_def Let_def good_def)
  qed
  then show "good api (OnInitializingState api h p)"
    "connections (OnInitializingState api h p) = connections p" by simp_all
qed

subsection \<open>The passes over the connections\<close>

lemma good_remove:
  assumes g: "good api p" and h: "h \<in> set (connections p)"
  shows "good api (erase_client h (p\<lparr>connections := remove1 h (connections p)\<rparr>))" (is "good api ?q")
proof -
  note I = goodD(1) [OF g [unfolded good_def]]
  let ?C = "erase_key h (clients p)"
  have dist: "distinct (map fst (clients p))" "distinct (map snd (clients p))" using pinvD(4,6) [OF I] .
  have cl: "clients ?q = ?C"
  proof (cases "map_of (clients p) h")
    case None
    then have "\<forall>e \<in> set (clients p). fst e \<noteq> h" by (force simp: map_of_eq_None_iff)
    then have "?C = clients p" by (simp add: erase_key_def filter_id_conv)
    then show ?thesis using None by (simp add: erase_client_def)
  qed (simp add: erase_client_def free_client_def)
  have al: "alive ?q j \<longleftrightarrow> j \<in> snd ` set ?C" for j
  proof (cases "map_of (clients p) h")
    case None
    then have "\<forall>e \<in> set (clients p). fst e \<noteq> h" by (force simp: map_of_eq_None_iff)
    then have "set ?C = set (clients p)" by auto
    then show ?thesis using None pinvD(7) [OF I, of j] by (simp add: erase_client_def alive_def)
  next
    case (Some k)
    then have hk: "(h, k) \<in> set (clients p)" by (rule map_of_SomeD)
    have "snd ` set ?C = snd ` set (clients p) - {k}"
    proof -
      have "j \<noteq> k" if "(h', j) \<in> set (clients p)" "h' \<noteq> h" for h' j
        using that hk dist(2) by (metis distinct_map inj_on_eq_iff prod.inject snd_conv)
      moreover have "j = k" if "(h, j) \<in> set (clients p)" for j
        using that hk dist(1) by (metis eq_key_imp_eq_value)
      ultimately show ?thesis by (auto simp: image_iff) (metis snd_conv)+
    qed
    then show ?thesis using Some pinvD(7) [OF I, of j]
      by (auto simp: erase_client_def free_client_def alive_def)
  qed
  have sel: "connections ?q = remove1 h (connections p)" "world ?q = world p" "userSpec ?q = userSpec p"
    "cfg ?q = cfg p" "next_obj ?q = next_obj p" "rssl_sock ?q = rssl_sock p" "fault ?q = fault p"
    by (auto simp: erase_client_def free_client_def split: option.splits)
  have gc: "getc ?q j = getc p j" if "j \<in> snd ` set ?C" for j
    using that al [of j] by (auto simp: erase_client_def free_client_def getc_def alive_def split: option.splits if_splits)
  have "pinv_except {} api ?q"
  proof (rule pinvI, unfold sel cl)
    show "distinct (remove1 h (connections p))" using pinvD(1) [OF I] by simp
    show "set (remove1 h (connections p)) \<subseteq> issued api (world p)"
      using pinvD(2) [OF I] set_remove1_subset by fast
    show "length (remove1 h (connections p)) \<le> session_capacity (cfg p)"
      using pinvD(3) [OF I] by (auto simp: length_remove1)
    show "distinct (map fst ?C)" "distinct (map snd ?C)"
      using distinct_erase_key [OF dist(1)] distinct_erase_snd [OF dist(2)] .
    show "fst ` set ?C \<subseteq> set (remove1 h (connections p))"
      using pinvD(1,5) [OF I] by (auto simp: set_remove1_eq)
    show "alive ?q j = (j \<in> snd ` set ?C)" for j by (rule al)
    show "alive ?q j \<Longrightarrow> j < next_obj p" for j
      using al [of j] pinvD(7,10) [OF I, of j] by auto
    show "c_handle (getc ?q j) = h'" if "(h', j) \<in> set ?C" for h' j
    proof -
      have "j \<in> snd ` set ?C" using that by force
      then show ?thesis using gc pinvD(8) [OF I, of h' j] that by simp
    qed
    show "userSpec p h' = Some j" if "(h', j) \<in> set ?C" for h' j
      using that pinvD(9) [OF I, of h' j] by simp
    show "h' \<in> issued api (world p)" if "userSpec p h' = Some j" for h' j
      using that pinvD(11) [OF I] by simp
    show "(h', j) \<in> set ?C" if "h' \<in> set (remove1 h (connections p))" "userSpec p h' = Some j" for h' j
      using that pinvD(1) [OF I] pinvD(12) [OF I, of h' j] by (simp add: set_remove1_eq)
    show "userSpec p h' \<noteq> None" if "h' \<in> set (remove1 h (connections p))" "h' \<notin> {}"
      "active api (world p) h'" for h'
      using that pinvD(1) [OF I] pinvD(13) [OF I, of h'] by (simp add: set_remove1_eq)
    show "\<not> initializing api (world p) h'" if "h' \<in> fst ` set ?C" for h'
      using that pinvD(14) [OF I, of h'] by auto
  qed
  then show ?thesis using goodD(2,3) [OF g [unfolded good_def]] sel
    by (simp add: good_def good_except_def)
qed

lemma good_disconnect:
  assumes c: "transport_contract api" and g: "good api p" and h: "h \<in> set (connections p)"
  shows "good api (disconnect api h p)"
    and "connections (disconnect api h p) = remove1 h (connections p)"
proof -
  define p2 where "p2 = erase_client h (pstat PROVIDER_PC_CONNECTION_EXCEPTION p
    \<lparr>connections := remove1 h (connections (pstat PROVIDER_PC_CONNECTION_EXCEPTION p))\<rparr>)"
  have gs: "good api (pstat PROVIDER_PC_CONNECTION_EXCEPTION p)" using g by (simp add: good_def)
  have g2: "good api p2" unfolding p2_def using good_remove [OF gs] h by simp
  define s where "s = socketId (chanp api p2 h)"
  define p3 where "p3 = p2\<lparr>in_rfds := in_rfds p2 - {s}, in_wfds := in_wfds p2 - {s}, in_efds := in_efds p2 - {s}\<rparr>"
  have g3: "good api p3" using g2 unfolding good_def p3_def by (subst good_cong) simp_all
  have e: "disconnect api h p = (if state (chanp api p3 h) \<noteq> RSSL_CH_STATE_CLOSED
      then Close_channel api h p3 else p3)"
    by (simp add: disconnect_def Let_def p3_def p2_def s_def)
  have c2: "connections p2 = remove1 h (connections p)"
    by (simp add: p2_def erase_client_def free_client_def split: option.splits)
  have gx: "good_except {h} api p3" using g3 good_except_mono by (simp add: good_def)
  show "good api (disconnect api h p)" using g3 good_Close_channel(1) [OF c gx] e by simp
  show "connections (disconnect api h p) = remove1 h (connections p)"
    using good_Close_channel(2) [OF c gx] e c2 by (simp add: p3_def)
qed

lemma good_keepalive:
  assumes c: "transport_contract api" and g: "good api p" and h: "h \<in> set (connections p)"
  shows "good api (keepalive api h p)" and "connections (keepalive api h p) = connections p"
proof -
  note gx = g [unfolded good_def]
  have t: "tame api p (keepalive api h p)"
  proof (cases "userSpec p h")
    case None
    then show ?thesis by (simp add: keepalive_def tame_small)
  next
    case (Some k)
    have a: "alive p k" using good_user(1) [OF gx h Some] .
    define p1 where "p1 = (if last_activity p \<ge> next_ping (getc p k) then snd (Ping api h p) else p)"
    have "tame api p (snd (Ping api h p))"
      using stays_Ping [OF c] fault_Ping [OF good_ptr_ok [OF gx h]] by (simp add: tame_def)
    then have t1: "tame api p p1" by (simp add: p1_def tame_small)
    have "keepalive api h p = (if state (chanp api p h) \<noteq> RSSL_CH_STATE_ACTIVE then p
      else if last_activity p1 \<ge> next_pong (getc p1 k)
      then Abort api h (pstat PROVIDER_PC_RSSL_PONG_TIMEOUT p1) else p1)"
      using Some a by (simp add: keepalive_def Let_def p1_def)
    then show ?thesis using t1 tame_Abort_pstat [OF t1] by (simp add: tame_small)
  qed
  show "good api (keepalive api h p)" unfolding good_def by (rule good_tame [OF gx t])
  show "connections (keepalive api h p) = connections p" by (rule tame_connections [OF t])
qed

lemma good_check_exception:
  assumes c: "transport_contract api" and g: "good api p" and h: "h \<in> set (connections p)"
  shows "good api (check_exception api h p)"
    and "connections (check_exception api h p) \<in> {connections p, remove1 h (connections p)}"
  using good_disconnect [OF assms] g by (simp_all add: check_exception_def)

lemma good_OnCanRead:
  assumes c: "transport_contract api" and w: "writes_end api" and d: "delegate_calm api del"
    and g: "good api p" and h: "h \<in> set (connections p)"
  shows "good api (OnCanReadWithoutBlocking api del h p)"
    and "connections (OnCanReadWithoutBlocking api del h p) = connections p"
proof -
  note gx = g [unfolded good_def]
  have act: "userSpec p h \<noteq> None" if "state (chanp api p h) = RSSL_CH_STATE_ACTIVE"
    using pinvD(13) [OF goodD(1) [OF gx] h] that by (simp add: active_def chanp_def)
  have ini: "initializing api (world p) h" if "state (chanp api p h) = RSSL_CH_STATE_INITIALIZING"
    using that by (simp add: initializing_def chanp_def)
  show "good api (OnCanReadWithoutBlocking api del h p)"
    using good_OnActiveState(1) [OF c w d gx h act] good_OnInitializingState(1) [OF c g h ini] g
    by (cases "state (chanp api p h)") (simp_all add: OnCanReadWithoutBlocking_def good_def)
  show "connections (OnCanReadWithoutBlocking api del h p) = connections p"
    using good_OnActiveState(2) [OF c w d gx h act] good_OnInitializingState(2) [OF c g h ini]
    by (cases "state (chanp api p h)") (simp_all add: OnCanReadWithoutBlocking_def)
qed

lemma good_service:
  assumes c: "transport_contract api" and w: "writes_end api" and d: "delegate_calm api del"
    and g: "good api p" and h: "h \<in> set (connections p)"
    and run: "check_outgoing api h (check_incoming api del h (dw, p)) = (dw', q)"
  shows "good api q" and "connections q = connections p"
proof -
  obtain dw1 p1 where 1: "check_incoming api del h (dw, p) = (dw1, p1)" by force
  let ?r = "p\<lparr>out_rfds := out_rfds p - {socketId (chanp api p h)}\<rparr>"
  have "good api ?r" using g by (simp add: good_def)
  then have g1: "good api p1" "connections p1 = connections p"
    using 1 good_OnCanRead [OF c w d, of ?r h] g h
    by (auto simp: check_incoming_def Let_def split: if_splits)
  let ?s = "p1\<lparr>out_wfds := out_wfds p1 - {socketId (chanp api p1 h)}\<rparr>"
  have gs: "good_except {} api ?s" "h \<in> set (connections ?s)" using g1 h by (simp_all add: good_def)
  show "good api q" "connections q = connections p"
    using run 1 good_OnCanWrite [OF c gs] g1
    by (auto simp: check_outgoing_def Let_def good_def split: if_splits)
qed

text \<open>Every element of the walk is still a connection when its turn comes.\<close>

lemma good_timeout_pass:
  assumes c: "transport_contract api"
  shows "good api p \<Longrightarrow> distinct hs \<Longrightarrow> set hs \<subseteq> set (connections p) \<Longrightarrow>
    good api (timeout_pass api hs p)"
proof (induction hs arbitrary: p)
  case Nil
  then show ?case by simp
next
  case (Cons h hs)
  have h: "h \<in> set (connections p)" using Cons.prems(3) by simp
  note k = good_keepalive [OF c Cons.prems(1) h]
  have hk: "h \<in> set (connections (keepalive api h p))" using h k(2) by simp
  note x = good_check_exception [OF c k(1) hk]
  have "distinct (connections p)" using pinvD(1) [OF goodD(1)] Cons.prems(1) unfolding good_def by blast
  then have "set hs \<subseteq> set (connections (check_exception api h (keepalive api h p)))"
    using x(2) k(2) Cons.prems(2,3) by (auto simp: set_remove1_eq)
  then show ?case using Cons.IH [OF x(1)] Cons.prems(2) by simp
qed

lemma good_service_pass:
  assumes c: "transport_contract api" and w: "writes_end api" and d: "delegate_calm api del"
  shows "good api p \<Longrightarrow> distinct hs \<Longrightarrow> set hs \<subseteq> set (connections p) \<Longrightarrow>
    good api (snd (service_pass api del hs (dw, p)))"
proof (induction hs arbitrary: p dw)
  case Nil
  then show ?case by simp
next
  case (Cons h hs)
  have h: "h \<in> set (connections p)" using Cons.prems(3) by simp
  obtain dw' q where s: "check_outgoing api h (check_incoming api del h (dw, p)) = (dw', q)" by force
  note sv = good_service [OF c w d Cons.prems(1) h s]
  have hq: "h \<in> set (connections q)" using h sv(2) by simp
  note k = good_keepalive [OF c sv(1) hq]
  have hk: "h \<in> set (connections (keepalive api h q))" using hq k(2) by simp
  note x = good_check_exception [OF c k(1) hk]
  have "distinct (connections p)" using pinvD(1) [OF goodD(1)] Cons.prems(1) unfolding good_def by blast
  then have "set hs \<subseteq> set (connections (check_exception api h (keepalive api h q)))"
    using x(2) k(2) sv(2) Cons.prems(2,3) by (auto simp: set_remove1_eq)
  then show ?case using Cons.IH [OF x(1)] Cons.prems(2) s by simp
qed


subsection \<open>Replies\<close>

lemma quiet_SendReply:
  assumes k: "keeps api W" and w: "writes_end api" and n: "length data \<le> MAX_MSG_SIZE"
  shows "quiet W k p (snd (client_SendReply api k tok data p))"
proof (cases "tok \<in> tokens (getc p k)")
  case False
  then show ?thesis by (simp add: client_SendReply_def)
next
  case True
  define p0 where "p0 = updc k (\<lambda>c. c\<lparr>tokens := tokens c - {tok}\<rparr>) p"
  have q0: "quiet W k p p0" unfolding p0_def by (rule quiet_updc) simp
  obtain r p1 where g: "get_buffer api (c_handle (getc p0 k)) p0 = (r, p1)" by force
  have s1: "sends W k p0 p1" using sends_get_buffer [OF k g] .
  have "sends W k p0 (snd (client_SendReply api k tok data p))"
  proof (cases r)
    case None
    then show ?thesis using g True s1 by (simp add: client_SendReply_def Let_def p0_def [symmetric])
  next
    case (Some b)
    let ?b = "b\<lparr>buf_length := of_nat (length data), buf_data := Raw data\<rparr>"
    have e: "client_SendReply api k tok data p = submit_or api k ?b CLIENT_PC_ITEM_SENT
        (\<lambda>q. (False, release_buffer api b q)) p1"
      using g True Some n by (simp add: client_SendReply_def Let_def p0_def [symmetric])
    have "sends W k p1 (snd (client_SendReply api k tok data p))"
      unfolding e by (rule sends_submit_or [OF k w]) (simp add: sends_release_buffer [OF k])
    then show ?thesis using s1 sends_trans by blast
  qed
  then show ?thesis using quiet_trans [OF q0 sends_quiet] by blast
qed

lemma good_SendReply:
  assumes c: "transport_contract api" and w: "writes_end api" and g: "good api p"
    and n: "length data \<le> MAX_MSG_SIZE"
  shows "good api (snd (SendReply api h tok data p))"
proof (cases "map_of (clients p) h")
  case None
  then show ?thesis using g by (simp add: SendReply_def)
next
  case (Some k)
  note gx = g [unfolded good_def] and I = goodD(1) [OF g [unfolded good_def]]
  have hk: "(h, k) \<in> set (clients p)" using Some by (rule map_of_SomeD)
  then have h: "h \<in> set (connections p)" using pinvD(5) [OF I] by force
  have u: "userSpec p h = Some k" using pinvD(9) [OF I hk] .
  have q: "quiet (calm api (world p)) k p (snd (client_SendReply api k tok data p))"
    by (rule quiet_SendReply [OF contract_keeps [OF c] w n])
  have "good_except {} api (snd (client_SendReply api k tok data p))"
    using q good_user [OF gx h u] good_ptr_ok [OF gx h]
    by (intro good_calm [OF gx]) (simp_all add: quiet_def)
  then show ?thesis using Some by (simp add: SendReply_def good_def)
qed

subsection \<open>The interface of the reply delegate\<close>

text \<open>What the work loop expects of the object behind \<open>OnRead\<close>: in an environment \<open>env\<close> that the
  object relies on, it returns to a good state from a good state. Under that law every state
  that \<open>Run\<close> reaches is good.\<close>

locale reply_delegate =
  fixes env :: "'u rssl \<Rightarrow> bool" and on_read :: "'u rssl \<Rightarrow> 'u prov \<Rightarrow> bool \<times> 'u prov"
  assumes on_read_good: "transport_contract api \<Longrightarrow> writes_end api \<Longrightarrow> env api \<Longrightarrow> good api p \<Longrightarrow>
    good api (snd (on_read api p))"
begin

lemma good_check_reply:
  assumes "transport_contract api" "writes_end api" "env api" "good api p"
  shows "good api (snd (check_reply (on_read api) p))"
proof -
  obtain again p1 where o: "on_read api p = (again, p1)" by force
  have g1: "good api p1" using on_read_good [OF assms] o by simp
  then have "good api (p1\<lparr>out_rfds := S\<rparr>)" for S by (simp add: good_def)
  then show ?thesis using g1 o assms(4) by (simp add: check_reply_def split: option.splits)
qed

lemma good_DoWork:
  assumes c: "transport_contract api" and w: "writes_end api" and d: "delegate_calm api del"
    and e: "env api" and g: "good api p"
  shows "good api (snd (DoWork api del (on_read api) p))"
proof -
  define p0 where "p0 = p\<lparr>last_activity := universal_time api (world p)\<rparr>"
  have g0: "good api p0" using g unfolding good_def p0_def by (subst good_cong) simp_all
  have dist: "good api q \<Longrightarrow> distinct (connections q)" for q
    unfolding good_def using pinvD(1) [OF goodD(1)] .
  obtain dw p1 where r: "check_reply (on_read api) p0 = (dw, p1)" by force
  have g1: "good api p1" using good_check_reply [OF c w e g0] r by simp
  obtain dw2 p2 where l: "check_listen api (dw, p1) = (dw2, p2)" by force
  obtain s where s: "rssl_sock p1 = Some s" using goodD(2) [OF g1 [unfolded good_def]] by auto
  have "good api (p1\<lparr>out_rfds := out_rfds p1 - {s}\<rparr>)" using g1 by (simp add: good_def)
  then have g2: "good api p2"
    using l s g1 good_OnConnection [OF c] by (auto simp: check_listen_def split: if_splits)
  show ?thesis
    using good_timeout_pass [OF c g0 dist [OF g0]] good_service_pass [OF c w d g2 dist [OF g2]] r l
    by (simp add: DoWork_def Let_def p0_def [symmetric])
qed

lemma good_run_step:
  assumes c: "transport_contract api" and w: "writes_end api" and d: "delegate_calm api del"
    and e: "env api" and s: "run_step api del (on_read api) s s'" and g: "good api (snd s)"
  shows "good api (snd s')"
  using s g
proof (cases rule: run_step.cases)
  case (work p did_work q)
  then show ?thesis using good_DoWork [OF c w d e, of p] g by simp
next
  case (stop p did_work q)
  then have "good api q" using good_DoWork [OF c w d e, of p] g by simp
  then show ?thesis using stop unfolding good_def by (simp, subst good_cong) simp_all
next
  case (select r p w' e' n)
  then show ?thesis using g unfolding good_def by (simp, subst good_cong) simp_all
next
  case (quit ph p)
  then show ?thesis using g unfolding good_def by (simp add: Quit_def, subst good_cong) simp_all
qed

lemma good_run_reach:
  assumes c: "transport_contract api" and w: "writes_end api" and d: "delegate_calm api del"
    and e: "env api" and s: "run_reach api del (on_read api) p0 s" and g: "good api p0"
  shows "good api (snd s)"
  using s
proof (induction rule: run_reach.induct)
  case start
  have "rssl_sock p0 \<noteq> None" using goodD(2) [OF g [unfolded good_def]] .
  moreover have "shape (watch_listeners p0) = shape p0" by (simp add: watch_listeners_def shape_def)
  ultimately show ?case using g unfolding good_def
    by (subst snd_conv, subst good_cong [of _ p0]) (auto simp: watch_listeners_def)
next
  case (step s s')
  then show ?case using good_run_step [OF c w d e] by blast
qed

end

end
