(* ===== verification/Sbe.thy ===== *)
theory Sbe
  imports Prelude
begin

section \<open>The codec of the worker messages\<close>

text \<open>
  The flyweights of include/sbe/hitsuji: messages that the provider thread and the worker threads
  exchange. A message is a byte list, its length the \<open>bufferLength\<close> of the flyweight.

  \<^item> A field is stored little-endian at a fixed offset; \<open>write_at\<close> and \<open>read_at\<close> are the accesses.
  \<^item> The codec throws when a position would pass the end of the buffer. It does not check
    where it reads and writes the length byte of a string: \<open>Out_of_bounds\<close> stands for an access
    past the end.
  \<^item> The data of a string and its length are read by two calls; the first moves the position
    the second depends on. The callers write both as arguments of one call, whose order of evaluation
    C++ leaves open; \<open>length_first\<close> says which one the compiler chose.
\<close>

datatype sbe_error = Buffer_too_short | Out_of_bounds

type_synonym 'a sbe = "sbe_error + 'a"

definition write_at :: "nat \<Rightarrow> u8 list \<Rightarrow> u8 list \<Rightarrow> u8 list" where
  "write_at off bs b = take off b @ bs @ drop (off + length bs) b"

definition read_at :: "nat \<Rightarrow> nat \<Rightarrow> u8 list \<Rightarrow> u8 list" where
  "read_at off n b = take n (drop off b)"

fun le_bytes :: "nat \<Rightarrow> nat \<Rightarrow> u8 list" where
  "le_bytes 0 v = []"
| "le_bytes (Suc n) v = of_nat (v mod 256) # le_bytes n (v div 256)"

fun le_value :: "u8 list \<Rightarrow> nat" where
  "le_value [] = 0"
| "le_value (b # bs) = unat b + 256 * le_value bs"

definition le8 :: "u8 \<Rightarrow> u8 list" where "le8 x = le_bytes 1 (unat x)"
definition le16 :: "u16 \<Rightarrow> u8 list" where "le16 x = le_bytes 2 (unat x)"
definition le32 :: "u32 \<Rightarrow> u8 list" where "le32 x = le_bytes 4 (unat x)"
definition le64 :: "u64 \<Rightarrow> u8 list" where "le64 x = le_bytes 8 (unat x)"

definition un8 :: "u8 list \<Rightarrow> u8" where "un8 bs = of_nat (le_value bs)"
definition un16 :: "u8 list \<Rightarrow> u16" where "un16 bs = of_nat (le_value bs)"
definition un32 :: "u8 list \<Rightarrow> u32" where "un32 bs = of_nat (le_value bs)"
definition un64 :: "u8 list \<Rightarrow> u64" where "un64 bs = of_nat (le_value bs)"

subsection \<open>Fields\<close>

lemma length_le_bytes [simp]: "length (le_bytes n v) = n"
  by (induction n arbitrary: v) auto

lemma le_value_bytes: "le_value (le_bytes n v) = v mod 256 ^ n"
proof (induction n arbitrary: v)
  case 0
  show ?case by simp
next
  case (Suc n)
  have "unat (of_nat (v mod 256) :: u8) = v mod 256"
    by (simp add: unat_of_nat take_bit_eq_mod)
  then show ?case using Suc.IH [of "v div 256"] by (simp add: mod_mult2_eq)
qed

lemma length_write_at [simp]: "off + length bs \<le> length b \<Longrightarrow> length (write_at off bs b) = length b"
  by (simp add: write_at_def)

lemma read_at_same: "off + length bs \<le> length b \<Longrightarrow> n = length bs \<Longrightarrow> read_at off n (write_at off bs b) = bs"
  by (simp add: read_at_def write_at_def)

lemma read_at_other:
  assumes "off + length bs \<le> length b" and "o' + n \<le> off \<or> off + length bs \<le> o'"
  shows "read_at o' n (write_at off bs b) = read_at o' n b"
proof (rule nth_equalityI)
  show "length (read_at o' n (write_at off bs b)) = length (read_at o' n b)"
    using assms(1) by (simp add: read_at_def)
next
  fix i assume "i < length (read_at o' n (write_at off bs b))"
  then have i: "i < n" "o' + i < length b" using assms(1) by (auto simp: read_at_def)
  then show "read_at o' n (write_at off bs b) ! i = read_at o' n b ! i"
    using assms by (auto simp: read_at_def write_at_def nth_append)
qed

text \<open>A fixed-size field type: what is written at an offset is read back there, and fields that do
  not overlap do not disturb each other.\<close>

locale field =
  fixes size :: nat and put :: "'a \<Rightarrow> u8 list" and get :: "u8 list \<Rightarrow> 'a"
  assumes length_put: "length (put x) = size" and get_put: "get (put x) = x"
begin

lemma read_write: "off + size \<le> length b \<Longrightarrow> get (read_at off size (write_at off (put x) b)) = x"
  by (simp add: read_at_same length_put get_put)

lemma length_write: "off + size \<le> length b \<Longrightarrow> length (write_at off (put x) b) = length b"
  by (simp add: length_put)

lemma read_other:
  "off + size \<le> length b \<Longrightarrow> o' + n \<le> off \<or> off + size \<le> o' \<Longrightarrow>
     read_at o' n (write_at off (put x) b) = read_at o' n b"
  by (simp add: read_at_other length_put)

end

lemma unat_mod [simp]:
  "unat (x :: u8) mod 256 = unat x" "unat (y :: u16) mod 65536 = unat y"
  "unat (z :: u32) mod 4294967296 = unat z" "unat (w :: u64) mod 18446744073709551616 = unat w"
proof -
  have "unat x < 2 ^ LENGTH(8)" "unat y < 2 ^ LENGTH(16)" "unat z < 2 ^ LENGTH(32)"
    "unat w < 2 ^ LENGTH(64)" by (rule unsigned_less)+
  then show "unat x mod 256 = unat x" "unat y mod 65536 = unat y"
    "unat z mod 4294967296 = unat z" "unat w mod 18446744073709551616 = unat w" by simp_all
qed

interpretation f8: field 1 le8 un8
  by unfold_locales (simp_all add: le8_def un8_def le_value_bytes del: le_bytes.simps)

interpretation f16: field 2 le16 un16
  by unfold_locales (simp_all add: le16_def un16_def le_value_bytes)

interpretation f32: field 4 le32 un32
  by unfold_locales (simp_all add: le32_def un32_def le_value_bytes)

interpretation f64: field 8 le64 un64
  by unfold_locales (simp_all add: le64_def un64_def le_value_bytes)

lemmas field_lengths = f8.length_write f16.length_write f32.length_write f64.length_write
lemmas field_same = f8.read_write f16.read_write f32.read_write f64.read_write
lemmas field_other = f8.read_other f16.read_other f32.read_other f64.read_other

subsection \<open>The message header\<close>

text \<open>\<open>MessageHeader\<close>: block length, template, schema and version at offset 0.\<close>

definition put_header :: "u16 \<Rightarrow> u16 \<Rightarrow> u8 list \<Rightarrow> u8 list sbe" where
  "put_header block template b =
     (if length b < 8 then Inl Buffer_too_short
      else Inr (write_at 6 (le16 0) (write_at 4 (le16 1) (write_at 2 (le16 template)
                 (write_at 0 (le16 block) b)))))"

definition header_blockLength :: "u8 list \<Rightarrow> u16" where
  "header_blockLength b = un16 (read_at 0 2 b)"

subsection \<open>Strings with a one-byte length\<close>

definition put_var :: "u8 list \<Rightarrow> nat \<Rightarrow> u8 list \<Rightarrow> (nat \<times> u8 list) sbe" where
  "put_var src pos b =
    (if pos \<ge> length b then Inl Out_of_bounds
     else let b1 = write_at pos (le8 (of_nat (length src))) b in
       if pos + 1 > length b then Inl Buffer_too_short
       else if pos + 1 + length src > length b then Inl Buffer_too_short
       else Inr (pos + 1 + length src, write_at (pos + 1) src b1))"

definition get_var :: "bool \<Rightarrow> nat \<Rightarrow> u8 list \<Rightarrow> u8 list sbe" where
  "get_var length_first pos b =
    (if pos \<ge> length b then Inl Out_of_bounds
     else let n = unat (un8 (read_at pos 1 b)); end_pos = pos + 1 + n in
       if end_pos > length b then Inl Buffer_too_short
       else if length_first then Inr (read_at (pos + 1) n b)
       else if end_pos \<ge> length b then Inl Out_of_bounds
       else let m = unat (un8 (read_at end_pos 1 b)) in
         if pos + 1 + m > length b then Inl Out_of_bounds else Inr (read_at (pos + 1) m b))"

subsection \<open>Requests\<close>

record request =
  rq_handle :: u64
  rq_rwfVersion :: u16
  rq_token :: u32
  rq_serviceId :: u16
  rq_useAttribInfo :: bool
  rq_itemName :: "u8 list"

unbundle bit_operations_syntax

text \<open>The flags byte: bit 0 aborts the worker, bit 1 asks for the attributes in updates.\<close>

definition set_flag :: "nat \<Rightarrow> bool \<Rightarrow> u8 \<Rightarrow> u8" where
  "set_flag i v bits = (if v then bits OR push_bit i 1 else bits AND NOT (push_bit i 1))"

definition get_flag :: "nat \<Rightarrow> u8 \<Rightarrow> bool" where
  "get_flag i bits \<longleftrightarrow> bits AND push_bit i 1 \<noteq> 0"

definition put_flags :: "bool \<Rightarrow> bool \<Rightarrow> u8 list \<Rightarrow> u8 list" where
  "put_flags ab attrib b = write_at 24 (le8 (set_flag 1 attrib (set_flag 0 ab 0))) b"

definition put_fields :: "u64 \<Rightarrow> u16 \<Rightarrow> u32 \<Rightarrow> u16 \<Rightarrow> u8 list \<Rightarrow> u8 list" where
  "put_fields h rwf tok sid b =
     write_at 22 (le16 sid) (write_at 18 (le32 tok) (write_at 16 (le16 rwf) (write_at 8 (le64 h) b)))"

text \<open>\<open>MessageHeader::size() + Request::sbeBlockLength() + Request::itemNameHeaderSize()\<close> and the
  two parts of it.\<close>

definition request_size :: "u8 list \<Rightarrow> nat" where
  "request_size name = 8 + 17 + 1 + length name"

definition abort_size :: nat where "abort_size = 8 + 17"

text \<open>The encoders write into the memory \<open>b\<close> of a new message, whatever it holds.\<close>

definition encode_request :: "request \<Rightarrow> u8 list \<Rightarrow> u8 list sbe" where
  "encode_request r b = (case put_header 17 1 b of
     Inl e \<Rightarrow> Inl e
   | Inr b1 \<Rightarrow>
     if 8 + 17 > length b1 then Inl Buffer_too_short
     else
       let b2 = put_flags False (rq_useAttribInfo r)
             (put_fields (rq_handle r) (rq_rwfVersion r) (rq_token r) (rq_serviceId r) b1) in
       (case put_var (rq_itemName r) 25 b2 of Inl e \<Rightarrow> Inl e | Inr (pos, b3) \<Rightarrow> Inr b3))"

definition encode_abort :: "u8 list \<Rightarrow> u8 list sbe" where
  "encode_abort b = (case put_header 17 1 b of
     Inl e \<Rightarrow> Inl e
   | Inr b1 \<Rightarrow>
     if 8 + 17 > length b1 then Inl Buffer_too_short
     else Inr (write_at 24 (le8 (set_flag 0 True 0)) b1))"

text \<open>The group of field ids of a view: a three-byte dimension, then one 16-bit id per entry.\<close>

fun put_view :: "u16 list \<Rightarrow> nat \<Rightarrow> u8 list \<Rightarrow> (nat \<times> u8 list) sbe" where
  "put_view [] pos b = Inr (pos, b)"
| "put_view (fid # fids) pos b =
     (if pos + 2 \<ge> length b then Inl Buffer_too_short
      else put_view fids (pos + 2) (write_at pos (le16 fid) b))"

definition encode_request_view :: "request \<Rightarrow> u16 list \<Rightarrow> u8 list \<Rightarrow> u8 list sbe" where
  "encode_request_view r view b = (case put_header 17 1 b of
     Inl e \<Rightarrow> Inl e
   | Inr b1 \<Rightarrow>
     if 8 + 17 > length b1 then Inl Buffer_too_short
     else
       let b2 = put_flags False (rq_useAttribInfo r)
             (put_fields (rq_handle r) (rq_rwfVersion r) (rq_token r) (rq_serviceId r) b1) in
       if 25 + 3 > length b2 then Inl Buffer_too_short
       else
         (case put_view view 28 (write_at 25 (le16 2) (write_at 27 (le8 (of_nat (length view))) b2)) of
            Inl e \<Rightarrow> Inl e
          | Inr (pos, b3) \<Rightarrow>
            (case put_var (rq_itemName r) pos b3 of Inl e \<Rightarrow> Inl e | Inr (pos, b4) \<Rightarrow> Inr b4)))"

datatype task = Abort_task | Request_task request

text \<open>What a worker reads from a request: the abort flag first, then the fields and the name.\<close>

definition decode_request :: "bool \<Rightarrow> u8 list \<Rightarrow> task sbe" where
  "decode_request length_first b =
    (if length b < 8 then Inl Buffer_too_short
     else
       let pos = 8 + unat (header_blockLength b) in
       if pos > length b then Inl Buffer_too_short
       else if 24 > int (length b) - 1 then Inl Buffer_too_short
       else
         let bits = un8 (read_at 24 1 b) in
         if get_flag 0 bits then Inr Abort_task
         else (case get_var length_first pos b of
             Inl e \<Rightarrow> Inl e
           | Inr name \<Rightarrow> Inr (Request_task
               \<lparr>rq_handle = un64 (read_at 8 8 b), rq_rwfVersion = un16 (read_at 16 2 b),
                rq_token = un32 (read_at 18 4 b), rq_serviceId = un16 (read_at 22 2 b),
                rq_useAttribInfo = get_flag 1 bits, rq_itemName = name\<rparr>)))"

subsection \<open>Replies\<close>

record reply =
  rp_handle :: u64
  rp_token :: u32
  rp_rsslBuffer :: "u8 list"

definition reply_size :: "u8 list \<Rightarrow> nat" where
  "reply_size data = 8 + 12 + 1 + length data"

definition encode_reply :: "reply \<Rightarrow> u8 list \<Rightarrow> u8 list sbe" where
  "encode_reply r b = (case put_header 12 2 b of
     Inl e \<Rightarrow> Inl e
   | Inr b1 \<Rightarrow>
     if 8 + 12 > length b1 then Inl Buffer_too_short
     else
       let b2 = write_at 16 (le32 (rp_token r)) (write_at 8 (le64 (rp_handle r)) b1) in
       (case put_var (rp_rsslBuffer r) 20 b2 of Inl e \<Rightarrow> Inl e | Inr (pos, b3) \<Rightarrow> Inr b3))"

definition decode_reply :: "bool \<Rightarrow> u8 list \<Rightarrow> reply sbe" where
  "decode_reply length_first b =
    (if length b < 8 then Inl Buffer_too_short
     else
       let pos = 8 + unat (header_blockLength b) in
       if pos > length b then Inl Buffer_too_short
       else if length b < 20 then Inl Out_of_bounds
       else (case get_var length_first pos b of
           Inl e \<Rightarrow> Inl e
         | Inr data \<Rightarrow> Inr \<lparr>rp_handle = un64 (read_at 8 8 b), rp_token = un32 (read_at 16 4 b),
                            rp_rsslBuffer = data\<rparr>))"


subsection \<open>Round trips\<close>

lemma read_at_prefix:
  "off + length bs \<le> length b \<Longrightarrow> n \<le> length bs \<Longrightarrow> read_at off n (write_at off bs b) = take n bs"
  by (simp add: read_at_def write_at_def)

lemma unat_of_nat_u8: "unat (of_nat n :: u8) = n mod 256"
  by (simp add: unat_of_nat take_bit_eq_mod)

lemma put_header_ok:
  assumes "8 \<le> length b"
  shows "\<exists>b'. put_header blk t b = Inr b' \<and> length b' = length b \<and> header_blockLength b' = blk"
  using assms
  by (simp add: put_header_def header_blockLength_def field_lengths field_same field_other)

text \<open>A string that fits is written; read back with the length first it is cut to its length
  modulo 256.\<close>

lemma put_var_ok:
  assumes "pos + 1 + length src \<le> length b"
  shows "\<exists>b'. put_var src pos b = Inr (pos + 1 + length src, b') \<and> length b' = length b \<and>
    get_var True pos b' = Inr (take (length src mod 256) src) \<and>
    (\<forall>o' n. o' + n \<le> pos \<longrightarrow> read_at o' n b' = read_at o' n b)"
proof -
  let ?b1 = "write_at pos (le8 (of_nat (length src))) b"
  let ?b2 = "write_at (pos + 1) src ?b1"
  have l1: "length ?b1 = length b" using assms by (simp add: field_lengths)
  have l2: "length ?b2 = length b" using assms l1 by simp
  have n: "un8 (read_at pos 1 ?b2) = of_nat (length src)"
    using assms l1 f8.read_write [of pos b "of_nat (length src)"] by (simp add: read_at_other del: One_nat_def)
  have m: "length src mod 256 \<le> length src" by simp
  have d: "read_at (pos + 1) (length src mod 256) ?b2 = take (length src mod 256) src"
    using assms l1 m by (intro read_at_prefix) simp_all
  have "get_var True pos ?b2 = Inr (take (length src mod 256) src)"
    using assms l2 n d m by (simp add: get_var_def Let_def unat_of_nat_u8 del: One_nat_def)
  moreover have "read_at o' n ?b2 = read_at o' n b" if "o' + n \<le> pos" for o' n
    using assms l1 that by (simp add: read_at_other f8.read_other)
  moreover have "put_var src pos b = Inr (pos + 1 + length src, ?b2)"
    using assms by (simp add: put_var_def Let_def)
  ultimately show ?thesis using l2 by blast
qed

lemma flag_bits:
  "get_flag 0 (set_flag 1 a (set_flag 0 ab 0)) = ab" "get_flag 1 (set_flag 1 a (set_flag 0 ab 0)) = a"
  by (cases a; cases ab; simp add: get_flag_def set_flag_def)+

lemma flag0: "get_flag 0 (set_flag 0 True 0)"
  by (simp add: get_flag_def set_flag_def)

lemma request_roundtrip_general:
  assumes "length b = request_size (rq_itemName r)"
  shows "\<exists>b'. encode_request r b = Inr b' \<and> length b' = length b \<and> header_blockLength b' = 17 \<and>
    decode_request True b' = Inr (Request_task
      (r\<lparr>rq_itemName := take (length (rq_itemName r) mod 256) (rq_itemName r)\<rparr>))"
proof -
  have L: "length b = 26 + length (rq_itemName r)" using assms by (simp add: request_size_def)
  obtain b1 where b1: "put_header 17 1 b = Inr b1" "length b1 = length b" "header_blockLength b1 = 17"
    using put_header_ok [of b 17 1] L by auto
  define b2 where "b2 = put_flags False (rq_useAttribInfo r)
      (put_fields (rq_handle r) (rq_rwfVersion r) (rq_token r) (rq_serviceId r) b1)"
  have l2: "length b2 = length b"
    using L b1(2) by (simp add: b2_def put_flags_def put_fields_def field_lengths)
  have r2: "un64 (read_at 8 8 b2) = rq_handle r" "un16 (read_at 16 2 b2) = rq_rwfVersion r"
    "un32 (read_at 18 4 b2) = rq_token r" "un16 (read_at 22 2 b2) = rq_serviceId r"
    "un8 (read_at 24 1 b2) = set_flag 1 (rq_useAttribInfo r) (set_flag 0 False 0)"
    "header_blockLength b2 = 17"
    using L b1(2,3)
    by (simp_all add: b2_def put_flags_def put_fields_def field_lengths field_same field_other
        header_blockLength_def del: One_nat_def)
  obtain b3 where b3: "put_var (rq_itemName r) 25 b2 = Inr (25 + 1 + length (rq_itemName r), b3)"
    "length b3 = length b2"
    "get_var True 25 b3 = Inr (take (length (rq_itemName r) mod 256) (rq_itemName r))"
    "\<And>o' n. o' + n \<le> 25 \<Longrightarrow> read_at o' n b3 = read_at o' n b2"
    using put_var_ok [of 25 "rq_itemName r" b2] L l2 by auto
  have "encode_request r b = Inr b3"
    using b1 b3(1) L unfolding encode_request_def b2_def by (simp add: Let_def)
  moreover have hb: "header_blockLength b3 = 17" using b3(4) [of 0 2] r2(6) by (simp add: header_blockLength_def)
  then have "decode_request True b3 = Inr (Request_task
      (r\<lparr>rq_itemName := take (length (rq_itemName r) mod 256) (rq_itemName r)\<rparr>))"
    using b3 l2 L r2(1-5) flag_bits [of "rq_useAttribInfo r" False]
    by (simp add: decode_request_def Let_def del: One_nat_def)
  ultimately show ?thesis using b3(2) l2 hb by metis
qed

lemma abort_roundtrip_general:
  assumes "length b = abort_size"
  shows "\<exists>b'. encode_abort b = Inr b' \<and> decode_request lf b' = Inr Abort_task"
proof -
  have L: "length b = 25" using assms by (simp add: abort_size_def)
  obtain b1 where b1: "put_header 17 1 b = Inr b1" "length b1 = length b" "header_blockLength b1 = 17"
    using put_header_ok [of b 17 1] L by auto
  let ?b = "write_at 24 (le8 (set_flag 0 True 0)) b1"
  have "encode_abort b = Inr ?b" using b1 L by (simp add: encode_abort_def)
  moreover have "decode_request lf ?b = Inr Abort_task"
    using b1 L f8.read_write [of 24 b1 "set_flag 0 True 0"]
    by (simp add: decode_request_def Let_def field_lengths field_other header_blockLength_def
        flag0 del: One_nat_def)
  ultimately show ?thesis by blast
qed

lemma reply_roundtrip_general:
  assumes "length b = reply_size (rp_rsslBuffer r)"
  shows "\<exists>b'. encode_reply r b = Inr b' \<and> length b' = length b \<and>
    decode_reply True b' = Inr (r\<lparr>rp_rsslBuffer :=
      take (length (rp_rsslBuffer r) mod 256) (rp_rsslBuffer r)\<rparr>)"
proof -
  have L: "length b = 21 + length (rp_rsslBuffer r)" using assms by (simp add: reply_size_def)
  obtain b1 where b1: "put_header 12 2 b = Inr b1" "length b1 = length b" "header_blockLength b1 = 12"
    using put_header_ok [of b 12 2] L by auto
  define b2 where "b2 = write_at 16 (le32 (rp_token r)) (write_at 8 (le64 (rp_handle r)) b1)"
  have l2: "length b2 = length b" using L b1(2) by (simp add: b2_def field_lengths)
  have r2: "un64 (read_at 8 8 b2) = rp_handle r" "un32 (read_at 16 4 b2) = rp_token r"
    "header_blockLength b2 = 12"
    using L b1(2,3)
    by (simp_all add: b2_def field_lengths field_same field_other header_blockLength_def)
  obtain b3 where b3: "put_var (rp_rsslBuffer r) 20 b2 = Inr (20 + 1 + length (rp_rsslBuffer r), b3)"
    "length b3 = length b2"
    "get_var True 20 b3 = Inr (take (length (rp_rsslBuffer r) mod 256) (rp_rsslBuffer r))"
    "\<And>o' n. o' + n \<le> 20 \<Longrightarrow> read_at o' n b3 = read_at o' n b2"
    using put_var_ok [of 20 "rp_rsslBuffer r" b2] L l2 by auto
  have "encode_reply r b = Inr b3"
    using b1 b3(1) L unfolding encode_reply_def b2_def by (simp add: Let_def)
  moreover have "header_blockLength b3 = 12" using b3(4) [of 0 2] r2(3) by (simp add: header_blockLength_def)
  then have "decode_reply True b3 = Inr (r\<lparr>rp_rsslBuffer :=
      take (length (rp_rsslBuffer r) mod 256) (rp_rsslBuffer r)\<rparr>)"
    using b3 l2 L r2(1,2) by (simp add: decode_reply_def Let_def)
  ultimately show ?thesis using b3(2) l2 by metis
qed

lemma unat_u8: "unat (x :: u8) \<le> 255"
  using unsigned_less [of x, where 'a = nat] by simp

lemma length_read_at: "length (read_at off n b) \<le> n"
  by (simp add: read_at_def)

lemma get_var_length: "get_var lf pos b = Inr data \<Longrightarrow> length data \<le> 255"
  by (auto simp: get_var_def Let_def split: if_splits intro: order_trans [OF length_read_at unat_u8])

lemma decode_reply_length:
  assumes "decode_reply lf b = Inr r"
  shows "length (rp_rsslBuffer r) \<le> 255"
proof (cases "get_var lf (8 + unat (header_blockLength b)) b")
  case (Inl e)
  then show ?thesis using assms by (simp add: decode_reply_def Let_def split: if_splits)
next
  case (Inr data)
  then have "rp_rsslBuffer r = data" using assms by (auto simp: decode_reply_def Let_def split: if_splits)
  then show ?thesis using get_var_length [OF Inr] by simp
qed

text \<open>The memory the program asks for a request with a view has no room for the view.\<close>

lemma put_view_pos: "put_view v pos b = Inr (pos', b') \<Longrightarrow> pos' = pos + 2 * length v \<and> length b' = length b"
  by (induction v pos b rule: put_view.induct) (auto simp: f16.length_write split: if_splits)

lemma put_var_short: "length b < pos + 1 + length src \<Longrightarrow> \<exists>e. put_var src pos b = Inl e"
  by (simp add: put_var_def Let_def)

lemma encode_request_view_throws:
  assumes "length b = request_size (rq_itemName r)"
  shows "\<exists>e. encode_request_view r view b = Inl e"
proof -
  have L: "length b = 26 + length (rq_itemName r)" using assms by (simp add: request_size_def)
  obtain b1 where b1: "put_header 17 1 b = Inr b1" "length b1 = length b"
    using put_header_ok [of b 17 1] L by auto
  define b2 where "b2 = put_flags False (rq_useAttribInfo r)
      (put_fields (rq_handle r) (rq_rwfVersion r) (rq_token r) (rq_serviceId r) b1)"
  have l2: "length b2 = length b"
    using L b1(2) by (simp add: b2_def put_flags_def put_fields_def field_lengths)
  define b3 where "b3 = write_at 25 (le16 2) (write_at 27 (le8 (of_nat (length view))) b2)"
  have u: "encode_request_view r view b = (if 28 > length b2 then Inl Buffer_too_short
     else (case put_view view 28 b3 of Inl e \<Rightarrow> Inl e
          | Inr (pos, b3) \<Rightarrow>
            (case put_var (rq_itemName r) pos b3 of Inl e \<Rightarrow> Inl e | Inr (pos, b4) \<Rightarrow> Inr b4)))"
    using b1 L unfolding encode_request_view_def by (simp add: Let_def b2_def b3_def)
  show ?thesis
  proof (cases "28 > length b2")
    case True
    then show ?thesis using u by simp
  next
    case False
    then have l3: "length b3 = length b" using l2 by (simp add: b3_def field_lengths)
    show ?thesis
    proof (cases "put_view view 28 b3")
      case (Inl e)
      then show ?thesis using u False by simp
    next
      case (Inr y)
      obtain pos b4 where y: "y = (pos, b4)" by (cases y)
      have "length b4 < pos + 1 + length (rq_itemName r)"
        using put_view_pos [of view 28 b3 pos b4] Inr y l3 L by simp
      then obtain e where "put_var (rq_itemName r) pos b4 = Inl e" using put_var_short by metis
      then show ?thesis using u False Inr y by simp
    qed
  qed
qed

subsection \<open>Properties of the codec\<close>

definition sample_request :: request where
  "sample_request = \<lparr>rq_handle = 4096, rq_rwfVersion = 3585, rq_token = 5, rq_serviceId = 1,
     rq_useAttribInfo = True, rq_itemName = [84, 82, 73, 46, 78]\<rparr>"

text \<open>C28: a worker decodes from a request exactly what was encoded, for every item name of at most
  255 bytes and whatever the memory of the message held before.\<close>

theorem request_roundtrip:
  assumes "length (rq_itemName r) \<le> 255" "length b = request_size (rq_itemName r)"
  shows "\<exists>b'. encode_request r b = Inr b' \<and> decode_request True b' = Inr (Request_task r)"
proof -
  have "length (rq_itemName r) mod 256 = length (rq_itemName r)" using assms(1) by simp
  then show ?thesis using request_roundtrip_general [OF assms(2)] by auto
qed

theorem request_roundtrip_witness:
  "\<exists>b'. encode_request sample_request (replicate 31 7) = Inr b' \<and>
     decode_request True b' = Inr (Request_task sample_request)"
  by (rule request_roundtrip) (simp_all add: sample_request_def request_size_def)

text \<open>An item name of 256 bytes or more is sent without an error but arrives cut down to its length
  modulo 256.\<close>

theorem long_name_truncated:
  assumes "256 \<le> length (rq_itemName r)" "length b = request_size (rq_itemName r)"
  shows "\<exists>b' r'. encode_request r b = Inr b' \<and> decode_request True b' = Inr (Request_task r') \<and>
    rq_itemName r' = take (length (rq_itemName r) mod 256) (rq_itemName r) \<and> rq_itemName r' \<noteq> rq_itemName r"
proof -
  have "length (take (length (rq_itemName r) mod 256) (rq_itemName r)) < 256" by simp
  then have "take (length (rq_itemName r) mod 256) (rq_itemName r) \<noteq> rq_itemName r" using assms(1) by fastforce
  then show ?thesis using request_roundtrip_general [OF assms(2)] by auto
qed

theorem long_name_truncated_witness:
  "\<exists>b' r'. encode_request (sample_request\<lparr>rq_itemName := replicate 300 65\<rparr>) (replicate 326 0) = Inr b' \<and>
     decode_request True b' = Inr (Request_task r') \<and> rq_itemName r' = replicate 44 65"
  using long_name_truncated [of "sample_request\<lparr>rq_itemName := replicate 300 65\<rparr>" "replicate 326 0"]
  by (auto simp: request_size_def)

text \<open>C10: the provider decodes from a reply exactly what the worker encoded when the message for the
  client has at most 255 bytes; a longer one arrives cut down to its length modulo 256, as the length
  field of the codec has one byte.\<close>

theorem reply_roundtrip:
  assumes "length b = reply_size (rp_rsslBuffer r)"
  shows "\<exists>b' r'. encode_reply r b = Inr b' \<and> decode_reply True b' = Inr r' \<and>
    rp_handle r' = rp_handle r \<and> rp_token r' = rp_token r \<and>
    (if length (rp_rsslBuffer r) \<le> 255 then rp_rsslBuffer r' = rp_rsslBuffer r
     else rp_rsslBuffer r' = take (length (rp_rsslBuffer r) mod 256) (rp_rsslBuffer r) \<and>
       length (rp_rsslBuffer r') < length (rp_rsslBuffer r))"
proof -
  let ?d = "rp_rsslBuffer r"
  obtain b' where b': "encode_reply r b = Inr b'"
    "decode_reply True b' = Inr (r\<lparr>rp_rsslBuffer := take (length ?d mod 256) ?d\<rparr>)"
    using reply_roundtrip_general [OF assms] by blast
  have "length ?d mod 256 < length ?d" if "\<not> length ?d \<le> 255"
    using that mod_less_divisor [of 256 "length ?d"] by linarith
  then show ?thesis
    using b' by (intro exI [of _ b'] exI [of _ "r\<lparr>rp_rsslBuffer := take (length ?d mod 256) ?d\<rparr>"]) auto
qed

theorem reply_roundtrip_witness:
  "\<exists>b' r'. encode_reply \<lparr>rp_handle = 1, rp_token = 2, rp_rsslBuffer = replicate 256 9\<rparr> (replicate 277 0) = Inr b' \<and>
     decode_reply True b' = Inr r' \<and> rp_rsslBuffer r' = []"
  using reply_roundtrip [of "replicate 277 0" "\<lparr>rp_handle = 1, rp_token = 2, rp_rsslBuffer = replicate 256 9\<rparr>"]
  by (auto simp: reply_size_def)

text \<open>A request that carries a view never gets through: the message is given no room for the view,
  so that encoding it throws, whatever the view, even an empty one.\<close>

theorem view_request_throws:
  assumes "length b = request_size (rq_itemName r)"
  shows "\<exists>e. encode_request_view r view b = Inl e"
  by (rule encode_request_view_throws [OF assms])

theorem view_request_throws_witness: "\<exists>e. encode_request_view sample_request [22, 25] (replicate 31 0) = Inl e"
  by (rule view_request_throws) (simp add: sample_request_def request_size_def)

lemma get_var_order:
  assumes "get_var True pos b = Inr d" "pos + 1 + length d = length b"
  shows "get_var False pos b = Inl Out_of_bounds"
proof -
  let ?n = "unat (un8 (read_at pos 1 b))"
  have n: "pos + 1 + ?n \<le> length b" "d = read_at (pos + 1) ?n b" "pos < length b"
    using assms(1) by (auto simp: get_var_def Let_def split: if_splits)
  then have "length d = ?n" by (simp add: read_at_def)
  then show ?thesis using assms(2) n(3) by (simp add: get_var_def Let_def del: One_nat_def)
qed

text \<open>The decoders depend on the order in which the compiler evaluates the two calls that read a
  string: if the data are read before the length, the length byte is read past the end of the
  message.\<close>

theorem argument_order_matters:
  assumes "length (rq_itemName r) \<le> 255" "length b = request_size (rq_itemName r)"
  shows "\<exists>b'. encode_request r b = Inr b' \<and> decode_request False b' = Inl Out_of_bounds \<and>
    decode_request True b' = Inr (Request_task r)"
proof -
  let ?n = "rq_itemName r"
  have m: "length ?n mod 256 = length ?n" using assms(1) by simp
  then obtain b' where b': "encode_request r b = Inr b'" "length b' = length b"
    "header_blockLength b' = 17" "decode_request True b' = Inr (Request_task r)"
    using request_roundtrip_general [OF assms(2)] by auto
  have g: "get_var True 25 b' = Inr ?n"
    using b'(3,4) by (auto simp: decode_request_def Let_def split: if_splits sum.splits)
  have "get_var False 25 b' = Inl Out_of_bounds"
    by (rule get_var_order [OF g]) (use assms(2) b'(2) in \<open>simp add: request_size_def\<close>)
  then have "decode_request False b' = Inl Out_of_bounds"
    using b'(3,4) by (auto simp: decode_request_def Let_def split: if_splits sum.splits)
  then show ?thesis using b' by blast
qed

theorem argument_order_matters_witness:
  "\<exists>b'. encode_request sample_request (replicate 31 0) = Inr b' \<and> decode_request False b' = Inl Out_of_bounds \<and>
     decode_request True b' = Inr (Request_task sample_request)"
  by (rule argument_order_matters) (simp_all add: sample_request_def request_size_def)

end
