(* ===== verification/Hitsuji.thy ===== *)
theory Hitsuji
  imports Provider Sbe
begin

section \<open>The bridge to the workers\<close>

text \<open>
  \<open>hitsuji_t\<close> of hitsuji.cc: it is the delegate of the sessions (\<open>OnRequest\<close>) and of the provider
  (\<open>OnRead\<close>), and moves requests and replies between the provider thread and the worker
  threads over two ZeroMQ sockets.

  \<^item> ZeroMQ is not part of the repository: its functions, on the two sockets and the one
    message object the program uses, are the fields of \<open>zmq\<close>. They work on the same library state
    as the RSSL functions. Joining a worker thread is one of them.
  \<^item> \<open>zmq_msg_init_size\<close> hands out the memory of the message, \<open>None\<close> on failure; \<open>zmq_events\<close> says
    whether \<open>ZMQ_POLLIN\<close> is set, \<open>None\<close> on failure.
  \<^item> A channel pointer travels as a 64-bit number.
  \<^item> An exception of the codec is a string literal, which no handler of the program
    catches: the result \<open>Inl\<close> of a request, a fault of the provider thread for a reply.
\<close>

record 'u zmq =
  zmq_msg_init_size :: "nat \<Rightarrow> 'u \<Rightarrow> u8 list option \<times> 'u"
  zmq_msg_send :: "u8 list \<Rightarrow> 'u \<Rightarrow> bool \<times> 'u"
  zmq_msg_close :: "'u \<Rightarrow> bool \<times> 'u"
  zmq_msg_init :: "'u \<Rightarrow> bool \<times> 'u"
  zmq_msg_recv :: "'u \<Rightarrow> u8 list option \<times> 'u"
  zmq_events :: "'u \<Rightarrow> bool option \<times> 'u"
  thread_joinable :: "nat \<Rightarrow> 'u \<Rightarrow> bool"
  thread_join :: "nat \<Rightarrow> 'u \<Rightarrow> 'u"
  uncaught :: "sbe_error \<Rightarrow> 'u \<Rightarrow> 'u"

definition bytes_of :: "string \<Rightarrow> u8 list" where
  "bytes_of s = map of_char s"

definition string_of :: "u8 list \<Rightarrow> string" where
  "string_of bs = map (\<lambda>b. char_of (unat b)) bs"

text \<open>The common end of the senders: a message that could not be sent is closed.\<close>

definition send_or_close :: "'u zmq \<Rightarrow> u8 list \<Rightarrow> 'u \<Rightarrow> bool \<times> 'u" where
  "send_or_close z b u = (case zmq_msg_send z b u of (ok, u1) \<Rightarrow>
     if ok then (True, u1) else (False, snd (zmq_msg_close z u1)))"

definition request_of :: "handle \<Rightarrow> u16 \<Rightarrow> u32 \<Rightarrow> u16 \<Rightarrow> string \<Rightarrow> bool \<Rightarrow> request" where
  "request_of h rwf token sid item_name use_attribinfo_in_updates =
     \<lparr>rq_handle = of_nat h, rq_rwfVersion = rwf, rq_token = token, rq_serviceId = sid,
      rq_useAttribInfo = use_attribinfo_in_updates, rq_itemName = bytes_of item_name\<rparr>"

definition hitsuji_OnRequest ::
  "'u zmq \<Rightarrow> handle \<Rightarrow> u16 \<Rightarrow> u32 \<Rightarrow> u16 \<Rightarrow> string \<Rightarrow> bool \<Rightarrow> 'u \<Rightarrow> bool sbe \<times> 'u" where
  "hitsuji_OnRequest z h rwf token sid item_name ai u =
    (case zmq_msg_init_size z (request_size (bytes_of item_name)) u of
       (None, u1) \<Rightarrow> (Inr False, u1)
     | (Some b, u1) \<Rightarrow>
         (case encode_request (request_of h rwf token sid item_name ai) b of
            Inl e \<Rightarrow> (Inl e, u1)
          | Inr b' \<Rightarrow> (case send_or_close z b' u1 of (ok, u2) \<Rightarrow> (Inr ok, u2))))"

definition hitsuji_OnRequest_view ::
  "'u zmq \<Rightarrow> handle \<Rightarrow> u16 \<Rightarrow> u32 \<Rightarrow> u16 \<Rightarrow> string \<Rightarrow> bool \<Rightarrow> int list \<Rightarrow> 'u \<Rightarrow> bool sbe \<times> 'u" where
  "hitsuji_OnRequest_view z h rwf token sid item_name ai view u =
    (case zmq_msg_init_size z (request_size (bytes_of item_name)) u of
       (None, u1) \<Rightarrow> (Inr False, u1)
     | (Some b, u1) \<Rightarrow>
         (case encode_request_view (request_of h rwf token sid item_name ai)
              (map of_int view) b of
            Inl e \<Rightarrow> (Inl e, u1)
          | Inr b' \<Rightarrow> (case send_or_close z b' u1 of (ok, u2) \<Rightarrow> (Inr ok, u2))))"

text \<open>The object as a delegate of the sessions. What is left of the library after an exception
  that ends the process is \<open>uncaught\<close>.\<close>

definition or_die :: "'u zmq \<Rightarrow> bool sbe \<times> 'u \<Rightarrow> bool \<times> 'u" where
  "or_die z = (\<lambda>(r, u). case r of Inl e \<Rightarrow> (False, uncaught z e u) | Inr ok \<Rightarrow> (ok, u))"

definition hitsuji_delegate :: "'u zmq \<Rightarrow> 'u delegate" where
  "hitsuji_delegate z = \<lparr>
     OnRequest = (\<lambda>h v t s n ai u. or_die z (hitsuji_OnRequest z h v t s n ai u)),
     OnRequest_view = (\<lambda>h v t s n ai view u. or_die z (hitsuji_OnRequest_view z h v t s n ai view u))\<rparr>"

definition OnReply :: "bool \<Rightarrow> 'u rssl \<Rightarrow> u8 list \<Rightarrow> 'u prov \<Rightarrow> bool \<times> 'u prov" where
  "OnReply length_first api b p = (case decode_reply length_first b of
     Inl e \<Rightarrow> (False, p\<lparr>fault := True\<rparr>)
   | Inr r \<Rightarrow> SendReply api (unat (rp_handle r)) (rp_token r) (rp_rsslBuffer r) p)"

text \<open>\<open>True\<close> asks to be called again without waiting: the descriptor of ZeroMQ signals an edge.\<close>

definition OnRead :: "'u zmq \<Rightarrow> bool \<Rightarrow> 'u rssl \<Rightarrow> 'u prov \<Rightarrow> bool \<times> 'u prov" where
  "OnRead z length_first api p =
    (case zmq_events z (world p) of
       (None, u1) \<Rightarrow> (False, p\<lparr>world := u1\<rparr>)
     | (Some pollin, u1) \<Rightarrow>
       if \<not> pollin then (False, p\<lparr>world := u1\<rparr>)
       else case zmq_msg_init z u1 of (ok, u2) \<Rightarrow>
       if \<not> ok then (False, p\<lparr>world := u2\<rparr>)
       else case zmq_msg_recv z u2 of
         (None, u3) \<Rightarrow> (False, p\<lparr>world := snd (zmq_msg_close z u3)\<rparr>)
       | (Some b, u3) \<Rightarrow>
         (case OnReply length_first api b (p\<lparr>world := u3\<rparr>) of (ok, p1) \<Rightarrow>
            if \<not> ok then (False, p1)
            else case zmq_msg_close z (world p1) of (ok, u4) \<Rightarrow>
            if \<not> ok then (False, p1\<lparr>world := u4\<rparr>)
            else case zmq_events z u4 of
              (None, u5) \<Rightarrow> (False, p1\<lparr>world := u5\<rparr>)
            | (Some pollin, u5) \<Rightarrow> (pollin, p1\<lparr>world := u5\<rparr>)))"

subsection \<open>Stopping the workers\<close>

definition AbortOneWorker :: "'u zmq \<Rightarrow> 'u \<Rightarrow> bool sbe \<times> 'u" where
  "AbortOneWorker z u = (case zmq_msg_init_size z abort_size u of
     (None, u1) \<Rightarrow> (Inr False, u1)
   | (Some b, u1) \<Rightarrow> (case encode_abort b of
       Inl e \<Rightarrow> (Inl e, u1)
     | Inr b' \<Rightarrow> (case send_or_close z b' u1 of (ok, u2) \<Rightarrow> (Inr ok, u2))))"

text \<open>One abort request for each worker thread that runs, then the threads are joined. The result
  of the first pass is the number of requests sent, \<open>None\<close> when one failed.\<close>

fun abort_pass :: "'u zmq \<Rightarrow> nat list \<Rightarrow> nat \<Rightarrow> 'u \<Rightarrow> nat option sbe \<times> 'u" where
  "abort_pass z [] n u = (Inr (Some n), u)"
| "abort_pass z (w # ws) n u =
     (if thread_joinable z w u then
        (case AbortOneWorker z u of
           (Inl e, u1) \<Rightarrow> (Inl e, u1)
         | (Inr ok, u1) \<Rightarrow> if ok then abort_pass z ws (n + 1) u1 else (Inr None, u1))
      else abort_pass z ws n u)"

fun join_pass :: "'u zmq \<Rightarrow> nat list \<Rightarrow> 'u \<Rightarrow> 'u" where
  "join_pass z [] u = u"
| "join_pass z (w # ws) u = join_pass z ws (if thread_joinable z w u then thread_join z w u else u)"

definition AbortWorkers :: "'u zmq \<Rightarrow> nat list \<Rightarrow> 'u \<Rightarrow> bool sbe \<times> 'u" where
  "AbortWorkers z workers u = (case abort_pass z workers 0 u of
     (Inl e, u1) \<Rightarrow> (Inl e, u1)
   | (Inr None, u1) \<Rightarrow> (Inr False, u1)
   | (Inr (Some n), u1) \<Rightarrow> (Inr True, if n > 0 then join_pass z workers u1 else u1))"

subsection \<open>What the bridge relies on\<close>

text \<open>
  ZeroMQ hands out the memory it was asked for, delivers what the workers sent, which is
  always an encoded reply, and no call of it opens or activates a channel.
\<close>

definition zmq_keeps :: "('u \<Rightarrow> bool) \<Rightarrow> 'u zmq \<Rightarrow> bool" where
  "zmq_keeps W z \<longleftrightarrow> (\<forall>u. W u \<longrightarrow>
     (\<forall>n. W (snd (zmq_msg_init_size z n u))) \<and> (\<forall>b. W (snd (zmq_msg_send z b u))) \<and>
     W (snd (zmq_msg_close z u)) \<and> W (snd (zmq_msg_init z u)) \<and> W (snd (zmq_msg_recv z u)) \<and>
     W (snd (zmq_events z u)) \<and> (\<forall>w. W (thread_join z w u)))"

definition sized_messages :: "'u zmq \<Rightarrow> bool" where
  "sized_messages z \<longleftrightarrow> (\<forall>n u b u'. zmq_msg_init_size z n u = (Some b, u') \<longrightarrow> length b = n)"

definition delivers_replies :: "'u zmq \<Rightarrow> bool" where
  "delivers_replies z \<longleftrightarrow> (\<forall>u b u'. zmq_msg_recv z u = (Some b, u') \<longrightarrow>
     (\<exists>r m. length m = reply_size (rp_rsslBuffer r) \<and> encode_reply r m = Inr b))"

definition zmq_contract :: "'u zmq \<Rightarrow> 'u rssl \<Rightarrow> bool" where
  "zmq_contract z api \<longleftrightarrow> (\<forall>u0. zmq_keeps (calm api u0) z) \<and> sized_messages z \<and> delivers_replies z"

lemma sizedD: "sized_messages z \<Longrightarrow> zmq_msg_init_size z n u = (Some b, u') \<Longrightarrow> length b = n"
  unfolding sized_messages_def by blast

lemma deliversD: "delivers_replies z \<Longrightarrow> zmq_msg_recv z u = (Some b, u') \<Longrightarrow>
    \<exists>r m. length m = reply_size (rp_rsslBuffer r) \<and> encode_reply r m = Inr b"
  unfolding delivers_replies_def by blast

lemma zmq_keepsD:
  assumes "zmq_keeps W z" "W u"
  shows "zmq_msg_init_size z n u = (r1, u') \<Longrightarrow> W u'" and "zmq_msg_send z b u = (r2, u') \<Longrightarrow> W u'"
    and "zmq_msg_close z u = (r3, u') \<Longrightarrow> W u'" and "zmq_msg_init z u = (r4, u') \<Longrightarrow> W u'"
    and "zmq_msg_recv z u = (r5, u') \<Longrightarrow> W u'" and "zmq_events z u = (r6, u') \<Longrightarrow> W u'"
  using assms unfolding zmq_keeps_def by (metis snd_conv)+

lemma zmq_keeps_send: "zmq_keeps W z \<Longrightarrow> W u \<Longrightarrow> send_or_close z b u = (ok, u') \<Longrightarrow> W u'"
  by (auto simp: send_or_close_def zmq_keeps_def split: prod.splits if_splits) (metis snd_conv)+

text \<open>A request without a view fills the memory it asked for exactly: no exception.\<close>

lemma OnRequest_ok:
  assumes k: "zmq_keeps W z" and s: "sized_messages z" and u: "W u"
  shows "\<exists>ok u'. hitsuji_OnRequest z h v t sid n ai u = (Inr ok, u') \<and> W u'"
proof (cases "zmq_msg_init_size z (request_size (bytes_of n)) u")
  case (Pair r u1)
  have u1: "W u1" using zmq_keepsD(1) [OF k u Pair] .
  show ?thesis
  proof (cases r)
    case None
    then have "hitsuji_OnRequest z h v t sid n ai u = (Inr False, u1)" using Pair by (simp add: hitsuji_OnRequest_def)
    then show ?thesis using u1 by blast
  next
    case (Some b)
    let ?r = "request_of h v t sid n ai"
    have "length b = request_size (rq_itemName ?r)"
      using sizedD [OF s] Pair Some by (simp add: request_of_def)
    then obtain b' where b': "encode_request ?r b = Inr b'" using request_roundtrip_general by blast
    obtain ok u2 where snd: "send_or_close z b' u1 = (ok, u2)" by force
    then show ?thesis using Pair Some b' zmq_keeps_send [OF k u1 snd] by (simp add: hitsuji_OnRequest_def)
  qed
qed

lemma hitsuji_delegate_keeps:
  assumes "zmq_keeps W z" "sized_messages z"
  shows "delegate_keeps W (hitsuji_delegate z)"
  unfolding delegate_keeps_def
proof (intro allI impI)
  fix h v t s n a u assume "W u"
  then obtain ok u' where "hitsuji_OnRequest z h v t s n a u = (Inr ok, u')" "W u'"
    using OnRequest_ok [OF assms] by blast
  then show "W (snd (OnRequest (hitsuji_delegate z) h v t s n a u))"
    by (simp add: hitsuji_delegate_def or_die_def)
qed

lemma hitsuji_delegate_calm: "zmq_contract z api \<Longrightarrow> delegate_calm api (hitsuji_delegate z)"
  by (simp add: zmq_contract_def delegate_calm_def hitsuji_delegate_keeps)

lemma delivered:
  assumes "delivers_replies z" "zmq_msg_recv z u = (Some b, u')"
  shows "\<exists>r. decode_reply True b = Inr r"
proof -
  obtain r m where "length m = reply_size (rp_rsslBuffer r)" and e: "encode_reply r m = Inr b"
    using deliversD [OF assms] by blast
  then obtain b' where "encode_reply r m = Inr b'" "\<exists>r'. decode_reply True b' = Inr r'"
    using reply_roundtrip_general [of m r] by blast
  then show ?thesis using e by simp
qed

lemma good_world: "good api p \<Longrightarrow> calm api (world p) u \<Longrightarrow> good api (p\<lparr>world := u\<rparr>)"
  unfolding good_def by (rule good_calm) simp_all

lemma good_OnReply:
  assumes c: "transport_contract api" "writes_end api" and g: "good api p"
    and d: "decode_reply True b = Inr r"
  shows "good api (snd (OnReply True api b p))"
  using good_SendReply [OF c g] decode_reply_length [OF d] d by (simp add: OnReply_def MAX_MSG_SIZE_def)

lemma good_OnRead:
  assumes c: "transport_contract api" "writes_end api" and z: "zmq_contract z api" and g: "good api p"
  shows "good api (snd (OnRead z True api p))"
proof -
  have k: "zmq_keeps (calm api u0) z" for u0 using z by (simp add: zmq_contract_def)
  note kD = zmq_keepsD [OF k calm_refl]
  have step: "good api (q\<lparr>world := u\<rparr>)" if "good api q" "calm api (world q) u" for q u
    by (rule good_world [OF that])
  obtain e1 u1 where 1: "zmq_events z (world p) = (e1, u1)" by force
  have g1: "good api (p\<lparr>world := u1\<rparr>)" using step [OF g kD(6) [OF 1]] .
  obtain ok2 u2 where 2: "zmq_msg_init z u1 = (ok2, u2)" by force
  have g2: "good api (p\<lparr>world := u2\<rparr>)" using step [OF g1, of u2] kD(4) [OF 2] by simp
  obtain r3 u3 where 3: "zmq_msg_recv z u2 = (r3, u3)" by force
  have g3: "good api (p\<lparr>world := u3\<rparr>)" using step [OF g2, of u3] kD(5) [OF 3] by simp
  obtain ok u3' where c3: "zmq_msg_close z u3 = (ok, u3')" by force
  have g3': "good api (p\<lparr>world := u3'\<rparr>)" using step [OF g3, of u3'] kD(3) [OF c3] by simp
  show ?thesis
  proof (cases r3)
    case None
    then show ?thesis using 1 2 3 c3 g1 g2 g3' by (simp add: OnRead_def split: option.split)
  next
    case (Some b)
    have dr: "delivers_replies z" using z by (simp add: zmq_contract_def)
    obtain r where "decode_reply True b = Inr r" using delivered [OF dr 3 [unfolded Some]] by blast
    note gr = good_OnReply [OF c g3 this]
    obtain ok4 q where 4: "OnReply True api b (p\<lparr>world := u3\<rparr>) = (ok4, q)" by force
    have g4: "good api q" using gr 4 by simp
    obtain ok5 u5 where 5: "zmq_msg_close z (world q) = (ok5, u5)" by force
    have g5: "good api (q\<lparr>world := u5\<rparr>)" using step [OF g4, of u5] kD(3) [OF 5] by simp
    obtain e6 u6 where 6: "zmq_events z u5 = (e6, u6)" by force
    have g6: "good api (q\<lparr>world := u6\<rparr>)" using step [OF g5, of u6] kD(6) [OF 6] by simp
    have "good api (snd (case e6 of None \<Rightarrow> (False, q\<lparr>world := u6\<rparr>) | Some pollin \<Rightarrow> (pollin, q\<lparr>world := u6\<rparr>)))"
      using g6 by (cases e6) simp_all
    then show ?thesis using 1 2 3 Some 4 5 6 g1 g2 g4 g5 by (simp add: OnRead_def split: option.split)
  qed
qed

interpretation bridge: reply_delegate "zmq_contract z" "OnRead z True" for z
  by unfold_locales (rule good_OnRead)

subsection \<open>Item names as bytes\<close>

lemma unat_of_char: "unat (of_char c :: u8) = of_char c"
proof -
  have "(of_char c :: u8) = of_nat (of_char c)" by (simp only: of_nat_of_char)
  then show ?thesis by (simp only: unat_of_nat_u8 of_char_mod_256)
qed

lemma string_of_bytes_of [simp]: "string_of (bytes_of s) = s"
  by (simp add: string_of_def bytes_of_def o_def unat_of_char)

lemma take_bytes_of: "take n (bytes_of s) = bytes_of (take n s)"
  by (simp add: bytes_of_def take_map)

end
