(* ===== verification/Toy_Run.thy ===== *)
theory Toy_Run
  imports Hitsuji
begin

section \<open>A run of the small library\<close>

text \<open>
  A ZeroMQ that meets its contract, and a run of the provider on it and the library \<open>toy\<close>: one client
  connects and its session becomes active. The properties of runs are witnessed at its last state.
\<close>

definition toy_reply :: reply where
  "toy_reply = \<lparr>rp_handle = 0, rp_token = 9, rp_rsslBuffer = [1, 2, 3]\<rparr>"

definition reply_bytes :: "reply \<Rightarrow> u8 list" where
  "reply_bytes r = (case encode_reply r (replicate (reply_size (rp_rsslBuffer r)) 0) of
     Inl e \<Rightarrow> [] | Inr b \<Rightarrow> b)"

definition toy_zmq :: "toy_world zmq" where
  "toy_zmq = \<lparr>zmq_msg_init_size = (\<lambda>n u. (Some (replicate n 0), u)),
     zmq_msg_send = (\<lambda>b u. (True, u)), zmq_msg_close = (\<lambda>u. (True, u)),
     zmq_msg_init = (\<lambda>u. (True, u)), zmq_msg_recv = (\<lambda>u. (Some (reply_bytes toy_reply), u)),
     zmq_events = (\<lambda>u. (Some True, u)), thread_joinable = (\<lambda>w u. True),
     thread_join = (\<lambda>w u. u), uncaught = (\<lambda>e u. u)\<rparr>"

lemma toy_zmq_contract: "zmq_contract toy_zmq api"
proof -
  have l: "length (replicate (reply_size (rp_rsslBuffer toy_reply)) 0) = reply_size (rp_rsslBuffer toy_reply)"
    by simp
  obtain b where b: "encode_reply toy_reply (replicate (reply_size (rp_rsslBuffer toy_reply)) 0) = Inr b"
    using reply_roundtrip_general [OF l] by blast
  then have "encode_reply toy_reply (replicate (reply_size (rp_rsslBuffer toy_reply)) 0) =
      Inr (reply_bytes toy_reply)" by (simp add: reply_bytes_def)
  with l have "\<exists>r m. length m = reply_size (rp_rsslBuffer r) \<and> encode_reply r m = Inr (reply_bytes toy_reply)"
    by blast
  then show ?thesis
    by (simp add: zmq_contract_def zmq_keeps_def sized_messages_def delivers_replies_def toy_zmq_def)
qed

definition toy_start :: "toy_world prov" where
  "toy_start = provider_init default_config (Some 3) ({}, {}, {}) (toy no_data init_msg) (0, {}, {})"

definition toy_up :: "toy_world prov" where
  "toy_up = snd (Initialize_provider (toy no_data init_msg) True (Some 4) toy_start)"

lemma toy_up_initialized:
  "Initialize_provider (toy no_data init_msg) True (Some 4) toy_start = (True, toy_up)"
  by (simp add: toy_up_def Initialize_provider_def toy_start_def provider_init_def default_config_def Let_def)

text \<open>A run of the small library in which one client connects and becomes active.\<close>

abbreviation toy_api :: "toy_world rssl" where "toy_api \<equiv> toy no_data init_msg"

definition toy_work :: "toy_world prov \<Rightarrow> bool \<times> toy_world prov" where
  "toy_work = DoWork toy_api (hitsuji_delegate toy_zmq) (OnRead toy_zmq True toy_api)"

definition readable :: "sock \<Rightarrow> 'u prov \<Rightarrow> 'u prov" where
  "readable s p = p\<lparr>out_rfds := {s}, out_wfds := {}, out_efds := {}, out_nfds := 1\<rparr>"

definition toy_listening :: "toy_world prov" where
  "toy_listening = snd (toy_work (watch_listeners toy_up))"

definition toy_accepted :: "toy_world prov" where
  "toy_accepted = snd (toy_work (snd (toy_work (readable 4 toy_listening))))"

definition toy_active :: "toy_world prov" where
  "toy_active = snd (toy_work (readable 10 toy_accepted))"

abbreviation toy_run :: "phase \<times> toy_world prov \<Rightarrow> bool" where
  "toy_run \<equiv> run_reach toy_api (hitsuji_delegate toy_zmq) (OnRead toy_zmq True toy_api) toy_up"

lemma toy_run_work:
  assumes "toy_run (Working, p)" "keep_running (snd (toy_work p))"
  shows "toy_run (if fst (toy_work p) then Working else Waiting, snd (toy_work p))"
  using run_reach.step [OF assms(1) run_step.work [of _ _ _ p "fst (toy_work p)" "snd (toy_work p)"]]
    assms(2) by (simp add: toy_work_def)

lemma toy_run_select:
  assumes "toy_run (Waiting, p)" "s \<in> in_rfds p"
  shows "toy_run (Working, readable s p)"
  unfolding readable_def
  by (rule run_reach.step [OF assms(1) run_step.select]) (use assms(2) in simp_all)

lemmas toy_steps = toy_work_def readable_def toy_up_def DoWork_def watch_listeners_def
  Initialize_provider_def toy_start_def provider_init_def default_config_def Let_def
  check_reply_def check_listen_def OnConnection_def AcceptConnection_def toy_def watch_connection_def
  chanp_def pstat_def check_incoming_def check_outgoing_def keepalive_def check_exception_def

lemma toy_listening: "fst (toy_work (watch_listeners toy_up)) = False"
  "keep_running toy_listening" "in_rfds toy_listening = {3, 4}"
  by (auto simp: toy_listening_def toy_steps)

lemma toy_served: "toy_work (readable 4 toy_listening) = (True, snd (toy_work (readable 4 toy_listening)))"
  "keep_running (snd (toy_work (readable 4 toy_listening)))"
  by (simp_all add: toy_listening_def toy_steps)

lemma toy_accepted: "fst (toy_work (snd (toy_work (readable 4 toy_listening)))) = False"
  "keep_running toy_accepted" "in_rfds toy_accepted = {10, 3, 4}"
  by (auto simp: toy_accepted_def toy_listening_def toy_steps)

lemma toy_active: "keep_running toy_active \<and> connections toy_active = [0] \<and> alive toy_active 0 \<and> userSpec toy_active 0 = Some 0 \<and>
  fst (toy_work (readable 10 toy_accepted))"
  by (simp add: toy_active_def toy_accepted_def toy_listening_def toy_steps
    OnCanReadWithoutBlocking_def OnInitializingState_def OnActiveClientSession_def
    AcceptClientSession_def new_client_def Initialize_client_def getc_def updc_def client_init_def alive_def)

lemma toy_active_reached: "toy_run (Working, toy_active)"
proof -
  have "toy_run (Waiting, toy_listening)"
    using toy_run_work [OF run_reach.start] toy_listening by (simp add: toy_listening_def)
  then have 1: "toy_run (Working, readable 4 toy_listening)"
    by (rule toy_run_select) (simp add: toy_listening)
  have 2: "toy_run (Working, snd (toy_work (readable 4 toy_listening)))"
    using toy_run_work [OF 1 toy_served(2)] by (subst (asm) toy_served(1)) simp
  have "toy_run (Waiting, toy_accepted)"
    using toy_run_work [OF 2] toy_accepted by (simp add: toy_accepted_def)
  then have 3: "toy_run (Working, readable 10 toy_accepted)"
    by (rule toy_run_select) (simp add: toy_accepted)
  show ?thesis using toy_run_work [OF 3] toy_active by (simp add: toy_active_def)
qed

lemmas toy_running = toy_contract toy_writes_end toy_zmq_contract
  toy_up_initialized [unfolded toy_start_def] toy_active_reached

lemma toy_active_channel: "next_pong (getc toy_active 0) = 1030 \<and> state (chanp toy_api toy_active 0) = RSSL_CH_STATE_ACTIVE"
  by (simp add: toy_active_def toy_accepted_def toy_listening_def toy_steps
    OnCanReadWithoutBlocking_def OnInitializingState_def OnActiveClientSession_def
    AcceptClientSession_def new_client_def Initialize_client_def getc_def updc_def client_init_def alive_def)

end
