(* ===== verification/Safety.thy ===== *)
theory Safety
  imports Toy_Run
begin

section \<open>Properties of the running provider\<close>

text \<open>
  What holds of every state that \<open>Run\<close> reaches when the sessions talk to the bridge and the
  reply socket is read by it; the behaviour of the provider's operations branch by branch; what
  shutdown leaves behind.
\<close>

subsection \<open>Reachable states\<close>

lemma good_start:
  assumes "Initialize_provider api ok bound (provider_init c reply junk api u) = (True, p0)"
  shows "good api p0"
proof -
  obtain s where "p0 = provider_init c reply junk api u \<lparr>last_activity := universal_time api u, rssl_sock := Some s\<rparr>"
    using assms by (auto simp: Initialize_provider_def Let_def provider_init_def split: if_splits option.splits)
  then show ?thesis
    by (simp add: good_def good_except_def pinv_except_def provider_init_def alive_def)
qed

lemma reached_good:
  assumes c: "transport_contract api" "writes_end api" "zmq_contract z api"
    and i: "Initialize_provider api ok bound (provider_init cf reply junk api u) = (True, p0)"
    and r: "run_reach api (hitsuji_delegate z) (OnRead z True api) p0 s"
  shows "good api (snd s)"
  using bridge.good_run_reach [OF c(1,2) hitsuji_delegate_calm [OF c(3)] c(3) r good_start [OF i]] .

text \<open>C1: no run of the provider dereferences a null server pointer or a null or dangling session
  pointer, copies a reply past the end of its buffer, lets an exception of the codec escape or
  stays in a library call for ever: whatever clients connect, send and close, whatever the
  library answers within its contract and whichever replies arrive, in any order with the calls
  of \<open>Quit\<close>.\<close>

theorem run_never_faults:
  assumes "transport_contract api" "writes_end api" "zmq_contract z api"
    and "Initialize_provider api ok bound (provider_init cf reply junk api u) = (True, p0)"
    and "run_reach api (hitsuji_delegate z) (OnRead z True api) p0 (ph, p)"
  shows "\<not> fault p"
  using goodD(3) reached_good [OF assms] by (simp add: good_def)

theorem run_never_faults_witness: "alive toy_active 0 \<and> \<not> fault toy_active"
  using run_never_faults [OF toy_running] toy_active by blast

text \<open>C7: in every state of a run the connections are at most as many as the session capacity, no
  channel is listed twice, and each live session object belongs to exactly one connection, which
  points back at it.\<close>

theorem run_bounded:
  assumes "transport_contract api" "writes_end api" "zmq_contract z api"
    and "Initialize_provider api ok bound (provider_init cf reply junk api u) = (True, p0)"
    and "run_reach api (hitsuji_delegate z) (OnRead z True api) p0 (ph, p)"
  shows "length (connections p) \<le> session_capacity (cfg p) \<and> distinct (connections p) \<and>
    length (clients p) \<le> length (connections p) \<and>
    (alive p k \<longrightarrow> (\<exists>!h. h \<in> set (connections p) \<and> userSpec p h = Some k))"
proof -
  have I: "pinv_except {} api p"
    using goodD(1) reached_good [OF assms] by (simp add: good_def)
  have "length (clients p) = card (fst ` set (clients p))"
    using pinvD(4) [OF I] by (metis distinct_card length_map list.set_map)
  also have "\<dots> \<le> card (set (connections p))" by (rule card_mono) (use pinvD(5) [OF I] in auto)
  also have "\<dots> = length (connections p)" by (rule distinct_card) (rule pinvD(1) [OF I])
  finally have len: "length (clients p) \<le> length (connections p)" .
  have "\<exists>!h. h \<in> set (connections p) \<and> userSpec p h = Some k" if "alive p k"
  proof -
    have "k \<in> snd ` set (clients p)" using pinvD(7) [OF I] that by blast
    then obtain h where hk: "(h, k) \<in> set (clients p)" by auto
    show ?thesis
    proof (rule ex1I)
      show "h \<in> set (connections p) \<and> userSpec p h = Some k"
        using pinvD(5) [OF I] pinvD(9) [OF I hk] hk by force
    next
      fix h' assume "h' \<in> set (connections p) \<and> userSpec p h' = Some k"
      then have "(h', k) \<in> set (clients p)" using pinvD(12) [OF I] by blast
      then show "h' = h" using pinvD(8) [OF I, of h' k] pinvD(8) [OF I hk] by simp
    qed
  qed
  then show ?thesis using len pinvD(1,3) [OF I] by blast
qed

theorem run_bounded_witness:
  "length (connections toy_active) \<le> session_capacity (cfg toy_active) \<and> connections toy_active = [0] \<and>
   (\<exists>!h. h \<in> set (connections toy_active) \<and> userSpec toy_active h = Some 0)"
  using run_bounded [OF toy_running, of 0] toy_active by blast

subsection \<open>Removing a connection\<close>

lemma erase_key_id: "h \<notin> fst ` set xs \<Longrightarrow> erase_key h xs = xs"
  unfolding erase_key_def by (rule filter_True) force

lemma erase_client_fields [simp]:
  "clients (erase_client h p) = erase_key h (clients p)"
  "objs (erase_client h p) = (case map_of (clients p) h of None \<Rightarrow> objs p | Some k \<Rightarrow> (objs p)(k := None))"
proof -
  show "clients (erase_client h p) = erase_key h (clients p)"
    using erase_key_id [of h "clients p"] map_of_eq_None_iff [of "clients p" h]
    by (cases "map_of (clients p) h") (simp_all add: erase_client_def free_client_def)
  show "objs (erase_client h p) = (case map_of (clients p) h of None \<Rightarrow> objs p | Some k \<Rightarrow> (objs p)(k := None))"
    by (cases "map_of (clients p) h") (simp_all add: erase_client_def free_client_def)
qed

lemma disconnect_fields:
  "clients (disconnect api h p) = erase_key h (clients p)"
  "objs (disconnect api h p) = (case map_of (clients p) h of None \<Rightarrow> objs p | Some k \<Rightarrow> (objs p)(k := None))"
  by (cases "map_of (clients p) h"; simp add: disconnect_def Let_def Close_channel_def pstat_def)+

lemma disconnect_world:
  "world (disconnect api h p) = (if state (chanp api p h) \<noteq> RSSL_CH_STATE_CLOSED
     then snd (rsslCloseChannel api h (world p)) else world p)"
  "in_rfds (disconnect api h p) = in_rfds p - {socketId (chanp api p h)}"
  "in_wfds (disconnect api h p) = in_wfds p - {socketId (chanp api p h)}"
  "in_efds (disconnect api h p) = in_efds p - {socketId (chanp api p h)}"
  by (simp_all add: disconnect_def erase_client_def free_client_def Close_channel_def pstat_def chanp_def
      Let_def split: option.split)

lemma good_map_of: "good api p \<Longrightarrow> h \<in> set (connections p) \<Longrightarrow> map_of (clients p) h = userSpec p h"
proof -
  assume g: "good api p" and h: "h \<in> set (connections p)"
  have I: "pinv_except {} api p" using goodD(1) g by (simp add: good_def)
  show ?thesis
  proof (cases "userSpec p h")
    case None
    then have "h \<notin> fst ` set (clients p)" using pinvD(9) [OF I] by fastforce
    then show ?thesis using None by (simp add: map_of_eq_None_iff)
  next
    case (Some k)
    then show ?thesis using map_of_is_SomeI [OF pinvD(4) [OF I] pinvD(12) [OF I h Some]] by simp
  qed
qed

text \<open>C19: after a socket exception the connection is gone from every table: it is not listed, has no
  session, its session object is destroyed and only that one, its socket is not watched any
  more, and the channel is not active.\<close>

theorem disconnect_removes:
  assumes c: "transport_contract api" and g: "good api p" and h: "h \<in> set (connections p)"
  shows "good api (disconnect api h p) \<and> h \<notin> set (connections (disconnect api h p)) \<and>
    h \<notin> fst ` set (clients (disconnect api h p)) \<and>
    (\<forall>k. alive (disconnect api h p) k \<longleftrightarrow> alive p k \<and> userSpec p h \<noteq> Some k) \<and>
    socketId (chanp api p h) \<notin> in_rfds (disconnect api h p) \<union> in_wfds (disconnect api h p) \<union> in_efds (disconnect api h p) \<and>
    \<not> active api (world (disconnect api h p)) h"
proof -
  have I: "pinv_except {} api p" using goodD(1) g by (simp add: good_def)
  note d = good_disconnect [OF c g h]
  have h': "h \<notin> set (connections (disconnect api h p))" using d(2) pinvD(1) [OF I] by simp
  have cl: "h \<notin> fst ` set (clients (disconnect api h p))"
    by (auto simp: disconnect_fields erase_key_def)
  have al: "alive (disconnect api h p) k \<longleftrightarrow> alive p k \<and> userSpec p h \<noteq> Some k" for k
    using good_map_of [OF g h] by (auto simp: alive_def disconnect_fields split: option.splits)
  have "\<not> active api (world (disconnect api h p)) h"
  proof (cases "state (chanp api p h) = RSSL_CH_STATE_CLOSED")
    case True
    then show ?thesis by (simp add: disconnect_world active_def chanp_def)
  next
    case False
    then show ?thesis using contract_close(2) [OF c] by (simp add: disconnect_world) (metis prod.collapse)
  qed
  then show ?thesis using d(1) h' cl al by (simp add: disconnect_world)
qed

lemma toy_active_good: "good toy_api toy_active"
  using reached_good [OF toy_running] by simp

theorem disconnect_removes_witness: "alive toy_active 0 \<and> \<not> alive (disconnect toy_api 0 toy_active) 0"
proof -
  show ?thesis
    using disconnect_removes [OF toy_contract toy_active_good, of 0] toy_active by simp
qed

lemma Ping_next_pong: "alive p k \<Longrightarrow> next_pong (getc (snd (Ping api h p)) k) = next_pong (getc p k)"
  by (auto simp: Ping_def Let_def on_user_def updc_def getc_def alive_def pstat_def schedule_ping_def
      split: prod.splits option.splits)

lemma Ping_last_activity: "last_activity (snd (Ping api h p)) = last_activity p"
  by (auto simp: Ping_def Let_def on_user_def updc_def pstat_def split: prod.splits option.splits)

lemma check_exception_Abort:
  "check_exception api h (Abort api h p) = disconnect api h (Abort api h p)"
  by (simp add: check_exception_def Abort_def Let_def chanp_def)

text \<open>C18: a session that has not answered for the length of its ping timeout is disconnected in the
  very pass of the work loop that finds it so, even when a ping is due at the same time.\<close>

theorem pong_timeout_disconnects:
  assumes c: "transport_contract api" and g: "good api p" and h: "h \<in> set (connections p)"
    and k: "userSpec p h = Some k" and a: "state (chanp api p h) = RSSL_CH_STATE_ACTIVE"
    and late: "next_pong (getc p k) \<le> last_activity p"
    and q: "q = check_exception api h (keepalive api h p)"
  shows "h \<notin> set (connections q) \<and> h \<notin> fst ` set (clients q) \<and> \<not> alive q k \<and>
    \<not> active api (world q) h \<and>
    p_stats q PROVIDER_PC_RSSL_PONG_TIMEOUT = p_stats p PROVIDER_PC_RSSL_PONG_TIMEOUT + 1"
proof -
  note gx = g [unfolded good_def]
  have al: "alive p k" using good_user(1) [OF gx h k] .
  define p1 where "p1 = (if last_activity p \<ge> next_ping (getc p k) then snd (Ping api h p) else p)"
  have "next_pong (getc p1 k) \<le> last_activity p1"
    using late by (simp add: p1_def Ping_next_pong [OF al] Ping_last_activity)
  then have kp: "keepalive api h p = Abort api h (pstat PROVIDER_PC_RSSL_PONG_TIMEOUT p1)"
    using k a al by (simp add: keepalive_def Let_def p1_def)
  have g2: "good api (keepalive api h p)" "h \<in> set (connections (keepalive api h p))"
    using good_keepalive [OF c g h] h by simp_all
  have u: "userSpec (keepalive api h p) h = Some k"
    using k shape_eqD(4) [OF shape_Ping [of api h p]] by (simp add: kp p1_def Abort_def pstat_def Let_def)
  have e: "q = disconnect api h (keepalive api h p)"
    unfolding q kp by (rule check_exception_Abort)
  have st: "p_stats p1 PROVIDER_PC_RSSL_PONG_TIMEOUT = p_stats p PROVIDER_PC_RSSL_PONG_TIMEOUT"
    by (auto simp: p1_def Ping_def Let_def on_user_def updc_def pstat_def bump_def split: prod.splits option.splits)
  have "p_stats q PROVIDER_PC_RSSL_PONG_TIMEOUT = p_stats p PROVIDER_PC_RSSL_PONG_TIMEOUT + 1"
    unfolding e disconnect_def Let_def
    by (simp add: kp Abort_def Let_def pstat_def Close_channel_def erase_client_def free_client_def bump_def st
        split: option.split)
  then show ?thesis using disconnect_removes [OF c g2] u e by simp
qed

text \<open>The session of the small library, silent for a thousand seconds.\<close>

definition toy_silent :: "toy_world prov" where
  "toy_silent = toy_active\<lparr>last_activity := 2000\<rparr>"

theorem pong_timeout_disconnects_witness:
  "alive toy_silent 0 \<and> \<not> alive (check_exception toy_api 0 (keepalive toy_api 0 toy_silent)) 0"
proof -
  have g: "good toy_api toy_silent"
    using toy_active_good unfolding good_def toy_silent_def by (subst good_cong) simp_all
  have f: "0 \<in> set (connections toy_silent)" "userSpec toy_silent 0 = Some 0" "alive toy_silent 0"
    "state (chanp toy_api toy_silent 0) = RSSL_CH_STATE_ACTIVE"
    "next_pong (getc toy_silent 0) \<le> last_activity toy_silent"
    using toy_active toy_active_channel by (simp_all add: toy_silent_def alive_def chanp_def getc_def)
  show ?thesis using pong_timeout_disconnects [OF toy_contract g f(1,2,4,5) refl] f(3) by blast
qed

subsection \<open>Admission\<close>

text \<open>A connection is admitted exactly when the provider is accepting, a slot is free and the library
  hands over a channel; the list then grows by that channel, whose socket is watched. Otherwise
  the list stays as it is, and a refusal is counted as such.\<close>

theorem connection_admission:
  assumes "q = OnConnection api p"
  shows "(if is_accepting_connections p \<and> length (connections p) \<noteq> session_capacity (cfg p)
    then (case fst (rsslAccept api False (world p)) of
        None \<Rightarrow> connections q = connections p \<and> in_rfds q = in_rfds p
      | Some h \<Rightarrow> connections q = connections p @ [h] \<and>
          socketId (chanp api q h) \<in> in_rfds q \<inter> in_efds q \<and>
          p_stats q PROVIDER_PC_CONNECTION_ACCEPTED = p_stats p PROVIDER_PC_CONNECTION_ACCEPTED + 1)
    else connections q = connections p \<and> in_rfds q = in_rfds p \<and>
      p_stats q PROVIDER_PC_CONNECTION_REJECTED = p_stats p PROVIDER_PC_CONNECTION_REJECTED + 1) \<and>
    clients q = clients p \<and> objs q = objs p"
  unfolding assms
  by (cases "rsslAccept api False (world p)"; cases "fst (rsslAccept api False (world p))")
    (simp_all add: OnConnection_def Let_def AcceptConnection_def RejectConnection_def pstat_def bump_def
      watch_connection_def chanp_def)

theorem connection_admission_witness: "connections (OnConnection toy_api toy_up) = [0]"
proof -
  have a: "is_accepting_connections toy_up" "connections toy_up = []" "session_capacity (cfg toy_up) = 8"
    "fst (rsslAccept toy_api False (world toy_up)) = Some 0"
    by (simp_all add: toy_up_def Initialize_provider_def toy_start_def provider_init_def default_config_def
        Let_def toy_def)
  show ?thesis using connection_admission [where api = toy_api and p = toy_up, OF refl] a by simp
qed

text \<open>Each session that is accepted lowers the version the provider keeps to its own, if that is
  smaller, so that the kept version is the lowest of those seen; 0 stands for none seen.\<close>

theorem session_lowers_version:
  assumes a: "AcceptClientSession api h address p = (True, q)" and v: "v = rwf_version (chanp api q h)"
  shows "min_rwf_version q = (if min_rwf_version p = 0 then v else min (min_rwf_version p) v) \<and>
    userSpec q h \<noteq> None"
proof -
  obtain ok p2 where i: "Initialize_client api (next_obj p) (snd (new_client api h address p)) = (ok, p2)" by force
  have m: "min_rwf_version p2 = min_rwf_version p"
    using i by (auto simp: Initialize_client_def new_client_def Let_def updc_def split: prod.splits option.splits if_splits)
  show ?thesis
    using a i m unfolding v
    by (auto simp: AcceptClientSession_def new_client_def Let_def lower_version_def free_client_def pstat_def
        chanp_def min_def split: if_splits)
qed

theorem session_lowers_version_witness:
  "min_rwf_version (snd (AcceptClientSession toy_api 0 ''a'' toy_up)) = 14 * 256 + 1"
proof -
  have a: "AcceptClientSession toy_api 0 ''a'' toy_up = (True, snd (AcceptClientSession toy_api 0 ''a'' toy_up))"
    "min_rwf_version toy_up = 0"
    "rwf_version (chanp toy_api (snd (AcceptClientSession toy_api 0 ''a'' toy_up)) 0) = 14 * 256 + 1"
    by (simp_all add: AcceptClientSession_def toy_steps new_client_def Initialize_client_def getc_def updc_def
        client_init_def rwf_version_def)
  show ?thesis using session_lowers_version [OF a(1) refl] a(2,3) by simp
qed

text \<open>A read that reports congestion, a slow reader or a gap on a channel that has closed does not
  end the connection: it is treated as a change of the descriptor, which swaps the watched
  sockets and counts a reconnection, and nothing marks the socket for removal.\<close>

theorem closed_read_falls_through:
  assumes r: "rsslReadEx api h (world p) = (r, u)"
    and rc: "rd_rc r \<in> {RSSL_RET_CONGESTION_DETECTED, RSSL_RET_SLOW_READER, RSSL_RET_PACKET_GAP_DETECTED}"
    and cl: "state (chan api h u) = RSSL_CH_STATE_CLOSED" and q: "q = OnActiveState api del h p"
  shows "p_stats q PROVIDER_PC_RSSL_RECONNECT = p_stats p PROVIDER_PC_RSSL_RECONNECT + 1 \<and>
    in_rfds q = insert (socketId (chan api h u)) (in_rfds p - {oldSocketId (chan api h u)}) \<and>
    out_efds q = out_efds p \<and> connections q = connections p"
  using rc cl r unfolding q
  by (auto simp: OnActiveState_def check_closed_state_def fd_change_def Let_def pstat_def pstat_add_def bump_def
      chanp_def watch_connection_def)

theorem closed_read_falls_through_witness:
  "connections (OnActiveState (toy \<lparr>rd_rc = RSSL_RET_SLOW_READER, rd_buf = None, rd_bytesRead = 0,
     rd_uncompressedBytesRead = 0\<rparr> init_msg) toy_delegate 3 toy_prov) = [0]"
proof -
  let ?r = "\<lparr>rd_rc = RSSL_RET_SLOW_READER, rd_buf = None, rd_bytesRead = 0, rd_uncompressedBytesRead = 0\<rparr>"
  have "rsslReadEx (toy ?r init_msg) 3 (world toy_prov) = (?r, world toy_prov)"
    "rd_rc ?r \<in> {RSSL_RET_CONGESTION_DETECTED, RSSL_RET_SLOW_READER, RSSL_RET_PACKET_GAP_DETECTED}"
    "state (chan (toy ?r init_msg) 3 (world toy_prov)) = RSSL_CH_STATE_CLOSED"
    by (simp_all add: toy_def toy_prov_def provider_init_def)
  from closed_read_falls_through [OF this refl, of toy_delegate] show ?thesis by (simp add: toy_prov_def)
qed

text \<open>A session that is refused because the provider is full keeps its connection slot: the channel
  is closed and has no session, but stays in the list, so it still counts against the capacity.\<close>

theorem rejected_session_keeps_slot:
  assumes c: "transport_contract api" and f: "length (clients p) = session_capacity (cfg p)"
    and q: "q = OnActiveClientSession api h p"
  shows "connections q = connections p \<and> clients q = clients p \<and> userSpec q = userSpec p \<and>
    \<not> active api (world q) h"
  using f contract_close(2) [OF c, of h "world p" "fst (rsslCloseChannel api h (world p))"
      "snd (rsslCloseChannel api h (world p))"]
  unfolding q
  by (simp add: OnActiveClientSession_def RejectClientSession_def Close_channel_def pstat_def Let_def)

definition toy_full :: "toy_world prov" where
  "toy_full = toy_prov\<lparr>cfg := default_config\<lparr>session_capacity := 1\<rparr>, connections := [0, 1]\<rparr>"

theorem rejected_session_keeps_slot_witness:
  "connections (OnActiveClientSession toy_api 1 toy_full) = [0, 1]"
  using rejected_session_keeps_slot [OF toy_contract, where h = 1 and p = toy_full, OF _ refl]
  by (simp add: toy_full_def toy_prov_def)

subsection \<open>Sending\<close>

text \<open>The answers to the repeated calls of \<open>Submit\<close>.\<close>

definition write_answer :: "'u rssl \<Rightarrow> handle \<Rightarrow> rssl_buffer \<Rightarrow> 'u prov \<Rightarrow> nat \<Rightarrow> rssl_ret" where
  "write_answer api h b p n = (let d = socketId (chanp api p h) \<notin> in_wfds p in
     fst (rsslWriteEx api h b d (((\<lambda>u. snd (rsslWriteEx api h b d u)) ^^ n) (world p))))"

text \<open>C25: on a live session \<open>Submit\<close> hangs exactly when the library answers \<open>CALL_AGAIN\<close> for ever:
  nothing else bounds its loop, and nothing else goes wrong in it.\<close>

theorem submit_hangs_iff:
  assumes f: "\<not> fault p" "ptr_ok p h"
  shows "fault (snd (Submit api h b p)) \<longleftrightarrow> (\<forall>n. write_answer api h b p n = RSSL_RET_WRITE_CALL_AGAIN)"
proof -
  define d where "d = (socketId (chanp api p h) \<notin> in_wfds p)"
  have iff: "write_loop api h b d (world p) = None \<longleftrightarrow> (\<forall>n. write_answer api h b p n = RSSL_RET_WRITE_CALL_AGAIN)"
    using wl.returns_iff [of api h b d "world p"] unfolding write_answer_def Let_def d_def by blast
  have "fault (snd (Submit api h b p)) \<longleftrightarrow> write_loop api h b d (world p) = None"
  proof (cases "write_loop api h b d (world p)")
    case None
    then show ?thesis by (simp add: Submit_def d_def)
  next
    case (Some r)
    obtain rc u where "r = (rc, u)" by force
    then show ?thesis using Some f unfolding Submit_def d_def [symmetric] by (simp add: Let_def fault_on_user)
  qed
  then show ?thesis using iff by simp
qed

lemma toy_prov_ok: "ptr_ok toy_prov 0" "\<not> fault toy_prov"
  by (simp_all add: ptr_ok_def toy_prov_def provider_init_def alive_def)

theorem submit_hangs_iff_witness:
  "\<not> fault (snd (Submit toy_api 0 \<lparr>buf_id = 7, buf_length = 4, buf_data = Unset\<rparr> toy_prov))"
proof -
  let ?b = "\<lparr>buf_id = 7, buf_length = 4, buf_data = Unset\<rparr>"
  have "write_answer toy_api 0 ?b toy_prov 0 \<noteq> RSSL_RET_WRITE_CALL_AGAIN"
    by (simp add: write_answer_def toy_def Let_def)
  then show ?thesis using submit_hangs_iff [OF toy_prov_ok(2,1), of toy_api ?b] by blast
qed

text \<open>What \<open>Submit\<close> promises for the last answer of the library: its result, the counter that it moves,
  whether the library took the buffer, and whether the socket is to be watched for writing.\<close>

fun write_report :: "rssl_ret \<Rightarrow> int \<times> provider_pc \<times> bool \<times> bool" where
  "write_report (RSSL_PENDING n) = (-1, PROVIDER_PC_RSSL_MSGS_ENQUEUED, True, True)"
| "write_report RSSL_RET_WRITE_FLUSH_FAILED = (-1, PROVIDER_PC_RSSL_WRITE_FLUSH_FAILED, True, True)"
| "write_report RSSL_RET_BUFFER_NO_BUFFERS = (-1, PROVIDER_PC_RSSL_WRITE_NO_BUFFERS, False, True)"
| "write_report RSSL_RET_SUCCESS = (1, PROVIDER_PC_RSSL_MSGS_SENT, True, False)"
| "write_report _ = (0, PROVIDER_PC_RSSL_WRITE_EXCEPTION, False, False)"

text \<open>What it promises for the session of the channel: a queued message is pending, a sent one puts off the ping.\<close>

fun write_session :: "int \<Rightarrow> rssl_ret \<Rightarrow> client \<Rightarrow> client" where
  "write_session now (RSSL_PENDING n) c = c\<lparr>pending_count := pending_count c + 1\<rparr>"
| "write_session now RSSL_RET_SUCCESS c = c\<lparr>next_ping := now + uint (ping_interval c)\<rparr>"
| "write_session now _ c = c"

text \<open>The last answer, behind \<open>n\<close> requests to call again, is the result of the loop.\<close>

lemma write_loop_answer:
  assumes "\<And>m. m < n \<Longrightarrow> write_answer api h b p m = RSSL_RET_WRITE_CALL_AGAIN"
    "write_answer api h b p n \<noteq> RSSL_RET_WRITE_CALL_AGAIN"
  shows "\<exists>u. write_loop api h b (socketId (chanp api p h) \<notin> in_wfds p) (world p) = Some (write_answer api h b p n, u)"
proof -
  let ?d = "socketId (chanp api p h) \<notin> in_wfds p"
  let ?un = "((\<lambda>u. snd (rsslWriteEx api h b ?d u)) ^^ n) (world p)"
  have "write_loop api h b ?d (world p) = Some (rsslWriteEx api h b ?d ?un)"
    by (rule wl.result) (use assms in \<open>simp_all add: write_answer_def Let_def\<close>)
  then show ?thesis
    by (intro exI [of _ "snd (rsslWriteEx api h b ?d ?un)"]) (simp add: write_answer_def Let_def)
qed

lemma write_report_cases:
  "write_report rc = (if positive rc then (-1, PROVIDER_PC_RSSL_MSGS_ENQUEUED, True, True)
     else if rc = RSSL_RET_WRITE_FLUSH_FAILED then (-1, PROVIDER_PC_RSSL_WRITE_FLUSH_FAILED, True, True)
     else if rc = RSSL_RET_BUFFER_NO_BUFFERS then (-1, PROVIDER_PC_RSSL_WRITE_NO_BUFFERS, False, True)
     else if rc = RSSL_RET_SUCCESS then (1, PROVIDER_PC_RSSL_MSGS_SENT, True, False)
     else (0, PROVIDER_PC_RSSL_WRITE_EXCEPTION, False, False))"
  "write_session now rc c = (if positive rc then c\<lparr>pending_count := pending_count c + 1\<rparr>
     else if rc = RSSL_RET_SUCCESS then schedule_ping now c else c)"
  by (cases rc; simp add: schedule_ping_def)+

lemma on_user_objs:
  "objs (on_user h f p) k = (if userSpec p h = Some k then map_option f (objs p k) else objs p k)"
  by (auto simp: on_user_def updc_def split: option.splits)

lemma on_user_same [simp]:
  "chanp api (on_user h g r) h' = chanp api r h'" "in_wfds (on_user h g r) = in_wfds r"
  by (auto simp: on_user_def updc_def chanp_def split: option.splits)

text \<open>C24: what \<open>Submit\<close> does for the last answer of the library, once it no longer asks to be called again.
  Bytes pending: -1, counted as queued, the session has one message more pending; flush failed: -1, counted; no
  buffers: -1, counted, but the buffer stays with the program; success: 1, counted as sent, the next ping of the
  session is put off from the time of the last activity; anything else: 0, counted as an exception, and the buffer
  stays with the program. The socket is watched for writing exactly where the result is -1. Exactly one counter
  moves, and no other session is touched.\<close>

theorem submit_outcome:
  assumes f: "\<not> fault p" "ptr_ok p h" and s: "Submit api h b p = (status, q)"
    and again: "\<And>m. m < n \<Longrightarrow> write_answer api h b p m = RSSL_RET_WRITE_CALL_AGAIN"
    and final: "write_answer api h b p n = rc" "rc \<noteq> RSSL_RET_WRITE_CALL_AGAIN"
  shows "\<not> fault q \<and>
    (case write_report rc of (result, counter, taken, watch) \<Rightarrow>
       status = result \<and>
       p_stats q = bump counter (p_stats p) \<and>
       held q = (if taken then remove1 (buf_id b) (held p) else held p) \<and>
       in_wfds q = (if watch then insert (socketId (chanp api q h)) (in_wfds p) else in_wfds p)) \<and>
    objs q = (\<lambda>k. if userSpec p h = Some k then map_option (write_session (last_activity p) rc) (objs p k)
                  else objs p k)"
proof -
  obtain u where l: "write_loop api h b (socketId (chanp api p h) \<notin> in_wfds p) (world p) = Some (rc, u)"
    using write_loop_answer [of n api h b p] again final by auto
  have fq: "\<not> fault q" using s f unfolding Submit_def l by (auto simp: Let_def fault_on_user split: if_splits)
  have 1: "case write_report rc of (result, counter, taken, watch) \<Rightarrow>
       status = result \<and>
       p_stats q = bump counter (p_stats p) \<and>
       held q = (if taken then remove1 (buf_id b) (held p) else held p) \<and>
       in_wfds q = (if watch then insert (socketId (chanp api q h)) (in_wfds p) else in_wfds p)"
    using s unfolding Submit_def l write_report_cases(1)
    by (auto simp: Let_def pstat_def disown_def await_write_def chanp_def split: if_splits)
  have "objs q k = (if userSpec p h = Some k then map_option (write_session (last_activity p) rc) (objs p k) else objs p k)" for k
    using s unfolding Submit_def l
    by (cases "objs p k") (auto simp: Let_def on_user_objs pstat_def disown_def await_write_def write_report_cases(2) split: if_splits)
  then show ?thesis using 1 fq by blast
qed

definition busy_api :: "toy_world rssl" where
  "busy_api = toy_api\<lparr>rsslWriteEx := (\<lambda>h b d u. (if fst u = 1 then RSSL_RET_WRITE_CALL_AGAIN else RSSL_PENDING 9, (Suc (fst u), snd u)))\<rparr>"

theorem submit_outcome_witness:
  "\<exists>q. Submit busy_api 0 \<lparr>buf_id = 7, buf_length = 4, buf_data = Unset\<rparr> toy_prov = (-1, q) \<and>
     p_stats q = bump PROVIDER_PC_RSSL_MSGS_ENQUEUED (p_stats toy_prov) \<and> 10 \<in> in_wfds q \<and>
     map_option pending_count (objs q 5) = Some 1"
proof -
  let ?b = "\<lparr>buf_id = 7, buf_length = 4, buf_data = Unset\<rparr>"
  obtain status q where s: "Submit busy_api 0 ?b toy_prov = (status, q)" by force
  have w: "write_answer busy_api 0 ?b toy_prov 0 = RSSL_RET_WRITE_CALL_AGAIN"
    "write_answer busy_api 0 ?b toy_prov 1 = RSSL_PENDING 9"
    by (simp_all add: write_answer_def busy_api_def toy_prov_def provider_init_def Let_def)
  have t: "userSpec toy_prov 0 = Some 5" "objs toy_prov 5 = Some toy_client" "pending_count toy_client = 0"
    by (simp_all add: toy_prov_def toy_client_def client_init_def provider_init_def)
  have c: "socketId (chanp busy_api q 0) = 10" by (simp add: busy_api_def chanp_def toy_def case_prod_beta)
  show ?thesis
    using submit_outcome [OF toy_prov_ok(2,1) s, of 1 "RSSL_PENDING 9"] w s t c by simp
qed

subsection \<open>Shutdown\<close>

lemma close_channels_fields:
  "connections (close_channels api p) = []" "clients (close_channels api p) = clients p"
  "rssl_sock (close_channels api p) = rssl_sock p"
proof -
  have "shape (fold (Close_channel api) hs p) = shape p" for hs
    by (induction hs arbitrary: p) (simp_all add: shape_Close_channel)
  from shape_eqD(2,6) [OF this] show "connections (close_channels api p) = []"
    "clients (close_channels api p) = clients p" "rssl_sock (close_channels api p) = rssl_sock p"
    by (simp_all add: close_channels_def)
qed

lemma closed_inactive:
  assumes c: "transport_contract api"
  shows "h \<in> set hs \<Longrightarrow> \<not> active api (world (fold (Close_channel api) hs p)) h"
proof (induction hs arbitrary: p rule: rev_induct)
  case Nil
  then show ?case by simp
next
  case (snoc h' hs)
  obtain rc u where r: "rsslCloseChannel api h' (world (fold (Close_channel api) hs p)) = (rc, u)" by force
  have calm: "calm api (world (fold (Close_channel api) hs p)) u" using contract_close(1) [OF c r] .
  have w: "world (fold (Close_channel api) (hs @ [h']) p) = u"
    using r Close_channel_def [of api h' "fold (Close_channel api) hs p"] by simp
  show ?case
  proof (cases "h = h'")
    case True
    then show ?thesis using contract_close(2) [OF c r] unfolding w by simp
  next
    case False
    then have "\<not> active api (world (fold (Close_channel api) hs p)) h" using snoc by simp
    then show ?thesis using calm unfolding w calm_def by blast
  qed
qed

text \<open>If \<open>Close\<close> returns, the provider has no connection, no session and no server left, and the
  channels it still had when the sessions were gone are closed.\<close>

theorem close_empties:
  assumes c: "transport_contract api" and q: "Close_provider api del on_read select p = Some q"
  shows "connections q = [] \<and> clients q = [] \<and> rssl_sock q = None \<and>
    (\<exists>r. q = close_channels api r \<and> (\<forall>h \<in> set (connections r). \<not> active api (world q) h))"
proof -
  obtain r where r: "q = close_channels api r" "clients r = []" "rssl_sock r = None"
    using q by (auto simp: Close_provider_def Let_def split: option.splits if_splits)
  have a: "\<forall>h \<in> set (connections r). \<not> active api (world q) h"
    using closed_inactive [OF c] r(1) by (simp add: close_channels_def)
  have "connections q = []" "clients q = []" "rssl_sock q = None"
    using r close_channels_fields [of api r] by simp_all
  then show ?thesis using a r(1) by blast
qed

theorem close_empties_witness: "\<exists>q. Close_provider toy_api (hitsuji_delegate toy_zmq) (\<lambda>p. (False, p)) (\<lambda>p. p) toy_up = Some q \<and>
    rssl_sock q = None"
proof -
  have "\<exists>q. Close_provider toy_api (hitsuji_delegate toy_zmq) (\<lambda>p. (False, p)) (\<lambda>p. p) toy_up = Some q"
    by (simp add: Close_provider_def toy_up_def Initialize_provider_def toy_start_def provider_init_def
        default_config_def Let_def)
  then show ?thesis using close_empties [OF toy_contract] by blast
qed

text \<open>The draining loop of \<open>Close\<close> ends exactly when some round of work leaves no open stream: as long
  as a stream stays open the shutdown waits for it.\<close>

theorem drain_ends_iff:
  "drain work select p \<noteq> None \<longleftrightarrow> (\<exists>n. active_tokens (snd (work ((drain_round work select ^^ n) p))) = 0)"
  using dr.returns_iff [of work select p] by simp

subsection \<open>The bridge to the workers\<close>

text \<open>C27: an item request of a session leaves the provider as one message, from which the worker decodes
  the handle, version, token, service, flag and the item name, the name cut down to its length modulo
  256; no exception escapes.\<close>

theorem request_reaches_worker:
  assumes s: "sized_messages z" and i: "zmq_msg_init_size z (request_size (bytes_of n)) u = (Some b, u1)"
  shows "\<exists>b'. hitsuji_OnRequest z h rwf tok sid n ai u =
      (Inr (fst (send_or_close z b' u1)), snd (send_or_close z b' u1)) \<and>
    decode_request True b' =
      Inr (Request_task (request_of h rwf tok sid (take (length n mod 256) n) ai))"
proof -
  let ?r = "request_of h rwf tok sid n ai"
  have l: "length b = request_size (rq_itemName ?r)" using sizedD [OF s i] by (simp add: request_of_def)
  obtain b' where b': "encode_request ?r b = Inr b'" "decode_request True b' = Inr (Request_task
      (?r\<lparr>rq_itemName := take (length (rq_itemName ?r) mod 256) (rq_itemName ?r)\<rparr>))"
    using request_roundtrip_general [OF l] by blast
  have "?r\<lparr>rq_itemName := take (length (rq_itemName ?r) mod 256) (rq_itemName ?r)\<rparr> =
      request_of h rwf tok sid (take (length n mod 256) n) ai"
    by (simp add: request_of_def take_bytes_of) (simp add: bytes_of_def)
  then show ?thesis using b' i by (intro exI [of _ b']) (simp add: hitsuji_OnRequest_def case_prod_beta)
qed

theorem request_reaches_worker_witness:
  "\<exists>b'. fst (hitsuji_OnRequest toy_zmq 0 3585 5 1 ''TRI.N'' True (1, {0}, {})) = Inr True \<and>
     decode_request True b' = Inr (Request_task (request_of 0 3585 5 1 ''TRI.N'' True))"
proof -
  have s: "sized_messages toy_zmq" by (simp add: sized_messages_def toy_zmq_def)
  have i: "zmq_msg_init_size toy_zmq (request_size (bytes_of ''TRI.N'')) (1, {0}, {}) =
      (Some (replicate (request_size (bytes_of ''TRI.N'')) 0), (1, {0}, {}))" by (simp add: toy_zmq_def)
  have "fst (send_or_close toy_zmq b u) = True" for b u by (simp add: send_or_close_def toy_zmq_def)
  then show ?thesis using request_reaches_worker [OF s i, of 0 3585 5 1 True] by auto
qed

text \<open>A reply for a channel that has no session any more makes \<open>OnRead\<close> give up: the message is not
  closed, and further replies are left waiting, although the descriptor signals only the edge.\<close>

theorem late_reply_ends_reading:
  assumes e: "zmq_events z (world p) = (Some True, u1)" and i: "zmq_msg_init z u1 = (True, u2)"
    and r: "zmq_msg_recv z u2 = (Some b, u3)" and d: "decode_reply True b = Inr rp"
    and n: "map_of (clients p) (unat (rp_handle rp)) = None"
  shows "OnRead z True api p = (False, p\<lparr>world := u3\<rparr>)"
  using assms by (simp add: OnRead_def OnReply_def SendReply_def)

lemma toy_reply_bytes: "decode_reply True (reply_bytes toy_reply) = Inr toy_reply"
proof -
  have l: "length (replicate (reply_size (rp_rsslBuffer toy_reply)) 0) = reply_size (rp_rsslBuffer toy_reply)"
    by simp
  then obtain b where b: "encode_reply toy_reply (replicate (reply_size (rp_rsslBuffer toy_reply)) 0) = Inr b"
    "decode_reply True b = Inr (toy_reply\<lparr>rp_rsslBuffer := take (length (rp_rsslBuffer toy_reply) mod 256)
       (rp_rsslBuffer toy_reply)\<rparr>)"
    using reply_roundtrip_general [OF l] by blast
  then show ?thesis unfolding reply_bytes_def b(1) sum.case by (simp add: toy_reply_def)
qed

theorem late_reply_ends_reading_witness: "OnRead toy_zmq True toy_api toy_up = (False, toy_up\<lparr>world := world toy_up\<rparr>)"
  by (rule late_reply_ends_reading [OF _ _ _ toy_reply_bytes])
    (simp_all add: toy_zmq_def toy_up_def Initialize_provider_def toy_start_def provider_init_def default_config_def Let_def)

text \<open>\<open>AbortWorkers\<close>, when no call fails, sends one abort request per worker thread that runs, and
  then joins the threads; it joins none when none runs.\<close>

theorem abort_each_worker:
  assumes ok: "\<And>v. fst (AbortOneWorker z v) = Inr True"
    and run: "\<And>w v. thread_joinable z w (snd (AbortOneWorker z v)) = thread_joinable z w v"
    and n: "n = length (filter (\<lambda>w. thread_joinable z w u) ws)"
  shows "AbortWorkers z ws u =
    (Inr True, if n = 0 then u else join_pass z ws (((\<lambda>v. snd (AbortOneWorker z v)) ^^ n) u))"
proof -
  define A where "A = (\<lambda>v. snd (AbortOneWorker z v))"
  have o: "AbortOneWorker z v = (Inr True, A v)" for v using ok [of v] by (metis A_def prod.collapse)
  have k: "thread_joinable z w (A v) = thread_joinable z w v" for w v by (simp add: A_def run)
  have pass: "abort_pass z ws m v = (Inr (Some (m + length (filter (\<lambda>w. thread_joinable z w v) ws))),
      (A ^^ length (filter (\<lambda>w. thread_joinable z w v) ws)) v)" for ws m v
  proof (induction ws arbitrary: m v)
    case Nil
    then show ?case by simp
  next
    case (Cons w ws)
    show ?case
    proof (cases "thread_joinable z w v")
      case True
      show ?thesis using True Cons.IH [of "m + 1" "A v"] by (simp add: o k funpow_swap1)
    next
      case False
      then show ?thesis using Cons.IH by simp
    qed
  qed
  show ?thesis using pass [of ws 0 u] n by (simp add: AbortWorkers_def A_def)
qed

lemma toy_abort: "fst (AbortOneWorker toy_zmq v) = Inr True" "snd (AbortOneWorker toy_zmq v) = v"
proof -
  obtain b' where "encode_abort (replicate abort_size 0) = Inr b'"
    using abort_roundtrip_general [of "replicate abort_size 0"] by auto
  then show "fst (AbortOneWorker toy_zmq v) = Inr True" "snd (AbortOneWorker toy_zmq v) = v"
    by (simp_all add: AbortOneWorker_def toy_zmq_def send_or_close_def)
qed

theorem abort_each_worker_witness: "fst (AbortWorkers toy_zmq [0, 1, 2] (0, {}, {})) = Inr True"
  by (subst abort_each_worker [OF _ _ refl]) (simp_all add: toy_abort)

end
