(* ===== verification/Url_Parse.thy ===== *)
theory Url_Parse
  imports Main
begin

section \<open>The URL parser\<close>

text \<open>
  googleurl/url_parse.cc with the inline functions of url_parse.h and url_parse_internal.h: the
  worker parses an item name with it.

  \<^item> The input is a pointer and a length: memory \<open>spec\<close>, a function from offsets to characters, and
    \<open>spec_len\<close>. A read past the end is a read of whatever is there; that the result does not depend
    on it is a theorem.
  \<^item> \<open>char\<close> is signed on the platforms the program is built for (\<open>char_value\<close>).
  \<^item> Offsets and lengths are C++ \<open>int\<close>; they stay between -1 and \<open>spec_len\<close>, which is shown, so
    they are integers here.
  \<^item> An output parameter is a component of the result. \<open>DCHECK\<close> is not modelled, nor the member
    \<open>inner_parsed_\<close>, which nothing in the program sets.
\<close>

type_synonym spec = "int \<Rightarrow> char"

record component =
  cbegin :: int
  clen :: int

definition cend :: "component \<Rightarrow> int" where
  "cend c = cbegin c + clen c"

definition is_valid :: "component \<Rightarrow> bool" where
  "is_valid c \<longleftrightarrow> clen c \<noteq> -1"

definition is_nonempty :: "component \<Rightarrow> bool" where
  "is_nonempty c \<longleftrightarrow> clen c > 0"

definition no_component :: component where
  "no_component = \<lparr>cbegin = 0, clen = -1\<rparr>"

definition MakeRange :: "int \<Rightarrow> int \<Rightarrow> component" where
  "MakeRange b e = \<lparr>cbegin = b, clen = e - b\<rparr>"

record parsed =
  scheme :: component
  username :: component
  password :: component
  host :: component
  port :: component
  path :: component
  query :: component
  ref :: component

subsection \<open>Characters and scanning loops\<close>

definition char_value :: "char \<Rightarrow> int" where
  "char_value c = (let n = of_char c in if n < 128 then n else n - 256)"

definition IsURLSlash :: "char \<Rightarrow> bool" where
  "IsURLSlash ch \<longleftrightarrow> ch = CHR ''/'' \<or> ch = CHR 0x5C"

definition IsAuthorityTerminator :: "char \<Rightarrow> bool" where
  "IsAuthorityTerminator ch \<longleftrightarrow> IsURLSlash ch \<or> ch = CHR ''?'' \<or> ch = CHR ''#''"

definition ShouldTrimFromURL :: "char \<Rightarrow> bool" where
  "ShouldTrimFromURL ch \<longleftrightarrow> char_value ch \<le> 32"

definition IsPortDigit :: "char \<Rightarrow> bool" where
  "IsPortDigit ch \<longleftrightarrow> char_value CHR ''0'' \<le> char_value ch \<and> char_value ch \<le> char_value CHR ''9''"

text \<open>\<open>while (i < e && !stop (spec[i])) i++\<close>, and the same loop downwards while \<open>i > b\<close>.\<close>

function scan :: "(char \<Rightarrow> bool) \<Rightarrow> spec \<Rightarrow> int \<Rightarrow> int \<Rightarrow> int" where
  "scan stop spec i e = (if i < e \<and> \<not> stop (spec i) then scan stop spec (i + 1) e else i)"
  by pat_completeness auto
termination by (relation "measure (\<lambda>(stop, spec, i, e). nat (e - i))") auto

function scan_back :: "(char \<Rightarrow> bool) \<Rightarrow> spec \<Rightarrow> int \<Rightarrow> int \<Rightarrow> int" where
  "scan_back stop spec b i = (if i > b \<and> \<not> stop (spec i) then scan_back stop spec b (i - 1) else i)"
  by pat_completeness auto
termination by (relation "measure (\<lambda>(stop, spec, b, i). nat (i - b))") auto

declare scan.simps [simp del] scan_back.simps [simp del]

text \<open>\<open>TrimURL\<close>: the new begin and length.\<close>

function trim_end :: "spec \<Rightarrow> int \<Rightarrow> int \<Rightarrow> int" where
  "trim_end spec b n = (if n > b \<and> ShouldTrimFromURL (spec (n - 1)) then trim_end spec b (n - 1) else n)"
  by pat_completeness auto
termination by (relation "measure (\<lambda>(spec, b, n). nat (n - b))") auto

declare trim_end.simps [simp del]

definition TrimURL :: "spec \<Rightarrow> int \<Rightarrow> int \<Rightarrow> int \<times> int" where
  "TrimURL spec b n = (let b' = scan (\<lambda>c. \<not> ShouldTrimFromURL c) spec b n in (b', trim_end spec b' n))"

definition CountConsecutiveSlashes :: "spec \<Rightarrow> int \<Rightarrow> int \<Rightarrow> int" where
  "CountConsecutiveSlashes str begin_offset str_len =
     scan (\<lambda>c. \<not> IsURLSlash c) str begin_offset str_len - begin_offset"

definition FindNextAuthorityTerminator :: "spec \<Rightarrow> int \<Rightarrow> int \<Rightarrow> int" where
  "FindNextAuthorityTerminator spec start_offset spec_len =
     (let i = scan IsAuthorityTerminator spec start_offset spec_len in if i < spec_len then i else spec_len)"

subsection \<open>The authority\<close>

definition ParseUserInfo :: "spec \<Rightarrow> component \<Rightarrow> component \<times> component" where
  "ParseUserInfo spec user =
    (let colon_offset = scan (\<lambda>c. c = CHR '':'') spec (cbegin user) (cend user) - cbegin user in
     if colon_offset < clen user then
       (\<lparr>cbegin = cbegin user, clen = colon_offset\<rparr>,
        MakeRange (cbegin user + colon_offset + 1) (cbegin user + clen user))
     else (user, no_component))"

text \<open>The loop over the server part: the last right bracket and the last colon.\<close>

function server_scan :: "spec \<Rightarrow> int \<Rightarrow> int \<Rightarrow> int \<Rightarrow> int \<Rightarrow> int \<times> int" where
  "server_scan spec i e ipv6_terminator colon =
     (if i < e then
        (if spec i = CHR '']'' then server_scan spec (i + 1) e i colon
         else if spec i = CHR '':'' then server_scan spec (i + 1) e ipv6_terminator i
         else server_scan spec (i + 1) e ipv6_terminator colon)
      else (ipv6_terminator, colon))"
  by pat_completeness auto
termination by (relation "measure (\<lambda>(spec, i, e, t, c). nat (e - i))") auto

declare server_scan.simps [simp del]

definition ParseServerInfo :: "spec \<Rightarrow> component \<Rightarrow> component \<times> component" where
  "ParseServerInfo spec serverinfo =
    (if clen serverinfo = 0 then (no_component, no_component)
     else
       let (ipv6_terminator, colon) = server_scan spec (cbegin serverinfo) (cend serverinfo)
             (if spec (cbegin serverinfo) = CHR ''['' then cend serverinfo else -1) (-1) in
       if colon > ipv6_terminator then
         let hostname = MakeRange (cbegin serverinfo) colon in
         (if clen hostname = 0 then no_component else hostname, MakeRange (colon + 1) (cend serverinfo))
       else (serverinfo, no_component))"

text \<open>User name, password, host and port.\<close>

definition DoParseAuthority ::
  "spec \<Rightarrow> component \<Rightarrow> component \<times> component \<times> component \<times> component" where
  "DoParseAuthority spec auth =
    (if clen auth = 0 then (no_component, no_component, no_component, no_component)
     else
       let i = scan_back (\<lambda>c. c = CHR ''@'') spec (cbegin auth) (cbegin auth + clen auth - 1) in
       if spec i = CHR ''@'' then
         let (u, pw) = ParseUserInfo spec \<lparr>cbegin = cbegin auth, clen = i - cbegin auth\<rparr>;
             (h, pn) = ParseServerInfo spec (MakeRange (i + 1) (cbegin auth + clen auth)) in
         (u, pw, h, pn)
       else
         let (h, pn) = ParseServerInfo spec auth in (no_component, no_component, h, pn))"

subsection \<open>Path, query and fragment\<close>

text \<open>The loop that looks for the first \<open>#\<close> and the first \<open>?\<close> before it.\<close>

function path_scan :: "spec \<Rightarrow> int \<Rightarrow> int \<Rightarrow> int \<Rightarrow> int \<Rightarrow> int \<times> int" where
  "path_scan spec i path_end query_separator ref_separator =
     (if i < path_end then
        (if spec i = CHR ''?'' then
           path_scan spec (i + 1) path_end
             (if ref_separator < 0 \<and> query_separator < 0 then i else query_separator) ref_separator
         else if spec i = CHR ''#'' then
           path_scan spec (i + 1) path_end query_separator (if ref_separator < 0 then i else ref_separator)
         else path_scan spec (i + 1) path_end query_separator ref_separator)
      else (query_separator, ref_separator))"
  by pat_completeness auto
termination by (relation "measure (\<lambda>(spec, i, e, q, r). nat (e - i))") auto

declare path_scan.simps [simp del]

text \<open>File path, query and fragment.\<close>

definition ParsePath :: "spec \<Rightarrow> component \<Rightarrow> component \<times> component \<times> component" where
  "ParsePath spec pth =
    (if clen pth = -1 then (no_component, no_component, no_component)
     else
       let path_end = cbegin pth + clen pth;
           (query_separator, ref_separator) = path_scan spec (cbegin pth) path_end (-1) (-1);
           query_end = (if ref_separator \<ge> 0 then ref_separator else path_end);
           r = (if ref_separator \<ge> 0 then MakeRange (ref_separator + 1) path_end else no_component);
           file_end = (if query_separator \<ge> 0 then query_separator else query_end);
           q = (if query_separator \<ge> 0 then MakeRange (query_separator + 1) query_end else no_component)
       in (if file_end \<noteq> cbegin pth then MakeRange (cbegin pth) file_end else no_component, q, r))"

subsection \<open>Whole URLs\<close>

definition DoExtractScheme :: "spec \<Rightarrow> int \<Rightarrow> component option" where
  "DoExtractScheme url url_len =
    (let b = scan (\<lambda>c. \<not> ShouldTrimFromURL c) url 0 url_len in
     if b = url_len then None
     else let i = scan (\<lambda>c. c = CHR '':'') url b url_len in
       if i < url_len then Some (MakeRange b i) else None)"

definition DoParseAfterScheme :: "spec \<Rightarrow> int \<Rightarrow> int \<Rightarrow> component \<Rightarrow> parsed" where
  "DoParseAfterScheme spec spec_len after_scheme sch =
    (let num_slashes = CountConsecutiveSlashes spec after_scheme spec_len;
         after_slashes = after_scheme + num_slashes;
         end_auth = FindNextAuthorityTerminator spec after_slashes spec_len;
         authority = \<lparr>cbegin = after_slashes, clen = end_auth - after_slashes\<rparr>;
         full_path = (if end_auth = spec_len then no_component
                      else \<lparr>cbegin = end_auth, clen = spec_len - end_auth\<rparr>);
         (u, pw, h, pn) = DoParseAuthority spec authority;
         (f, q, r) = ParsePath spec full_path in
     \<lparr>scheme = sch, username = u, password = pw, host = h, port = pn, path = f, query = q, ref = r\<rparr>)"

definition DoParseStandardURL :: "spec \<Rightarrow> int \<Rightarrow> parsed" where
  "DoParseStandardURL spec spec_len =
    (let (b, n) = TrimURL spec 0 spec_len in
     case DoExtractScheme spec n of
       Some sch \<Rightarrow> DoParseAfterScheme spec n (cend sch + 1) sch
     | None \<Rightarrow> DoParseAfterScheme spec n b no_component)"

definition no_parsed :: parsed where
  "no_parsed = \<lparr>scheme = no_component, username = no_component, password = no_component,
     host = no_component, port = no_component, path = no_component, query = no_component,
     ref = no_component\<rparr>"

text \<open>\<open>ExtractScheme\<close> on the substring from \<open>b\<close> on, its result moved back.\<close>

definition scheme_from :: "spec \<Rightarrow> int \<Rightarrow> int \<Rightarrow> component option" where
  "scheme_from spec b n = map_option (\<lambda>c. c\<lparr>cbegin := cbegin c + b\<rparr>)
     (DoExtractScheme (\<lambda>i. spec (b + i)) (n - b))"

definition DoParsePathURL :: "spec \<Rightarrow> int \<Rightarrow> parsed" where
  "DoParsePathURL spec spec_len =
    (let (b, n) = TrimURL spec 0 spec_len in
     if b = n then no_parsed
     else case scheme_from spec b n of
       Some sch \<Rightarrow> no_parsed\<lparr>scheme := sch,
         path := (if cend sch = n - 1 then no_component else MakeRange (cend sch + 1) n)\<rparr>
     | None \<Rightarrow> no_parsed\<lparr>path := MakeRange b n\<rparr>)"

definition DoParseMailtoURL :: "spec \<Rightarrow> int \<Rightarrow> parsed" where
  "DoParseMailtoURL spec spec_len =
    (let (b, n) = TrimURL spec 0 spec_len in
     if b = n then no_parsed
     else
       let (sch, path_begin, path_end) = (case scheme_from spec b n of
             Some sch \<Rightarrow> if cend sch \<noteq> n - 1 then (sch, cend sch + 1, n) else (sch, -1, -1)
           | None \<Rightarrow> (no_component, b, n));
           i = scan (\<lambda>c. c = CHR ''?'') spec path_begin path_end;
           (q, path_end) = (if i < path_end then (MakeRange (i + 1) path_end, i) else (no_component, path_end))
       in no_parsed\<lparr>scheme := sch, query := q,
            path := (if path_begin = path_end then no_component else MakeRange path_begin path_end)\<rparr>)"

subsection \<open>Parts of a component\<close>

definition PORT_UNSPECIFIED :: int where "PORT_UNSPECIFIED = -1"
definition PORT_INVALID :: int where "PORT_INVALID = -2"

text \<open>The digits of \<open>[i, e)\<close> read by \<open>atoi\<close>, \<open>None\<close> when one of them is not a digit.\<close>

function port_digits :: "spec \<Rightarrow> int \<Rightarrow> int \<Rightarrow> int \<Rightarrow> int option" where
  "port_digits spec i e acc =
     (if i < e then
        (if \<not> IsPortDigit (spec i) then None
         else port_digits spec (i + 1) e (acc * 10 + (char_value (spec i) - char_value CHR ''0'')))
      else Some acc)"
  by pat_completeness auto
termination by (relation "measure (\<lambda>(spec, i, e, acc). nat (e - i))") auto

declare port_digits.simps [simp del]

definition DoParsePort :: "spec \<Rightarrow> component \<Rightarrow> int" where
  "DoParsePort spec c =
    (if \<not> is_nonempty c then PORT_UNSPECIFIED
     else
       let i = scan (\<lambda>ch. ch \<noteq> CHR ''0'') spec (cbegin c) (cend c);
           digits_comp = (if i < cend c then MakeRange i (cend c) else \<lparr>cbegin = cend c, clen = 0\<rparr>) in
       if clen digits_comp = 0 then 0
       else if clen digits_comp > 5 then PORT_INVALID
       else case port_digits spec (cbegin digits_comp) (cend digits_comp) 0 of
         None \<Rightarrow> PORT_INVALID
       | Some p \<Rightarrow> if p > 65535 then PORT_INVALID else p)"

definition DoExtractFileName :: "spec \<Rightarrow> component \<Rightarrow> component" where
  "DoExtractFileName spec pth =
    (if \<not> is_nonempty pth then no_component
     else
       let i = scan_back (\<lambda>c. c = CHR '';'') spec (cbegin pth) (cend pth - 1);
           file_end = (if i > cbegin pth then i else cend pth);
           j = scan_back IsURLSlash spec (cbegin pth - 1) (file_end - 1) in
       if j \<ge> cbegin pth then MakeRange (j + 1) file_end else MakeRange (cbegin pth) file_end)"

text \<open>The next key and value of a query: \<open>None\<close> when the query is empty, else the rest of the
  query, the key and the value.\<close>

definition DoExtractQueryKeyValue :: "spec \<Rightarrow> component \<Rightarrow> (component \<times> component \<times> component) option" where
  "DoExtractQueryKeyValue spec q =
    (if \<not> is_nonempty q then None
     else
       let start = cbegin q; e = cend q;
           cur1 = scan (\<lambda>c. c = CHR ''&'' \<or> c = CHR ''='') spec start e;
           key = \<lparr>cbegin = start, clen = cur1 - start\<rparr>;
           cur2 = (if cur1 < e \<and> spec cur1 = CHR ''='' then cur1 + 1 else cur1);
           cur3 = scan (\<lambda>c. c = CHR ''&'') spec cur2 e;
           val = \<lparr>cbegin = cur2, clen = cur3 - cur2\<rparr>;
           cur4 = (if cur3 < e \<and> spec cur3 = CHR ''&'' then cur3 + 1 else cur3)
       in Some (MakeRange cur4 e, key, val))"

datatype component_type = SCHEME | USERNAME | PASSWORD | HOST | PORT | PATH | QUERY | REF

text \<open>The position of a component type in the enumeration.\<close>

fun type_index :: "component_type \<Rightarrow> nat" where
  "type_index SCHEME = 0" | "type_index USERNAME = 1" | "type_index PASSWORD = 2" | "type_index HOST = 3"
| "type_index PORT = 4" | "type_index PATH = 5" | "type_index QUERY = 6" | "type_index REF = 7"

definition CountCharactersBefore :: "parsed \<Rightarrow> component_type \<Rightarrow> bool \<Rightarrow> int" where
  "CountCharactersBefore p type include_delimiter =
    (let t = type_index type in
     if type = SCHEME then cbegin (scheme p)
     else
       let cur = (if is_valid (scheme p) then cend (scheme p) + 1 else 0) in
       if is_valid (username p) \<and> t \<le> 1 then cbegin (username p)
       else let cur = (if is_valid (username p) then cend (username p) + 1 else cur) in
       if is_valid (password p) \<and> t \<le> 2 then cbegin (password p)
       else let cur = (if is_valid (password p) then cend (password p) + 1 else cur) in
       if is_valid (host p) \<and> t \<le> 3 then cbegin (host p)
       else let cur = (if is_valid (host p) then cend (host p) else cur) in
       if is_valid (port p) \<and> (t < 4 \<or> (t = 4 \<and> include_delimiter)) then cbegin (port p) - 1
       else if is_valid (port p) \<and> t = 4 then cbegin (port p)
       else let cur = (if is_valid (port p) then cend (port p) else cur) in
       if is_valid (path p) \<and> t \<le> 5 then cbegin (path p)
       else let cur = (if is_valid (path p) then cend (path p) else cur) in
       if is_valid (query p) \<and> (t < 6 \<or> (t = 6 \<and> include_delimiter)) then cbegin (query p) - 1
       else if is_valid (query p) \<and> t = 6 then cbegin (query p)
       else let cur = (if is_valid (query p) then cend (query p) else cur) in
       if is_valid (ref p) \<and> t = 7 \<and> \<not> include_delimiter then cbegin (ref p)
       else if is_valid (ref p) then cbegin (ref p) - 1
       else cur)"

definition Length_parsed :: "parsed \<Rightarrow> int" where
  "Length_parsed p = (if is_valid (ref p) then cend (ref p) else CountCharactersBefore p REF False)"

subsection \<open>What the loops find\<close>

lemma scan_props:
  "i \<le> e \<Longrightarrow> i \<le> scan stop spec i e \<and> scan stop spec i e \<le> e \<and>
     (scan stop spec i e < e \<longrightarrow> stop (spec (scan stop spec i e))) \<and>
     (\<forall>j. i \<le> j \<and> j < scan stop spec i e \<longrightarrow> \<not> stop (spec j))"
proof (induction stop spec i e rule: scan.induct)
  case (1 stop spec i e)
  show ?case
  proof (cases "i < e \<and> \<not> stop (spec i)")
    case True
    then have eq: "scan stop spec i e = scan stop spec (i + 1) e" by (subst scan.simps) simp
    have IH: "i + 1 \<le> scan stop spec (i + 1) e \<and> scan stop spec (i + 1) e \<le> e \<and>
        (scan stop spec (i + 1) e < e \<longrightarrow> stop (spec (scan stop spec (i + 1) e))) \<and>
        (\<forall>j. i + 1 \<le> j \<and> j < scan stop spec (i + 1) e \<longrightarrow> \<not> stop (spec j))"
      using 1 True by simp
    have "\<not> stop (spec j)" if "i \<le> j" "j < scan stop spec (i + 1) e" for j
      using IH True that by (cases "j = i") auto
    then show ?thesis using IH unfolding eq by simp
  next
    case False
    have "scan stop spec i e = i" by (subst scan.simps) (rule if_not_P [OF False])
    then show ?thesis using False 1 by auto
  qed
qed

lemma scan_ge: "i \<le> e \<Longrightarrow> i \<le> scan stop spec i e"
  and scan_le: "i \<le> e \<Longrightarrow> scan stop spec i e \<le> e"
  and scan_stop: "i \<le> e \<Longrightarrow> scan stop spec i e < e \<Longrightarrow> stop (spec (scan stop spec i e))"
  and scan_before: "i \<le> j \<Longrightarrow> j < scan stop spec i e \<Longrightarrow> i \<le> e \<Longrightarrow> \<not> stop (spec j)"
  using scan_props [of i e stop spec] by blast+

lemma scan_unique:
  assumes "i \<le> k" "k \<le> e" "\<And>j. i \<le> j \<Longrightarrow> j < k \<Longrightarrow> \<not> stop (spec j)" "k < e \<Longrightarrow> stop (spec k)"
  shows "scan stop spec i e = k"
proof -
  have ie: "i \<le> e" using assms(1,2) by simp
  consider "scan stop spec i e < k" | "k < scan stop spec i e" | "scan stop spec i e = k" by linarith
  then show ?thesis
  proof cases
    case 1
    then show ?thesis
      using scan_stop [OF ie, of stop spec] scan_ge [OF ie, of stop spec] assms(2,3) by fastforce
  next
    case 2
    then show ?thesis
      using scan_before [OF assms(1) 2 ie] scan_le [OF ie, of stop spec] assms(4) by simp
  qed
qed

lemma scan_back_props:
  "b \<le> i \<Longrightarrow> b \<le> scan_back stop spec b i \<and> scan_back stop spec b i \<le> i \<and>
     (b < scan_back stop spec b i \<longrightarrow> stop (spec (scan_back stop spec b i))) \<and>
     (\<forall>j. scan_back stop spec b i < j \<and> j \<le> i \<longrightarrow> \<not> stop (spec j))"
proof (induction stop spec b i rule: scan_back.induct)
  case (1 stop spec b i)
  show ?case
  proof (cases "i > b \<and> \<not> stop (spec i)")
    case True
    then have eq: "scan_back stop spec b i = scan_back stop spec b (i - 1)" by (subst scan_back.simps) simp
    have IH: "b \<le> scan_back stop spec b (i - 1) \<and> scan_back stop spec b (i - 1) \<le> i - 1 \<and>
        (b < scan_back stop spec b (i - 1) \<longrightarrow> stop (spec (scan_back stop spec b (i - 1)))) \<and>
        (\<forall>j. scan_back stop spec b (i - 1) < j \<and> j \<le> i - 1 \<longrightarrow> \<not> stop (spec j))"
      using 1 True by simp
    have "\<not> stop (spec j)" if "scan_back stop spec b (i - 1) < j" "j \<le> i" for j
      using IH True that by (cases "j = i") auto
    then show ?thesis using IH unfolding eq by simp
  next
    case False
    have "scan_back stop spec b i = i" by (subst scan_back.simps) (rule if_not_P [OF False])
    then show ?thesis using False 1 by auto
  qed
qed

lemma trim_end_bounds: "b \<le> n \<Longrightarrow> b \<le> trim_end spec b n \<and> trim_end spec b n \<le> n"
  by (induction spec b n rule: trim_end.induct) (subst (1 2) trim_end.simps, auto)

lemma TrimURL_bounds: "b \<le> n \<Longrightarrow> TrimURL spec b n = (b', n') \<Longrightarrow> b \<le> b' \<and> b' \<le> n' \<and> n' \<le> n"
  using trim_end_bounds scan_ge scan_le by (force simp: TrimURL_def Let_def)

text \<open>One turn of the loops that keep two positions.\<close>

lemma server_scan_done: "\<not> i < e \<Longrightarrow> server_scan spec i e t c = (t, c)"
  by (subst server_scan.simps) simp

lemma server_scan_step:
  "i < e \<Longrightarrow> server_scan spec i e t c =
     server_scan spec (i + 1) e (if spec i = CHR '']'' then i else t) (if spec i = CHR '':'' then i else c)"
  by (subst server_scan.simps) simp

lemma path_scan_done: "\<not> i < e \<Longrightarrow> path_scan spec i e q r = (q, r)"
  by (subst path_scan.simps) simp

lemma path_scan_step:
  "i < e \<Longrightarrow> path_scan spec i e q r = path_scan spec (i + 1) e
     (if spec i = CHR ''?'' \<and> r < 0 \<and> q < 0 then i else q) (if spec i = CHR ''#'' \<and> r < 0 then i else r)"
  by (subst path_scan.simps) simp

lemma server_scan_bounds:
  "b \<le> i \<Longrightarrow> 0 \<le> b \<Longrightarrow> -1 \<le> t \<Longrightarrow> c = -1 \<or> b \<le> c \<and> c < e \<Longrightarrow> server_scan spec i e t c = (t', c') \<Longrightarrow>
     -1 \<le> t' \<and> (c' = -1 \<or> b \<le> c' \<and> c' < e)"
proof (induction "nat (e - i)" arbitrary: i t c)
  case 0
  then show ?case using server_scan_done [of i e spec t c] by auto
next
  case (Suc k)
  then have "i < e" by linarith
  then have "server_scan spec (i + 1) e (if spec i = CHR '']'' then i else t) (if spec i = CHR '':'' then i else c) = (t', c')"
    using Suc.prems(5) server_scan_step by metis
  from Suc.hyps(1) [OF _ _ _ _ _ this] Suc.hyps(2) Suc.prems \<open>i < e\<close> show ?case by simp
qed

text \<open>The separators of a path: the first \<open>#\<close>, and the first \<open>?\<close> before it.\<close>

definition separators :: "spec \<Rightarrow> int \<Rightarrow> int \<Rightarrow> int \<Rightarrow> int \<Rightarrow> bool" where
  "separators spec b i q r \<longleftrightarrow>
     (r = -1 \<and> (\<forall>j. b \<le> j \<and> j < i \<longrightarrow> spec j \<noteq> CHR ''#'') \<or>
      b \<le> r \<and> r < i \<and> spec r = CHR ''#'' \<and> (\<forall>j. b \<le> j \<and> j < r \<longrightarrow> spec j \<noteq> CHR ''#'')) \<and>
     (q = -1 \<and> (\<forall>j. b \<le> j \<and> j < (if r = -1 then i else r) \<longrightarrow> spec j \<noteq> CHR ''?'') \<or>
      b \<le> q \<and> q < (if r = -1 then i else r) \<and> spec q = CHR ''?'' \<and>
        (\<forall>j. b \<le> j \<and> j < q \<longrightarrow> spec j \<noteq> CHR ''?''))"

lemma separators_step:
  assumes "separators spec b i q r" "0 \<le> b" "b \<le> i"
  shows "separators spec b (i + 1) (if spec i = CHR ''?'' \<and> r < 0 \<and> q < 0 then i else q)
    (if spec i = CHR ''#'' \<and> r < 0 then i else r)"
proof -
  have le: "j \<le> i \<longleftrightarrow> j < i \<or> j = i" for j by linarith
  show ?thesis
    using assms unfolding separators_def
    by (cases "r = -1"; cases "q = -1"; cases "spec i = CHR ''?''"; cases "spec i = CHR ''#''") (auto simp: le)
qed

lemma path_scan_separators:
  "separators spec b i q r \<Longrightarrow> 0 \<le> b \<Longrightarrow> b \<le> i \<Longrightarrow> i \<le> e \<Longrightarrow> path_scan spec i e q r = (q', r') \<Longrightarrow>
     separators spec b e q' r'"
proof (induction "nat (e - i)" arbitrary: i q r)
  case 0
  then show ?case using path_scan_done [of i e spec q r] by auto
next
  case (Suc k)
  then have "i < e" by linarith
  then have run: "path_scan spec (i + 1) e (if spec i = CHR ''?'' \<and> r < 0 \<and> q < 0 then i else q)
      (if spec i = CHR ''#'' \<and> r < 0 then i else r) = (q', r')"
    using Suc.prems(5) path_scan_step by metis
  show ?case
    using Suc.hyps(1) [OF _ separators_step [OF Suc.prems(1-3)] _ _ _ run] Suc.hyps(2) Suc.prems \<open>i < e\<close> by simp
qed

subsection \<open>Components in order\<close>

text \<open>The components that are present lie within the bounds, one after the other.\<close>

fun in_order :: "int \<Rightarrow> component list \<Rightarrow> int \<Rightarrow> bool" where
  "in_order lo [] hi \<longleftrightarrow> lo \<le> hi"
| "in_order lo (c # cs) hi \<longleftrightarrow> (if c = no_component then in_order lo cs hi
     else lo \<le> cbegin c \<and> 0 \<le> clen c \<and> in_order (cend c) cs hi)"

lemma in_order_le: "in_order lo cs hi \<Longrightarrow> lo \<le> hi"
  by (induction lo cs hi rule: in_order.induct) (auto simp: cend_def split: if_splits)

lemma in_order_mono: "in_order lo cs hi \<Longrightarrow> lo' \<le> lo \<Longrightarrow> hi \<le> hi' \<Longrightarrow> in_order lo' cs hi'"
  by (induction lo cs hi arbitrary: lo' rule: in_order.induct) (auto split: if_splits)

lemma in_order_append: "in_order lo xs mid \<Longrightarrow> in_order mid ys hi \<Longrightarrow> in_order lo (xs @ ys) hi"
proof (induction lo xs mid rule: in_order.induct)
  case (1 lo mid)
  then show ?case using in_order_mono [of mid ys hi lo hi] by simp
qed (auto split: if_splits)

lemma range_simps [simp]: "cbegin (MakeRange b e) = b" "clen (MakeRange b e) = e - b" "cend (MakeRange b e) = e"
  by (simp_all add: MakeRange_def cend_def)

lemma no_component_simps [simp]: "clen no_component = -1" "cbegin no_component = 0" "\<not> is_valid no_component"
  "\<not> is_nonempty no_component"
  by (simp_all add: no_component_def is_valid_def is_nonempty_def)

lemma range_present [simp]: "b \<le> e \<Longrightarrow> MakeRange b e \<noteq> no_component"
  by (auto simp: MakeRange_def no_component_def)

lemma ParseUserInfo_order:
  assumes "0 \<le> clen user" "ParseUserInfo spec user = (u, pw)"
  shows "in_order (cbegin user) [u, pw] (cend user)"
proof -
  have le: "cbegin user \<le> cend user" using assms(1) by (simp add: cend_def)
  note b = scan_ge [OF le, of "\<lambda>c. c = CHR '':''" spec] scan_le [OF le, of "\<lambda>c. c = CHR '':''" spec]
  have "user \<noteq> no_component" using assms(1) by auto
  then show ?thesis
    using assms b by (auto simp: ParseUserInfo_def Let_def cend_def MakeRange_def no_component_def split: if_splits)
qed

lemma ParseServerInfo_order:
  assumes "0 \<le> clen s" "0 \<le> cbegin s" "ParseServerInfo spec s = (h, pn)"
  shows "in_order (cbegin s) [h, pn] (cend s)"
proof (cases "clen s = 0")
  case True
  then show ?thesis using assms by (simp add: ParseServerInfo_def cend_def)
next
  case False
  have ns: "s \<noteq> no_component" using assms(1) by auto
  let ?t = "if spec (cbegin s) = CHR ''['' then cend s else -1"
  obtain t c where r: "server_scan spec (cbegin s) (cend s) ?t (-1) = (t, c)" by force
  have b: "-1 \<le> t \<and> (c = -1 \<or> cbegin s \<le> c \<and> c < cend s)"
    by (rule server_scan_bounds [OF _ _ _ _ r]) (use assms in \<open>simp_all add: cend_def\<close>)
  have e: "cend s = cbegin s + clen s" by (simp add: cend_def)
  show ?thesis
  proof (cases "c > t")
    case True
    then have "cbegin s \<le> c" "c < cend s" using b by auto
    then show ?thesis using assms(3) False r True by (auto simp: ParseServerInfo_def Let_def)
  next
    case False2: False
    then show ?thesis using assms(1,3) False r ns e by (auto simp: ParseServerInfo_def Let_def)
  qed
qed

lemma DoParseAuthority_order:
  assumes "0 \<le> clen a" "0 \<le> cbegin a" "DoParseAuthority spec a = (u, pw, h, pn)"
  shows "in_order (cbegin a) [u, pw, h, pn] (cend a)"
proof (cases "clen a = 0")
  case True
  then show ?thesis using assms by (simp add: DoParseAuthority_def cend_def)
next
  case False
  define i where "i = scan_back (\<lambda>c. c = CHR ''@'') spec (cbegin a) (cbegin a + clen a - 1)"
  have b: "cbegin a \<le> i" "i < cend a"
    using scan_back_props [of "cbegin a" "cbegin a + clen a - 1" "\<lambda>c. c = CHR ''@''" spec] assms(1) False
    by (auto simp: i_def cend_def)
  have e: "cend a = cbegin a + clen a" by (simp add: cend_def)
  show ?thesis
  proof (cases "spec i = CHR ''@''")
    case True
    let ?user = "\<lparr>cbegin = cbegin a, clen = i - cbegin a\<rparr>"
    obtain u' pw' where u: "ParseUserInfo spec ?user = (u', pw')" by force
    obtain h' pn' where h: "ParseServerInfo spec (MakeRange (i + 1) (cend a)) = (h', pn')" by force
    have "in_order (cbegin a) [u', pw'] i"
      using ParseUserInfo_order [OF _ u] b by (simp add: cend_def)
    moreover have "in_order (i + 1) [h', pn'] (cend a)"
      using ParseServerInfo_order [OF _ _ h] b assms(2) by simp
    then have "in_order i [h', pn'] (cend a)" by (rule in_order_mono) simp_all
    ultimately have "in_order (cbegin a) ([u', pw'] @ [h', pn']) (cend a)" by (rule in_order_append)
    moreover have "(u, pw, h, pn) = (u', pw', h', pn')"
      using assms(3) False True u h unfolding DoParseAuthority_def e i_def Let_def by simp
    ultimately show ?thesis by simp
  next
    case False2: False
    then have h: "ParseServerInfo spec a = (h, pn)" and "u = no_component" "pw = no_component"
      using assms(3) False by (auto simp: DoParseAuthority_def Let_def i_def split: prod.splits)
    then show ?thesis using ParseServerInfo_order [OF assms(1,2) h] by simp
  qed
qed

lemma separators_start: "separators spec b b (-1) (-1)"
  unfolding separators_def by auto

lemma ParsePath_order:
  assumes "0 \<le> cbegin p" "0 \<le> clen p" "ParsePath spec p = (f, q, r)"
  shows "in_order (cbegin p) [f, q, r] (cend p)"
proof -
  have e: "cend p = cbegin p + clen p" by (simp add: cend_def)
  obtain qs rs where run: "path_scan spec (cbegin p) (cend p) (-1) (-1) = (qs, rs)" by force
  have sep: "separators spec (cbegin p) (cend p) qs rs"
    by (rule path_scan_separators [OF separators_start _ _ _ run]) (use assms e in simp_all)
  then have "qs = -1 \<or> cbegin p \<le> qs \<and> qs < (if rs = -1 then cend p else rs)" "rs = -1 \<or> cbegin p \<le> rs \<and> rs < cend p"
    unfolding separators_def by blast+
  then show ?thesis
    using assms(1,2,3) run unfolding ParsePath_def e [symmetric] Let_def
    by (cases "rs = -1"; cases "qs = -1") (auto split: if_splits simp: e)
qed

lemma DoExtractScheme_range:
  assumes "0 \<le> n" "DoExtractScheme spec n = Some c"
  shows "c \<noteq> no_component" and "0 \<le> cbegin c" and "0 \<le> clen c" and "cend c < n" and "spec (cend c) = CHR '':''"
proof -
  define b where "b = scan (\<lambda>c. \<not> ShouldTrimFromURL c) spec 0 n"
  define i where "i = scan (\<lambda>c. c = CHR '':'') spec b n"
  have b: "0 \<le> b" "b \<le> n" using assms(1) by (simp_all add: b_def scan_ge scan_le)
  have i: "b \<le> i" using b by (simp add: i_def scan_ge)
  have c: "c = MakeRange b i" "i < n"
    using assms(2) unfolding DoExtractScheme_def Let_def b_def [symmetric] i_def [symmetric]
    by (auto split: if_splits)
  have "spec i = CHR '':''" using scan_stop [OF b(2)] c(2) unfolding i_def by fast
  then show "c \<noteq> no_component" "0 \<le> cbegin c" "0 \<le> clen c" "cend c < n" "spec (cend c) = CHR '':''"
    using b i c by simp_all
qed

lemma DoParseAfterScheme_order:
  assumes "0 \<le> a" "a \<le> n" "p = DoParseAfterScheme spec n a sch"
  shows "in_order a [username p, password p, host p, port p, path p, query p, ref p] n" and "scheme p = sch"
proof -
  define b where "b = a + CountConsecutiveSlashes spec a n"
  have b: "a \<le> b" "b \<le> n"
    using assms(1,2) by (simp_all add: b_def CountConsecutiveSlashes_def scan_ge scan_le)
  define k where "k = FindNextAuthorityTerminator spec b n"
  have k: "b \<le> k" "k \<le> n"
    using b by (auto simp: k_def FindNextAuthorityTerminator_def Let_def scan_ge)
  let ?auth = "\<lparr>cbegin = b, clen = k - b\<rparr>"
  let ?full = "if k = n then no_component else \<lparr>cbegin = k, clen = n - k\<rparr>"
  obtain u pw h pn where A: "DoParseAuthority spec ?auth = (u, pw, h, pn)" by (metis prod_cases4)
  obtain f q r where P: "ParsePath spec ?full = (f, q, r)" by (metis prod_cases3)
  have p: "p = \<lparr>scheme = sch, username = u, password = pw, host = h, port = pn, path = f, query = q, ref = r\<rparr>"
    using A P unfolding assms(3) DoParseAfterScheme_def Let_def b_def [symmetric] k_def [symmetric] by simp
  have 1: "in_order b [u, pw, h, pn] k"
    using DoParseAuthority_order [OF _ _ A] b k assms(1) by (simp add: cend_def)
  have 2: "in_order k [f, q, r] n"
  proof (cases "k = n")
    case True
    then show ?thesis using P by (simp add: ParsePath_def)
  next
    case False
    then show ?thesis using ParsePath_order [OF _ _ P] b k assms(1) by (simp add: cend_def)
  qed
  have "in_order b ([u, pw, h, pn] @ [f, q, r]) n" by (rule in_order_append [OF 1 2])
  then have "in_order a ([u, pw, h, pn] @ [f, q, r]) n" by (rule in_order_mono) (simp_all add: b)
  then show "in_order a [username p, password p, host p, port p, path p, query p, ref p] n"
    by (simp add: p)
  show "scheme p = sch" by (simp add: p)
qed

text \<open>C20: whatever the bytes of a URL, the components the parser finds lie within it, in the order of
  the grammar, without overlap: no offset it hands out points outside the string.\<close>

theorem standard_url_in_order:
  assumes "0 \<le> n" "p = DoParseStandardURL spec n"
  shows "in_order 0 [scheme p, username p, password p, host p, port p, path p, query p, ref p] n"
proof -
  obtain b n' where t: "TrimURL spec 0 n = (b, n')" by force
  have b: "0 \<le> b" "b \<le> n'" "n' \<le> n" using TrimURL_bounds [OF assms(1) t] by simp_all
  show ?thesis
  proof (cases "DoExtractScheme spec n'")
    case None
    then have "p = DoParseAfterScheme spec n' b no_component" using assms(2) t by (simp add: DoParseStandardURL_def)
    note o = DoParseAfterScheme_order [OF b(1,2) this]
    show ?thesis using in_order_mono [OF o(1) b(1) b(3)] o(2) by simp
  next
    case (Some c)
    have n': "0 \<le> n'" using b by simp
    note c = DoExtractScheme_range [OF n' Some]
    have "p = DoParseAfterScheme spec n' (cend c + 1) c" using assms(2) t Some by (simp add: DoParseStandardURL_def)
    note o = DoParseAfterScheme_order [OF _ _ this]
    have e: "0 \<le> cend c + 1" "cend c + 1 \<le> n'" "cend c \<le> cend c + 1" using c by (simp_all add: cend_def)
    have "in_order (cend c) [username p, password p, host p, port p, path p, query p, ref p] n"
      by (rule in_order_mono [OF o(1) [OF e(1,2)] e(3) b(3)])
    then show ?thesis using o(2) [OF e(1,2)] c by simp
  qed
qed

text \<open>The memory that holds a string and its terminator.\<close>

definition cstr :: "string \<Rightarrow> spec" where
  "cstr s i = (if 0 \<le> i \<and> i < int (length s) then s ! nat i else CHR 0x00)"

theorem standard_url_in_order_witness:
  "in_order 0 (let p = DoParseStandardURL (cstr ''a://b/c'') 7 in
     [scheme p, username p, password p, host p, port p, path p, query p, ref p]) 7"
  using standard_url_in_order [of 7 _ "cstr ''a://b/c''", OF _ refl] by (simp only: Let_def)

subsection \<open>Reads stay within the string\<close>

text \<open>Two memories that agree on the string give every function the same result: what lies beyond the
  end is not read, or has no influence.\<close>

definition agree :: "int \<Rightarrow> spec \<Rightarrow> spec \<Rightarrow> bool" where
  "agree n m m' \<longleftrightarrow> (\<forall>i. 0 \<le> i \<and> i < n \<longrightarrow> m i = m' i)"

lemma agreeD: "agree n m m' \<Longrightarrow> 0 \<le> i \<Longrightarrow> i < n \<Longrightarrow> m i = m' i"
  by (simp add: agree_def)

lemma agree_less: "agree n m m' \<Longrightarrow> n' \<le> n \<Longrightarrow> agree n' m m'"
  by (simp add: agree_def)

locale same_text =
  fixes m m' :: spec and n :: int
  assumes A: "agree n m m'"
begin

lemma scan_agree: "0 \<le> i \<Longrightarrow> e \<le> n \<Longrightarrow> scan stop m i e = scan stop m' i e"
proof (induction "nat (e - i)" arbitrary: i)
  case 0
  then show ?case by (subst (1 2) scan.simps) simp
next
  case (Suc k)
  then have "i < e" "m i = m' i" using agreeD [OF A, of i] by simp_all
  moreover have "scan stop m (i + 1) e = scan stop m' (i + 1) e" using Suc by simp
  ultimately show ?case by (subst (1 2) scan.simps) simp
qed

lemma scan_back_agree: "0 \<le> b \<Longrightarrow> i < n \<Longrightarrow> scan_back stop m b i = scan_back stop m' b i"
proof (induction "nat (i - b)" arbitrary: i)
  case 0
  then show ?case by (subst (1 2) scan_back.simps) simp
next
  case (Suc k)
  then have "b < i" "m i = m' i" using agreeD [OF A, of i] by simp_all
  moreover have "scan_back stop m b (i - 1) = scan_back stop m' b (i - 1)" using Suc by simp
  ultimately show ?case by (subst (1 2) scan_back.simps) simp
qed

lemma trim_end_agree: "0 \<le> b \<Longrightarrow> e \<le> n \<Longrightarrow> trim_end m b e = trim_end m' b e"
proof (induction "nat (e - b)" arbitrary: e)
  case 0
  then show ?case by (subst (1 2) trim_end.simps) simp
next
  case (Suc k)
  then have "b < e" "m (e - 1) = m' (e - 1)" using agreeD [OF A, of "e - 1"] by simp_all
  moreover have "trim_end m b (e - 1) = trim_end m' b (e - 1)" using Suc by simp
  ultimately show ?case by (subst (1 2) trim_end.simps) simp
qed

lemma server_scan_agree: "0 \<le> i \<Longrightarrow> e \<le> n \<Longrightarrow> server_scan m i e t c = server_scan m' i e t c"
proof (induction "nat (e - i)" arbitrary: i t c)
  case 0
  then show ?case by (simp add: server_scan_done)
next
  case (Suc k)
  then have "i < e" "m i = m' i" using agreeD [OF A, of i] by simp_all
  then show ?case using Suc by (simp add: server_scan_step)
qed

lemma path_scan_agree: "0 \<le> i \<Longrightarrow> e \<le> n \<Longrightarrow> path_scan m i e q r = path_scan m' i e q r"
proof (induction "nat (e - i)" arbitrary: i q r)
  case 0
  then show ?case by (simp add: path_scan_done)
next
  case (Suc k)
  then have "i < e" "m i = m' i" using agreeD [OF A, of i] by simp_all
  then show ?case using Suc by (simp add: path_scan_step)
qed

lemma ParseUserInfo_agree: "0 \<le> cbegin u \<Longrightarrow> cend u \<le> n \<Longrightarrow> ParseUserInfo m u = ParseUserInfo m' u"
  by (simp add: ParseUserInfo_def scan_agree)

lemma ParseServerInfo_agree:
  "0 \<le> cbegin s \<Longrightarrow> 0 \<le> clen s \<Longrightarrow> cend s \<le> n \<Longrightarrow> ParseServerInfo m s = ParseServerInfo m' s"
  using agreeD [OF A, of "cbegin s"]
  by (cases "clen s = 0") (simp_all add: ParseServerInfo_def server_scan_agree cend_def)

lemma DoParseAuthority_agree:
  assumes "0 \<le> cbegin a" "0 \<le> clen a" "cend a \<le> n"
  shows "DoParseAuthority m a = DoParseAuthority m' a"
proof (cases "clen a = 0")
  case True
  then show ?thesis by (simp add: DoParseAuthority_def)
next
  case False
  let ?i = "\<lambda>m. scan_back (\<lambda>c. c = CHR ''@'') m (cbegin a) (cbegin a + clen a - 1)"
  have i: "?i m = ?i m'" using assms by (intro scan_back_agree) (simp_all add: cend_def)
  have b: "cbegin a \<le> ?i m" "?i m < cbegin a + clen a"
    using scan_back_props [of "cbegin a" "cbegin a + clen a - 1" "\<lambda>c. c = CHR ''@''" m] assms(2) False by auto
  have c: "m (?i m) = m' (?i m)" by (rule agreeD [OF A]) (use b assms in \<open>simp_all add: cend_def\<close>)
  have u: "ParseUserInfo m \<lparr>cbegin = cbegin a, clen = ?i m - cbegin a\<rparr> =
      ParseUserInfo m' \<lparr>cbegin = cbegin a, clen = ?i m - cbegin a\<rparr>"
    using b assms by (intro ParseUserInfo_agree) (simp_all add: cend_def)
  have s: "ParseServerInfo m (MakeRange (?i m + 1) (cbegin a + clen a)) =
      ParseServerInfo m' (MakeRange (?i m + 1) (cbegin a + clen a))"
    using b assms by (intro ParseServerInfo_agree) (simp_all add: cend_def)
  show ?thesis
    using i c u s ParseServerInfo_agree [OF assms] unfolding DoParseAuthority_def Let_def by simp
qed

lemma ParsePath_agree: "0 \<le> cbegin p \<Longrightarrow> cend p \<le> n \<Longrightarrow> ParsePath m p = ParsePath m' p"
  by (simp add: ParsePath_def path_scan_agree cend_def)

lemma DoParseAfterScheme_agree:
  assumes "0 \<le> a" "a \<le> e" "e \<le> n"
  shows "DoParseAfterScheme m e a sch = DoParseAfterScheme m' e a sch"
proof -
  have s: "CountConsecutiveSlashes m a e = CountConsecutiveSlashes m' a e"
    using assms by (simp add: CountConsecutiveSlashes_def scan_agree)
  define b where "b = a + CountConsecutiveSlashes m a e"
  have b: "a \<le> b" "b \<le> e" using assms by (simp_all add: b_def CountConsecutiveSlashes_def scan_ge scan_le)
  have f: "FindNextAuthorityTerminator m b e = FindNextAuthorityTerminator m' b e"
    using b assms by (simp add: FindNextAuthorityTerminator_def scan_agree)
  define k where "k = FindNextAuthorityTerminator m b e"
  have k: "b \<le> k" "k \<le> e" using b by (auto simp: k_def FindNextAuthorityTerminator_def Let_def scan_ge)
  have 1: "DoParseAuthority m \<lparr>cbegin = b, clen = k - b\<rparr> = DoParseAuthority m' \<lparr>cbegin = b, clen = k - b\<rparr>"
    using b k assms by (intro DoParseAuthority_agree) (simp_all add: cend_def)
  have 2: "ParsePath m (if k = e then no_component else \<lparr>cbegin = k, clen = e - k\<rparr>) =
      ParsePath m' (if k = e then no_component else \<lparr>cbegin = k, clen = e - k\<rparr>)"
  proof (cases "k = e")
    case True
    then show ?thesis by (simp add: ParsePath_def)
  next
    case False
    then show ?thesis using k b assms by (simp add: ParsePath_agree cend_def)
  qed
  show ?thesis
    unfolding DoParseAfterScheme_def Let_def s [symmetric] b_def [symmetric] f [symmetric] k_def [symmetric] 1 2 ..
qed

lemma DoExtractScheme_agree: "0 \<le> e \<Longrightarrow> e \<le> n \<Longrightarrow> DoExtractScheme m e = DoExtractScheme m' e"
  using scan_ge [of 0 e "\<lambda>c. \<not> ShouldTrimFromURL c" m'] by (simp add: DoExtractScheme_def scan_agree Let_def)

lemma TrimURL_agree: "0 \<le> b \<Longrightarrow> b \<le> e \<Longrightarrow> e \<le> n \<Longrightarrow> TrimURL m b e = TrimURL m' b e"
  using scan_ge [of b e "\<lambda>c. \<not> ShouldTrimFromURL c" m'] by (simp add: TrimURL_def scan_agree trim_end_agree Let_def)

end

text \<open>A string and any longer one that starts with it hold the same text.\<close>

interpretation cut: same_text "cstr (s @ t)" "cstr s" "int (length s)" for s t
  by unfold_locales (simp add: agree_def cstr_def nth_append nat_less_iff)

text \<open>The result of parsing depends on the bytes of the string only: no read past its end, which
  the pointer interface would allow, has an influence.\<close>

theorem parse_depends_on_string_only:
  assumes "0 \<le> n" "\<And>i. 0 \<le> i \<Longrightarrow> i < n \<Longrightarrow> m i = m' i"
  shows "DoParseStandardURL m n = DoParseStandardURL m' n"
proof -
  have A: "same_text m m' n" using assms(2) by (simp add: same_text_def agree_def)
  obtain b e where t: "TrimURL m 0 n = (b, e)" by force
  have be: "0 \<le> b" "b \<le> e" "e \<le> n" using TrimURL_bounds [OF assms(1) t] by simp_all
  have e0: "0 \<le> e" using be by simp
  have t': "TrimURL m' 0 n = (b, e)" using same_text.TrimURL_agree [OF A] assms(1) t by simp
  have s: "DoExtractScheme m e = DoExtractScheme m' e" using same_text.DoExtractScheme_agree [OF A e0 be(3)] .
  show ?thesis
  proof (cases "DoExtractScheme m' e")
    case None
    then show ?thesis using t t' s same_text.DoParseAfterScheme_agree [OF A be] by (simp add: DoParseStandardURL_def)
  next
    case (Some c)
    have r: "0 \<le> cend c + 1" "cend c + 1 \<le> e"
      using DoExtractScheme_range [OF e0 Some] by (simp_all add: cend_def)
    then show ?thesis using t t' s Some same_text.DoParseAfterScheme_agree [OF A r be(3)] by (simp add: DoParseStandardURL_def)
  qed
qed

theorem parse_depends_on_string_only_witness:
  "DoParseStandardURL (cstr ''a://b/c#d'') 7 = DoParseStandardURL (cstr ''a://b/c'') 7"
  by (rule parse_depends_on_string_only) (simp_all add: cstr_def nth_append [of "''a://b/c''" "''#d''", simplified])

end
