(* ===== verification/Url_Text.thy ===== *)
theory Url_Text
  imports Url_Parse
begin

text \<open>What the components that \<open>src/src/googleurl/url_parse.cc\<close> finds hold: the split of a path into file
  path, query and fragment, the number of a port, the pairs of a query and the file name of a path, each
  against a reference over the text itself. The code works on offsets into the memory; \<open>text_of\<close> reads the
  text between two of them.\<close>

definition text_of :: "spec \<Rightarrow> int \<Rightarrow> int \<Rightarrow> string" where
  "text_of m b e = map m [b..e - 1]"

definition content :: "spec \<Rightarrow> component \<Rightarrow> string" where
  "content m c = text_of m (cbegin c) (cend c)"

lemma text_of_empty [simp]: "e \<le> b \<Longrightarrow> text_of m b e = []"
  by (simp add: text_of_def)

lemma text_of_step: "b < e \<Longrightarrow> text_of m b e = m b # text_of m (b + 1) e"
  by (simp add: text_of_def upto_rec1)

lemma text_of_split: "b \<le> k \<Longrightarrow> k \<le> e \<Longrightarrow> text_of m b e = text_of m b k @ text_of m k e"
  using upto_split1 [of b k "e - 1"] by (cases "k = e") (simp_all add: text_of_def)

lemma set_text_of: "c \<in> set (text_of m b e) \<longleftrightarrow> (\<exists>i. b \<le> i \<and> i < e \<and> m i = c)"
  by (auto simp: text_of_def)

lemma text_of_sep: "b \<le> k \<Longrightarrow> k < e \<Longrightarrow> text_of m b e = text_of m b k @ m k # text_of m (k + 1) e"
  using text_of_split [of b k e m] text_of_step [of k e m] by simp

lemma length_text_of [simp]: "length (text_of m b e) = nat (e - b)"
  by (simp add: text_of_def)

lemma content_range [simp]: "content m (MakeRange b e) = text_of m b e"
  by (simp add: content_def)

lemma content_no_component [simp]: "content m no_component = []"
  by (simp add: content_def cend_def)

text \<open>The text of a component, \<open>None\<close> for one that is not there.\<close>

definition component_text :: "spec \<Rightarrow> component \<Rightarrow> string option" where
  "component_text m c = (if c = no_component then None else Some (content m c))"

subsection \<open>File path, query and fragment\<close>

lemma path_pieces:
  assumes "0 \<le> cbegin p" "0 \<le> clen p" "ParsePath m p = (f, q, r)"
  shows "\<exists>F G H. content m p = F @ G @ H \<and> CHR ''?'' \<notin> set F \<and> CHR ''#'' \<notin> set (F @ G) \<and>
    content m f = F \<and> (if q = no_component then G = [] else G = CHR ''?'' # content m q) \<and>
    (if r = no_component then H = [] else H = CHR ''#'' # content m r) \<and>
    (f = no_component \<longleftrightarrow> F = []) \<and> (f \<noteq> no_component \<longrightarrow> cbegin f = cbegin p \<and> 0 < clen f)"
proof -
  have e: "cend p = cbegin p + clen p" by (simp add: cend_def)
  obtain qs rs where run: "path_scan m (cbegin p) (cend p) (-1) (-1) = (qs, rs)" by force
  have sep: "separators m (cbegin p) (cend p) qs rs"
    by (rule path_scan_separators [OF separators_start _ _ _ run]) (use assms e in simp_all)
  define b n where "b = cbegin p" and "n = cend p"
  have bn: "0 \<le> b" "b \<le> n" using assms e by (simp_all add: b_def n_def)
  define k where "k = (if rs = -1 then n else rs)"
  have R: "rs = -1 \<or> b \<le> rs \<and> rs < n \<and> m rs = CHR ''#''" "\<And>j. b \<le> j \<Longrightarrow> j < k \<Longrightarrow> m j \<noteq> CHR ''#''"
    and Q: "qs = -1 \<or> b \<le> qs \<and> qs < k \<and> m qs = CHR ''?''"
      "\<And>j. b \<le> j \<Longrightarrow> j < (if qs = -1 then k else qs) \<Longrightarrow> m j \<noteq> CHR ''?''"
    using sep bn unfolding separators_def b_def [symmetric] n_def [symmetric] k_def by (auto split: if_splits)
  have k: "b \<le> k" "k \<le> n" using R(1) bn by (auto simp: k_def)
  define g where "g = (if qs = -1 then k else qs)"
  have g: "b \<le> g" "g \<le> k" using Q(1) k by (auto simp: g_def)
  have bk: "cbegin p = b" "b + clen p = n" "clen p \<noteq> -1" "path_scan m b n (-1) (-1) = (qs, rs)"
    using e assms(2) run by (simp_all add: b_def n_def)
  have "ParsePath m p = (if g \<noteq> b then MakeRange b g else no_component,
      if qs = -1 then no_component else MakeRange (qs + 1) k, if rs = -1 then no_component else MakeRange (rs + 1) n)"
    using R(1) Q(1) bn by (auto simp: ParsePath_def Let_def bk g_def k_def)
  then have f: "f = (if g \<noteq> b then MakeRange b g else no_component)"
    and q: "q = (if qs = -1 then no_component else MakeRange (qs + 1) k)"
    and r: "r = (if rs = -1 then no_component else MakeRange (rs + 1) n)"
    using assms(3) by simp_all
  have tq: "if q = no_component then text_of m g k = [] else text_of m g k = CHR ''?'' # content m q"
    using Q(1) k g text_of_step [of g k m] by (auto simp: q g_def)
  have tr: "if r = no_component then text_of m k n = [] else text_of m k n = CHR ''#'' # content m r"
    using R(1) k text_of_step [of k n m] by (auto simp: r k_def)
  have tf: "content m f = text_of m b g" "f = no_component \<longleftrightarrow> text_of m b g = []"
    "f \<noteq> no_component \<longrightarrow> cbegin f = b \<and> 0 < clen f"
    using g text_of_step [of b g m] by (auto simp: f)
  have "content m p = text_of m b g @ text_of m g k @ text_of m k n"
    using text_of_split [of b g n m] text_of_split [of g k n m] g k by (simp add: content_def b_def n_def)
  moreover have "CHR ''?'' \<notin> set (text_of m b g)" using Q(2) by (auto simp: set_text_of g_def)
  moreover have "CHR ''#'' \<notin> set (text_of m b g @ text_of m g k)"
    using R(2) text_of_split [of b g k m] g by (auto simp: set_text_of)
  ultimately show ?thesis using tq tr tf bk(1) 
    by - (rule exI [of _ "text_of m b g"], rule exI [of _ "text_of m g k"], rule exI [of _ "text_of m k n"], simp)
qed

text \<open>The same over the text: the query begins at a question mark before any hash, the fragment after the
  first hash.\<close>

definition file_text :: "string \<Rightarrow> string" where
  "file_text s = takeWhile (\<lambda>c. c \<noteq> CHR ''?'' \<and> c \<noteq> CHR ''#'') s"

definition query_text :: "string \<Rightarrow> string option" where
  "query_text s = (case dropWhile (\<lambda>c. c \<noteq> CHR ''?'' \<and> c \<noteq> CHR ''#'') s of
     c # cs \<Rightarrow> if c = CHR ''?'' then Some (takeWhile (\<lambda>c. c \<noteq> CHR ''#'') cs) else None
   | [] \<Rightarrow> None)"

definition ref_text :: "string \<Rightarrow> string option" where
  "ref_text s = (case dropWhile (\<lambda>c. c \<noteq> CHR ''#'') s of c # cs \<Rightarrow> Some cs | [] \<Rightarrow> None)"

lemma path_texts:
  assumes "0 \<le> cbegin p" "0 \<le> clen p" "ParsePath m p = (f, q, r)"
  shows "content m f = file_text (content m p)" and "component_text m q = query_text (content m p)"
    and "component_text m r = ref_text (content m p)"
    and "f = no_component \<longleftrightarrow> file_text (content m p) = []"
    and "f \<noteq> no_component \<Longrightarrow> cbegin f = cbegin p \<and> 0 < clen f"
proof -
  obtain F G H where t: "content m p = F @ G @ H" "CHR ''?'' \<notin> set F" "CHR ''#'' \<notin> set F" "CHR ''#'' \<notin> set G"
      "content m f = F" and g: "if q = no_component then G = [] else G = CHR ''?'' # content m q"
      and h: "if r = no_component then H = [] else H = CHR ''#'' # content m r"
      and e: "f = no_component \<longleftrightarrow> F = []" "f \<noteq> no_component \<longrightarrow> cbegin f = cbegin p \<and> 0 < clen f"
    using path_pieces [OF assms] by auto
  have F: "\<And>c. c \<in> set F \<Longrightarrow> c \<noteq> CHR ''?'' \<and> c \<noteq> CHR ''#''" and G: "\<And>c. c \<in> set G \<Longrightarrow> c \<noteq> CHR ''#''"
    using t(2-4) by auto
  have ft: "file_text (content m p) = F"
    using g h by (auto simp: file_text_def t(1) takeWhile_append2 F split: if_splits)
  then show "content m f = file_text (content m p)" "f = no_component \<longleftrightarrow> file_text (content m p) = []"
    using t(5) e by simp_all
  show "f \<noteq> no_component \<Longrightarrow> cbegin f = cbegin p \<and> 0 < clen f" using e by blast
  have "takeWhile (\<lambda>c. c \<noteq> CHR ''#'') (content m q @ H) = content m q" if "q \<noteq> no_component"
    using that g h G by (auto simp: takeWhile_append2 split: if_splits)
  then show "component_text m q = query_text (content m p)"
    using g h by (auto simp: query_text_def component_text_def t(1) dropWhile_append2 F split: if_splits)
  have "dropWhile (\<lambda>c. c \<noteq> CHR ''#'') (F @ G @ H) = H"
    using h by (auto simp: dropWhile_append2 F G split: if_splits)
  then show "component_text m r = ref_text (content m p)"
    using h by (auto simp: ref_text_def component_text_def t(1) split: if_splits)
qed

subsection \<open>The end of a text\<close>

text \<open>What \<open>scan_back\<close> passes over, and what \<open>trim_end\<close> leaves.\<close>

lemma scan_back_text:
  fixes m b e stop
  defines "j \<equiv> scan_back stop m (b - 1) (e - 1)"
  assumes "b \<le> e"
  shows "text_of m (j + 1) e = rev (takeWhile (\<lambda>c. \<not> stop c) (rev (text_of m b e)))"
    and "b - 1 \<le> j" and "j \<le> e - 1" and "b \<le> j \<Longrightarrow> stop (m j)"
proof -
  have j: "b - 1 \<le> j" "j \<le> e - 1" "b - 1 < j \<longrightarrow> stop (m j)" "\<And>i. j < i \<Longrightarrow> i \<le> e - 1 \<Longrightarrow> \<not> stop (m i)"
    using scan_back_props [of "b - 1" "e - 1" stop m] assms(2) unfolding j_def by simp_all
  have all: "\<forall>c \<in> set (text_of m (j + 1) e). \<not> stop c" using j(4) by (auto simp: set_text_of)
  have split: "text_of m b e = text_of m b (j + 1) @ text_of m (j + 1) e"
    by (rule text_of_split) (use j in simp_all)
  have "takeWhile (\<lambda>c. \<not> stop c) (rev (text_of m b (j + 1))) = []"
  proof (cases "b \<le> j")
    case True
    then show ?thesis using text_of_sep [of b j "j + 1" m] j(3) by simp
  qed simp
  then show "text_of m (j + 1) e = rev (takeWhile (\<lambda>c. \<not> stop c) (rev (text_of m b e)))"
    using all by (simp add: split takeWhile_append)
  show "b - 1 \<le> j" "j \<le> e - 1" "b \<le> j \<Longrightarrow> stop (m j)" using j(1,2,3) by simp_all
qed

definition rtrim :: "string \<Rightarrow> string" where
  "rtrim s = rev (dropWhile ShouldTrimFromURL (rev s))"

lemma cstr_nth [simp]: "0 \<le> i \<Longrightarrow> i < int (length s) \<Longrightarrow> cstr (s @ t) i = s ! nat i"
  by (simp add: cstr_def nth_append nat_less_iff)

lemma text_of_cstr: "text_of (cstr (a @ s @ t)) (int (length a)) (int (length a + length s)) = s"
proof (induction s arbitrary: a)
  case (Cons c s)
  have "text_of (cstr ((a @ [c]) @ s @ t)) (int (length (a @ [c]))) (int (length (a @ [c]) + length s)) = s"
    by (rule Cons)
  moreover have "cstr (a @ (c # s) @ t) (int (length a)) = c" by (simp add: cstr_def)
  ultimately show ?case
    using text_of_step [of "int (length a)" "int (length a + length (c # s))" "cstr (a @ (c # s) @ t)"]
    by (simp add: add.commute)
qed simp

lemma trim_end_rtrim:
  assumes "a \<noteq> []" "\<not> ShouldTrimFromURL (last a)"
  shows "trim_end (cstr (a @ s)) 0 (int (length a + length s)) = int (length a + length (rtrim s))"
proof (induction s rule: rev_induct)
  case Nil
  have "cstr a (int (length a) - 1) = last a"
    using assms(1) by (cases a rule: rev_cases) (simp_all add: cstr_def nth_append)
  then show ?case using assms(2) by (subst trim_end.simps) (simp add: rtrim_def)
next
  case (snoc c s)
  have c: "cstr (a @ s @ [c]) (int (length a) + int (length s)) = c"
    by (simp add: cstr_def nth_append nat_add_distrib)
  have less: "trim_end (cstr ((a @ s) @ [c])) 0 (int (length (a @ s))) = trim_end (cstr (a @ s)) 0 (int (length (a @ s)))"
    by (rule cut.trim_end_agree) simp_all
  show ?case
  proof (cases "ShouldTrimFromURL c")
    case True
    have "trim_end (cstr (a @ s @ [c])) 0 (int (length a + length (s @ [c]))) =
        trim_end (cstr (a @ s @ [c])) 0 (int (length (a @ s)))"
      using True c by (subst trim_end.simps) simp
    then show ?thesis using less snoc True by (simp add: rtrim_def)
  next
    case False
    then show ?thesis using c by (subst trim_end.simps) (simp add: rtrim_def)
  qed
qed

subsection \<open>The file name\<close>

text \<open>The text before the last semicolon, one that opens the text apart, and after the last slash.\<close>

definition strip_params :: "string \<Rightarrow> string" where
  "strip_params s = (if CHR '';'' \<in> set (tl s) then rev (tl (dropWhile (\<lambda>c. c \<noteq> CHR '';'') (rev s))) else s)"

definition after_slash :: "string \<Rightarrow> string" where
  "after_slash s = rev (takeWhile (\<lambda>c. \<not> IsURLSlash c) (rev s))"

lemma file_end_text:
  assumes "b < e" and i: "i = scan_back (\<lambda>c. c = CHR '';'') m b (e - 1)"
  shows "text_of m b (if i > b then i else e) = strip_params (text_of m b e)"
    and "b < (if i > b then i else e)" and "(if i > b then i else e) \<le> e"
proof -
  have p: "b \<le> i" "i \<le> e - 1" "b < i \<longrightarrow> m i = CHR '';''" "\<And>j. i < j \<Longrightarrow> j \<le> e - 1 \<Longrightarrow> m j \<noteq> CHR '';''"
    using scan_back_props [of b "e - 1" "\<lambda>c. c = CHR '';''" m] assms(1) unfolding i by auto
  have tail: "tl (text_of m b e) = text_of m (b + 1) e" using text_of_step [OF assms(1)] by simp
  have no: "\<forall>c \<in> set (text_of m (i + 1) e). c \<noteq> CHR '';''" using p(4) by (auto simp: set_text_of)
  show "text_of m b (if i > b then i else e) = strip_params (text_of m b e)"
  proof (cases "i > b")
    case True
    then have "CHR '';'' \<in> set (tl (text_of m b e))" unfolding tail set_text_of using p(2,3) by (intro exI [of _ i]) simp
    moreover have "text_of m b e = text_of m b i @ CHR '';'' # text_of m (i + 1) e"
      using text_of_sep [of b i e m] p True by simp
    ultimately show ?thesis using True no by (simp add: strip_params_def dropWhile_append)
  next
    case False
    then have "CHR '';'' \<notin> set (tl (text_of m b e))" unfolding tail set_text_of using p(1,4) by auto
    then show ?thesis using False by (simp add: strip_params_def)
  qed
  show "b < (if i > b then i else e)" "(if i > b then i else e) \<le> e" using p assms(1) by auto
qed

lemma file_name_text:
  assumes "0 < clen c"
  shows "content m (DoExtractFileName m c) = after_slash (strip_params (content m c))"
    and "0 \<le> clen (DoExtractFileName m c)"
    and "cbegin c \<le> cbegin (DoExtractFileName m c)" and "cend (DoExtractFileName m c) \<le> cend c"
proof -
  define b e where "b = cbegin c" and "e = cend c"
  have be: "b < e" "is_nonempty c" using assms by (simp_all add: b_def e_def cend_def is_nonempty_def)
  define i where "i = scan_back (\<lambda>c. c = CHR '';'') m b (e - 1)"
  define fe where "fe = (if i > b then i else e)"
  have fe: "text_of m b fe = strip_params (text_of m b e)" "b < fe" "fe \<le> e"
    using file_end_text [OF be(1) i_def] unfolding fe_def by simp_all
  define j where "j = scan_back IsURLSlash m (b - 1) (fe - 1)"
  have j: "text_of m (j + 1) fe = after_slash (text_of m b fe)" "b - 1 \<le> j" "j \<le> fe - 1"
    using scan_back_text [where b = b and e = fe and stop = IsURLSlash and m = m] fe(2) unfolding j_def after_slash_def by simp_all
  have "DoExtractFileName m c = (if j \<ge> b then MakeRange (j + 1) fe else MakeRange b fe)"
    unfolding DoExtractFileName_def Let_def b_def [symmetric] e_def [symmetric] i_def [symmetric]
      fe_def [symmetric] j_def [symmetric] using be(2) by simp
  moreover have "j + 1 = b" if "\<not> j \<ge> b" using that j(2) by simp
  ultimately have "DoExtractFileName m c = MakeRange (j + 1) fe" by auto
  then show "content m (DoExtractFileName m c) = after_slash (strip_params (content m c))"
    "0 \<le> clen (DoExtractFileName m c)" "cbegin c \<le> cbegin (DoExtractFileName m c)" "cend (DoExtractFileName m c) \<le> cend c"
    using j fe by (simp_all add: content_def b_def e_def)
qed

subsection \<open>An item name as a URL\<close>

text \<open>The worker parses an item name behind the fixed text \<open>null://localhost/\<close>.\<close>

definition item_url :: "string \<Rightarrow> string" where
  "item_url item_name = ''null://localhost/'' @ item_name"

lemma item_url_chars:
  "0 \<le> j \<Longrightarrow> j < 17 \<Longrightarrow> cstr (item_url item) j = ''null://localhost/'' ! nat j"
  using cstr_nth [of j "''null://localhost/''" item] by (simp add: item_url_def)

lemma upto_17: "0 \<le> j \<Longrightarrow> j < (17 :: int) \<Longrightarrow> j \<in> {0, 1, 2, 3, 4, 5, 6, 7, 8, 9, 10, 11, 12, 13, 14, 15, 16}"
  by simp presburger

lemma item_url_scan:
  assumes "0 \<le> i" "i \<le> k" "k < 17" "17 \<le> n"
    "\<forall>j \<in> set [i..k - 1]. \<not> stop (''null://localhost/'' ! nat j)" "stop (''null://localhost/'' ! nat k)"
  shows "scan stop (cstr (item_url item)) i n = k"
  by (rule scan_unique) (use assms in \<open>auto simp: item_url_chars\<close>)

lemma item_url_parse:
  fixes item :: string
  defines "m \<equiv> cstr (item_url item)"
  defines "p \<equiv> DoParseStandardURL m (int (length (item_url item)))"
  shows "path p \<noteq> no_component" and "0 < clen (path p)"
    and "content m (path p) = file_text (CHR ''/'' # rtrim item)"
    and "component_text m (query p) = query_text (CHR ''/'' # rtrim item)"
    and "component_text m (ref p) = ref_text (CHR ''/'' # rtrim item)"
    and "cbegin (path p) = 16"
    and "query p = no_component \<or> 0 \<le> clen (query p)" and "ref p = no_component \<or> 0 \<le> clen (ref p)"
proof -
  define n where "n = 17 + int (length (rtrim item))"
  have n: "17 \<le> n" by (simp add: n_def)
  have len: "int (length (item_url item)) = int (length ''null://localhost/'' + length item)"
    by (simp add: item_url_def)
  have b: "scan (\<lambda>c. \<not> ShouldTrimFromURL c) m 0 k = 0" if "17 \<le> k" for k
    unfolding m_def by (rule item_url_scan) (use that in \<open>simp_all add: ShouldTrimFromURL_def char_value_def\<close>)
  have e: "trim_end m 0 (int (length (item_url item))) = n"
    using trim_end_rtrim [of "''null://localhost/''" item]
    unfolding m_def len item_url_def n_def by (simp add: ShouldTrimFromURL_def char_value_def)
  have t: "TrimURL m 0 (int (length (item_url item))) = (0, n)"
    using b [of "int (length (item_url item))"] e by (simp add: TrimURL_def Let_def item_url_def)
  have "scan (\<lambda>c. c = CHR '':'') m 0 n = 4"
    unfolding m_def by (rule item_url_scan) (use n in \<open>simp_all add: upto.simps\<close>)
  then have s: "DoExtractScheme m n = Some (MakeRange 0 4)" using b [OF n] n by (simp add: DoExtractScheme_def Let_def)
  have "scan (\<lambda>c. \<not> IsURLSlash c) m 5 n = 7"
    unfolding m_def by (rule item_url_scan) (use n in \<open>simp_all add: upto.simps IsURLSlash_def\<close>)
  then have c: "CountConsecutiveSlashes m 5 n = 2" by (simp add: CountConsecutiveSlashes_def)
  have "scan IsAuthorityTerminator m 7 n = 16"
    unfolding m_def by (rule item_url_scan) (use n in \<open>simp_all add: upto.simps IsURLSlash_def IsAuthorityTerminator_def\<close>)
  then have a: "FindNextAuthorityTerminator m 7 n = 16" using n by (simp add: FindNextAuthorityTerminator_def Let_def)
  define full where "full = \<lparr>cbegin = 16, clen = n - 16\<rparr>"
  obtain f q r where fqr: "ParsePath m full = (f, q, r)" by (cases "ParsePath m full")
  have p: "path p = f" "query p = q" "ref p = r"
    using n fqr
    by (simp_all add: p_def DoParseStandardURL_def t s DoParseAfterScheme_def c a Let_def full_def [symmetric]
        split: prod.splits)
  have "item_url item = ''null://localhost'' @ (CHR ''/'' # rtrim item) @ drop (length (rtrim item)) item"
  proof -
    have "item = rtrim item @ drop (length (rtrim item)) item"
      unfolding rtrim_def by (metis append_eq_conv_conj rev_append rev_rev_ident takeWhile_dropWhile_id)
    then show ?thesis by (simp add: item_url_def)
  qed
  then have full: "content m full = CHR ''/'' # rtrim item"
    using text_of_cstr [of "''null://localhost''" "CHR ''/'' # rtrim item" "drop (length (rtrim item)) item"]
    by (simp add: content_def full_def cend_def n_def m_def)
  have P: "0 \<le> cbegin full" "0 \<le> clen full" using n by (simp_all add: full_def)
  have f: "f \<noteq> no_component" using path_texts(4) [OF P fqr] unfolding full by (simp add: file_text_def)
  show "path p \<noteq> no_component" "0 < clen (path p)" "cbegin (path p) = 16"
    using f path_texts(5) [OF P fqr f] by (simp_all add: p full_def)
  show "content m (path p) = file_text (CHR ''/'' # rtrim item)"
    "component_text m (query p) = query_text (CHR ''/'' # rtrim item)"
    "component_text m (ref p) = ref_text (CHR ''/'' # rtrim item)"
    using path_texts(1-3) [OF P fqr] unfolding full p .
  show "query p = no_component \<or> 0 \<le> clen (query p)" "ref p = no_component \<or> 0 \<le> clen (ref p)"
    using ParsePath_order [OF P fqr] by (auto simp: p split: if_splits)
qed

subsection \<open>The pairs of a query\<close>

lemma scan_text:
  assumes "b \<le> e"
  shows "text_of m b (scan stop m b e) = takeWhile (\<lambda>c. \<not> stop c) (text_of m b e)"
    and "text_of m (scan stop m b e) e = dropWhile (\<lambda>c. \<not> stop c) (text_of m b e)"
proof -
  let ?k = "scan stop m b e"
  have k: "b \<le> ?k" "?k \<le> e" "?k < e \<Longrightarrow> stop (m ?k)" "\<And>j. b \<le> j \<Longrightarrow> j < ?k \<Longrightarrow> \<not> stop (m j)"
    using scan_ge [OF assms] scan_le [OF assms] scan_stop [OF assms] scan_before [OF _ _ assms] by blast+
  have all: "\<forall>c \<in> set (text_of m b ?k). \<not> stop c" using k(4) by (auto simp: set_text_of)
  have rest: "takeWhile (\<lambda>c. \<not> stop c) (text_of m ?k e) = []" "dropWhile (\<lambda>c. \<not> stop c) (text_of m ?k e) = text_of m ?k e"
    using k(2,3) text_of_step [of ?k e m] by (cases "?k < e"; simp)+
  show "text_of m b ?k = takeWhile (\<lambda>c. \<not> stop c) (text_of m b e)"
    "text_of m ?k e = dropWhile (\<lambda>c. \<not> stop c) (text_of m b e)"
    using all rest text_of_split [OF k(1,2), of m] by (simp_all add: takeWhile_append dropWhile_append)
qed

text \<open>The reference: fields end at an ampersand, the value of a field begins after its first equals sign.\<close>

definition first_field :: "string \<Rightarrow> string" where
  "first_field s = takeWhile (\<lambda>c. c \<noteq> CHR ''&'') s"

definition other_fields :: "string \<Rightarrow> string" where
  "other_fields s = tl (dropWhile (\<lambda>c. c \<noteq> CHR ''&'') s)"

definition field_pair :: "string \<Rightarrow> string \<times> string" where
  "field_pair s = (takeWhile (\<lambda>c. c \<noteq> CHR ''='') s, tl (dropWhile (\<lambda>c. c \<noteq> CHR ''='') s))"

lemma length_other_fields:
  assumes "s \<noteq> []"
  shows "length (other_fields s) < length s"
proof -
  have "0 < length s" using assms by simp
  then show ?thesis
    using length_dropWhile_le [of "\<lambda>c. c \<noteq> CHR ''&''" s] unfolding other_fields_def length_tl by linarith
qed

function pairs_text :: "string \<Rightarrow> (string \<times> string) list" where
  "pairs_text s = (if s = [] then [] else field_pair (first_field s) # pairs_text (other_fields s))"
  by pat_completeness auto
termination by (relation "measure length") (simp_all add: length_other_fields)

declare pairs_text.simps [simp del]

lemma takeWhile_both: "takeWhile P (takeWhile Q s) = takeWhile (\<lambda>c. P c \<and> Q c) s"
  by (induction s) auto

lemma query_step_text:
  assumes "0 < clen q" "DoExtractQueryKeyValue m q = Some (rest, key, val)"
  shows "(content m key, content m val) = field_pair (first_field (content m q))"
    and "content m rest = other_fields (content m q)" and "clen rest < clen q" and "cend rest = cend q"
proof -
  define b e where "b = cbegin q" and "e = cend q"
  have be: "b < e" "is_nonempty q" using assms by (simp_all add: b_def e_def cend_def is_nonempty_def)
  define s where "s = content m q"
  let ?stop = "\<lambda>c. c = CHR ''&'' \<or> c = CHR ''=''"
  define c1 where "c1 = scan ?stop m b e"
  define c2 where "c2 = (if c1 < e \<and> m c1 = CHR ''='' then c1 + 1 else c1)"
  define c3 where "c3 = scan (\<lambda>c. c = CHR ''&'') m c2 e"
  define c4 where "c4 = (if c3 < e \<and> m c3 = CHR ''&'' then c3 + 1 else c3)"
  have res: "rest = MakeRange c4 e" "key = \<lparr>cbegin = b, clen = c1 - b\<rparr>" "val = \<lparr>cbegin = c2, clen = c3 - c2\<rparr>"
    using assms(2) be(2) unfolding DoExtractQueryKeyValue_def Let_def b_def [symmetric] e_def [symmetric]
      c1_def [symmetric] c2_def [symmetric] c3_def [symmetric] c4_def [symmetric] by simp_all
  have s: "s = text_of m b e" by (simp add: s_def content_def b_def e_def)
  have c1: "b \<le> c1" "c1 \<le> e" "c1 < e \<Longrightarrow> ?stop (m c1)"
    using scan_ge [of b e] scan_le [of b e] scan_stop [of b e ?stop m] be(1) unfolding c1_def by simp_all
  have t1: "text_of m b c1 = takeWhile (\<lambda>c. \<not> ?stop c) s" "text_of m c1 e = dropWhile (\<lambda>c. \<not> ?stop c) s"
    using scan_text [of b e m ?stop] be(1) unfolding c1_def s by simp_all
  have c2: "c1 \<le> c2" "c2 \<le> e" using c1 by (auto simp: c2_def)
  have c3: "c2 \<le> c3" "c3 \<le> e" "c3 < e \<Longrightarrow> m c3 = CHR ''&''"
    using scan_ge [of c2 e] scan_le [of c2 e] scan_stop [of c2 e "\<lambda>c. c = CHR ''&''" m] c2 unfolding c3_def by simp_all
  have t3: "text_of m c2 c3 = takeWhile (\<lambda>c. c \<noteq> CHR ''&'') (text_of m c2 e)"
    "text_of m c3 e = dropWhile (\<lambda>c. c \<noteq> CHR ''&'') (text_of m c2 e)"
    using scan_text [OF c2(2), of m "\<lambda>c. c = CHR ''&''"] unfolding c3_def by simp_all
  have t4: "text_of m c4 e = tl (text_of m c3 e)" "c3 \<le> c4" "c4 \<le> e"
    using c3 text_of_step [of c3 e m] by (cases "c3 < e"; auto simp: c4_def)+
  let ?K = "text_of m b c1"
  have K: "\<forall>c \<in> set ?K. c \<noteq> CHR ''&''" "\<forall>c \<in> set ?K. c \<noteq> CHR ''=''"
    using scan_before [of b _ ?stop m e] be(1) unfolding c1_def by (auto simp: set_text_of)
  have sK: "s = ?K @ text_of m c1 e" unfolding s by (rule text_of_split [OF c1(1,2)])
  have c: "content m key = ?K" "content m val = text_of m c2 c3" "content m rest = text_of m c4 e"
    unfolding res by (simp_all add: content_def cend_def)
  have D: "text_of m c1 e = (if c2 = c1 then [] else ''='') @ text_of m c2 e"
    using text_of_step [of c1 e m] by (auto simp: c2_def)
  have val: "c2 = c1 \<Longrightarrow> text_of m c2 c3 = [] \<and> (text_of m c2 e = [] \<or> hd (text_of m c2 e) = CHR ''&'')"
    using c1 text_of_step [of c1 e m] unfolding t3(1) by (cases "c1 < e") (auto simp: c2_def split: if_splits)
  have tw: "takeWhile (\<lambda>c. c \<noteq> CHR ''&'') (?K @ xs) = ?K @ takeWhile (\<lambda>c. c \<noteq> CHR ''&'') xs"
    "takeWhile (\<lambda>c. c \<noteq> CHR ''='') (?K @ xs) = ?K @ takeWhile (\<lambda>c. c \<noteq> CHR ''='') xs"
    "dropWhile (\<lambda>c. c \<noteq> CHR ''&'') (?K @ xs) = dropWhile (\<lambda>c. c \<noteq> CHR ''&'') xs"
    "dropWhile (\<lambda>c. c \<noteq> CHR ''='') (?K @ xs) = dropWhile (\<lambda>c. c \<noteq> CHR ''='') xs" for xs
    using K by (simp_all add: takeWhile_append dropWhile_append)
  have ff: "first_field s = ?K @ (if c2 = c1 then [] else CHR ''='' # text_of m c2 c3)"
    unfolding first_field_def sK D tw t3(1) using val [unfolded t3(1)] by auto
  show "(content m key, content m val) = field_pair (first_field (content m q))"
    unfolding s_def [symmetric] ff c field_pair_def tw using val by auto
  show "content m rest = other_fields (content m q)"
    unfolding s_def [symmetric] other_fields_def c t4(1) t3(2) by (subst sK, subst D) (simp add: tw)
  show "cend rest = cend q" unfolding res by (simp add: e_def)
  have "b < c4"
  proof (cases "c1 < e")
    case True
    then show ?thesis using c1 c2 c3 t4 by (cases "m c1 = CHR ''=''") (auto simp: c2_def c4_def split: if_splits)
  qed (use c1 c2 c3 t4 be in auto)
  then show "clen rest < clen q" unfolding res using be by (simp add: b_def e_def cend_def)
qed

text \<open>\<open>while (ExtractQueryKeyValue (spec, &query, &key, &value)) ...\<close>, the loop of the callers: its body
  \<open>f\<close> sees the text of the key and of the value. Each turn leaves a shorter query, so it ends.\<close>

lemma query_step_shorter:
  "DoExtractQueryKeyValue m q = Some (rest, key, val) \<Longrightarrow> nat (clen rest) < nat (clen q)"
proof -
  assume step: "DoExtractQueryKeyValue m q = Some (rest, key, val)"
  then have "0 < clen q" by (simp add: DoExtractQueryKeyValue_def is_nonempty_def split: if_splits)
  then show ?thesis using query_step_text(3) [OF _ step] by simp
qed

function query_loop :: "(string \<Rightarrow> string \<Rightarrow> 's \<Rightarrow> 's) \<Rightarrow> spec \<Rightarrow> component \<Rightarrow> 's \<Rightarrow> 's" where
  "query_loop f m q s = (case DoExtractQueryKeyValue m q of
     None \<Rightarrow> s
   | Some (rest, key, val) \<Rightarrow> query_loop f m rest (f (content m key) (content m val) s))"
  by pat_completeness auto
termination by (relation "measure (\<lambda>(f, m, q, s). nat (clen q))") (auto dest: query_step_shorter)

declare query_loop.simps [simp del]

lemma query_loop_text: "query_loop f m q s = fold (\<lambda>(k, v). f k v) (pairs_text (content m q)) s"
proof (induction f m q s rule: query_loop.induct)
  case (1 f m q s)
  show ?case
  proof (cases "0 < clen q")
    case False
    then have "DoExtractQueryKeyValue m q = None" "content m q = []"
      by (simp_all add: DoExtractQueryKeyValue_def is_nonempty_def content_def cend_def)
    then show ?thesis by (subst query_loop.simps, subst pairs_text.simps) simp
  next
    case True
    then obtain rest key val where step: "DoExtractQueryKeyValue m q = Some (rest, key, val)"
      by (auto simp: DoExtractQueryKeyValue_def is_nonempty_def Let_def)
    have ne: "content m q \<noteq> []" using True text_of_step [of "cbegin q" "cend q" m] by (simp add: content_def cend_def)
    have "query_loop f m q s = query_loop f m rest (f (content m key) (content m val) s)"
      by (subst query_loop.simps) (simp add: step)
    also have "\<dots> = fold (\<lambda>(k, v). f k v) (pairs_text (content m rest)) (f (content m key) (content m val) s)"
      using 1 [OF step refl refl] .
    finally show ?thesis
      using query_step_text(1,2) [OF True step] ne
      by (subst pairs_text.simps) (simp add: case_prod_unfold prod_eq_iff)
  qed
qed

subsection \<open>The number of a port\<close>

definition decimal :: "string \<Rightarrow> int \<Rightarrow> int" where
  "decimal s acc = foldl (\<lambda>n ch. n * 10 + (char_value ch - char_value CHR ''0'')) acc s"

text \<open>The reference: decimal digits that make a number of at most 16 bits, none when there is no text.\<close>

definition port_reference :: "string \<Rightarrow> int" where
  "port_reference s = (if s = [] then PORT_UNSPECIFIED
     else if list_all IsPortDigit s \<and> decimal s 0 \<le> 65535 then decimal s 0 else PORT_INVALID)"

lemma port_digits_text:
  "port_digits m i e acc = (if list_all IsPortDigit (text_of m i e) then Some (decimal (text_of m i e) acc) else None)"
proof (induction m i e acc rule: port_digits.induct)
  case (1 m i e acc)
  show ?case
  proof (cases "i < e")
    case True
    then show ?thesis using 1 by (subst port_digits.simps) (simp add: text_of_step decimal_def)
  next
    case False
    then show ?thesis by (subst port_digits.simps) (simp add: decimal_def)
  qed
qed

lemma decimal_ge: "list_all IsPortDigit s \<Longrightarrow> 0 \<le> acc \<Longrightarrow> acc * 10 ^ length s \<le> decimal s acc"
proof (induction s arbitrary: acc)
  case (Cons c s)
  let ?d = "char_value c - char_value CHR ''0''"
  have d: "0 \<le> ?d" using Cons.prems(1) by (simp add: IsPortDigit_def)
  then have "(acc * 10 + ?d) * 10 ^ length s \<le> decimal s (acc * 10 + ?d)" using Cons by simp
  moreover have "acc * 10 * 10 ^ length s \<le> (acc * 10 + ?d) * 10 ^ length s" using d by (intro mult_right_mono) simp_all
  moreover have "acc * 10 ^ length (c # s) = acc * 10 * 10 ^ length s" by simp
  moreover have "decimal (c # s) acc = decimal s (acc * 10 + ?d)" by (simp add: decimal_def)
  ultimately show ?case by linarith
qed (simp add: decimal_def)

lemma decimal_zeros: "decimal (dropWhile (\<lambda>c. c = CHR ''0'') s) 0 = decimal s 0"
  by (induction s) (simp_all add: decimal_def)

lemma digits_zeros: "list_all IsPortDigit (dropWhile (\<lambda>c. c = CHR ''0'') s) = list_all IsPortDigit s"
  by (induction s) (simp_all add: IsPortDigit_def char_value_def)

lemma char_value_inj: "char_value c = char_value d \<Longrightarrow> c = d"
proof -
  assume eq: "char_value c = char_value d"
  have "of_char c < (256 :: int)" "of_char d < (256 :: int)" "0 \<le> (of_char c :: int)" "0 \<le> (of_char d :: int)"
    by (simp_all add: of_char_def horner_sum_bound)
  then have "of_char c = (of_char d :: int)" using eq by (simp add: char_value_def Let_def split: if_splits)
  then show "c = d" by simp
qed

lemma long_number:
  assumes "5 < length s" "hd s \<noteq> CHR ''0''" "list_all IsPortDigit s"
  shows "65535 < decimal s 0"
proof (cases s)
  case (Cons c t)
  have c: "char_value CHR ''0'' \<le> char_value c" "list_all IsPortDigit t" "5 \<le> length t"
    using assms by (simp_all add: Cons IsPortDigit_def)
  have "char_value c \<noteq> char_value CHR ''0''"
    using assms(2) Cons char_value_inj [of c "CHR ''0''"] by auto
  then have "1 \<le> char_value c - char_value CHR ''0''" using c(1) by simp
  then have "1 * 10 ^ length t \<le> (char_value c - char_value CHR ''0'') * 10 ^ length t" by (intro mult_right_mono) simp_all
  moreover have "(10 :: int) ^ 5 \<le> 10 ^ length t" using c(3) by (rule power_increasing) simp
  moreover have "decimal s 0 = decimal t (char_value c - char_value CHR ''0'')" by (simp add: Cons decimal_def)
  moreover have "(10 :: int) ^ 5 = 100000" by simp
  ultimately show ?thesis
    using decimal_ge [OF c(2), of "char_value c - char_value CHR ''0''"] c(1) by linarith
qed (use assms in simp)

text \<open>\<open>ParsePort\<close> is the reference: it says that there is no port exactly for an empty text, and that
  the port is invalid exactly when a character is not a digit or the number does not fit 16 bits.\<close>

theorem port_number: "DoParsePort m c = port_reference (content m c)"
proof (cases "0 < clen c")
  case False
  then show ?thesis by (simp add: DoParsePort_def is_nonempty_def port_reference_def content_def cend_def)
next
  case True
  define b e s where "b = cbegin c" and "e = cend c" and "s = content m c"
  have be: "b < e" "is_nonempty c" "s = text_of m b e"
    using True by (simp_all add: b_def e_def s_def cend_def is_nonempty_def content_def)
  define i where "i = scan (\<lambda>ch. ch \<noteq> CHR ''0'') m b e"
  have i: "b \<le> i" "i \<le> e" "i < e \<Longrightarrow> m i \<noteq> CHR ''0''"
    using scan_ge [of b e] scan_le [of b e] scan_stop [of b e "\<lambda>ch. ch \<noteq> CHR ''0''" m] be(1) unfolding i_def by simp_all
  define d where "d = text_of m i e"
  have d: "d = dropWhile (\<lambda>c. c = CHR ''0'') s"
    using scan_text(2) [of b e m "\<lambda>ch. ch \<noteq> CHR ''0''"] be unfolding d_def i_def by simp
  have ne: "s \<noteq> []" using be text_of_step [of b e m] by simp
  have run: "DoParsePort m c = (if i \<ge> e then 0 else if e - i > 5 then PORT_INVALID
      else case port_digits m i e 0 of None \<Rightarrow> PORT_INVALID | Some p \<Rightarrow> if p > 65535 then PORT_INVALID else p)"
    using be(2) i(2) unfolding DoParsePort_def b_def e_def i_def Let_def by (auto simp: cend_def)
  have ref: "port_reference s = (if list_all IsPortDigit d \<and> decimal d 0 \<le> 65535 then decimal d 0 else PORT_INVALID)"
    using ne by (simp add: port_reference_def d decimal_zeros digits_zeros)
  consider "i = e" | "i < e" "e - i > 5" | "i < e" "e - i \<le> 5" using i(2) by linarith
  then show ?thesis
  proof cases
    case 1
    then show ?thesis unfolding run s_def [symmetric] ref by (simp add: d_def decimal_def)
  next
    case 2
    have "5 < length d" "hd d \<noteq> CHR ''0''" using 2 i(3) by (simp_all add: d_def text_of_step)
    then have "\<not> (list_all IsPortDigit d \<and> decimal d 0 \<le> 65535)" using long_number [of d] by fastforce
    then show ?thesis using 2 unfolding run s_def [symmetric] ref by auto
  next
    case 3
    then show ?thesis unfolding run s_def [symmetric] ref port_digits_text d_def by simp
  qed
qed

end
