(* ===== verification/Analytics.thy ===== *)
theory Analytics
  imports Directory Url_Text
begin

section \<open>The analytics\<close>

text \<open>
  The four implementations of \<open>vta::intraday_t\<close> (vta.hh) that a worker runs on a request: the bar over
  trades (vta_bar.cc), the bar over one-minute bars (vta_rollup_bar.cc), the last trade (vta_close.cc) and the
  fixed test image (vta_test.cc), with the accumulators of accumulators/, rounding.hh and unix_epoch.hh.

  \<^item> Velocity Analytics, Boost Accumulators, Boost Date\_Time and the conversion of the codec are not part of the
    repository: what the analytics call of them are fields of the record \<open>vhayu\<close>. The bar keeps its samples, of
    which Boost computes the count, maximum, minimum and sum; \<open>boost_contract\<close> says what these are.
  \<^item> A price is a value of the type parameter \<open>'p\<close>, the type \<open>double\<close>; its arithmetic is a group of fields of
    \<open>vhayu\<close>; \<open>d_literal lib n k\<close> is the literal for \<open>n / k\<close>.
  \<^item> A cursor and a history query cover a finite stretch of the past: they yield a list of records. The
    members of a record are read as the type the program binds them to (\<open>view\<close>).
  \<^item> A time is the number of seconds since the epoch, \<open>None\<close> for \<open>not_a_date_time\<close>. \<open>time_t\<close> values reach the
    library as 32-bit numbers, written as words.
\<close>

record ('k, 'p) view =
  v_double :: "'k \<Rightarrow> 'p"
  v_uint64 :: "'k \<Rightarrow> u64"
  v_uint32 :: "'k \<Rightarrow> u32"
  v_string :: "'k \<Rightarrow> string"

text \<open>\<open>GetFlexRecords\<close> takes the symbol, the name of the record, the two times as passed, whether it runs
  backwards and the limit (0 is none); \<open>cursor_Open\<close> the symbol, the number of the record, from, till,
  backwards, limit and the query properties, and gives the status and the rows the calls of \<open>Next\<close> deliver.
  \<open>None\<close> is a standard exception.\<close>

record ('u, 'p) vhayu =
  IsSymbolExists :: "string \<Rightarrow> 'u \<Rightarrow> bool \<times> 'u"
  GetSymbolHandle :: "string \<Rightarrow> 'u \<Rightarrow> nat \<times> 'u"
  GetFlexRecords :: "nat \<Rightarrow> string \<Rightarrow> u32 \<Rightarrow> u32 \<Rightarrow> bool \<Rightarrow> nat \<Rightarrow> 'u \<Rightarrow> (nat, 'p) view list option \<times> 'u"
  cursor_Open :: "string \<Rightarrow> nat \<Rightarrow> u32 \<Rightarrow> u32 \<Rightarrow> bool \<Rightarrow> nat \<Rightarrow> string \<Rightarrow> 'u \<Rightarrow>
    (int \<times> (string, 'p) view list) option \<times> 'u"
  kFRFixedFields :: nat
  acc_count :: "'p list \<Rightarrow> u64"
  acc_max :: "'p list \<Rightarrow> 'p"
  acc_min :: "'p list \<Rightarrow> 'p"
  acc_sum :: "u64 list \<Rightarrow> u64"
  d_literal :: "int \<Rightarrow> int \<Rightarrow> 'p"
  d_mult :: "'p \<Rightarrow> 'p \<Rightarrow> 'p"
  d_plus :: "'p \<Rightarrow> 'p \<Rightarrow> 'p"
  d_floor :: "'p \<Rightarrow> 'p"
  d_to_int64 :: "'p \<Rightarrow> u64"
  d_of_uint64 :: "u64 \<Rightarrow> 'p"
  rsslDoubleToReal :: "'p \<Rightarrow> real_hint \<Rightarrow> prim"
  special_total_seconds :: u32

text \<open>The documented results of the accumulators, on prices that are ordered (no NaN).\<close>

definition boost_contract :: "('u, 'p :: linorder) vhayu \<Rightarrow> bool" where
  "boost_contract lib \<longleftrightarrow>
     (\<forall>xs. acc_count lib xs = of_nat (length xs)) \<and>
     (\<forall>xs. xs \<noteq> [] \<longrightarrow> acc_max lib xs = Max (set xs) \<and> acc_min lib xs = Min (set xs)) \<and>
     (\<forall>vs. acc_sum lib vs = sum_list vs)"

subsection \<open>Rounding and times\<close>

definition round_half_up :: "('u, 'p) vhayu \<Rightarrow> 'p \<Rightarrow> 'p" where
  "round_half_up lib x = d_floor lib (d_plus lib x (d_literal lib 1 2))"

definition mantissa :: "('u, 'p) vhayu \<Rightarrow> 'p \<Rightarrow> u64" where
  "mantissa lib x = d_to_int64 lib (round_half_up lib (d_mult lib x (d_literal lib 10000 1)))"

definition hint :: real_hint where "hint = RSSL_RH_EXPONENT_4"

type_synonym ptime = "int option"

definition to_unix_epoch :: "('u, 'p) vhayu \<Rightarrow> ptime \<Rightarrow> u32" where
  "to_unix_epoch lib t = (case t of None \<Rightarrow> special_total_seconds lib | Some s \<Rightarrow> word_of_int s)"

text \<open>\<open>std::atol\<close> on a C string: white space, a sign, digits. A number out of the range of the 32-bit \<open>long\<close>
  of the platform gives the bound.\<close>

definition c_str :: "string \<Rightarrow> string" where
  "c_str s = takeWhile (\<lambda>c. c \<noteq> CHR 0x00) s"

definition isspace :: "char \<Rightarrow> bool" where
  "isspace c \<longleftrightarrow> c = CHR '' '' \<or> (9 \<le> (of_char c :: nat) \<and> of_char c \<le> (13 :: nat))"

definition atol :: "string \<Rightarrow> int" where
  "atol s =
    (let t = dropWhile isspace s;
         neg = (t \<noteq> [] \<and> hd t = CHR ''-'');
         digits = takeWhile IsPortDigit (if t \<noteq> [] \<and> (hd t = CHR ''-'' \<or> hd t = CHR ''+'') then tl t else t);
         n = (if neg then - decimal digits 0 else decimal digits 0)
     in max (- 2147483648) (min 2147483647 n))"

definition kOpenParameter :: string where "kOpenParameter = ''open''"
definition kCloseParameter :: string where "kCloseParameter = ''close''"

text \<open>The body of the parsing loops, on the pair of the open and the close time.\<close>

definition parse_time :: "string \<Rightarrow> string \<Rightarrow> ptime \<times> ptime \<Rightarrow> ptime \<times> ptime" where
  "parse_time key val = (\<lambda>(o_time, c_time).
     if key = kOpenParameter then (Some (atol (c_str val)), c_time)
     else if key = kCloseParameter then (o_time, Some (atol (c_str val)))
     else (o_time, c_time))"

subsection \<open>Accumulators of the repository\<close>

record 'p acc_first =
  first :: 'p
  is_first :: bool

definition first_init :: "'p \<Rightarrow> 'p acc_first" where
  "first_init sample = \<lparr>first = sample, is_first = True\<rparr>"

definition first_add :: "'p \<Rightarrow> 'p acc_first \<Rightarrow> 'p acc_first" where
  "first_add sample a = (if is_first a then \<lparr>first = sample, is_first = False\<rparr> else a)"

record 'p acc_last =
  last_value :: 'p

definition last_init :: "'p \<Rightarrow> 'p acc_last" where
  "last_init sample = \<lparr>last_value = sample\<rparr>"

definition last_add :: "'p \<Rightarrow> 'p acc_last \<Rightarrow> 'p acc_last" where
  "last_add sample a = a\<lparr>last_value := sample\<rparr>"

lemma first_add_fold: "\<not> is_first a \<Longrightarrow> fold first_add xs a = a"
  by (induction xs) (simp_all add: first_add_def)

lemma first_of_samples: "first (fold first_add xs (first_init z)) = (if xs = [] then z else hd xs)"
proof (cases xs)
  case (Cons x ys)
  have "first_add x (first_init z) = \<lparr>first = x, is_first = False\<rparr>" by (simp add: first_add_def first_init_def)
  then show ?thesis using first_add_fold [of "\<lparr>first = x, is_first = False\<rparr>" ys] Cons by simp
qed (simp add: first_init_def)

lemma last_of_samples: "last_value (fold last_add xs (last_init z)) = (if xs = [] then z else last xs)"
  by (induction xs rule: rev_induct) (simp_all add: last_init_def last_add_def)

subsection \<open>The bar over trades\<close>

text \<open>The set of accumulators \<open>last_price_\<close>: first and last of the repository, the samples for the count,
  maximum and minimum of Boost.\<close>

record 'p prices =
  ps_first :: "'p acc_first"
  ps_last :: "'p acc_last"
  ps_samples :: "'p list"

definition kNullLastPrice :: "('u, 'p) vhayu \<Rightarrow> 'p prices" where
  "kNullLastPrice lib = \<lparr>ps_first = first_init (d_literal lib 0 1), ps_last = last_init (d_literal lib 0 1),
     ps_samples = []\<rparr>"

definition prices_add :: "'p \<Rightarrow> 'p prices \<Rightarrow> 'p prices" where
  "prices_add x s = \<lparr>ps_first = first_add x (ps_first s), ps_last = last_add x (ps_last s),
     ps_samples = ps_samples s @ [x]\<rparr>"

record 'p bar =
  bar_open_time :: ptime
  bar_close_time :: ptime
  last_price :: "'p prices"
  tick_volume :: "u64 list"

definition bar_Reset :: "('u, 'p) vhayu \<Rightarrow> 'p bar \<Rightarrow> 'p bar" where
  "bar_Reset lib b = b\<lparr>bar_open_time := None, bar_close_time := None,
     last_price := kNullLastPrice lib, tick_volume := []\<rparr>"

definition bar_ParseRequest :: "spec \<Rightarrow> component \<Rightarrow> 'p bar \<Rightarrow> bool \<times> 'p bar" where
  "bar_ParseRequest url parsed_query b =
    (let (o_time, c_time) = query_loop parse_time url parsed_query (bar_open_time b, bar_close_time b)
     in (True, b\<lparr>bar_open_time := o_time, bar_close_time := c_time\<rparr>))"

definition bar_add :: "'p \<Rightarrow> u64 \<Rightarrow> 'p bar \<Rightarrow> 'p bar" where
  "bar_add price volume b = b\<lparr>last_price := prices_add price (last_price b), tick_volume := tick_volume b @ [volume]\<rparr>"

text \<open>The overload over a cursor, which the worker calls. The record is number 40001.\<close>

definition bar_Calculate :: "('u, 'p) vhayu \<Rightarrow> string \<Rightarrow> 'p bar \<Rightarrow> 'u \<Rightarrow> (bool \<times> 'p bar) \<times> 'u" where
  "bar_Calculate lib symbol_name b u =
    (case cursor_Open lib symbol_name 40001 (to_unix_epoch lib (bar_open_time b)) (to_unix_epoch lib (bar_close_time b))
        False 0 [] u of
       (None, u1) \<Rightarrow> ((False, b), u1)
     | (Some (cursor_status, rows), u1) \<Rightarrow>
         if cursor_status \<noteq> 1 then ((False, b), u1)
         else ((True, fold (\<lambda>r. bar_add (v_double r ''LastPrice'') (v_uint64 r ''TickVolume'')) rows b), u1))"

text \<open>The overload over the primitives, with its callback.\<close>

definition bar_OnFlexRecord :: "('u, 'p) vhayu \<Rightarrow> (nat, 'p) view \<Rightarrow> 'p bar \<Rightarrow> 'p bar" where
  "bar_OnFlexRecord lib v b = bar_add (v_double v (kFRFixedFields lib + 0)) (v_uint64 v (kFRFixedFields lib + 19)) b"

definition bar_Calculate_primitives :: "('u, 'p) vhayu \<Rightarrow> nat \<Rightarrow> 'p bar \<Rightarrow> 'u \<Rightarrow> (bool \<times> 'p bar) \<times> 'u" where
  "bar_Calculate_primitives lib handle b u =
    (case GetFlexRecords lib handle ''Trade'' (to_unix_epoch lib (bar_open_time b)) (to_unix_epoch lib (bar_close_time b))
        False 0 u of
       (None, u1) \<Rightarrow> ((False, b), u1)
     | (Some vs, u1) \<Rightarrow> ((True, fold (bar_OnFlexRecord lib) vs b), u1))"

definition bar_open_price :: "'p bar \<Rightarrow> 'p" where "bar_open_price b = first (ps_first (last_price b))"
definition bar_high_price :: "('u, 'p) vhayu \<Rightarrow> 'p bar \<Rightarrow> 'p" where "bar_high_price lib b = acc_max lib (ps_samples (last_price b))"
definition bar_low_price :: "('u, 'p) vhayu \<Rightarrow> 'p bar \<Rightarrow> 'p" where "bar_low_price lib b = acc_min lib (ps_samples (last_price b))"
definition bar_close_price :: "'p bar \<Rightarrow> 'p" where "bar_close_price b = last_value (ps_last (last_price b))"
definition bar_number_trades :: "('u, 'p) vhayu \<Rightarrow> 'p bar \<Rightarrow> u64" where "bar_number_trades lib b = acc_count lib (ps_samples (last_price b))"
definition bar_accumulated_volume :: "('u, 'p) vhayu \<Rightarrow> 'p bar \<Rightarrow> u64" where "bar_accumulated_volume lib b = acc_sum lib (tick_volume b)"

subsection \<open>Fields of a bar\<close>

text \<open>A price as a real, blank without trades; a volume as a real, through a double when it needs more than
  seven bytes.\<close>

definition price_real :: "('u, 'p) vhayu \<Rightarrow> u64 \<Rightarrow> 'p \<Rightarrow> prim" where
  "price_real lib number_trades price =
    (if number_trades = 0 then PReal True 0 RSSL_RH_EXPONENT0 else PReal False (mantissa lib price) hint)"

definition volume_real :: "('u, 'p) vhayu \<Rightarrow> u64 \<Rightarrow> prim" where
  "volume_real lib v = (if v \<le> 0xFFFFFFFFFFFFFF then PReal False v RSSL_RH_EXPONENT0
     else rsslDoubleToReal lib (d_of_uint64 lib v) RSSL_RH_EXPONENT7)"

type_synonym field = "int \<times> data_type \<times> prim"

text \<open>The fields HIGH\_1, LOW\_1, OPEN\_PRC, HST\_CLOSE, ACVOL\_1 and NUM\_MOVES.\<close>

definition bar_fields :: "('u, 'p) vhayu \<Rightarrow> 'p bar \<Rightarrow> field list" where
  "bar_fields lib b =
    (let n = bar_number_trades lib b in
     [(12, RSSL_DT_REAL, price_real lib n (bar_high_price lib b)),
      (13, RSSL_DT_REAL, price_real lib n (bar_low_price lib b)),
      (19, RSSL_DT_REAL, price_real lib n (bar_open_price b)),
      (21, RSSL_DT_REAL, price_real lib n (bar_close_price b)),
      (32, RSSL_DT_REAL, volume_real lib (bar_accumulated_volume lib b)),
      (77, RSSL_DT_REAL, PReal False n RSSL_RH_EXPONENT0)])"

subsection \<open>The refresh message\<close>

definition analytic_msg :: "u32 \<Rightarrow> u16 \<Rightarrow> string \<Rightarrow> string \<Rightarrow> rssl_msg" where
  "analytic_msg token sid item_name dacs_lock =
    (let m = init_msg\<lparr>domainType := RSSL_DMT_MARKET_PRICE, msgClass := RSSL_MC_REFRESH,
           msg_flags := {RSSL_RFMF_SOLICITED, RSSL_RFMF_REFRESH_COMPLETE, RSSL_RFMF_DO_NOT_CACHE, RSSL_RFMF_HAS_MSG_KEY},
           containerType := RSSL_DT_FIELD_LIST,
           msgKey := init_key\<lparr>key_serviceId := sid, key_nameType := RDM_INSTRUMENT_NAME_TYPE_RIC,
             key_name := \<lparr>mem = item_name, len = length item_name\<rparr>,
             key_flags := {RSSL_MKF_HAS_SERVICE_ID, RSSL_MKF_HAS_NAME_TYPE, RSSL_MKF_HAS_NAME}\<rparr>,
           streamId := token, streamState := RSSL_STREAM_NON_STREAMING, dataState := RSSL_DATA_OK,
           stateCode := RSSL_SC_NONE\<rparr>
     in if dacs_lock \<noteq> [] then m\<lparr>permData := dacs_lock, msg_flags := insert RSSL_RFMF_HAS_PERM_DATA (msg_flags m)\<rparr>
        else m)"

text \<open>The calls on the iterator. The version is set from the major number alone, twice.\<close>

definition refresh_steps ::
  "'u rssl \<Rightarrow> u16 \<Rightarrow> rssl_msg \<Rightarrow> field list \<Rightarrow> u32 \<Rightarrow> (enc_iter \<times> 'u \<Rightarrow> bool \<times> enc_iter \<times> 'u) list" where
  "refresh_steps api version response fs buflen =
    [enc api (SetEncodeIteratorBuffer buflen),
     enc api (SetEncodeIteratorRWFVersion (rwf_major_version version) (rwf_major_version version)),
     enc_exp api RSSL_RET_ENCODE_CONTAINER (EncodeMsgInit response 0),
     enc api EncodeFieldListInit] @
    map (\<lambda>(fid, ty, x). enc api (EncodeFieldEntry fid ty x)) fs @
    [enc api EncodeFieldListComplete, enc api EncodeMsgComplete]"

text \<open>\<open>WriteRaw\<close> of each analytic, on its fields: the result, the encoded calls and the length, which a failure
  leaves alone.\<close>

definition write_refresh ::
  "'u rssl \<Rightarrow> config \<Rightarrow> u16 \<Rightarrow> rssl_msg \<Rightarrow> field list \<Rightarrow> u32 \<Rightarrow> 'u \<Rightarrow> (bool \<times> enc_iter \<times> u32) \<times> 'u" where
  "write_refresh api c version response fs buflen u =
    (case seq_all (refresh_steps api version response fs buflen) ([], u) of (ok, it, u1) \<Rightarrow>
       if \<not> ok then ((False, it, buflen), u1)
       else let n = rsslGetEncodedBufferLength api it u1 in
         if dcheck_on c
         then (case rsslValidateMsg api response u1 of (valid, u2) \<Rightarrow>
                 ((if valid then (True, it, n) else (False, it, buflen)), u2))
         else ((True, it, n), u1))"

definition bar_WriteRaw ::
  "'u rssl \<Rightarrow> ('u, 'p) vhayu \<Rightarrow> config \<Rightarrow> u16 \<Rightarrow> u32 \<Rightarrow> u16 \<Rightarrow> string \<Rightarrow> string \<Rightarrow> 'p bar \<Rightarrow> u32 \<Rightarrow> 'u \<Rightarrow>
     (bool \<times> enc_iter \<times> u32) \<times> 'u" where
  "bar_WriteRaw api lib c version token sid item_name dacs_lock b buflen u =
    write_refresh api c version (analytic_msg token sid item_name dacs_lock) (bar_fields lib b) buflen u"

subsection \<open>The bar over one-minute bars\<close>

record 'p rollup =
  rb_open_time :: ptime
  rb_close_time :: ptime
  rb_open :: "'p acc_first"
  rb_close :: "'p acc_last"
  rb_high :: "'p list"
  rb_low :: "'p list"
  rb_volume :: "u64 list"
  rb_moves :: "u64 list"

definition rollup_Reset :: "('u, 'p) vhayu \<Rightarrow> 'p rollup \<Rightarrow> 'p rollup" where
  "rollup_Reset lib b = b\<lparr>rb_open_time := None, rb_close_time := None,
     rb_open := first_init (d_literal lib 0 1), rb_close := last_init (d_literal lib 0 1),
     rb_high := [], rb_low := [], rb_volume := [], rb_moves := []\<rparr>"

definition rollup_ParseRequest :: "spec \<Rightarrow> component \<Rightarrow> 'p rollup \<Rightarrow> bool \<times> 'p rollup" where
  "rollup_ParseRequest url parsed_query b =
    (let (o_time, c_time) = query_loop parse_time url parsed_query (rb_open_time b, rb_close_time b)
     in (True, b\<lparr>rb_open_time := o_time, rb_close_time := c_time\<rparr>))"

definition rollup_add :: "'p \<Rightarrow> 'p \<Rightarrow> 'p \<Rightarrow> 'p \<Rightarrow> u64 \<Rightarrow> u32 \<Rightarrow> 'p rollup \<Rightarrow> 'p rollup" where
  "rollup_add open_price close_price high_price low_price volume tick_count b =
    b\<lparr>rb_open := first_add open_price (rb_open b), rb_close := last_add close_price (rb_close b),
      rb_high := rb_high b @ [high_price], rb_low := rb_low b @ [low_price],
      rb_volume := rb_volume b @ [volume], rb_moves := rb_moves b @ [ucast tick_count]\<rparr>"

text \<open>A decimal number as \<open>operator <<\<close> prints it.\<close>

fun digits_of :: "nat \<Rightarrow> string" where
  "digits_of n = (if n < 10 then [char_of (48 + n)] else digits_of (n div 10) @ [char_of (48 + n mod 10)])"

declare digits_of.simps [simp del]

definition rollup_add_row :: "(string, 'p) view \<Rightarrow> 'p rollup \<Rightarrow> 'p rollup" where
  "rollup_add_row r = rollup_add (v_double r ''Open'') (v_double r ''Close'') (v_double r ''High'')
     (v_double r ''Low'') (v_uint64 r ''Volume'') (v_uint32 r ''TickCount'')"

text \<open>The cursor runs over a window that starts where the requested one ends, one width later.\<close>

definition rollup_Calculate :: "('u, 'p) vhayu \<Rightarrow> string \<Rightarrow> 'p rollup \<Rightarrow> 'u \<Rightarrow> (bool \<times> 'p rollup) \<times> 'u" where
  "rollup_Calculate lib symbol_name b u =
    (let frm = to_unix_epoch lib (rb_open_time b); till = to_unix_epoch lib (rb_close_time b);
         width = till - frm + 1 in
     case cursor_Open lib symbol_name 41103 (width + frm) (width + till) False 0
        (''width='' @ digits_of (unat width)) u of
       (None, u1) \<Rightarrow> ((False, b), u1)
     | (Some (cursor_status, rows), u1) \<Rightarrow>
         if cursor_status \<noteq> 1 then ((False, b), u1) else ((True, fold rollup_add_row rows b), u1))"

definition rollup_OnFlexRecord :: "('u, 'p) vhayu \<Rightarrow> (nat, 'p) view \<Rightarrow> 'p rollup \<Rightarrow> 'p rollup" where
  "rollup_OnFlexRecord lib v b = (let k = kFRFixedFields lib in
     rollup_add (v_double v (k + 0)) (v_double v (k + 1)) (v_double v (k + 2)) (v_double v (k + 3))
       (v_uint64 v (k + 4)) (v_uint32 v (k + 5)) b)"

definition rollup_Calculate_primitives ::
  "('u, 'p) vhayu \<Rightarrow> nat \<Rightarrow> 'p rollup \<Rightarrow> 'u \<Rightarrow> (bool \<times> 'p rollup) \<times> 'u" where
  "rollup_Calculate_primitives lib handle b u =
    (case GetFlexRecords lib handle ''TradeBarRollupFrom1Minute'' (to_unix_epoch lib (rb_open_time b))
        (to_unix_epoch lib (rb_close_time b)) False 0 u of
       (None, u1) \<Rightarrow> ((False, b), u1)
     | (Some vs, u1) \<Rightarrow> ((True, fold (rollup_OnFlexRecord lib) vs b), u1))"

definition rollup_fields :: "('u, 'p) vhayu \<Rightarrow> 'p rollup \<Rightarrow> field list" where
  "rollup_fields lib b =
    (let n = acc_sum lib (rb_moves b) in
     [(12, RSSL_DT_REAL, price_real lib n (acc_max lib (rb_high b))),
      (13, RSSL_DT_REAL, price_real lib n (acc_min lib (rb_low b))),
      (19, RSSL_DT_REAL, price_real lib n (first (rb_open b))),
      (21, RSSL_DT_REAL, price_real lib n (last_value (rb_close b))),
      (32, RSSL_DT_REAL, volume_real lib (acc_sum lib (rb_volume b))),
      (77, RSSL_DT_REAL, PReal False n RSSL_RH_EXPONENT0)])"

definition rollup_WriteRaw ::
  "'u rssl \<Rightarrow> ('u, 'p) vhayu \<Rightarrow> config \<Rightarrow> u16 \<Rightarrow> u32 \<Rightarrow> u16 \<Rightarrow> string \<Rightarrow> string \<Rightarrow> 'p rollup \<Rightarrow> u32 \<Rightarrow> 'u \<Rightarrow>
     (bool \<times> enc_iter \<times> u32) \<times> 'u" where
  "rollup_WriteRaw api lib c version token sid item_name dacs_lock b buflen u =
    write_refresh api c version (analytic_msg token sid item_name dacs_lock) (rollup_fields lib b) buflen u"

subsection \<open>The last trade\<close>

record 'p closing =
  cl_open_time :: ptime
  cl_close_time :: ptime
  cl_first :: "'p acc_first"
  cl_samples :: "'p list"

definition close_Reset :: "('u, 'p) vhayu \<Rightarrow> 'p closing \<Rightarrow> 'p closing" where
  "close_Reset lib b = b\<lparr>cl_open_time := None, cl_close_time := None,
     cl_first := first_init (d_literal lib 0 1), cl_samples := []\<rparr>"

definition close_ParseRequest :: "spec \<Rightarrow> component \<Rightarrow> 'p closing \<Rightarrow> bool \<times> 'p closing" where
  "close_ParseRequest url parsed_query b =
    (let (o_time, c_time) = query_loop parse_time url parsed_query (cl_open_time b, cl_close_time b)
     in (True, b\<lparr>cl_open_time := o_time, cl_close_time := c_time\<rparr>))"

definition close_add :: "'p \<Rightarrow> 'p closing \<Rightarrow> 'p closing" where
  "close_add price b = b\<lparr>cl_first := first_add price (cl_first b), cl_samples := cl_samples b @ [price]\<rparr>"

text \<open>Both overloads run backwards and stop at one record. The primitives take the two times swapped.\<close>

definition close_Calculate :: "('u, 'p) vhayu \<Rightarrow> string \<Rightarrow> 'p closing \<Rightarrow> 'u \<Rightarrow> (bool \<times> 'p closing) \<times> 'u" where
  "close_Calculate lib symbol_name b u =
    (case cursor_Open lib symbol_name 40001 (to_unix_epoch lib (cl_open_time b)) (to_unix_epoch lib (cl_close_time b))
        True 1 [] u of
       (None, u1) \<Rightarrow> ((False, b), u1)
     | (Some (cursor_status, rows), u1) \<Rightarrow>
         if cursor_status \<noteq> 1 then ((False, b), u1)
         else ((True, fold (\<lambda>r. close_add (v_double r ''LastPrice'')) rows b), u1))"

definition close_OnFlexRecord :: "('u, 'p) vhayu \<Rightarrow> (nat, 'p) view \<Rightarrow> 'p closing \<Rightarrow> 'p closing" where
  "close_OnFlexRecord lib v b = close_add (v_double v (kFRFixedFields lib + 0)) b"

definition close_Calculate_primitives ::
  "('u, 'p) vhayu \<Rightarrow> nat \<Rightarrow> 'p closing \<Rightarrow> 'u \<Rightarrow> (bool \<times> 'p closing) \<times> 'u" where
  "close_Calculate_primitives lib handle b u =
    (case GetFlexRecords lib handle ''Trade'' (to_unix_epoch lib (cl_close_time b)) (to_unix_epoch lib (cl_open_time b))
        True 1 u of
       (None, u1) \<Rightarrow> ((False, b), u1)
     | (Some vs, u1) \<Rightarrow> ((True, fold (close_OnFlexRecord lib) vs b), u1))"

definition close_fields :: "('u, 'p) vhayu \<Rightarrow> 'p closing \<Rightarrow> field list" where
  "close_fields lib b =
    [(21, RSSL_DT_REAL, price_real lib (acc_count lib (cl_samples b)) (first (cl_first b)))]"

definition close_WriteRaw ::
  "'u rssl \<Rightarrow> ('u, 'p) vhayu \<Rightarrow> config \<Rightarrow> u16 \<Rightarrow> u32 \<Rightarrow> u16 \<Rightarrow> string \<Rightarrow> string \<Rightarrow> 'p closing \<Rightarrow> u32 \<Rightarrow> 'u \<Rightarrow>
     (bool \<times> enc_iter \<times> u32) \<times> 'u" where
  "close_WriteRaw api lib c version token sid item_name dacs_lock b buflen u =
    write_refresh api c version (analytic_msg token sid item_name dacs_lock) (close_fields lib b) buflen u"

subsection \<open>The test image\<close>

definition test_fields :: "('u, 'p) vhayu \<Rightarrow> field list" where
  "test_fields lib =
    [(1, RSSL_DT_UINT, PUInt 213),
     (1080, RSSL_DT_UINT, PUInt 6205),
     (967, RSSL_DT_ASCII_STRING, PString ''Japanese Yen''),
     (1000, RSSL_DT_RMTES_STRING, PString ''SPOT''),
     (1001, RSSL_DT_RMTES_STRING, PString ''USDJPY''),
     (393, RSSL_DT_REAL, PReal False (mantissa lib (d_literal lib 8220 100)) hint),
     (275, RSSL_DT_REAL, PReal False (mantissa lib (d_literal lib 8222 100)) hint),
     (831, RSSL_DT_RMTES_STRING, PString ''RBS''),
     (836, RSSL_DT_RMTES_STRING, PString ''XST''),
     (841, RSSL_DT_RMTES_STRING, PString ''1RBS''),
     (826, RSSL_DT_RMTES_STRING, PString ''RBSN'')]"

text \<open>The DACS lock is not used.\<close>

definition test_WriteRaw ::
  "'u rssl \<Rightarrow> ('u, 'p) vhayu \<Rightarrow> config \<Rightarrow> u16 \<Rightarrow> u32 \<Rightarrow> u16 \<Rightarrow> string \<Rightarrow> string \<Rightarrow> u32 \<Rightarrow> 'u \<Rightarrow>
     (bool \<times> enc_iter \<times> u32) \<times> 'u" where
  "test_WriteRaw api lib c version token sid item_name dacs_lock buflen u =
    write_refresh api c version (analytic_msg token sid item_name []) (test_fields lib) buflen u"

end
