(* ===== verification/Worker.thy ===== *)
theory Worker
  imports Hitsuji Analytics
begin

section \<open>The worker\<close>

text \<open>
  \<open>worker_t\<close> of worker.cc, one of which runs on each worker thread: it takes requests off a ZeroMQ socket,
  finds the instrument, the analytic and its parameters in the item name, runs the analytic and sends the
  encoded answer back; and \<open>permdata_t\<close> of permdata.cc, which looks up the DACS lock of an instrument.

  \<^item> The virtual functions of an analytic are the record \<open>intraday\<close>, one value of it per class.
  \<^item> \<open>rssl_buf_\<close> after the calls on an iterator over it is the argument \<open>render\<close>.
  \<^item> What the worker keeps from task to task is the record \<open>worker\<close>; the strings and the message buffer it
    assigns anew for each task are values here.
  \<^item> The build is the plug-in (without \<open>CONFIG_AS_APPLICATION\<close>). An exception of the codec
    leaves the thread: \<open>Inl\<close>. A failed \<open>CHECK\<close> is logged and the code goes on: \<open>LogMessage\<close> of
    chromium/logging.cc does not end the process.
\<close>

subsection \<open>Permission data\<close>

definition permdata_OnFlexRecord :: "('u, 'p) vhayu \<Rightarrow> (nat, 'p) view \<Rightarrow> string \<Rightarrow> string" where
  "permdata_OnFlexRecord lib v lock = c_str (v_string v (kFRFixedFields lib + 0))"

definition permdata_from :: u32 where "permdata_from = 86400 * 2"
definition permdata_till :: u32 where "permdata_till = 2147483647 - 4"

definition GetDacsLock :: "('u, 'p) vhayu \<Rightarrow> nat \<Rightarrow> string \<Rightarrow> 'u \<Rightarrow> (bool \<times> string) \<times> 'u" where
  "GetDacsLock lib handle lock u =
    (case GetFlexRecords lib handle ''PermData'' permdata_till permdata_from True 1 u of
       (None, u1) \<Rightarrow> ((False, lock), u1)
     | (Some vs, u1) \<Rightarrow> ((True, fold (permdata_OnFlexRecord lib) vs lock), u1))"

definition HexChar :: "char \<Rightarrow> u8 option" where
  "HexChar c =
    (if char_value CHR ''0'' \<le> char_value c \<and> char_value c \<le> char_value CHR ''9''
       then Some (word_of_int (char_value c - char_value CHR ''0''))
     else if char_value CHR ''a'' \<le> char_value c \<and> char_value c \<le> char_value CHR ''f''
       then Some (word_of_int (char_value c - char_value CHR ''a'' + 10))
     else if char_value CHR ''A'' \<le> char_value c \<and> char_value c \<le> char_value CHR ''F''
       then Some (word_of_int (char_value c - char_value CHR ''A'' + 10))
     else None)"

unbundle bit_operations_syntax

text \<open>Two characters to a byte; an odd one at the end is left out. A character that is no hex digit leaves the
  variable as it was: 0 before the first digit of a byte, that digit before the second.\<close>

fun asciiLockToBinary :: "string \<Rightarrow> string" where
  "asciiLockToBinary (a # b # ascii_lock) =
     (let v = (case HexChar a of None \<Rightarrow> 0 | Some d \<Rightarrow> d); w = (case HexChar b of None \<Rightarrow> v | Some d \<Rightarrow> d)
      in char_of (unat (push_bit 4 v OR w)) # asciiLockToBinary ascii_lock)"
| "asciiLockToBinary _ = []"

text \<open>The overload over a cursor.\<close>

definition GetDacsLock_cursor ::
  "('u, 'p) vhayu \<Rightarrow> string \<Rightarrow> string \<Rightarrow> 'u \<Rightarrow> (bool \<times> string) \<times> 'u" where
  "GetDacsLock_cursor lib symbol_name lock u =
    (case cursor_Open lib symbol_name 40018 permdata_from permdata_till True 1 [] u of
       (None, u1) \<Rightarrow> ((False, lock), u1)
     | (Some (cursor_status, rows), u1) \<Rightarrow>
         (if cursor_status \<noteq> 1 then (False, lock)
          else case rows of
            [] \<Rightarrow> (False, lock)
          | r # _ \<Rightarrow> (True, asciiLockToBinary (c_str (v_string r ''Permission''))), u1))"

subsection \<open>The virtual functions of the analytics\<close>

record ('s, 'u) intraday =
  Reset :: "'s \<Rightarrow> 's"
  ParseRequest :: "spec \<Rightarrow> component \<Rightarrow> 's \<Rightarrow> bool \<times> 's"
  Calculate :: "string \<Rightarrow> 's \<Rightarrow> 'u \<Rightarrow> (bool \<times> 's) \<times> 'u"
  WriteRaw :: "u16 \<Rightarrow> u32 \<Rightarrow> u16 \<Rightarrow> string \<Rightarrow> string \<Rightarrow> 's \<Rightarrow> u32 \<Rightarrow> 'u \<Rightarrow> (bool \<times> enc_iter \<times> u32) \<times> 'u"

definition bar_t :: "'u rssl \<Rightarrow> ('u, 'p) vhayu \<Rightarrow> config \<Rightarrow> ('p bar, 'u) intraday" where
  "bar_t api lib c = \<lparr>Reset = bar_Reset lib, ParseRequest = bar_ParseRequest,
     Calculate = bar_Calculate lib, WriteRaw = bar_WriteRaw api lib c\<rparr>"

definition rollup_bar_t :: "'u rssl \<Rightarrow> ('u, 'p) vhayu \<Rightarrow> config \<Rightarrow> ('p rollup, 'u) intraday" where
  "rollup_bar_t api lib c = \<lparr>Reset = rollup_Reset lib, ParseRequest = rollup_ParseRequest,
     Calculate = rollup_Calculate lib, WriteRaw = rollup_WriteRaw api lib c\<rparr>"

definition close_t :: "'u rssl \<Rightarrow> ('u, 'p) vhayu \<Rightarrow> config \<Rightarrow> ('p closing, 'u) intraday" where
  "close_t api lib c = \<lparr>Reset = close_Reset lib, ParseRequest = close_ParseRequest,
     Calculate = close_Calculate lib, WriteRaw = close_WriteRaw api lib c\<rparr>"

text \<open>The test analytic has no state.\<close>

definition test_t :: "'u rssl \<Rightarrow> ('u, 'p) vhayu \<Rightarrow> config \<Rightarrow> (unit, 'u) intraday" where
  "test_t api lib c = \<lparr>Reset = (\<lambda>s. s), ParseRequest = (\<lambda>url parsed_query s. (True, s)),
     Calculate = (\<lambda>symbol_name s u. ((True, s), u)),
     WriteRaw = (\<lambda>v token sid name lock s buflen u. test_WriteRaw api lib c v token sid name lock buflen u)\<rparr>"

subsection \<open>A task\<close>

record 'p worker =
  dacs_lock :: string
  vta_bar :: "'p bar"
  vta_rollup_bar :: "'p rollup"
  vta_close :: "'p closing"

datatype implementation = Bar | Rollup_bar | Close_only | Test

definition kErrorMalformedRequest :: string where "kErrorMalformedRequest = ''Malformed request.''"
definition kErrorNotFound :: string where "kErrorNotFound = ''Not found in SearchEngine.''"
definition kErrorPermData :: string where
  "kErrorPermData = ''Unable to retrieve permission data for item.''"
definition kErrorInternal :: string where "kErrorInternal = ''Internal error.''"

definition worker_SendReply ::
  "'u zmq \<Rightarrow> u64 \<Rightarrow> u32 \<Rightarrow> u8 list \<Rightarrow> 'u \<Rightarrow> (sbe_error + bool) \<times> 'u" where
  "worker_SendReply z handle token data u =
    (case zmq_msg_init_size z (reply_size data) u of
       (None, u1) \<Rightarrow> (Inr False, u1)
     | (Some b, u1) \<Rightarrow>
         (case encode_reply \<lparr>rp_handle = handle, rp_token = token, rp_rsslBuffer = data\<rparr> b of
            Inl e \<Rightarrow> (Inl e, u1)
          | Inr b' \<Rightarrow> (case send_or_close z b' u1 of (ok, u2) \<Rightarrow> (Inr ok, u2))))"

text \<open>The label \<open>send_reply\<close>: the \<open>n\<close> bytes that the encoder left in the buffer.\<close>

definition send_encoded ::
  "'u zmq \<Rightarrow> (enc_iter \<Rightarrow> 'u \<Rightarrow> u8 list) \<Rightarrow> request \<Rightarrow> enc_iter \<Rightarrow> u32 \<Rightarrow> 'u \<Rightarrow> (sbe_error + bool) \<times> 'u" where
  "send_encoded z render rq it n u =
    worker_SendReply z (rq_handle rq) (rq_token rq) (take (unat n) (render it u)) u"

text \<open>A close message in place of an answer. The worker gives up when it cannot encode it.\<close>

definition reply_closed ::
  "'u zmq \<Rightarrow> 'u rssl \<Rightarrow> config \<Rightarrow> (enc_iter \<Rightarrow> 'u \<Rightarrow> u8 list) \<Rightarrow> request \<Rightarrow> stream_state \<Rightarrow> state_code \<Rightarrow> string \<Rightarrow> 'u \<Rightarrow>
     (sbe_error + bool) \<times> 'u" where
  "reply_closed z api c render rq sstate code text u =
    (let name = string_of (rq_itemName rq);
         msg = close_msg (rq_token rq) (rq_serviceId rq) RSSL_DMT_MARKET_PRICE
           \<lparr>mem = name, len = length name\<rparr> (rq_useAttribInfo rq) sstate code text in
     case WriteRawClose api c (rq_rwfVersion rq) msg 4096 u of (ok, it, n, u1) \<Rightarrow>
       if \<not> ok then (Inr False, u1) else send_encoded z render rq it n u1)"

text \<open>The task on the selected analytic; also the DACS lock as it leaves it.\<close>

definition run_analytic ::
  "'u zmq \<Rightarrow> 'u rssl \<Rightarrow> ('u, 'p) vhayu \<Rightarrow> config \<Rightarrow> (enc_iter \<Rightarrow> 'u \<Rightarrow> u8 list) \<Rightarrow> ('s, 'u) intraday \<Rightarrow>
     request \<Rightarrow> spec \<Rightarrow> component \<Rightarrow> string \<Rightarrow> 's \<Rightarrow> string \<Rightarrow> 'u \<Rightarrow> ((sbe_error + bool) \<times> 's \<times> string) \<times> 'u" where
  "run_analytic z api lib c render ops rq url query_part symbol s lock u =
    (let s1 = Reset ops s;
         closed = (\<lambda>sstate code text s lock u.
           case reply_closed z api c render rq sstate code text u of (r, u') \<Rightarrow> ((r, s, lock), u')) in
     case IsSymbolExists lib (c_str symbol) u of (present, u1) \<Rightarrow>
     if \<not> present then closed RSSL_STREAM_CLOSED RSSL_SC_NOT_FOUND kErrorNotFound s1 lock u1
     else case (if is_valid query_part then ParseRequest ops url query_part s1 else (True, s1)) of (parsed_ok, s2) \<Rightarrow>
     if \<not> parsed_ok then closed RSSL_STREAM_CLOSED RSSL_SC_NOT_FOUND kErrorMalformedRequest s2 lock u1
     else case GetSymbolHandle lib (c_str symbol) u1 of (symbol_handle, u2) \<Rightarrow>
     case GetDacsLock lib symbol_handle lock u2 of ((ok, lock'), u3) \<Rightarrow>
     if \<not> ok then closed RSSL_STREAM_CLOSED RSSL_SC_NOT_ENTITLED kErrorPermData s2 lock' u3
     else case Calculate ops symbol s2 u3 of ((calculated, s3), u4) \<Rightarrow>
     if \<not> calculated then closed RSSL_STREAM_CLOSED_RECOVER RSSL_SC_ERROR kErrorInternal s3 lock' u4
     else case WriteRaw ops (rq_rwfVersion rq) (rq_token rq) (rq_serviceId rq) (string_of (rq_itemName rq)) lock' s3 4096 u4 of
       ((written, it, n), u5) \<Rightarrow>
         if \<not> written then closed RSSL_STREAM_CLOSED_RECOVER RSSL_SC_ERROR kErrorInternal s3 lock' u5
         else (case send_encoded z render rq it n u5 of (r, u6) \<Rightarrow> ((r, s3, lock'), u6)))"

definition select_implementation :: "spec \<Rightarrow> component \<Rightarrow> implementation" where
  "select_implementation url ref_part =
    (if is_valid ref_part then
       (let r = content url ref_part in
        if r = ''test'' then Test else if r = ''rollup'' then Rollup_bar else if r = ''close'' then Close_only else Bar)
     else Bar)"

definition on_implementation ::
  "'u zmq \<Rightarrow> 'u rssl \<Rightarrow> ('u, 'p) vhayu \<Rightarrow> config \<Rightarrow> (enc_iter \<Rightarrow> 'u \<Rightarrow> u8 list) \<Rightarrow> implementation \<Rightarrow>
     request \<Rightarrow> spec \<Rightarrow> component \<Rightarrow> string \<Rightarrow> 'p worker \<Rightarrow> 'u \<Rightarrow> ((sbe_error + bool) \<times> 'p worker) \<times> 'u" where
  "on_implementation z api lib c render impl rq url query_part symbol w u = (case impl of
     Bar \<Rightarrow> (case run_analytic z api lib c render (bar_t api lib c) rq url query_part symbol (vta_bar w) (dacs_lock w) u of
         ((r, s, lock), u') \<Rightarrow> ((r, w\<lparr>vta_bar := s, dacs_lock := lock\<rparr>), u'))
   | Rollup_bar \<Rightarrow> (case run_analytic z api lib c render (rollup_bar_t api lib c) rq url query_part symbol
           (vta_rollup_bar w) (dacs_lock w) u of
         ((r, s, lock), u') \<Rightarrow> ((r, w\<lparr>vta_rollup_bar := s, dacs_lock := lock\<rparr>), u'))
   | Close_only \<Rightarrow> (case run_analytic z api lib c render (close_t api lib c) rq url query_part symbol
           (vta_close w) (dacs_lock w) u of
         ((r, s, lock), u') \<Rightarrow> ((r, w\<lparr>vta_close := s, dacs_lock := lock\<rparr>), u'))
   | Test \<Rightarrow> (case run_analytic z api lib c render (test_t api lib c) rq url query_part symbol () (dacs_lock w) u of
         ((r, s, lock), u') \<Rightarrow> ((r, w\<lparr>dacs_lock := lock\<rparr>), u')))"

text \<open>\<open>OnTask\<close>, on the bytes of the message. \<open>Inr False\<close> ends the loop of the worker.\<close>

definition OnTask ::
  "'u zmq \<Rightarrow> 'u rssl \<Rightarrow> ('u, 'p) vhayu \<Rightarrow> config \<Rightarrow> (enc_iter \<Rightarrow> 'u \<Rightarrow> u8 list) \<Rightarrow> bool \<Rightarrow> u8 list \<Rightarrow>
     'p worker \<Rightarrow> 'u \<Rightarrow> ((sbe_error + bool) \<times> 'p worker) \<times> 'u" where
  "OnTask z api lib c render length_first b w u = (case decode_request length_first b of
     Inl e \<Rightarrow> ((Inl e, w), u)
   | Inr Abort_task \<Rightarrow> ((Inr False, w), u)
   | Inr (Request_task rq) \<Rightarrow>
       (let url_text = item_url (string_of (rq_itemName rq)); url = cstr url_text;
            parsed = DoParseStandardURL url (int (length url_text));
            file_name = (if is_valid (path parsed) then DoExtractFileName url (path parsed) else no_component) in
        if \<not> is_valid file_name
        then (case reply_closed z api c render rq RSSL_STREAM_CLOSED RSSL_SC_NOT_FOUND kErrorMalformedRequest u of
                (r, u') \<Rightarrow> ((r, w), u'))
        else on_implementation z api lib c render (select_implementation url (ref parsed)) rq url (query parsed)
               (content url file_name) w u))"

subsection \<open>The loop of the worker\<close>

text \<open>One turn: \<open>Inr True\<close> when the loop goes on.\<close>

definition worker_turn ::
  "'u zmq \<Rightarrow> 'u rssl \<Rightarrow> ('u, 'p) vhayu \<Rightarrow> config \<Rightarrow> (enc_iter \<Rightarrow> 'u \<Rightarrow> u8 list) \<Rightarrow> bool \<Rightarrow>
     'p worker \<times> 'u \<Rightarrow> (sbe_error + bool) \<times> 'p worker \<times> 'u" where
  "worker_turn z api lib c render length_first = (\<lambda>(w, u).
     case zmq_msg_init z u of (ok, u1) \<Rightarrow>
     if \<not> ok then (Inr False, w, u1)
     else case zmq_msg_recv z u1 of
       (None, u2) \<Rightarrow> (Inr False, w, snd (zmq_msg_close z u2))
     | (Some b, u2) \<Rightarrow> (case OnTask z api lib c render length_first b w u2 of
         ((Inl e, w'), u3) \<Rightarrow> (Inl e, w', u3)
       | ((Inr ok, w'), u3) \<Rightarrow>
           if \<not> ok then (Inr False, w', u3)
           else (case zmq_msg_close z u3 of (closed, u4) \<Rightarrow> (Inr closed, w', u4))))"

partial_function (option) MainLoop ::
  "'u zmq \<Rightarrow> 'u rssl \<Rightarrow> ('u, 'p) vhayu \<Rightarrow> config \<Rightarrow> (enc_iter \<Rightarrow> 'u \<Rightarrow> u8 list) \<Rightarrow> bool \<Rightarrow>
     'p worker \<times> 'u \<Rightarrow> ((sbe_error + bool) \<times> 'p worker \<times> 'u) option" where
  "MainLoop z api lib c render length_first s =
    (let (r, s') = worker_turn z api lib c render length_first s in
     if r = Inr True then MainLoop z api lib c render length_first s' else Some (r, s'))"

subsection \<open>What the worker relies on\<close>

text \<open>The messages sent so far, as ZeroMQ and nothing else extends them.\<close>

definition zmq_logs :: "('u \<Rightarrow> u8 list list) \<Rightarrow> 'u zmq \<Rightarrow> bool" where
  "zmq_logs log z \<longleftrightarrow> (\<forall>u.
     (\<forall>n. log (snd (zmq_msg_init_size z n u)) = log u) \<and> log (snd (zmq_msg_close z u)) = log u \<and>
     (\<forall>b ok u'. zmq_msg_send z b u = (ok, u') \<longrightarrow> log u' = (if ok then log u @ [b] else log u)))"

definition vhayu_keeps :: "('u, 'p) vhayu \<Rightarrow> ('u \<Rightarrow> bool) \<Rightarrow> bool" where
  "vhayu_keeps lib W \<longleftrightarrow> (\<forall>u. W u \<longrightarrow>
     (\<forall>s. W (snd (IsSymbolExists lib s u))) \<and> (\<forall>s. W (snd (GetSymbolHandle lib s u))) \<and>
     (\<forall>h n a b d l. W (snd (GetFlexRecords lib h n a b d l u))) \<and>
     (\<forall>s n a b d l q. W (snd (cursor_Open lib s n a b d l q u))))"

definition library_quiet :: "('u \<Rightarrow> u8 list list) \<Rightarrow> 'u rssl \<Rightarrow> ('u, 'p) vhayu \<Rightarrow> bool" where
  "library_quiet log api lib \<longleftrightarrow> (\<forall>l. keeps api (\<lambda>u. log u = l) \<and> vhayu_keeps lib (\<lambda>u. log u = l))"

lemma vhayu_log:
  assumes "library_quiet log api lib"
  shows "log (snd (IsSymbolExists lib s u)) = log u" and "log (snd (GetSymbolHandle lib s u)) = log u"
    and "log (snd (GetFlexRecords lib h n a b d l u)) = log u"
    and "log (snd (cursor_Open lib s k a b d l q u)) = log u"
proof -
  have "vhayu_keeps lib (\<lambda>v. log v = log u)" using assms unfolding library_quiet_def by blast
  then show "log (snd (IsSymbolExists lib s u)) = log u" "log (snd (GetSymbolHandle lib s u)) = log u"
    "log (snd (GetFlexRecords lib h n a b d l u)) = log u"
    "log (snd (cursor_Open lib s k a b d l q u)) = log u"
    unfolding vhayu_keeps_def by simp_all
qed

lemma api_log: "library_quiet log api lib \<Longrightarrow> keeps api (\<lambda>u. log u = l)"
  unfolding library_quiet_def by blast

text \<open>A message that the provider decodes as a reply to the request.\<close>

definition reply_to :: "request \<Rightarrow> u8 list \<Rightarrow> bool" where
  "reply_to rq b \<longleftrightarrow> (\<exists>rp. decode_reply True b = Inr rp \<and> rp_handle rp = rq_handle rq \<and> rp_token rp = rq_token rq)"

text \<open>A task that goes on has sent exactly one reply, one that stops the worker has sent none.\<close>

definition answered :: "('u \<Rightarrow> u8 list list) \<Rightarrow> request \<Rightarrow> 'u \<Rightarrow> (sbe_error + bool) \<Rightarrow> 'u \<Rightarrow> bool" where
  "answered log rq u r u' \<longleftrightarrow>
     (if r = Inr True then \<exists>b. log u' = log u @ [b] \<and> reply_to rq b else log u' = log u)"

lemma answered_after: "log u1 = log u \<Longrightarrow> answered log rq u1 r u' \<Longrightarrow> answered log rq u r u'"
  by (auto simp: answered_def split: if_splits)

lemma sent:
  assumes z: "zmq_logs log z" "sized_messages z" and run: "worker_SendReply z h t data u = (r, u')"
  shows "(\<exists>ok. r = Inr ok) \<and> (if r = Inr True then \<exists>b. log u' = log u @ [b] \<and>
      decode_reply True b = Inr \<lparr>rp_handle = h, rp_token = t, rp_rsslBuffer = take (length data mod 256) data\<rparr>
    else log u' = log u)"
proof (cases "zmq_msg_init_size z (reply_size data) u")
  case (Pair m u1)
  have l1: "log u1 = log u" using z(1) Pair unfolding zmq_logs_def by (metis snd_conv)
  show ?thesis
  proof (cases m)
    case None
    then show ?thesis using run Pair l1 by (auto simp: worker_SendReply_def)
  next
    case (Some b)
    let ?rp = "\<lparr>rp_handle = h, rp_token = t, rp_rsslBuffer = data\<rparr>"
    have "length b = reply_size (rp_rsslBuffer ?rp)" using sizedD [OF z(2)] Pair Some by simp
    then obtain b' where b': "encode_reply ?rp b = Inr b'"
      "decode_reply True b' = Inr (?rp\<lparr>rp_rsslBuffer := take (length data mod 256) data\<rparr>)"
      using reply_roundtrip_general by force
    obtain ok u2 where snd: "zmq_msg_send z b' u1 = (ok, u2)" by force
    have l2: "log u2 = (if ok then log u1 @ [b'] else log u1)" using z(1) snd unfolding zmq_logs_def by blast
    have l3: "log (snd (zmq_msg_close z u2)) = log u2" using z(1) unfolding zmq_logs_def by blast
    show ?thesis
      using run Pair Some b' snd l1 l2 l3 by (cases ok) (auto simp: worker_SendReply_def send_or_close_def)
  qed
qed

lemma answered_SendReply:
  assumes z: "zmq_logs log z" "sized_messages z"
    and run: "worker_SendReply z (rq_handle rq) (rq_token rq) data u = (r, u')"
  shows "answered log rq u r u' \<and> (\<exists>ok. r = Inr ok)"
  using sent [OF z run] by (auto simp: answered_def reply_to_def split: if_splits)

text \<open>What a close message carries.\<close>

definition close_calls :: "request \<Rightarrow> stream_state \<Rightarrow> state_code \<Rightarrow> string \<Rightarrow> enc_call list" where
  "close_calls rq st code why =
    [SetEncodeIteratorBuffer 4096,
     SetEncodeIteratorRWFVersion (rwf_major_version (rq_rwfVersion rq)) (rwf_minor_version (rq_rwfVersion rq)),
     EncodeMsg (close_msg (rq_token rq) (rq_serviceId rq) RSSL_DMT_MARKET_PRICE
       \<lparr>mem = string_of (rq_itemName rq), len = length (string_of (rq_itemName rq))\<rparr> (rq_useAttribInfo rq) st code why)]"

lemma WriteRawClose_calls:
  assumes "WriteRawClose api c v m n u = (True, it, n', u')"
  shows "it = [SetEncodeIteratorBuffer n, SetEncodeIteratorRWFVersion (rwf_major_version v) (rwf_minor_version v), EncodeMsg m]"
  using assms by (auto simp: WriteRawClose_def Let_def enc_def enc_exp_def split: prod.splits if_splits)

lemma closed_sends:
  assumes z: "zmq_logs log z" "sized_messages z" and L: "library_quiet log api lib"
    and run: "reply_closed z api c render rq st code why u = (Inr True, u')"
  shows "\<exists>m rp n u1. log u' = log u @ [m] \<and> decode_reply True m = Inr rp \<and>
    rp_handle rp = rq_handle rq \<and> rp_token rp = rq_token rq \<and>
    (let d = take n (render (close_calls rq st code why) u1) in rp_rsslBuffer rp = take (length d mod 256) d)"
proof -
  define msg where "msg = close_msg (rq_token rq) (rq_serviceId rq) RSSL_DMT_MARKET_PRICE
    \<lparr>mem = string_of (rq_itemName rq), len = length (string_of (rq_itemName rq))\<rparr> (rq_useAttribInfo rq) st code why"
  obtain ok it n u1 where w: "WriteRawClose api c (rq_rwfVersion rq) msg 4096 u = (ok, it, n, u1)"
    by (cases "WriteRawClose api c (rq_rwfVersion rq) msg 4096 u") auto
  have l: "log u1 = log u" using keeps_WriteRawClose [OF api_log [OF L] refl w] .
  have ok: ok using run w by (cases ok) (auto simp: reply_closed_def msg_def [symmetric] Let_def)
  have it: "it = close_calls rq st code why"
    using WriteRawClose_calls [of api c "rq_rwfVersion rq" msg 4096 u it n u1] w ok
    by (simp add: close_calls_def msg_def)
  have "worker_SendReply z (rq_handle rq) (rq_token rq) (take (unat n) (render it u1)) u1 = (Inr True, u')"
    using run w ok by (simp add: reply_closed_def msg_def [symmetric] Let_def send_encoded_def)
  from sent [OF z this] obtain b where "log u' = log u @ [b]" "decode_reply True b = Inr \<lparr>rp_handle = rq_handle rq,
      rp_token = rq_token rq, rp_rsslBuffer = take (length (take (unat n) (render it u1)) mod 256) (take (unat n) (render it u1))\<rparr>"
    using l by auto
  then show ?thesis unfolding it Let_def by fastforce
qed

lemma answered_closed:
  assumes z: "zmq_logs log z" "sized_messages z" and L: "library_quiet log api lib"
    and run: "reply_closed z api c render rq st code text u = (r, u')"
  shows "answered log rq u r u'" and "\<exists>ok. r = Inr ok"
proof -
  define msg where "msg = close_msg (rq_token rq) (rq_serviceId rq) RSSL_DMT_MARKET_PRICE
    \<lparr>mem = string_of (rq_itemName rq), len = length (string_of (rq_itemName rq))\<rparr> (rq_useAttribInfo rq) st code text"
  obtain ok it n u1 where w: "WriteRawClose api c (rq_rwfVersion rq) msg 4096 u = (ok, it, n, u1)"
    by (cases "WriteRawClose api c (rq_rwfVersion rq) msg 4096 u") auto
  have l: "log u1 = log u" using keeps_WriteRawClose [OF api_log [OF L] refl w] .
  have "answered log rq u r u' \<and> (\<exists>ok. r = Inr ok)"
  proof (cases ok)
    case True
    then have "send_encoded z render rq it n u1 = (r, u')"
      using run w by (simp add: reply_closed_def msg_def [symmetric] Let_def)
    then show ?thesis using answered_SendReply [OF z] answered_after [of log u1 u] l by (auto simp: send_encoded_def)
  next
    case False
    then show ?thesis using run w l by (auto simp: reply_closed_def msg_def [symmetric] Let_def answered_def)
  qed
  then show "answered log rq u r u'" "\<exists>ok. r = Inr ok" by blast+
qed

lemma keeps_write_refresh:
  assumes "keeps api W" "W u"
  shows "W (snd (write_refresh api c v m fs n u))"
proof -
  obtain ok it u1 where st: "seq_all (refresh_steps api v m fs n) ([], u) = (ok, it, u1)"
    by (cases "seq_all (refresh_steps api v m fs n) ([], u)") auto
  have "stable W (seq_all (refresh_steps api v m fs n))"
    unfolding refresh_steps_def using assms(1) by (intro stable_seq) (auto intro: stable_enc stable_enc_exp)
  then have "W u1" using st assms(2) by (auto dest: stableD)
  then show ?thesis
    using assms(2) st keepsD(10) [OF assms(1) \<open>W u1\<close>]
    by (auto simp: write_refresh_def Let_def split: prod.splits if_splits)
qed

subsection \<open>The interface of an analytic\<close>

text \<open>What the worker expects of the virtual functions: \<open>Reset\<close> forgets all that a former task left, and the
  functions that call the libraries, under the assumption \<open>env\<close> about these, leave alone what \<open>log\<close> observes.\<close>

locale analytic =
  fixes ops :: "('s, 'u) intraday" and log :: "'u \<Rightarrow> u8 list list" and env :: bool
  assumes forgets: "Reset ops s = Reset ops s'"
    and calculate_quiet: "env \<Longrightarrow> log (snd (Calculate ops symbol s u)) = log u"
    and write_quiet: "env \<Longrightarrow> log (snd (WriteRaw ops v token sid name lock s n u)) = log u"
begin

lemma fresh: "run_analytic z api lib c render ops rq url q symbol s lock u =
    run_analytic z api lib c render ops rq url q symbol s' lock u"
  unfolding run_analytic_def forgets [of s s'] ..

lemma answers:
  assumes env and z: "zmq_logs log z" "sized_messages z" and L: "library_quiet log api lib"
    and run: "run_analytic z api lib c render ops rq url q symbol s lock u = ((r, s', lock'), u')"
  shows "answered log rq u r u'" and "\<nexists>e. r = Inl e"
proof -
  define s1 where "s1 = Reset ops s"
  obtain present u1 where e1: "IsSymbolExists lib (c_str symbol) u = (present, u1)" by force
  obtain pok s2 where e2: "(if is_valid q then ParseRequest ops url q s1 else (True, s1)) = (pok, s2)" by force
  obtain h u2 where e3: "GetSymbolHandle lib (c_str symbol) u1 = (h, u2)" by force
  obtain dok l3 u3 where e4: "GetDacsLock lib h lock u2 = ((dok, l3), u3)" by (metis prod.collapse)
  obtain cok s3 u4 where e5: "Calculate ops symbol s2 u3 = ((cok, s3), u4)" by (metis prod.collapse)
  obtain wr u5 where e6: "WriteRaw ops (rq_rwfVersion rq) (rq_token rq) (rq_serviceId rq) (string_of (rq_itemName rq)) l3 s3 4096 u4 = (wr, u5)"
    by (metis prod.collapse)
  have l1: "log u1 = log u" using vhayu_log(1) [OF L, of "c_str symbol" u] e1 by simp
  have l2: "log u2 = log u" using vhayu_log(2) [OF L, of "c_str symbol" u1] e3 l1 by simp
  have l3: "log u3 = log u"
    using vhayu_log(3) [OF L, of h "''PermData''" permdata_till permdata_from True 1 u2] e4 l2
    by (auto simp: GetDacsLock_def split: prod.splits option.splits)
  have l4: "log u4 = log u" using calculate_quiet [OF assms(1), of symbol s2 u3] e5 l3 by simp
  have l5: "log u5 = log u" using write_quiet [OF assms(1)] e6 l4 by (metis snd_conv)
  have closed: "answered log rq u r u' \<and> (\<nexists>e. r = Inl e)"
    if "(case reply_closed z api c render rq st code why v of (r, u') \<Rightarrow> ((r, sx, lx), u')) = ((r, s', lock'), u')"
      "log v = log u" for st code why v sx lx
  proof -
    have "reply_closed z api c render rq st code why v = (r, u')" using that(1) by (auto split: prod.splits)
    from answered_closed [OF z L this] show ?thesis using answered_after [of log v u] that(2) by auto
  qed
  note eqs = run [unfolded run_analytic_def, folded s1_def, unfolded Let_def e1 prod.case e2 e3 e4 e5 e6]
  have "answered log rq u r u' \<and> (\<nexists>e. r = Inl e)"
  proof (cases "present \<and> pok \<and> dok \<and> cok")
    case False
    then consider "\<not> present" | "present" "\<not> pok" | "present" "pok" "\<not> dok" | "present" "pok" "dok" "\<not> cok" by blast
    then show ?thesis by cases (rule closed, use eqs l1 l3 l4 in simp, use l1 l3 l4 in simp)+
  next
    case True
    obtain ok it n where x: "wr = (ok, it, n)" by (cases wr)
    show ?thesis
      proof (cases ok)
        case False
        then show ?thesis
          using closed [where v = u5 and st = RSSL_STREAM_CLOSED_RECOVER and code = RSSL_SC_ERROR and why = kErrorInternal and sx = s3 and lx = l3] eqs True l5 x by simp
      next
        case ok: True
        then have "worker_SendReply z (rq_handle rq) (rq_token rq) (take (unat n) (render it u5)) u5 = (r, u')"
          using eqs True x by (auto simp: send_encoded_def split: prod.splits)
        from answered_SendReply [OF z this] show ?thesis using answered_after [of log u5 u] l5 by auto
    qed
  qed
  then show "answered log rq u r u'" "\<nexists>e. r = Inl e" by blast+
qed

end

text \<open>The four classes provide the interface. For those that call the libraries, \<open>env\<close> is their quietness.\<close>

lemmas analytic_defs = bar_t_def rollup_bar_t_def close_t_def test_t_def

lemma cursor_log:
  assumes "library_quiet log api lib"
  shows "cursor_Open lib s k a b d l q u = (r, u') \<Longrightarrow> log u' = log u"
  using vhayu_log(4) [OF assms, of s k a b d l q u] by simp

lemma write_log:
  assumes "library_quiet log api lib"
  shows "log (snd (write_refresh api c v m fs n u)) = log u"
  using keeps_write_refresh [OF api_log [OF assms] refl] .

interpretation bar_class: analytic "bar_t api lib c" log "library_quiet log api lib" for api lib c log
  by unfold_locales (auto simp: bar_t_def bar_Reset_def bar_Calculate_def bar_WriteRaw_def write_log
    dest: cursor_log split: prod.splits option.splits)

interpretation rollup_class: analytic "rollup_bar_t api lib c" log "library_quiet log api lib" for api lib c log
  by unfold_locales (auto simp: rollup_bar_t_def rollup_Reset_def rollup_Calculate_def rollup_WriteRaw_def write_log Let_def
    dest: cursor_log split: prod.splits option.splits)

interpretation close_class: analytic "close_t api lib c" log "library_quiet log api lib" for api lib c log
  by unfold_locales (auto simp: close_t_def close_Reset_def close_Calculate_def close_WriteRaw_def write_log
    dest: cursor_log split: prod.splits option.splits)

interpretation test_class: analytic "test_t api lib c" log "library_quiet log api lib" for api lib c log
  by unfold_locales (auto simp: test_t_def test_WriteRaw_def write_log)

subsection \<open>The name of an item\<close>

text \<open>The reference: instrument, analytic and parameters as parts of the name, without offsets.\<close>

definition item_symbol :: "string \<Rightarrow> string" where
  "item_symbol name = after_slash (strip_params (file_text (CHR ''/'' # rtrim name)))"

definition item_implementation :: "string \<Rightarrow> implementation" where
  "item_implementation name = (case ref_text (CHR ''/'' # rtrim name) of
     None \<Rightarrow> Bar
   | Some r \<Rightarrow> if r = ''test'' then Test else if r = ''rollup'' then Rollup_bar
       else if r = ''close'' then Close_only else Bar)"

lemma select_by_text:
  assumes "r = no_component \<or> 0 \<le> clen r"
  shows "select_implementation m r = (case component_text m r of None \<Rightarrow> Bar
   | Some t \<Rightarrow> if t = ''test'' then Test else if t = ''rollup'' then Rollup_bar
       else if t = ''close'' then Close_only else Bar)"
  using assms by (auto simp: select_implementation_def component_text_def is_valid_def Let_def)

text \<open>A request goes to the analytic that its name selects, with the instrument its name gives: the name is
  never malformed.\<close>

lemma OnTask_by_name:
  assumes "decode_request lf b = Inr (Request_task rq)"
  defines "name \<equiv> string_of (rq_itemName rq)"
  defines "url \<equiv> cstr (item_url name)"
  defines "q \<equiv> query (DoParseStandardURL url (int (length (item_url name))))"
  shows "OnTask z api lib c render lf b w u =
      on_implementation z api lib c render (item_implementation name) rq url q (item_symbol name) w u"
    and "component_text url q = query_text (CHR ''/'' # rtrim name)"
    and "q = no_component \<or> 0 \<le> clen q"
proof -
  let ?p = "DoParseStandardURL url (int (length (item_url name)))"
  note u = item_url_parse [of name, folded url_def]
  have v: "is_valid (path ?p)" using u(2) by (simp add: is_valid_def)
  have f: "is_valid (DoExtractFileName url (path ?p))"
    using file_name_text(2) [OF u(2), of url] by (simp add: is_valid_def)
  have s: "content url (DoExtractFileName url (path ?p)) = item_symbol name"
    using file_name_text(1) [OF u(2)] u(3) by (simp add: item_symbol_def)
  have i: "select_implementation url (ref ?p) = item_implementation name"
    using select_by_text [OF u(8)] u(5) by (simp add: item_implementation_def)
  show "OnTask z api lib c render lf b w u =
      on_implementation z api lib c render (item_implementation name) rq url q (item_symbol name) w u"
    using v f by (simp add: OnTask_def assms(1) name_def [symmetric] url_def [symmetric] Let_def s i q_def)
  show "component_text url q = query_text (CHR ''/'' # rtrim name)" using u(4) by (simp add: q_def)
  show "q = no_component \<or> 0 \<le> clen q" using u(7) by (simp add: q_def)
qed

subsection \<open>Tasks in sequence\<close>

lemma on_implementation_answers:
  assumes "zmq_logs log z" "sized_messages z" "library_quiet log api lib"
    and run: "on_implementation z api lib c render impl rq url q symbol w u = ((r, w'), u')"
  shows "answered log rq u r u' \<and> (\<nexists>e. r = Inl e)"
proof (cases impl)
  case Bar
  then obtain s lock where "run_analytic z api lib c render (bar_t api lib c) rq url q symbol (vta_bar w) (dacs_lock w) u = ((r, s, lock), u')"
    using run by (auto simp: on_implementation_def split: prod.splits)
  from bar_class.answers [OF assms(3,1,2,3) this] show ?thesis by blast
next
  case Rollup_bar
  then obtain s lock where "run_analytic z api lib c render (rollup_bar_t api lib c) rq url q symbol (vta_rollup_bar w) (dacs_lock w) u = ((r, s, lock), u')"
    using run by (auto simp: on_implementation_def split: prod.splits)
  from rollup_class.answers [OF assms(3,1,2,3) this] show ?thesis by blast
next
  case Close_only
  then obtain s lock where "run_analytic z api lib c render (close_t api lib c) rq url q symbol (vta_close w) (dacs_lock w) u = ((r, s, lock), u')"
    using run by (auto simp: on_implementation_def split: prod.splits)
  from close_class.answers [OF assms(3,1,2,3) this] show ?thesis by blast
next
  case Test
  then obtain s lock where "run_analytic z api lib c render (test_t api lib c) rq url q symbol () (dacs_lock w) u = ((r, s, lock), u')"
    using run by (auto simp: on_implementation_def split: prod.splits)
  from test_class.answers [OF assms(3,1,2,3) this] show ?thesis by blast
qed

text \<open>What a task leaves for the next one is the DACS lock alone.\<close>

lemma on_implementation_fresh:
  assumes "dacs_lock w1 = dacs_lock w2"
    and "on_implementation z api lib c render impl rq url q symbol w1 u = ((r1, w1'), u1)"
    and "on_implementation z api lib c render impl rq url q symbol w2 u = ((r2, w2'), u2)"
  shows "r1 = r2 \<and> dacs_lock w1' = dacs_lock w2' \<and> u1 = u2"
  using assms(2,3)
  unfolding on_implementation_def assms(1) bar_class.fresh [where s = "vta_bar w1" and s' = "vta_bar w2"]
    rollup_class.fresh [where s = "vta_rollup_bar w1" and s' = "vta_rollup_bar w2"]
    close_class.fresh [where s = "vta_close w1" and s' = "vta_close w2"]
  by (auto split: implementation.splits prod.splits)

end
