(* ===== verification/Bars.thy ===== *)
theory Bars
  imports Analytics Toy_Library
begin

section \<open>What the analytics compute and encode\<close>

text \<open>The properties of the bars: their fields as functions of the trades, the roll-up of bars, the encoding of
  the refresh message, the parameters of a request. \<open>toy_vhayu\<close> is an instance of the library in which the
  hypotheses hold; prices are whole numbers there.\<close>

subsection \<open>A bar as a function of its trades\<close>

lemma prices_fold: "fold prices_add xs s = \<lparr>ps_first = fold first_add xs (ps_first s),
    ps_last = fold last_add xs (ps_last s), ps_samples = ps_samples s @ xs\<rparr>"
  by (induction xs arbitrary: s) (simp_all add: prices_add_def)

lemma bar_fold: "fold (\<lambda>(p, v). bar_add p v) ts b =
    b\<lparr>last_price := fold prices_add (map fst ts) (last_price b), tick_volume := tick_volume b @ map snd ts\<rparr>"
  by (induction ts arbitrary: b) (auto simp: bar_add_def)

text \<open>The fields by reference: highest, lowest, first and last price, volume and number of the trades.\<close>

definition real_price :: "('u, 'p) vhayu \<Rightarrow> 'p \<Rightarrow> prim" where
  "real_price lib x = PReal False (mantissa lib x) RSSL_RH_EXPONENT_4"

definition blank_price :: prim where "blank_price = PReal True 0 RSSL_RH_EXPONENT0"

definition trade_image :: "('u, 'p :: linorder) vhayu \<Rightarrow> ('p \<times> u64) list \<Rightarrow> field list" where
  "trade_image lib ts =
    (let ps = map fst ts; price = (\<lambda>x. if ts = [] then blank_price else real_price lib x) in
     [(12, RSSL_DT_REAL, price (Max (set ps))), (13, RSSL_DT_REAL, price (Min (set ps))),
      (19, RSSL_DT_REAL, price (hd ps)), (21, RSSL_DT_REAL, price (last ps)),
      (32, RSSL_DT_REAL, volume_real lib (sum_list (map snd ts))),
      (77, RSSL_DT_REAL, PReal False (of_nat (length ts)) RSSL_RH_EXPONENT0)])"

lemma of_nat_zero: "n < 2 ^ 64 \<Longrightarrow> (of_nat n = (0 :: u64)) = (n = 0)"
  using nat_dvd_not_less [of n "2 ^ 64"] by (auto simp: word_of_nat_eq_0_iff)

lemma bar_image:
  assumes "boost_contract lib" "length ts < 2 ^ 64" "last_price b = kNullLastPrice lib" "tick_volume b = []"
  shows "bar_fields lib (fold (\<lambda>(p, v). bar_add p v) ts b) = trade_image lib ts"
  using assms(1,3,4) of_nat_zero [OF assms(2)]
  by (auto simp: bar_fold bar_fields_def trade_image_def prices_fold kNullLastPrice_def first_of_samples
      last_of_samples boost_contract_def bar_number_trades_def bar_high_price_def bar_low_price_def
      bar_open_price_def bar_close_price_def bar_accumulated_volume_def price_real_def Let_def
      real_price_def blank_price_def hint_def hd_map last_map)

definition trades_of :: "(string, 'p) view list \<Rightarrow> ('p \<times> u64) list" where
  "trades_of rows = map (\<lambda>r. (v_double r ''LastPrice'', v_uint64 r ''TickVolume'')) rows"

subsection \<open>Bars of bars\<close>

text \<open>A row is the bar of a run of trades.\<close>

definition bar_of :: "(string, 'p :: linorder) view \<Rightarrow> ('p \<times> u64) list \<Rightarrow> bool" where
  "bar_of r ts \<longleftrightarrow> ts \<noteq> [] \<and> length ts < 2 ^ 32 \<and>
     v_double r ''Open'' = hd (map fst ts) \<and> v_double r ''Close'' = last (map fst ts) \<and>
     v_double r ''High'' = Max (set (map fst ts)) \<and> v_double r ''Low'' = Min (set (map fst ts)) \<and>
     v_uint64 r ''Volume'' = sum_list (map snd ts) \<and> v_uint32 r ''TickCount'' = of_nat (length ts)"

lemma rollup_fold: "fold rollup_add_row rows b =
    b\<lparr>rb_open := fold first_add (map (\<lambda>r. v_double r ''Open'') rows) (rb_open b),
      rb_close := fold last_add (map (\<lambda>r. v_double r ''Close'') rows) (rb_close b),
      rb_high := rb_high b @ map (\<lambda>r. v_double r ''High'') rows,
      rb_low := rb_low b @ map (\<lambda>r. v_double r ''Low'') rows,
      rb_volume := rb_volume b @ map (\<lambda>r. v_uint64 r ''Volume'') rows,
      rb_moves := rb_moves b @ map (\<lambda>r. ucast (v_uint32 r ''TickCount'')) rows\<rparr>"
  by (induction rows arbitrary: b) (simp_all add: rollup_add_row_def rollup_add_def)

lemma count_width: "n < 2 ^ 32 \<Longrightarrow> (ucast (of_nat n :: u32) :: u64) = of_nat n"
  by (simp add: unsigned_of_nat take_bit_nat_eq_self)

lemma bars_of_runs:
  assumes "list_all2 bar_of rows tss"
  shows "map (\<lambda>r. v_uint64 r ''Volume'') rows = map (\<lambda>ts. sum_list (map snd ts)) tss"
    and "map (\<lambda>r. ucast (v_uint32 r ''TickCount'') :: u64) rows = map (\<lambda>ts. of_nat (length ts)) tss"
    and "rows \<noteq> [] \<Longrightarrow> hd (map (\<lambda>r. v_double r ''Open'') rows) = hd (map fst (concat tss))"
    and "rows \<noteq> [] \<Longrightarrow> last (map (\<lambda>r. v_double r ''Close'') rows) = last (map fst (concat tss))"
    and "rows \<noteq> [] \<Longrightarrow> Max (set (map (\<lambda>r. v_double r ''High'') rows)) = Max (set (map fst (concat tss)))"
    and "rows \<noteq> [] \<Longrightarrow> Min (set (map (\<lambda>r. v_double r ''Low'') rows)) = Min (set (map fst (concat tss)))"
    and "rows = [] \<longleftrightarrow> concat tss = []"
  using assms
proof (induction rule: list_all2_induct)
  case (Cons r rows ts tss)
  have ne: "ts \<noteq> []" "set (map fst ts) \<noteq> {}" and bar: "bar_of r ts" using Cons(1) by (auto simp: bar_of_def)
  have emp: "rows = [] \<longleftrightarrow> concat tss = []" by (rule Cons(9))
  { case 1 then show ?case using bar Cons(3) by (simp add: bar_of_def) }
  { case 2 then show ?case using bar Cons(4) by (simp add: bar_of_def count_width) }
  { case 3 then show ?case using bar ne(1) by (simp add: bar_of_def hd_map hd_append) }
  { case 4 then show ?case using bar ne(1) Cons(6) emp
      by (cases "rows = []") (auto simp: bar_of_def last_map last_append simp del: concat_eq_Nil_conv) }
  { case 5
    show ?case
    proof (cases "rows = []")
      case True then show ?thesis using bar emp by (simp add: bar_of_def del: set_concat concat_eq_Nil_conv)
    next
      case False
      then have "set (map fst (concat tss)) \<noteq> {}" using emp by (simp del: concat_eq_Nil_conv set_concat)
      then show ?thesis using bar False Cons(7) ne(2) by (simp add: bar_of_def Max.union image_Un del: set_concat)
    qed }
  { case 6
    show ?case
    proof (cases "rows = []")
      case True then show ?thesis using bar emp by (simp add: bar_of_def del: set_concat concat_eq_Nil_conv)
    next
      case False
      then have "set (map fst (concat tss)) \<noteq> {}" using emp by (simp del: concat_eq_Nil_conv set_concat)
      then show ?thesis using bar False Cons(8) ne(2) by (simp add: bar_of_def Min.union image_Un del: set_concat)
    qed }
  { case 7 then show ?case using ne(1) by simp }
qed simp_all

lemma rollup_image:
  assumes L: "boost_contract lib" and bars: "list_all2 bar_of rows tss" and n: "length (concat tss) < 2 ^ 64"
    and b: "rb_open b = first_init z" "rb_close b = last_init z'" "rb_high b = []" "rb_low b = []"
      "rb_volume b = []" "rb_moves b = []"
  shows "rollup_fields lib (fold rollup_add_row rows b) = trade_image lib (concat tss)"
proof -
  note t = bars_of_runs [OF bars]
  have moves: "sum_list (map (\<lambda>ts. of_nat (length ts) :: u64) tss) = of_nat (length (concat tss))"
    by (induction tss) simp_all
  have vol: "sum_list (map (\<lambda>ts. sum_list (map snd ts)) tss) = sum_list (map snd (concat tss))"
    by (induction tss) simp_all
  have count: "acc_sum lib (rb_moves (fold rollup_add_row rows b)) = of_nat (length (concat tss))"
    "acc_sum lib (rb_volume (fold rollup_add_row rows b)) = sum_list (map snd (concat tss))"
    using L by (simp_all add: rollup_fold b boost_contract_def t(1,2) moves vol)
  show ?thesis
  proof (cases "rows = []")
    case True
    then have "concat tss = []" using t(7) by blast
    then show ?thesis
      unfolding rollup_fields_def Let_def count
      by (simp add: trade_image_def price_real_def blank_price_def del: concat_eq_Nil_conv)
  next
    case False
    have ne: "concat tss \<noteq> []" using t(7) False by blast
    then have nz: "(of_nat (length (concat tss)) :: u64) \<noteq> 0" using of_nat_zero [OF n] by (simp del: concat_eq_Nil_conv)
    have p: "acc_max lib (rb_high (fold rollup_add_row rows b)) = Max (set (map fst (concat tss)))"
      "acc_min lib (rb_low (fold rollup_add_row rows b)) = Min (set (map fst (concat tss)))"
      "first (rb_open (fold rollup_add_row rows b)) = hd (map fst (concat tss))"
      "last_value (rb_close (fold rollup_add_row rows b)) = last (map fst (concat tss))"
      unfolding t(3-6) [OF False, symmetric] using L False
      by (simp_all add: rollup_fold b boost_contract_def first_of_samples last_of_samples)
    show ?thesis
      using ne nz unfolding rollup_fields_def Let_def count p
      by (simp add: trade_image_def price_real_def real_price_def hint_def Let_def del: concat_eq_Nil_conv length_concat)
  qed
qed

subsection \<open>A library at which the hypotheses hold\<close>

text \<open>Prices are whole numbers, the literal \<open>n / k\<close> is their quotient rounded down.\<close>

definition toy_vhayu ::
  "(string \<Rightarrow> bool) \<Rightarrow> (string, int) view list \<Rightarrow> (nat, int) view list \<Rightarrow> ('u, int) vhayu" where
  "toy_vhayu known rows permissions = \<lparr>
     IsSymbolExists = (\<lambda>s u. (known s, u)),
     GetSymbolHandle = (\<lambda>s u. (1, u)),
     GetFlexRecords = (\<lambda>h n a b d l u. (Some permissions, u)),
     cursor_Open = (\<lambda>s k a b d l q u. (Some (1, rows), u)),
     kFRFixedFields = 4,
     acc_count = (\<lambda>xs. of_nat (length xs)), acc_max = (\<lambda>xs. Max (set xs)), acc_min = (\<lambda>xs. Min (set xs)),
     acc_sum = sum_list,
     d_literal = (\<lambda>n k. n div k), d_mult = (*), d_plus = (+), d_floor = (\<lambda>x. x),
     d_to_int64 = word_of_int, d_of_uint64 = uint,
     rsslDoubleToReal = (\<lambda>x h. PReal False (word_of_int x) h), special_total_seconds = 0\<rparr>"

lemma toy_boost: "boost_contract (toy_vhayu known rows permissions)"
  by (simp add: boost_contract_def toy_vhayu_def)

definition trade_row :: "int \<Rightarrow> u64 \<Rightarrow> (string, int) view" where
  "trade_row price volume = \<lparr>v_double = (\<lambda>k. price), v_uint64 = (\<lambda>k. volume), v_uint32 = (\<lambda>k. 1), v_string = (\<lambda>k. [])\<rparr>"

definition sample_vhayu :: "(u8 list list, int) vhayu" where
  "sample_vhayu = toy_vhayu (\<lambda>s. True) [trade_row 5 10, trade_row 3 20] []"

lemma sample_boost: "boost_contract sample_vhayu"
  by (simp add: sample_vhayu_def toy_boost)

definition toy_bar :: "int bar" where
  "toy_bar = \<lparr>bar_open_time = Some 1, bar_close_time = None, last_price =
     \<lparr>ps_first = first_init 7, ps_last = last_init 7, ps_samples = [7]\<rparr>, tick_volume = [3]\<rparr>"

definition toy_rollup :: "int rollup" where
  "toy_rollup = \<lparr>rb_open_time = None, rb_close_time = None, rb_open = first_init 7, rb_close = last_init 7,
     rb_high = [7], rb_low = [7], rb_volume = [7], rb_moves = [7]\<rparr>"

subsection \<open>Properties\<close>

text \<open>C14: a task on the bar that gets its trades from the cursor writes their highest, lowest, first and last
  price, the sum of the volumes and the number of trades, whatever the bar held before the reset; without
  trades the four prices are blank.\<close>

theorem bar_summary:
  assumes "boost_contract lib" "length rows < 2 ^ 64" "bar_ParseRequest url q (bar_Reset lib prev) = (ok, b)"
    "cursor_Open lib symbol 40001 (to_unix_epoch lib (bar_open_time b)) (to_unix_epoch lib (bar_close_time b))
       False 0 [] u = (Some (1, rows), u1)"
  shows "\<exists>b'. bar_Calculate lib symbol b u = ((True, b'), u1) \<and> bar_fields lib b' = trade_image lib (trades_of rows)"
proof -
  have b: "last_price b = kNullLastPrice lib" "tick_volume b = []"
    using assms(3) by (auto simp: bar_ParseRequest_def bar_Reset_def split: prod.splits)
  have "fold (\<lambda>r. bar_add (v_double r ''LastPrice'') (v_uint64 r ''TickVolume'')) rows b =
      fold (\<lambda>(p, v). bar_add p v) (trades_of rows) b"
    by (simp add: trades_of_def fold_map o_def)
  then have "bar_Calculate lib symbol b u = ((True, fold (\<lambda>(p, v). bar_add p v) (trades_of rows) b), u1)"
    using assms(4) by (simp add: bar_Calculate_def)
  moreover have "bar_fields lib (fold (\<lambda>(p, v). bar_add p v) (trades_of rows) b) = trade_image lib (trades_of rows)"
    by (rule bar_image [OF assms(1) _ b]) (use assms(2) in \<open>simp add: trades_of_def\<close>)
  ultimately show ?thesis by blast
qed

theorem bar_summary_witness:
  "\<exists>b'. bar_Calculate sample_vhayu ''IBM''
      (bar_Reset sample_vhayu toy_bar) [] = ((True, b'), []) \<and>
    bar_fields sample_vhayu b' =
      trade_image sample_vhayu
        (trades_of [trade_row 5 10, trade_row 3 20])"
  by (rule bar_summary [where url = "cstr []" and q = no_component and ok = True and prev = toy_bar, OF sample_boost])
    (simp_all add: sample_vhayu_def toy_vhayu_def bar_ParseRequest_def query_loop_text pairs_text.simps)

text \<open>C5: the roll-up of bars is the bar of their trades: when each row of the cursor is the bar of a run of
  trades, the fields are those of the bar over all runs together.\<close>

theorem rollup_of_bars:
  assumes "boost_contract lib" "list_all2 bar_of rows tss" "length (concat tss) < 2 ^ 64"
    "rollup_ParseRequest url q (rollup_Reset lib prev) = (ok, b)"
    "\<And>k frm till props. cursor_Open lib symbol k frm till False 0 props u = (Some (1, rows), u1)"
  shows "\<exists>b'. rollup_Calculate lib symbol b u = ((True, b'), u1) \<and> rollup_fields lib b' = trade_image lib (concat tss)"
proof -
  have b: "rb_open b = first_init (d_literal lib 0 1)" "rb_close b = last_init (d_literal lib 0 1)" "rb_high b = []"
    "rb_low b = []" "rb_volume b = []" "rb_moves b = []"
    using assms(4) by (auto simp: rollup_ParseRequest_def rollup_Reset_def split: prod.splits)
  have "rollup_Calculate lib symbol b u = ((True, fold rollup_add_row rows b), u1)"
    using assms(5) by (simp add: rollup_Calculate_def Let_def)
  then show ?thesis using rollup_image [OF assms(1-3) b] by blast
qed

theorem rollup_of_bars_witness:
  "\<exists>b'. rollup_Calculate sample_vhayu ''IBM''
      (rollup_Reset sample_vhayu toy_rollup) [] = ((True, b'), []) \<and>
    rollup_fields sample_vhayu b' =
      trade_image sample_vhayu (concat [[(5, 10)], [(3, 20)]])"
  by (rule rollup_of_bars [where url = "cstr []" and q = no_component and ok = True and prev = toy_rollup
        and rows = "[trade_row 5 10, trade_row 3 20]", OF sample_boost])
    (simp_all add: sample_vhayu_def toy_vhayu_def rollup_ParseRequest_def query_loop_text pairs_text.simps bar_of_def trade_row_def)

subsection \<open>The encoded message\<close>

definition refresh_calls :: "u16 \<Rightarrow> rssl_msg \<Rightarrow> field list \<Rightarrow> u32 \<Rightarrow> enc_call list" where
  "refresh_calls version response fs buflen =
    [SetEncodeIteratorBuffer buflen,
     SetEncodeIteratorRWFVersion (rwf_major_version version) (rwf_major_version version),
     EncodeMsgInit response 0, EncodeFieldListInit] @
    map (\<lambda>(fid, ty, x). EncodeFieldEntry fid ty x) fs @
    [EncodeFieldListComplete, EncodeMsgComplete]"

text \<open>The library by itself, on a list of calls: how many of them it accepts before it refuses one, and its
  state then. A call that opens the message has a success code of its own.\<close>

definition success_code :: "enc_call \<Rightarrow> rssl_ret" where
  "success_code c = (case c of EncodeMsgInit m k \<Rightarrow> RSSL_RET_ENCODE_CONTAINER | _ \<Rightarrow> RSSL_RET_SUCCESS)"

fun feed :: "'u rssl \<Rightarrow> enc_iter \<Rightarrow> enc_call list \<Rightarrow> 'u \<Rightarrow> nat \<times> 'u" where
  "feed api it [] u = (0, u)"
| "feed api it (c # cs) u = (case rsslEncode api it c u of (rc, u1) \<Rightarrow>
     if rc \<noteq> success_code c then (0, u1) else (case feed api (it @ [c]) cs u1 of (k, u2) \<Rightarrow> (Suc k, u2)))"

text \<open>A reader of the calls of a complete message: the length of the buffer, the version, the message, its fields.\<close>

fun read_fields :: "enc_call list \<Rightarrow> (field list \<times> enc_call list) option" where
  "read_fields (EncodeFieldEntry fid ty x # cs) = map_option (apfst (Cons (fid, ty, x))) (read_fields cs)"
| "read_fields (EncodeFieldListComplete # cs) = Some ([], cs)"
| "read_fields _ = None"

definition read_message :: "enc_call list \<Rightarrow> (u32 \<times> u8 \<times> u8 \<times> rssl_msg \<times> field list) option" where
  "read_message cs = (case cs of
     SetEncodeIteratorBuffer n # SetEncodeIteratorRWFVersion major minor # EncodeMsgInit m k # EncodeFieldListInit # ds \<Rightarrow>
       (case read_fields ds of
          Some (fs, [EncodeMsgComplete]) \<Rightarrow> Some (n, major, minor, m, fs)
        | _ \<Rightarrow> None)
   | _ \<Rightarrow> None)"

text \<open>The message that answers a request: the snapshot of an item on the stream of the request, under its service and
  its name, complete and not to be cached, with the permission lock when there is one.\<close>

definition answers_request :: "rssl_msg \<Rightarrow> u32 \<Rightarrow> u16 \<Rightarrow> string \<Rightarrow> string \<Rightarrow> bool" where
  "answers_request m token sid name lock \<longleftrightarrow>
     msgClass m = RSSL_MC_REFRESH \<and> domainType m = RSSL_DMT_MARKET_PRICE \<and> containerType m = RSSL_DT_FIELD_LIST \<and>
     streamId m = token \<and> streamState m = RSSL_STREAM_NON_STREAMING \<and> dataState m = RSSL_DATA_OK \<and>
     {RSSL_RFMF_SOLICITED, RSSL_RFMF_REFRESH_COMPLETE, RSSL_RFMF_DO_NOT_CACHE, RSSL_RFMF_HAS_MSG_KEY} \<subseteq> msg_flags m \<and>
     {RSSL_MKF_HAS_SERVICE_ID, RSSL_MKF_HAS_NAME} \<subseteq> key_flags (msgKey m) \<and>
     key_serviceId (msgKey m) = sid \<and> cbuf_string (key_name (msgKey m)) = name \<and>
     (RSSL_RFMF_HAS_PERM_DATA \<in> msg_flags m \<longleftrightarrow> lock \<noteq> []) \<and> (lock \<noteq> [] \<longrightarrow> permData m = lock)"

text \<open>The result of an encoder that writes the fields \<open>fs\<close> into a buffer of \<open>n\<close> bytes. It makes the calls of a complete,
  well nested message up to and including the first that the library refuses. It succeeds exactly when none is
  refused and, in a build with the checks, the library finds the message valid. The length is that of the
  library on success, and left alone on failure.\<close>

definition refreshes :: "'u rssl \<Rightarrow> config \<Rightarrow> u16 \<Rightarrow> u32 \<Rightarrow> u16 \<Rightarrow> string \<Rightarrow> string \<Rightarrow> field list \<Rightarrow> u32 \<Rightarrow> 'u \<Rightarrow>
    bool \<times> enc_iter \<times> u32 \<Rightarrow> bool" where
  "refreshes api c v token sid name lock fs n u = (\<lambda>(ok, it, n').
     \<exists>cs m. read_message cs = Some (n, rwf_major_version v, rwf_major_version v, m, fs) \<and>
       answers_request m token sid name lock \<and> nest [] cs = Some [] \<and>
       (case feed api [] cs u of (k, u') \<Rightarrow>
          it = take (Suc k) cs \<and>
          (ok \<longleftrightarrow> k = length cs \<and> (dcheck_on c \<longrightarrow> fst (rsslValidateMsg api m u'))) \<and>
          n' = (if ok then rsslGetEncodedBufferLength api it u' else n)))"

lemma feed_seq: "seq_all (map (\<lambda>c. enc_exp api (success_code c) c) cs) (it, u) =
    (case feed api it cs u of (k, u') \<Rightarrow> (k = length cs, it @ take (Suc k) cs, u'))"
  by (induction cs arbitrary: it u) (auto simp: enc_exp_def split: prod.splits)

lemma refresh_steps_calls:
  "refresh_steps api v m fs n = map (\<lambda>c. enc_exp api (success_code c) c) (refresh_calls v m fs n)"
  by (auto simp: refresh_steps_def refresh_calls_def enc_def success_code_def)

lemma read_refresh:
  "read_message (refresh_calls v m fs n) = Some (n, rwf_major_version v, rwf_major_version v, m, fs)"
proof -
  have "read_fields (map (\<lambda>(fid, ty, x). EncodeFieldEntry fid ty x) fs @ [EncodeFieldListComplete, EncodeMsgComplete]) =
      Some (fs, [EncodeMsgComplete])"
    by (induction fs) auto
  then show ?thesis by (simp add: read_message_def refresh_calls_def)
qed

lemma analytic_msg_answers: "answers_request (analytic_msg token sid name lock) token sid name lock"
  by (simp add: answers_request_def analytic_msg_def Let_def init_msg_def init_key_def cbuf_string_def)

lemma nest_refresh: "nest [] (refresh_calls v m fs n) = Some []"
proof -
  have "nest [CFieldList] (map (\<lambda>(fid, ty, x). EncodeFieldEntry fid ty x) fs) = Some [CFieldList]"
    by (induction fs) auto
  then show ?thesis by (simp add: refresh_calls_def nest_append)
qed

lemma refreshes_write:
  "refreshes api c v token sid name lock fs n u
     (fst (write_refresh api c v (analytic_msg token sid name lock) fs n u))"
proof -
  let ?m = "analytic_msg token sid name lock" and ?cs = "refresh_calls v (analytic_msg token sid name lock) fs n"
  obtain k u' where k: "feed api [] ?cs u = (k, u')" by force
  have run: "seq_all (refresh_steps api v ?m fs n) ([], u) = (k = length ?cs, take (Suc k) ?cs, u')"
    unfolding refresh_steps_calls feed_seq k by simp
  show ?thesis
    unfolding refreshes_def using k read_refresh analytic_msg_answers nest_refresh
    by (auto simp: write_refresh_def run Let_def split: prod.splits intro!: exI [of _ ?cs] exI [of _ ?m])
qed

lemma close_fold: "fold (\<lambda>r. close_add (v_double r key)) rows k = k\<lparr>
    cl_first := fold first_add (map (\<lambda>r. v_double r key) rows) (cl_first k),
    cl_samples := cl_samples k @ map (\<lambda>r. v_double r key) rows\<rparr>"
  by (induction rows arbitrary: k) (simp_all add: close_add_def)

lemma close_image:
  assumes "boost_contract lib" "length rows < 2 ^ 64" "cl_first k = first_init z" "cl_samples k = []"
  shows "close_fields lib (fold (\<lambda>r. close_add (v_double r ''LastPrice'')) rows k) =
    [(21, RSSL_DT_REAL, if rows = [] then blank_price else real_price lib (v_double (hd rows) ''LastPrice''))]"
  using assms(1,3,4) of_nat_zero [OF assms(2)]
  by (simp add: close_fold close_fields_def price_real_def boost_contract_def first_of_samples blank_price_def
      real_price_def hint_def hd_map)

text \<open>C21: what a request for an analytic encodes, from the reset to the last call. Over the trades that the cursor
  yields, the bar writes the image of those trades; over bars, the roll-up writes that of the trades of the bars;
  the close writes the price of the first trade of the backward cursor, blank without one; the test image is
  fixed and without the lock. In each case the calls are those of one complete refresh message for the request, up to
  the first that the library refuses; nothing else makes the encoder stop or fail, but an invalid message in a
  build with the checks. The version of the encoder is the major number of the client's, also where the minor
  number belongs.\<close>

theorem refresh_encoding:
  assumes "boost_contract lib" "length trades < 2 ^ 64" "length (concat tss) < 2 ^ 64" "length lasts < 2 ^ 64"
    and "bar_ParseRequest url q (bar_Reset lib prev_b) = (True, b)"
    and "cursor_Open lib symbol 40001 (to_unix_epoch lib (bar_open_time b)) (to_unix_epoch lib (bar_close_time b))
      False 0 [] u = (Some (1, trades), u1)"
    and "rollup_ParseRequest url q (rollup_Reset lib prev_r) = (True, r)"
    and "width = to_unix_epoch lib (rb_close_time r) - to_unix_epoch lib (rb_open_time r) + 1"
    and "cursor_Open lib symbol 41103 (width + to_unix_epoch lib (rb_open_time r)) (width + to_unix_epoch lib (rb_close_time r))
      False 0 (''width='' @ digits_of (unat width)) u = (Some (1, bars), u2)" "list_all2 bar_of bars tss"
    and "close_ParseRequest url q (close_Reset lib prev_k) = (True, k)"
    and "cursor_Open lib symbol 40001 (to_unix_epoch lib (cl_open_time k)) (to_unix_epoch lib (cl_close_time k))
      True 1 [] u = (Some (1, lasts), u3)"
  shows "(case bar_Calculate lib symbol b u of ((ok, b'), w) \<Rightarrow> ok \<and> w = u1 \<and>
      refreshes api c v token sid name lock (trade_image lib (trades_of trades)) n w
        (fst (bar_WriteRaw api lib c v token sid name lock b' n w))) \<and>
    (case rollup_Calculate lib symbol r u of ((ok, r'), w) \<Rightarrow> ok \<and> w = u2 \<and>
      refreshes api c v token sid name lock (trade_image lib (concat tss)) n w
        (fst (rollup_WriteRaw api lib c v token sid name lock r' n w))) \<and>
    (case close_Calculate lib symbol k u of ((ok, k'), w) \<Rightarrow> ok \<and> w = u3 \<and>
      refreshes api c v token sid name lock
        [(21, RSSL_DT_REAL, if lasts = [] then blank_price else real_price lib (v_double (hd lasts) ''LastPrice''))] n w
        (fst (close_WriteRaw api lib c v token sid name lock k' n w))) \<and>
    refreshes api c v token sid name [] (test_fields lib) n u
      (fst (test_WriteRaw api lib c v token sid name lock n u))"
proof -
  have b: "last_price b = kNullLastPrice lib" "tick_volume b = []"
    using assms(5) by (auto simp: bar_ParseRequest_def bar_Reset_def split: prod.splits)
  have r: "rb_open r = first_init (d_literal lib 0 1)" "rb_close r = last_init (d_literal lib 0 1)" "rb_high r = []"
    "rb_low r = []" "rb_volume r = []" "rb_moves r = []"
    using assms(7) by (auto simp: rollup_ParseRequest_def rollup_Reset_def split: prod.splits)
  have k: "cl_first k = first_init (d_literal lib 0 1)" "cl_samples k = []"
    using assms(11) by (auto simp: close_ParseRequest_def close_Reset_def split: prod.splits)
  have 1: "bar_fields lib (fold (\<lambda>r. bar_add (v_double r ''LastPrice'') (v_uint64 r ''TickVolume'')) trades b) =
      trade_image lib (trades_of trades)"
    using bar_image [OF assms(1) _ b, of "trades_of trades"] assms(2) by (simp add: trades_of_def fold_map o_def)
  note images = 1 rollup_image [OF assms(1,10,3) r] close_image [OF assms(1,4) k]
  show ?thesis
    using assms(6,9,12)
    by (simp add: bar_Calculate_def rollup_Calculate_def close_Calculate_def Let_def assms(8) bar_WriteRaw_def
        rollup_WriteRaw_def close_WriteRaw_def test_WriteRaw_def images refreshes_write)
qed

definition sample_closing :: "int closing" where
  "sample_closing = \<lparr>cl_open_time = Some 1, cl_close_time = None, cl_first = first_init 7, cl_samples = [7]\<rparr>"

definition two_trades :: "(toy_world, int) vhayu" where
  "two_trades = toy_vhayu (\<lambda>s. True) [trade_row 5 10, trade_row 3 20] []"

lemma two_trades_boost: "boost_contract two_trades"
  by (simp add: two_trades_def toy_boost)

lemma empty_query:
  "bar_ParseRequest (cstr []) no_component b = (True, b)" "rollup_ParseRequest (cstr []) no_component r = (True, r)"
  "close_ParseRequest (cstr []) no_component k = (True, k)"
  by (simp_all add: bar_ParseRequest_def rollup_ParseRequest_def close_ParseRequest_def query_loop_text pairs_text.simps)

text \<open>Two trades, a bar and a roll-up of two bars with one of the trades each: both write the same fields.\<close>

theorem refresh_encoding_witness:
  "(case bar_Calculate two_trades ''IBM'' (bar_Reset two_trades toy_bar) (1, {0}, {}) of ((ok, b'), w) \<Rightarrow> ok \<and>
      refreshes (toy no_data init_msg) default_config 270 9 1 ''IBM'' ''lock'' (trade_image two_trades [(5, 10), (3, 20)]) 4096 w
        (fst (bar_WriteRaw (toy no_data init_msg) two_trades default_config 270 9 1 ''IBM'' ''lock'' b' 4096 w))) \<and>
   (case rollup_Calculate two_trades ''IBM'' (rollup_Reset two_trades toy_rollup) (1, {0}, {}) of ((ok, r'), w) \<Rightarrow> ok \<and>
      refreshes (toy no_data init_msg) default_config 270 9 1 ''IBM'' ''lock'' (trade_image two_trades [(5, 10), (3, 20)]) 4096 w
        (fst (rollup_WriteRaw (toy no_data init_msg) two_trades default_config 270 9 1 ''IBM'' ''lock'' r' 4096 w)))"
proof -
  let ?rows = "[trade_row 5 10, trade_row 3 20]"
  have c: "cursor_Open two_trades s k f t d l q u = (Some (1, ?rows), u)" for s k f t d l q u
    by (simp add: two_trades_def toy_vhayu_def)
  have t: "trades_of ?rows = [(5, 10), (3, 20)]" "list_all2 bar_of ?rows [[(5, 10)], [(3, 20)]]"
    by (simp_all add: trades_of_def trade_row_def bar_of_def)
  show ?thesis
    using refresh_encoding [where lib = two_trades and trades = ?rows and lasts = ?rows and bars = ?rows
        and tss = "[[(5, 10)], [(3, 20)]]" and url = "cstr []" and q = no_component and prev_b = toy_bar and prev_r = toy_rollup
        and prev_k = sample_closing and symbol = "''IBM''" and u = "(1, {0}, {})" and api = "toy no_data init_msg" and c = default_config
        and v = 270 and token = 9 and sid = 1 and name = "''IBM''" and lock = "''lock''" and n = 4096,
        OF two_trades_boost _ _ _ empty_query(1) c empty_query(2) refl c t(2) empty_query(3) c]
      t(1) by (auto split: prod.splits)
qed

subsection \<open>The parameters of a request\<close>

text \<open>The value of the last pair with a key.\<close>

definition last_of :: "string \<Rightarrow> (string \<times> string) list \<Rightarrow> string option" where
  "last_of key ps = (let qs = filter (\<lambda>p. fst p = key) ps in if qs = [] then None else Some (snd (last qs)))"

definition time_param :: "string \<Rightarrow> string \<Rightarrow> ptime \<Rightarrow> ptime" where
  "time_param key text before = (case last_of key (pairs_text text) of None \<Rightarrow> before | Some v \<Rightarrow> Some (atol (c_str v)))"

lemma last_of_snoc: "last_of key (ps @ [p]) = (if fst p = key then Some (snd p) else last_of key ps)"
  by (simp add: last_of_def Let_def)

lemma last_of_Nil [simp]: "last_of key [] = None"
  by (simp add: last_of_def)

lemma parse_times: "query_loop parse_time url q (t1, t2) =
    (time_param ''open'' (content url q) t1, time_param ''close'' (content url q) t2)"
proof -
  have "fold (\<lambda>(k, v). parse_time k v) ps (t1, t2) =
      (case last_of ''open'' ps of None \<Rightarrow> t1 | Some v \<Rightarrow> Some (atol (c_str v)),
       case last_of ''close'' ps of None \<Rightarrow> t2 | Some v \<Rightarrow> Some (atol (c_str v)))" for ps
    by (induction ps rule: rev_induct)
      (auto simp: last_of_snoc parse_time_def kOpenParameter_def kCloseParameter_def)
  then show ?thesis by (simp add: query_loop_text time_param_def)
qed

text \<open>The query of a request sets the window of the analytic: the last \<open>open\<close> and the last \<open>close\<close> parameter
  count, every other one is ignored, a parameter that is missing leaves its time unset, and no query is refused.\<close>

theorem request_window:
  "(case bar_ParseRequest url q b of (ok, b') \<Rightarrow> ok \<and>
      bar_open_time b' = time_param ''open'' (content url q) (bar_open_time b) \<and>
      bar_close_time b' = time_param ''close'' (content url q) (bar_close_time b)) \<and>
   (case rollup_ParseRequest url q r of (ok, r') \<Rightarrow> ok \<and>
      rb_open_time r' = time_param ''open'' (content url q) (rb_open_time r) \<and>
      rb_close_time r' = time_param ''close'' (content url q) (rb_close_time r)) \<and>
   (case close_ParseRequest url q k of (ok, k') \<Rightarrow> ok \<and>
      cl_open_time k' = time_param ''open'' (content url q) (cl_open_time k) \<and>
      cl_close_time k' = time_param ''close'' (content url q) (cl_close_time k))"
  by (simp add: bar_ParseRequest_def rollup_ParseRequest_def close_ParseRequest_def parse_times)

end
