(* ===== verification/Tasks.thy ===== *)
theory Tasks
  imports Worker Bars Provider
begin

section \<open>What a worker does with its tasks\<close>

text \<open>The properties of the workers, and of the path of a request from the provider through a worker and back.\<close>

subsection \<open>The loop\<close>

interpretation ml: retry_loop "MainLoop z api lib c render lf"
    "\<lambda>s. fst (worker_turn z api lib c render lf s) = Inr True"
    "\<lambda>s. snd (worker_turn z api lib c render lf s)"
    "\<lambda>s. worker_turn z api lib c render lf s" for z api lib c render lf
proof unfold_locales
  fix s
  show "MainLoop z api lib c render lf s = (if fst (worker_turn z api lib c render lf s) = Inr True
      then MainLoop z api lib c render lf (snd (worker_turn z api lib c render lf s))
      else Some (worker_turn z api lib c render lf s))"
    by (subst MainLoop.simps) (simp add: case_prod_beta Let_def)
next
  fix s r
  assume run: "MainLoop z api lib c render lf s = Some r"
  show "\<exists>n. fst (worker_turn z api lib c render lf (((\<lambda>s. snd (worker_turn z api lib c render lf s)) ^^ n) s)) \<noteq> Inr True"
  proof (rule MainLoop.raw_induct [where P = "\<lambda>z api lib c render lf s r. \<exists>n. fst (worker_turn z api lib c render lf
        (((\<lambda>s. snd (worker_turn z api lib c render lf s)) ^^ n) s)) \<noteq> Inr True", OF _ run])
    fix f z api lib c render lf s r
    assume IH: "\<And>z api lib c render lf s r. f z api lib c render lf s = Some r \<Longrightarrow>
        \<exists>n. fst (worker_turn z api lib c render lf
          (((\<lambda>s. snd (worker_turn z api lib c render lf s)) ^^ n) s)) \<noteq> Inr True"
      and eq: "(let (r, s') = worker_turn z api lib c render lf s in
        if r = Inr True then f z api lib c render lf s' else Some (r, s')) = Some r"
    let ?turn = "worker_turn z api lib c render lf"
    show "\<exists>n. fst (?turn (((\<lambda>s. snd (?turn s)) ^^ n) s)) \<noteq> Inr True"
    proof (cases "fst (?turn s) = Inr True")
      case True
      then have "f z api lib c render lf (snd (?turn s)) = Some r" using eq by (simp add: case_prod_beta Let_def)
      then obtain n where "fst (?turn (((\<lambda>s. snd (?turn s)) ^^ n) (snd (?turn s)))) \<noteq> Inr True" using IH by blast
      then show ?thesis by (intro exI [of _ "Suc n"]) (simp only: funpow_Suc_right comp_apply not_False_eq_True)
    next
      case False
      then show ?thesis by (intro exI [of _ 0]) simp
    qed
  qed
qed

text \<open>The loop of a worker returns exactly when some turn stops it: an abort request, a failed call of
  ZeroMQ, a task that could not be answered, or an exception.\<close>

theorem worker_loop_ends_iff:
  "MainLoop z api lib c render lf s \<noteq> None \<longleftrightarrow>
     (\<exists>n. fst (worker_turn z api lib c render lf (((\<lambda>s. snd (worker_turn z api lib c render lf s)) ^^ n) s)) \<noteq> Inr True)"
  by (rule ml.returns_iff)

subsection \<open>A library at which the hypotheses hold\<close>

text \<open>The state is the list of the messages sent.\<close>

definition still_api :: "u8 list list rssl" where
  "still_api = \<lparr>
     rsslAccept = (\<lambda>n u. (None, u)), rsslInitChannel = (\<lambda>h u. ((RSSL_RET_FAILURE, \<lparr>ii_fd_change = False, ii_oldSocket = 0\<rparr>), u)),
     rsslGetChannelInfo = (\<lambda>h u. (RSSL_RET_FAILURE, u)),
     rsslReadEx = (\<lambda>h u. (\<lparr>rd_rc = RSSL_RET_FAILURE, rd_buf = None, rd_bytesRead = 0, rd_uncompressedBytesRead = 0\<rparr>, u)),
     rsslWriteEx = (\<lambda>h b d u. (RSSL_RET_FAILURE, u)), rsslFlush = (\<lambda>h u. (RSSL_RET_FAILURE, u)),
     rsslPing = (\<lambda>h u. (RSSL_RET_FAILURE, u)), rsslCloseChannel = (\<lambda>h u. (RSSL_RET_FAILURE, u)),
     rsslCloseServer = (\<lambda>u. (RSSL_RET_FAILURE, u)), rsslGetBuffer = (\<lambda>h n u. (None, u)),
     rsslReleaseBuffer = (\<lambda>b u. (RSSL_RET_FAILURE, u)),
     rsslEncode = (\<lambda>it c u. (case c of EncodeMsgInit m n \<Rightarrow> RSSL_RET_ENCODE_CONTAINER | _ \<Rightarrow> RSSL_RET_SUCCESS, u)),
     rsslGetEncodedBufferLength = (\<lambda>it u. 3), rsslValidateMsg = (\<lambda>m u. (True, u)),
     rsslSetDecodeIteratorRWFVersion = (\<lambda>x y u. (RSSL_RET_FAILURE, u)),
     rsslSetDecodeIteratorBuffer = (\<lambda>b u. (RSSL_RET_FAILURE, u)), rsslDecodeMsg = (\<lambda>u. ((RSSL_RET_FAILURE, init_msg), u)),
     rsslDecodeMsgKeyAttrib = (\<lambda>u. (RSSL_RET_FAILURE, u)), rsslDecodeElementList = (\<lambda>u. ((RSSL_RET_FAILURE, []), u)),
     rsslDecodeUInt = (\<lambda>u. (RSSL_RET_FAILURE, u)),
     chan = (\<lambda>h u. \<lparr>socketId = 0, oldSocketId = 0, state = RSSL_CH_STATE_CLOSED, majorVersion = 0, minorVersion = 0,
       pingTimeout = 0, clientIP = []\<rparr>),
     universal_time = (\<lambda>u. 0), uninitialised = (\<lambda>u. 0), issued = (\<lambda>u. {})\<rparr>"

definition log_zmq :: "u8 list list zmq" where
  "log_zmq = \<lparr>zmq_msg_init_size = (\<lambda>n u. (Some (replicate n 0), u)), zmq_msg_send = (\<lambda>b u. (True, u @ [b])),
     zmq_msg_close = (\<lambda>u. (True, u)), zmq_msg_init = (\<lambda>u. (True, u)), zmq_msg_recv = (\<lambda>u. (None, u)),
     zmq_events = (\<lambda>u. (None, u)), thread_joinable = (\<lambda>w u. False), thread_join = (\<lambda>w u. u), uncaught = (\<lambda>e u. u)\<rparr>"

definition toy_render :: "enc_iter \<Rightarrow> u8 list list \<Rightarrow> u8 list" where
  "toy_render it u = [1, 2, 3, 4]"

definition toy_worker :: "int worker" where
  "toy_worker = \<lparr>dacs_lock = ''L'', vta_bar = toy_bar, vta_rollup_bar = toy_rollup,
     vta_close = \<lparr>cl_open_time = None, cl_close_time = None, cl_first = first_init 0, cl_samples = []\<rparr>\<rparr>"

lemma log_zmq_logs: "zmq_logs (\<lambda>u. u) log_zmq" "sized_messages log_zmq"
  by (simp_all add: zmq_logs_def sized_messages_def log_zmq_def)

lemma still_quiet: "library_quiet (\<lambda>u. u) still_api sample_vhayu"
  by (simp add: library_quiet_def keeps_def vhayu_keeps_def still_api_def sample_vhayu_def toy_vhayu_def)

definition sample_task :: "u8 list" where
  "sample_task = (case encode_request sample_request (replicate 31 0) of Inr b \<Rightarrow> b | Inl e \<Rightarrow> [])"

lemma sample_decoded: "decode_request True sample_task = Inr (Request_task sample_request)"
proof -
  have "length (replicate 31 (0 :: u8)) = request_size (rq_itemName sample_request)"
    by (simp add: sample_request_def request_size_def)
  then obtain b where "encode_request sample_request (replicate 31 0) = Inr b"
    "decode_request True b = Inr (Request_task (sample_request\<lparr>rq_itemName :=
       take (length (rq_itemName sample_request) mod 256) (rq_itemName sample_request)\<rparr>))"
    using request_roundtrip_general by blast
  then show ?thesis by (simp add: sample_task_def sample_request_def)
qed

subsection \<open>Properties\<close>

text \<open>C6: a request goes to the analytic that the fragment of its item name selects, for the instrument that is
  the last part of the name before any parameters, with the query of the name. The name is never found malformed,
  whatever its bytes: that branch of the worker is dead.\<close>

theorem task_by_name:
  assumes "decode_request lf b = Inr (Request_task rq)"
  shows "\<exists>url q. component_text url q = query_text (CHR ''/'' # rtrim (string_of (rq_itemName rq))) \<and>
    OnTask z api lib c render lf b w u =
      on_implementation z api lib c render (item_implementation (string_of (rq_itemName rq))) rq url q
        (item_symbol (string_of (rq_itemName rq))) w u"
  using OnTask_by_name(1,2) [OF assms] by metis

theorem task_by_name_witness:
  "\<exists>url q. component_text url q = query_text ''/TRI.N'' \<and>
    OnTask log_zmq still_api sample_vhayu default_config toy_render True sample_task toy_worker [] =
      on_implementation log_zmq still_api sample_vhayu default_config toy_render Bar sample_request url q ''TRI.N''
        toy_worker []"
proof -
  have n: "string_of (rq_itemName sample_request) = ''TRI.N''"
    using string_of_bytes_of [of "''TRI.N''"] by (simp add: sample_request_def bytes_of_def)
  have "rtrim ''TRI.N'' = ''TRI.N''" by (simp add: rtrim_def ShouldTrimFromURL_def char_value_def)
  then have "item_implementation ''TRI.N'' = Bar" "item_symbol ''TRI.N'' = ''TRI.N''" "CHR ''/'' # rtrim ''TRI.N'' = ''/TRI.N''"
    by (simp_all add: item_implementation_def ref_text_def item_symbol_def file_text_def strip_params_def
        after_slash_def IsURLSlash_def)
  then show ?thesis
    using task_by_name [OF sample_decoded, unfolded n, of log_zmq still_api sample_vhayu default_config toy_render toy_worker "[]"]
    by simp
qed

text \<open>C2: a task that lets the worker go on has sent exactly one message, a reply with the handle and the token
  of the request; a task that stops the worker has sent none, so the client is left without an answer. No
  exception of the codec ends the thread.\<close>

theorem task_answered:
  assumes "zmq_logs log z" "sized_messages z" "library_quiet log api lib"
    and "decode_request lf b = Inr (Request_task rq)" "OnTask z api lib c render lf b w u = ((r, w'), u')"
  shows "(r = Inr True \<longrightarrow> (\<exists>m rp. log u' = log u @ [m] \<and> decode_reply True m = Inr rp \<and>
      rp_handle rp = rq_handle rq \<and> rp_token rp = rq_token rq)) \<and>
    (r \<noteq> Inr True \<longrightarrow> log u' = log u) \<and> (\<nexists>e. r = Inl e)"
  using on_implementation_answers [OF assms(1-3)] OnTask_by_name(1) [OF assms(4)] assms(5)
  unfolding answered_def reply_to_def by metis

theorem task_answered_witness:
  "case OnTask log_zmq still_api sample_vhayu default_config toy_render True sample_task toy_worker [] of
     ((r, w'), u') \<Rightarrow> (r = Inr True \<longrightarrow> (\<exists>m rp. u' = [] @ [m] \<and> decode_reply True m = Inr rp \<and>
      rp_handle rp = 4096 \<and> rp_token rp = 5)) \<and> (r \<noteq> Inr True \<longrightarrow> u' = []) \<and> (\<nexists>e. r = Inl e)"
proof -
  obtain r w' u' where run: "OnTask log_zmq still_api sample_vhayu default_config toy_render True sample_task toy_worker [] =
      ((r, w'), u')" by (metis prod.collapse)
  show ?thesis using task_answered [OF log_zmq_logs still_quiet sample_decoded run] by (simp add: run sample_request_def)
qed

text \<open>C17: what a worker answers does not depend on the tasks it did before, but for the DACS lock they left.\<close>

theorem task_independent:
  assumes "dacs_lock w1 = dacs_lock w2" "decode_request lf b = Inr (Request_task rq)"
    "OnTask z api lib c render lf b w1 u = ((r1, w1'), u1)" "OnTask z api lib c render lf b w2 u = ((r2, w2'), u2)"
  shows "r1 = r2 \<and> u1 = u2 \<and> dacs_lock w1' = dacs_lock w2'"
  using on_implementation_fresh [OF assms(1) assms(3,4) [unfolded OnTask_by_name(1) [OF assms(2)]]] by blast

theorem task_independent_witness:
  "snd (OnTask log_zmq still_api sample_vhayu default_config toy_render True sample_task toy_worker []) =
   snd (OnTask log_zmq still_api sample_vhayu default_config toy_render True sample_task
     (toy_worker\<lparr>vta_bar := toy_bar\<lparr>tick_volume := [1, 2]\<rparr>\<rparr>) [])"
  using task_independent [OF _ sample_decoded, of toy_worker "toy_worker\<lparr>vta_bar := toy_bar\<lparr>tick_volume := [1, 2]\<rparr>\<rparr>"
      log_zmq still_api sample_vhayu default_config toy_render "[]"]
  by (simp add: prod_eq_iff)

subsection \<open>The lock of another instrument\<close>

text \<open>A library that has a record with the given lock where another has no record.\<close>

definition lock_view :: "string \<Rightarrow> (nat, 'p) view \<Rightarrow> (nat, 'p) view" where
  "lock_view lock v = v\<lparr>v_string := \<lambda>k. lock\<rparr>"

definition with_lock :: "(nat, 'p) view \<Rightarrow> string \<Rightarrow> ('u, 'p) vhayu \<Rightarrow> ('u, 'p) vhayu" where
  "with_lock v lock lib = lib\<lparr>GetFlexRecords := \<lambda>h n a b d l u.
     (if n = ''PermData'' then (Some [lock_view lock v], snd (GetFlexRecords lib h n a b d l u))
      else GetFlexRecords lib h n a b d l u)\<rparr>"

lemma with_lock_fields:
  "IsSymbolExists (with_lock v lock lib) = IsSymbolExists lib" "GetSymbolHandle (with_lock v lock lib) = GetSymbolHandle lib"
  by (simp_all add: with_lock_def)

lemma with_lock_ops:
  "bar_t api (with_lock v lock lib) c = bar_t api lib c" "rollup_bar_t api (with_lock v lock lib) c = rollup_bar_t api lib c"
  "close_t api (with_lock v lock lib) c = close_t api lib c" "test_t api (with_lock v lock lib) c = test_t api lib c"
proof -
  have m: "mantissa (with_lock v lock lib) = mantissa lib" "to_unix_epoch (with_lock v lock lib) = to_unix_epoch lib"
    "volume_real (with_lock v lock lib) = volume_real lib"
    by (simp_all add: fun_eq_iff mantissa_def round_half_up_def to_unix_epoch_def volume_real_def with_lock_def
        split: option.splits)
  have p: "price_real (with_lock v lock lib) = price_real lib" by (simp add: fun_eq_iff price_real_def m)
  have f: "acc_count (with_lock v lock lib) = acc_count lib" "acc_max (with_lock v lock lib) = acc_max lib"
    "acc_min (with_lock v lock lib) = acc_min lib" "acc_sum (with_lock v lock lib) = acc_sum lib"
    "d_literal (with_lock v lock lib) = d_literal lib" "cursor_Open (with_lock v lock lib) = cursor_Open lib"
    by (simp_all add: with_lock_def)
  show "bar_t api (with_lock v lock lib) c = bar_t api lib c"
    by (simp add: bar_t_def fun_eq_iff bar_Reset_def kNullLastPrice_def bar_Calculate_def bar_WriteRaw_def bar_fields_def
        bar_number_trades_def bar_high_price_def bar_low_price_def bar_accumulated_volume_def m p f)
  show "rollup_bar_t api (with_lock v lock lib) c = rollup_bar_t api lib c"
    by (simp add: rollup_bar_t_def fun_eq_iff rollup_Reset_def rollup_Calculate_def rollup_WriteRaw_def rollup_fields_def m p f)
  show "close_t api (with_lock v lock lib) c = close_t api lib c"
    by (simp add: close_t_def fun_eq_iff close_Reset_def close_Calculate_def close_WriteRaw_def close_fields_def m p f)
  show "test_t api (with_lock v lock lib) c = test_t api lib c"
    by (simp add: test_t_def fun_eq_iff test_WriteRaw_def test_fields_def m p f)
qed

lemma GetDacsLock_stale:
  assumes "\<And>h u. fst (GetFlexRecords lib h ''PermData'' permdata_till permdata_from True 1 u) = Some []"
    and "CHR 0x00 \<notin> set lock"
  shows "GetDacsLock lib h lock u = GetDacsLock (with_lock v lock lib) h lock u"
proof -
  obtain u1 where g: "GetFlexRecords lib h ''PermData'' permdata_till permdata_from True 1 u = (Some [], u1)"
    using assms(1) [of h u] by (cases "GetFlexRecords lib h ''PermData'' permdata_till permdata_from True 1 u") auto
  have "c_str lock = lock" using assms(2) unfolding c_str_def by (induction lock) auto
  then show ?thesis by (simp add: GetDacsLock_def with_lock_def g permdata_OnFlexRecord_def lock_view_def
      del: One_nat_def)
qed

lemma run_stale:
  assumes "\<And>h u. fst (GetFlexRecords lib h ''PermData'' permdata_till permdata_from True 1 u) = Some []"
    and "CHR 0x00 \<notin> set lock"
  shows "run_analytic z api (with_lock v lock lib) c render ops rq url q symbol s lock u =
    run_analytic z api lib c render ops rq url q symbol s lock u"
  unfolding run_analytic_def with_lock_fields GetDacsLock_stale [OF assms(1), where v = v, OF assms(2), symmetric] ..

text \<open>C15: an instrument without permission data is answered exactly as if the permission data of the instrument
  before it were its own: the lock is not cleared, although the code says so.\<close>

theorem stale_lock:
  assumes "\<And>h u. fst (GetFlexRecords lib h ''PermData'' permdata_till permdata_from True 1 u) = Some []"
    and "CHR 0x00 \<notin> set (dacs_lock w)"
  shows "OnTask z api lib c render lf b w u = OnTask z api (with_lock v (dacs_lock w) lib) c render lf b w u"
  unfolding OnTask_def on_implementation_def with_lock_ops run_stale [OF assms(1), where v = v, OF assms(2)] ..

theorem stale_lock_witness:
  "OnTask log_zmq still_api sample_vhayu default_config toy_render True sample_task toy_worker [] =
   OnTask log_zmq still_api
     (with_lock \<lparr>v_double = (\<lambda>k. 0), v_uint64 = (\<lambda>k. 0), v_uint32 = (\<lambda>k. 0), v_string = (\<lambda>k. [])\<rparr> ''L'' sample_vhayu)
     default_config toy_render True sample_task toy_worker []"
  using stale_lock [of sample_vhayu toy_worker log_zmq still_api default_config toy_render True sample_task "[]"
      "\<lparr>v_double = (\<lambda>k. 0), v_uint64 = (\<lambda>k. 0), v_uint32 = (\<lambda>k. 0), v_string = (\<lambda>k. [])\<rparr>"]
  by (simp add: sample_vhayu_def toy_vhayu_def toy_worker_def)

subsection \<open>From the provider to a worker and back\<close>

text \<open>C3: the worker that takes the message of an item request and goes on has sent one message, which the
  provider hands to \<open>SendReply\<close> for the channel and the stream of the request.\<close>

theorem request_answered:
  assumes "zmq_logs log z" "sized_messages z" "library_quiet log api lib"
    and "length memory = request_size (bytes_of item)" "length item \<le> 255" "h < 2 ^ 64"
    and "encode_request (request_of h version token sid item ai) memory = Inr b"
    and "OnTask z api lib c render True b w u = ((Inr True, w'), u')"
  shows "\<exists>m data. log u' = log u @ [m] \<and> OnReply True papi m p = SendReply papi h token data p"
proof -
  let ?rq = "request_of h version token sid item ai"
  have len: "length memory = request_size (rq_itemName ?rq)" "length (rq_itemName ?rq) \<le> 255"
    using assms(4,5) by (simp_all add: request_of_def bytes_of_def)
  then have "decode_request True b = Inr (Request_task (?rq\<lparr>rq_itemName :=
      take (length (rq_itemName ?rq) mod 256) (rq_itemName ?rq)\<rparr>))"
    using request_roundtrip_general [OF len(1)] assms(7) by auto
  then have d: "decode_request True b = Inr (Request_task ?rq)" using len(2) by simp
  have "answered log ?rq u (Inr True) u'"
    using on_implementation_answers [OF assms(1-3)] OnTask_by_name(1) [OF d] assms(8) by metis
  then obtain m rp where m: "log u' = log u @ [m]" "decode_reply True m = Inr rp" "rp_handle rp = of_nat h" "rp_token rp = token"
    by (auto simp: answered_def reply_to_def request_of_def)
  have "unat (of_nat h :: u64) = h" using assms(6) by (simp add: unsigned_of_nat take_bit_nat_eq_self)
  then have "OnReply True papi m p = SendReply papi h token (rp_rsslBuffer rp) p" using m(2-4) by (simp add: OnReply_def)
  then show ?thesis using m(1) by blast
qed

text \<open>At a library without instruments the worker sends a close message and goes on.\<close>

definition unknown_vhayu :: "(u8 list list, int) vhayu" where
  "unknown_vhayu = toy_vhayu (\<lambda>s. False) [] []"

lemma unknown_quiet: "library_quiet (\<lambda>u. u) still_api unknown_vhayu"
  by (simp add: library_quiet_def keeps_def vhayu_keeps_def still_api_def unknown_vhayu_def toy_vhayu_def)

lemma log_send: "fst (worker_SendReply log_zmq h t data u) = Inr True"
proof -
  let ?rp = "\<lparr>rp_handle = h, rp_token = t, rp_rsslBuffer = data\<rparr>"
  have "length (replicate (reply_size data) (0 :: u8)) = reply_size (rp_rsslBuffer ?rp)" by simp
  then obtain b where "encode_reply ?rp (replicate (reply_size data) 0) = Inr b"
    using reply_roundtrip_general by blast
  then show ?thesis by (simp add: worker_SendReply_def log_zmq_def send_or_close_def)
qed

lemma still_close: "fst (reply_closed log_zmq still_api default_config render rq st code why u) = Inr True"
  by (simp add: reply_closed_def WriteRawClose_def enc_def enc_exp_def still_api_def default_config_def Let_def
      send_encoded_def log_send)

lemma unknown_closed:
  "fst (fst (run_analytic log_zmq still_api unknown_vhayu default_config render ops rq url q symbol s lock u)) = Inr True"
  using still_close by (simp add: run_analytic_def unknown_vhayu_def toy_vhayu_def case_prod_beta)

lemma unknown_goes_on:
  "\<exists>w' u'. OnTask log_zmq still_api unknown_vhayu default_config toy_render True sample_task toy_worker [] = ((Inr True, w'), u')"
proof -
  let ?run = "OnTask log_zmq still_api unknown_vhayu default_config toy_render True sample_task toy_worker []"
  have "\<exists>impl url q symbol. ?run = on_implementation log_zmq still_api unknown_vhayu default_config toy_render impl
      sample_request url q symbol toy_worker []"
    using OnTask_by_name(1) [OF sample_decoded] by metis
  then obtain impl url q symbol where "?run = on_implementation log_zmq still_api unknown_vhayu default_config toy_render impl
      sample_request url q symbol toy_worker []" by blast
  then have "fst (fst ?run) = Inr True"
    by (simp add: on_implementation_def case_prod_beta unknown_closed split: implementation.splits)
  then show ?thesis by (metis prod.collapse)
qed

theorem request_answered_witness:
  "\<exists>w' u' m data. OnTask log_zmq still_api unknown_vhayu default_config toy_render True sample_task toy_worker [] =
      ((Inr True, w'), u') \<and> u' = [] @ [m] \<and>
    OnReply True still_api m (provider_init default_config None ({}, {}, {}) still_api []) =
      SendReply still_api 4096 5 data (provider_init default_config None ({}, {}, {}) still_api [])"
proof -
  obtain w' u' where run: "OnTask log_zmq still_api unknown_vhayu default_config toy_render True sample_task toy_worker [] =
      ((Inr True, w'), u')" using unknown_goes_on by blast
  have rq: "request_of 4096 3585 5 1 ''TRI.N'' True = sample_request"
    by (simp add: request_of_def sample_request_def bytes_of_def)
  have "length (replicate 31 (0 :: u8)) = request_size (rq_itemName sample_request)"
    by (simp add: sample_request_def request_size_def)
  then have "\<exists>b. encode_request sample_request (replicate 31 0) = Inr b" using request_roundtrip_general by blast
  then have e: "encode_request (request_of 4096 3585 5 1 ''TRI.N'' True) (replicate 31 0) = Inr sample_task"
    unfolding rq by (auto simp: sample_task_def)
  show ?thesis
    using request_answered [OF log_zmq_logs unknown_quiet _ _ _ e run] run
    by (fastforce simp: bytes_of_def request_size_def)
qed

subsection \<open>An unknown instrument\<close>

lemma run_unknown:
  assumes "IsSymbolExists lib (c_str symbol) u = (False, u1)"
  shows "fst (fst (run_analytic z api lib c render ops rq url q symbol s lock u)) =
      fst (reply_closed z api c render rq RSSL_STREAM_CLOSED RSSL_SC_NOT_FOUND kErrorNotFound u1)"
    and "snd (run_analytic z api lib c render ops rq url q symbol s lock u) =
      snd (reply_closed z api c render rq RSSL_STREAM_CLOSED RSSL_SC_NOT_FOUND kErrorNotFound u1)"
  by (simp_all add: run_analytic_def assms case_prod_beta Let_def)

text \<open>A request for an instrument that the database does not hold is answered with a message that closes its
  stream as not found, encoded for the client's version; the bytes beyond the length modulo 256 are lost.\<close>

theorem unknown_item_closed:
  assumes "zmq_logs log z" "sized_messages z" "library_quiet log api lib"
    and "decode_request lf b = Inr (Request_task rq)"
    and "\<And>u. fst (IsSymbolExists lib (c_str (item_symbol (string_of (rq_itemName rq)))) u) = False"
    and "OnTask z api lib c render lf b w u = ((Inr True, w'), u')"
  shows "\<exists>m rp n u1. log u' = log u @ [m] \<and> decode_reply True m = Inr rp \<and>
    rp_handle rp = rq_handle rq \<and> rp_token rp = rq_token rq \<and>
    (let d = take n (render (close_calls rq RSSL_STREAM_CLOSED RSSL_SC_NOT_FOUND kErrorNotFound) u1)
     in rp_rsslBuffer rp = take (length d mod 256) d)"
proof -
  define symbol where "symbol = item_symbol (string_of (rq_itemName rq))"
  obtain u1 where u1: "IsSymbolExists lib (c_str symbol) u = (False, u1)"
    using assms(5) [of u] unfolding symbol_def [symmetric] by (metis prod.collapse)
  have l: "log u1 = log u" using vhayu_log(1) [OF assms(3), of "c_str symbol" u] u1 by simp
  let ?close = "reply_closed z api c render rq RSSL_STREAM_CLOSED RSSL_SC_NOT_FOUND kErrorNotFound u1"
  have imp: "fst (fst (on_implementation z api lib c render impl rq url q symbol w u)) = fst ?close \<and>
      snd (on_implementation z api lib c render impl rq url q symbol w u) = snd ?close" for impl url q
    by (simp add: on_implementation_def case_prod_beta run_unknown [OF u1] split: implementation.splits)
  have "fst (fst (OnTask z api lib c render lf b w u)) = fst ?close \<and> snd (OnTask z api lib c render lf b w u) = snd ?close"
    unfolding OnTask_by_name(1) [OF assms(4)] symbol_def [symmetric] by (rule imp)
  then have "?close = (Inr True, u')" by (simp add: assms(6) prod_eq_iff)
  from closed_sends [OF assms(1-3) this] show ?thesis unfolding l .
qed

theorem unknown_item_closed_witness:
  "\<exists>w' u' m rp n u1. OnTask log_zmq still_api unknown_vhayu default_config toy_render True sample_task toy_worker [] =
      ((Inr True, w'), u') \<and> u' = [] @ [m] \<and> decode_reply True m = Inr rp \<and>
    rp_handle rp = rq_handle sample_request \<and> rp_token rp = rq_token sample_request \<and>
    (let d = take n (toy_render (close_calls sample_request RSSL_STREAM_CLOSED RSSL_SC_NOT_FOUND kErrorNotFound) u1)
     in rp_rsslBuffer rp = take (length d mod 256) d)"
proof -
  obtain w' u' where run: "OnTask log_zmq still_api unknown_vhayu default_config toy_render True sample_task toy_worker [] =
      ((Inr True, w'), u')" using unknown_goes_on by blast
  have "\<And>u. fst (IsSymbolExists unknown_vhayu (c_str (item_symbol (string_of (rq_itemName sample_request)))) u) = False"
    by (simp add: unknown_vhayu_def toy_vhayu_def)
  from unknown_item_closed [OF log_zmq_logs unknown_quiet sample_decoded this run] show ?thesis using run by blast
qed

end
