(* ===== verification/Affinity.thy ===== *)
theory Affinity
  imports Prelude
begin

section \<open>The processors of the workers\<close>

text \<open>
  The choice of a processor in \<open>worker_t::Initialize\<close> (worker.cc): a worker is bound to one bit of the mask of
  processors that the process may use. The search shifts a single bit and starts again at the lowest after the
  highest; whether it ends is not obvious, so it is a \<open>partial_function\<close>.
\<close>

unbundle bit_operations_syntax

text \<open>The search for the next processor that the process may use, from \<open>old_mask\<close> on.\<close>

partial_function (option) next_processor :: "u64 \<Rightarrow> u64 \<Rightarrow> u64 \<Rightarrow> u64 option" where
  "next_processor default_mask old_mask current_mask =
    (if current_mask AND default_mask = 0 then
       (let c = push_bit 1 current_mask; c' = (if c = 0 then 1 else c) in
        if c' = old_mask then Some c' else next_processor default_mask old_mask c')
     else Some current_mask)"

fun worker_mask :: "u64 \<Rightarrow> nat \<Rightarrow> u64 option" where
  "worker_mask default_mask 0 = Some 1"
| "worker_mask default_mask (Suc i) = (case worker_mask default_mask i of
     None \<Rightarrow> None | Some old_mask \<Rightarrow> next_processor default_mask old_mask (push_bit 1 old_mask))"

subsection \<open>Masks of one bit\<close>

lemma mask_available: "((2 :: u64) ^ q AND m = 0) \<longleftrightarrow> \<not> bit m q"
  by (simp add: and.commute and_exp_eq_0_iff_not_bit)

lemma mask_eq: "p < 64 \<Longrightarrow> q < 64 \<Longrightarrow> (2 :: u64) ^ p = 2 ^ q \<longleftrightarrow> p = q"
proof
  assume p: "p < 64" and "q < 64" and e: "(2 :: u64) ^ p = 2 ^ q"
  have "bit ((2 :: u64) ^ p) p" and q: "bit ((2 :: u64) ^ q) p \<longleftrightarrow> p = q" using p by (auto simp: bit_exp_iff)
  then have "bit ((2 :: u64) ^ q) p" by (simp only: e)
  then show "p = q" using q by blast
qed simp

definition rotate_mask :: "u64 \<Rightarrow> u64" where
  "rotate_mask m = (let c = push_bit 1 m in if c = 0 then 1 else c)"

lemma shift_mask: "q < 64 \<Longrightarrow> push_bit 1 ((2 :: u64) ^ q) = (if q = 63 then 0 else 2 ^ Suc q)"
proof -
  assume "q < 64"
  have "push_bit 1 ((2 :: u64) ^ q) = 2 ^ Suc q" by (simp add: push_bit_eq_mult)
  moreover have "q = 63 \<Longrightarrow> (2 :: u64) ^ Suc q = 0" by simp
  ultimately show ?thesis by auto
qed

lemma rotate: "q < 64 \<Longrightarrow> rotate_mask (2 ^ q) = 2 ^ (Suc q mod 64)"
proof -
  assume q: "q < 64"
  have "q \<noteq> 63 \<Longrightarrow> (2 :: u64) ^ Suc q \<noteq> 0"
  proof
    assume "q \<noteq> 63" and z: "(2 :: u64) ^ Suc q = 0"
    then have "bit ((2 :: u64) ^ Suc q) (Suc q)" using q by (simp add: bit_exp_iff del: power_Suc)
    then show False unfolding z by simp
  qed
  then show ?thesis using q unfolding rotate_mask_def Let_def shift_mask [OF q]
    by (cases "q = 63") (simp_all del: power_Suc)
qed

lemma next_unfold: "next_processor d old c =
    (if c AND d = 0 then if rotate_mask c = old then Some old else next_processor d old (rotate_mask c) else Some c)"
  by (subst next_processor.simps) (simp add: rotate_mask_def Let_def)

subsection \<open>The search ends\<close>

lemma around: "i < 64 \<Longrightarrow> 0 < k \<Longrightarrow> k < 64 \<Longrightarrow> (i + k) mod 64 \<noteq> (i :: nat)"
  by (cases "i + k < 64") (auto simp: mod_if)

text \<open>From the bit \<open>i\<close> on, after \<open>j\<close> steps that found nothing.\<close>

lemma search:
  assumes "j \<le> 62" "i < 64" "\<And>m. m < j \<Longrightarrow> \<not> bit d (Suc (i + m) mod 64)"
  shows "\<exists>n \<le> 63. next_processor d (2 ^ i) (2 ^ (Suc (i + j) mod 64)) = Some (2 ^ (Suc (i + n) mod 64)) \<and>
    (\<forall>m < n. \<not> bit d (Suc (i + m) mod 64)) \<and> (n = 63 \<or> bit d (Suc (i + n) mod 64))"
  using assms
proof (induction "62 - j" arbitrary: j)
  case 0
  then have j: "j = 62" by simp
  have q: "Suc (i + j) mod 64 < 64" by simp
  have r: "Suc (Suc (i + j) mod 64) mod 64 = i" using 0(3) j by (simp add: mod_Suc_eq)
  show ?case
  proof (cases "bit d (Suc (i + j) mod 64)")
    case True
    then have "next_processor d (2 ^ i) (2 ^ (Suc (i + j) mod 64)) = Some (2 ^ (Suc (i + j) mod 64))"
      by (subst next_unfold) (simp add: mask_available)
    then show ?thesis using True 0 j by (intro exI [of _ j]) auto
  next
    case False
    then have "next_processor d (2 ^ i) (2 ^ (Suc (i + j) mod 64)) = Some (2 ^ i)"
      using rotate [OF q] unfolding r by (subst next_unfold) (simp add: mask_available)
    moreover have "Suc (i + 63) mod 64 = i" using 0(3) by simp
    moreover have "\<not> bit d (Suc (i + m) mod 64)" if "m < 63" for m
      using 0(4) [of m] False j that by (cases "m = 62") auto
    ultimately show ?thesis by (intro exI [of _ 63]) simp
  qed
next
  case (Suc k)
  have q: "Suc (i + j) mod 64 < 64" by simp
  have r: "Suc (Suc (i + j) mod 64) mod 64 = Suc (i + Suc j) mod 64" by (simp add: mod_Suc_eq)
  have ne: "Suc (i + Suc j) mod 64 \<noteq> i" using around [of i "j + 2"] Suc(2-4) by simp
  show ?case
  proof (cases "bit d (Suc (i + j) mod 64)")
    case True
    then have "next_processor d (2 ^ i) (2 ^ (Suc (i + j) mod 64)) = Some (2 ^ (Suc (i + j) mod 64))"
      by (subst next_unfold) (simp add: mask_available)
    then show ?thesis using True Suc(3,5) by (intro exI [of _ j]) auto
  next
    case False
    have "next_processor d (2 ^ i) (2 ^ (Suc (i + j) mod 64)) = next_processor d (2 ^ i) (2 ^ (Suc (i + Suc j) mod 64))"
      using False rotate [OF q] ne Suc(4) unfolding r
      by (subst next_unfold) (simp add: mask_available mask_eq)
    moreover have "\<not> bit d (Suc (i + m) mod 64)" if "m < Suc j" for m
      using Suc(5) [of m] False that by (cases "m = j") auto
    ultimately show ?thesis using Suc(1) [of "Suc j"] Suc(2,4) by simp
  qed
qed

lemma some_bit: "d \<noteq> (0 :: u64) \<Longrightarrow> i < 64 \<Longrightarrow> \<exists>m \<le> 63. bit d (Suc (i + m) mod 64)"
proof -
  assume "d \<noteq> 0" and i: "i < 64"
  then obtain b where b: "bit d b" by (auto simp: bit_eq_iff)
  then have "b < 64" using bit_imp_le_length [OF b] by simp
  then show ?thesis
  proof (cases "b \<le> i")
    case True
    have "Suc (i + (b + 63 - i)) = b + 64" using i by simp
    then have "Suc (i + (b + 63 - i)) mod 64 = b" using \<open>b < 64\<close> by simp
    then show ?thesis using b True by (intro exI [of _ "b + 63 - i"]) simp
  next
    case False
    then have "Suc (i + (b - Suc i)) mod 64 = b" using \<open>b < 64\<close> by simp
    then show ?thesis using b \<open>b < 64\<close> by (intro exI [of _ "b - Suc i"]) simp
  qed
qed

lemma next_available:
  assumes "i < 64"
  shows "\<exists>p < 64. next_processor d (2 ^ i) (push_bit 1 (2 ^ i)) = Some (2 ^ p) \<and> (d \<noteq> 0 \<longrightarrow> bit d p)"
proof -
  have "next_processor d (2 ^ i) (push_bit 1 (2 ^ i)) = next_processor d (2 ^ i) (2 ^ (Suc i mod 64))"
  proof (cases "i = 63")
    case True
    have "push_bit 1 ((2 :: u64) ^ 63) = 0" "(1 :: u64) \<noteq> 2 ^ 63" "rotate_mask 0 = (1 :: u64)"
      by (simp_all add: rotate_mask_def)
    then have "next_processor d (2 ^ 63) (push_bit 1 (2 ^ 63)) = next_processor d (2 ^ 63) 1"
      by (subst next_unfold) (simp only: bit.conj_zero_left if_True if_False simp_thms split: if_split)
    then show ?thesis unfolding True by simp
  qed (use assms in \<open>simp add: mult.commute\<close>)
  moreover obtain n where n: "n \<le> 63" "next_processor d (2 ^ i) (2 ^ (Suc i mod 64)) = Some (2 ^ (Suc (i + n) mod 64))"
    "\<forall>m < n. \<not> bit d (Suc (i + m) mod 64)" "n = 63 \<or> bit d (Suc (i + n) mod 64)"
    using search [of 0 i d] assms by auto
  moreover have "d \<noteq> 0 \<Longrightarrow> bit d (Suc (i + n) mod 64)"
    using some_bit [OF _ assms] n(3,4) by (metis le_neq_implies_less)
  ultimately show ?thesis by (intro exI [of _ "Suc (i + n) mod 64"]) simp
qed

text \<open>C23: the search for the processor of a worker ends for every mask of the process and finds one bit, of a
  processor that the process may use, if there is any; but the first worker is always given the lowest one,
  whether the process may use it or not.\<close>

theorem worker_processor:
  "\<exists>p < 64. worker_mask d i = Some (2 ^ p) \<and> (i = 0 \<longrightarrow> p = 0) \<and> (0 < i \<and> d \<noteq> 0 \<longrightarrow> bit d p)"
proof (induction i)
  case 0
  show ?case by (intro exI [of _ 0]) simp
next
  case (Suc i)
  then obtain p where "p < 64" "worker_mask d i = Some (2 ^ p)" by blast
  then show ?case using next_available [of p d] by auto
qed

theorem worker_processor_witness: "\<exists>p < 64. worker_mask 6 2 = Some (2 ^ p) \<and> bit (6 :: u64) p"
  using worker_processor [of 6 2] by auto

end
