(* ===== verification/Start_Up.thy ===== *)
theory Start_Up
  imports Safety Tasks Affinity
begin

section \<open>Start and end of the process\<close>

text \<open>
  The rest of hitsuji.cc: \<open>Initialize\<close>, \<open>Reset\<close>, \<open>Start\<close>, \<open>Stop\<close>, \<open>Run\<close>, \<open>Quit\<close>; \<open>upa_t\<close> of upa.cc;
  \<open>worker_t::Initialize\<close> of worker.cc.

  \<^item> The calls into ZeroMQ, the RSSL library and the operating system that only the start makes are the fields of
    \<open>os\<close>; a call that can fail returns a flag, or \<open>None\<close>. They work on the library state \<open>a_world\<close>.
  \<^item> The smart pointers of \<open>hitsuji_t\<close> that hold something are the set \<open>owned\<close>; what has been acquired from and
    given back to the libraries is recorded in \<open>trace\<close>. A worker object also lives in the list \<open>workers\<close>, with
    its thread.
  \<^item> The threads of the process are the relation \<open>life\<close>: the thread that starts and ends the program, the
    thread of the message pump with the steps of \<open>run_step\<close>, and console events, in any order.
  \<^item> The failed \<open>CHECK\<close>s on reference counts are only logged.
\<close>

datatype resource = Zmq_context | Request_socket | Reply_socket | Upa_context | Provider_object

text \<open>What the libraries record of a resource: it was handed out, refused, given back.\<close>

datatype event = Opened resource | Refused resource | Closed resource

datatype package = Data_package | Messages_package | Transport_package

record 'u os =
  zmq_ctx_new :: "'u \<Rightarrow> bool \<times> 'u"
  zmq_ctx_set :: "'u \<Rightarrow> bool \<times> 'u"
  zmq_ctx_term :: "'u \<Rightarrow> 'u"
  zmq_socket :: "resource \<Rightarrow> 'u \<Rightarrow> bool \<times> 'u"
  zmq_bind :: "resource \<Rightarrow> 'u \<Rightarrow> bool \<times> 'u"
  zmq_connect :: "resource \<Rightarrow> 'u \<Rightarrow> bool \<times> 'u"
  zmq_close :: "resource \<Rightarrow> 'u \<Rightarrow> 'u"
  zmq_fd :: "'u \<Rightarrow> sock option \<times> 'u"
  rsslInitialize :: "'u \<Rightarrow> bool \<times> 'u"
  rsslUninitialize :: "'u \<Rightarrow> 'u"
  rsslBind :: "'u \<Rightarrow> sock option \<times> 'u"
  productVersion :: "package \<Rightarrow> string"
  UPA_LIBRARY_VERSION :: string
  new_thread :: "nat \<Rightarrow> 'u \<Rightarrow> nat option \<times> 'u"
  GetProcessAffinityMask :: "'u \<Rightarrow> u64 option"
  SetThreadAffinityMask :: "u64 \<Rightarrow> 'u \<Rightarrow> bool \<times> 'u"
  SetThreadPriority :: "'u \<Rightarrow> 'u"
  AcquireFlexRecordCursor :: "'u \<Rightarrow> bool \<times> 'u"
  fresh_memory :: "sock set \<times> sock set \<times> sock set"

text \<open>What the program is linked with.\<close>

record 'u deps =
  os_of :: "'u os"
  api_of :: "'u rssl"
  zmq_of :: "'u zmq"
  select_of :: "'u prov \<Rightarrow> 'u prov"

abbreviation delegate_of :: "'u deps \<Rightarrow> 'u delegate" where
  "delegate_of d \<equiv> hitsuji_delegate (zmq_of d)"

abbreviation read_of :: "'u deps \<Rightarrow> 'u prov \<Rightarrow> bool \<times> 'u prov" where
  "read_of d \<equiv> OnRead (zmq_of d) True (api_of d)"

record 'u app =
  a_world :: 'u
  a_cfg :: config
  mainloop_shutdown :: bool
  shutting_down :: bool
  owned :: "resource set"
  reply_fd :: "sock option"
  provider :: "'u prov option"
  workers :: "(nat \<times> bool) list"
  trace :: "event list"

definition app_init :: "config \<Rightarrow> 'u \<Rightarrow> 'u app" where
  "app_init c u = \<lparr>a_world = u, a_cfg = c, mainloop_shutdown = False, shutting_down = False, owned = {},
     reply_fd = None, provider = None, workers = [], trace = []\<rparr>"

subsection \<open>The RSSL context\<close>

definition strstr :: "string \<Rightarrow> string \<Rightarrow> bool" where
  "strstr s t \<longleftrightarrow> list_ex (\<lambda>k. take (length t) (drop k s) = t) [0..<Suc (length s)]"

definition VerifyVersion :: "'u os \<Rightarrow> bool" where
  "VerifyVersion os \<longleftrightarrow>
     (let ok = (\<lambda>p. strstr (productVersion os p) (''upa'' @ UPA_LIBRARY_VERSION os)) in
      if \<not> ok Data_package then False else if \<not> ok Messages_package then False else ok Transport_package)"

subsection \<open>Start\<close>

text \<open>A call, and a call whose result a smart pointer takes.\<close>

definition call :: "('u \<Rightarrow> bool \<times> 'u) \<Rightarrow> 'u app \<Rightarrow> bool \<times> 'u app" where
  "call f a = (case f (a_world a) of (ok, u) \<Rightarrow> (ok, a\<lparr>a_world := u\<rparr>))"

definition acquire :: "resource \<Rightarrow> ('u \<Rightarrow> bool \<times> 'u) \<Rightarrow> 'u app \<Rightarrow> bool \<times> 'u app" where
  "acquire r f a = (case f (a_world a) of (ok, u) \<Rightarrow>
     (ok, if ok then a\<lparr>a_world := u, owned := insert r (owned a), trace := trace a @ [Opened r]\<rparr>
          else a\<lparr>a_world := u, trace := trace a @ [Refused r]\<rparr>))"

definition start_fd :: "'u os \<Rightarrow> 'u app \<Rightarrow> bool \<times> 'u app" where
  "start_fd os a = (case zmq_fd os (a_world a) of (fd, u) \<Rightarrow> (fd \<noteq> None, a\<lparr>a_world := u, reply_fd := fd\<rparr>))"

text \<open>The pointer to the context is set before \<open>rsslInitialize\<close> is called.\<close>

definition start_upa :: "'u os \<Rightarrow> 'u app \<Rightarrow> bool \<times> 'u app" where
  "start_upa os a = (case rsslInitialize os (a_world a) of (ok, u) \<Rightarrow>
     (ok, a\<lparr>a_world := u, owned := insert Upa_context (owned a),
            trace := trace a @ [if ok then Opened Upa_context else Refused Upa_context]\<rparr>))"

definition start_provider :: "'u deps \<Rightarrow> 'u app \<Rightarrow> bool \<times> 'u app" where
  "start_provider d a =
    (let p = provider_init (a_cfg a) (reply_fd a) (fresh_memory (os_of d)) (api_of d) (a_world a);
         version_ok = VerifyVersion (os_of d) in
     case (if version_ok then rsslBind (os_of d) (a_world a) else (None, a_world a)) of (bound, u) \<Rightarrow>
     case Initialize_provider (api_of d) version_ok bound p of (ok, p1) \<Rightarrow>
       (ok, a\<lparr>a_world := u, owned := insert Provider_object (owned a), provider := Some (p1\<lparr>world := u\<rparr>),
              trace := trace a @ [Opened Provider_object]\<rparr>))"

definition start_worker :: "'u os \<Rightarrow> nat \<Rightarrow> 'u app \<Rightarrow> bool \<times> 'u app" where
  "start_worker os i a = (case new_thread os i (a_world a) of
     (None, u) \<Rightarrow> (False, a\<lparr>a_world := u\<rparr>)
   | (Some t, u) \<Rightarrow> (True, a\<lparr>a_world := u, workers := (t, True) # workers a\<rparr>))"

definition start_steps :: "'u deps \<Rightarrow> config \<Rightarrow> ('u app \<Rightarrow> bool \<times> 'u app) list" where
  "start_steps d c = (let os = os_of d in
     [acquire Zmq_context (zmq_ctx_new os), call (zmq_ctx_set os),
      acquire Request_socket (zmq_socket os Request_socket), call (zmq_bind os Request_socket),
      acquire Reply_socket (zmq_socket os Reply_socket), call (zmq_bind os Reply_socket),
      start_fd os, start_upa os, start_provider d] @ map (start_worker os) [0..<worker_count c])"

subsection \<open>End\<close>

definition give_back :: "resource \<Rightarrow> ('u \<Rightarrow> 'u) \<Rightarrow> 'u app \<Rightarrow> 'u app" where
  "give_back r f a =
    (if r \<in> owned a then a\<lparr>a_world := f (a_world a), owned := owned a - {r}, trace := trace a @ [Closed r]\<rparr> else a)"

text \<open>The context is terminated by its last owner: the workers have a share in it.\<close>

definition give_back_context :: "'u os \<Rightarrow> 'u app \<Rightarrow> 'u app" where
  "give_back_context os a =
    (if Zmq_context \<in> owned a \<and> list_ex snd (workers a) then a\<lparr>owned := owned a - {Zmq_context}\<rparr>
     else give_back Zmq_context (zmq_ctx_term os) a)"

definition end_provider :: "'u deps \<Rightarrow> 'u app \<Rightarrow> 'u app option" where
  "end_provider d a = (case provider a of
     None \<Rightarrow> Some a
   | Some p \<Rightarrow> (case Close_provider (api_of d) (delegate_of d) (read_of d) (select_of d) (p\<lparr>world := a_world a\<rparr>) of
       None \<Rightarrow> None
     | Some q \<Rightarrow> Some (give_back Provider_object (\<lambda>u. world q) (a\<lparr>provider := None\<rparr>))))"

text \<open>The threads are asked to end and joined. \<open>None\<close>: the shutdown does not return.\<close>

definition end_workers :: "'u zmq \<Rightarrow> 'u app \<Rightarrow> sbe_error + 'u app" where
  "end_workers z a =
    (let threads = map fst (workers a) in
     if list_ex (\<lambda>w. thread_joinable z w (a_world a)) threads then
       (case AbortWorkers z threads (a_world a) of
          (Inl e, u) \<Rightarrow> Inl e
        | (Inr ok, u) \<Rightarrow> Inr (a\<lparr>a_world := u,
            workers := (if ok then map (\<lambda>(w, held). (w, False)) (workers a) else workers a)\<rparr>))
     else Inr a)"

definition Reset_app :: "'u deps \<Rightarrow> 'u app \<Rightarrow> (sbe_error + 'u app) option" where
  "Reset_app d a = (case end_workers (zmq_of d) a of
     Inl e \<Rightarrow> Some (Inl e)
   | Inr a1 \<Rightarrow>
       (let a2 = give_back Request_socket (zmq_close (os_of d) Request_socket) a1;
            a3 = give_back Reply_socket (zmq_close (os_of d) Reply_socket) a2;
            a4 = give_back_context (os_of d) a3 in
        case end_provider d a4 of
          None \<Rightarrow> None
        | Some a5 \<Rightarrow> Some (Inr (give_back Upa_context (rsslUninitialize (os_of d)) a5))))"

definition Initialize_app :: "'u deps \<Rightarrow> 'u app \<Rightarrow> (sbe_error + bool \<times> 'u app) option" where
  "Initialize_app d a = (case seq_all (start_steps d (a_cfg a)) a of (ok, a1) \<Rightarrow>
     if ok then Some (Inr (True, a1))
     else map_option (map_sum id (Pair False)) (Reset_app d a1))"

text \<open>\<open>Start\<close>: the flag in the middle says whether the message pump was started; the result is always true.\<close>

definition Start :: "'u deps \<Rightarrow> 'u app \<Rightarrow> (sbe_error + bool \<times> bool \<times> 'u app) option" where
  "Start d a =
    (if \<not> shutting_down a
     then map_option (map_sum id (\<lambda>(ok, a1). (True, ok, a1))) (Initialize_app d a)
     else Some (Inr (True, False, a)))"

definition Quit_app :: "'u app \<Rightarrow> 'u app" where
  "Quit_app a = a\<lparr>shutting_down := True, provider := map_option Quit (provider a)\<rparr>"

subsection \<open>Start of a worker\<close>

definition set_affinity :: "'u os \<Rightarrow> nat \<Rightarrow> 'u \<Rightarrow> 'u option" where
  "set_affinity os worker_id u = (case GetProcessAffinityMask os u of
     None \<Rightarrow> Some u
   | Some default_mask \<Rightarrow> (case worker_mask default_mask worker_id of
       None \<Rightarrow> None
     | Some m \<Rightarrow> (case SetThreadAffinityMask os m u of (ok, u1) \<Rightarrow>
         Some (if ok then SetThreadPriority os u1 else u1))))"

definition worker_Initialize :: "'u os \<Rightarrow> nat \<Rightarrow> 'u \<Rightarrow> (bool \<times> 'u) option" where
  "worker_Initialize os worker_id u = map_option
     (seq_all [zmq_socket os Request_socket, zmq_connect os Request_socket,
               zmq_socket os Reply_socket, zmq_connect os Reply_socket, AcquireFlexRecordCursor os])
     (set_affinity os worker_id u)"

text \<open>The body of a worker thread.\<close>

definition worker_thread ::
  "'u deps \<Rightarrow> ('u, 'p) vhayu \<Rightarrow> config \<Rightarrow> (enc_iter \<Rightarrow> 'u \<Rightarrow> u8 list) \<Rightarrow> nat \<Rightarrow> 'p worker \<Rightarrow> 'u \<Rightarrow> 'u option" where
  "worker_thread d lib c render worker_id w u = (case worker_Initialize (os_of d) worker_id u of
     None \<Rightarrow> None
   | Some (ok, u1) \<Rightarrow>
       if ok then map_option (\<lambda>r. snd (snd r)) (MainLoop (zmq_of d) (api_of d) lib c render True (w, u1)) else Some u1)"

subsection \<open>The threads of the process\<close>

text \<open>\<open>Awaiting\<close> is the wait for the end of the message pump, in \<open>Run\<close> of the application and in \<open>Stop\<close> of the
  plug-in, which is \<open>Serving\<close> before.\<close>

datatype main_phase = Entered | Serving | Awaiting | Left

datatype pump = Not_started | Pumping phase | Pumped

inductive life :: "'u deps \<Rightarrow> bool \<Rightarrow> main_phase \<times> pump \<times> 'u app \<Rightarrow> main_phase \<times> pump \<times> 'u app \<Rightarrow> bool"
  for d application where
  start: "Start d a = Some (Inr (ok, pumping, a1)) \<Longrightarrow> life d application (Entered, Not_started, a)
    (if \<not> ok then Left else if application then Awaiting else Serving,
     if pumping then Pumping Working else Not_started,
     if pumping then a1\<lparr>provider := map_option watch_listeners (provider a1)\<rparr> else a1)"
| pumping: "provider a = Some p \<Longrightarrow> run_step (api_of d) (delegate_of d) (read_of d) (ph, p) (ph', q) \<Longrightarrow> ph' \<noteq> Stopped \<Longrightarrow>
    life d application (m, Pumping ph, a) (m, Pumping ph', a\<lparr>provider := Some q, a_world := world q\<rparr>)"
| pumped: "provider a = Some p \<Longrightarrow> run_step (api_of d) (delegate_of d) (read_of d) (ph, p) (Stopped, q) \<Longrightarrow>
    life d application (m, Pumping ph, a)
      (m, Pumped, a\<lparr>provider := Some q, a_world := world q, mainloop_shutdown := True\<rparr>)"
| stop: "\<not> application \<Longrightarrow>
    life d application (Serving, t, a) (if provider a = None then Left else Awaiting, t, Quit_app a)"
| wake: "mainloop_shutdown a \<Longrightarrow> Reset_app d a = Some (Inr a1) \<Longrightarrow> life d application (Awaiting, t, a) (Left, t, a1)"
| control: "application \<Longrightarrow> m \<noteq> Left \<Longrightarrow> life d application (m, t, a) (m, t, Quit_app a)"

inductive lives :: "'u deps \<Rightarrow> bool \<Rightarrow> 'u app \<Rightarrow> main_phase \<times> pump \<times> 'u app \<Rightarrow> bool"
  for d application a0 where
  enter: "lives d application a0 (Entered, Not_started, a0)"
| go: "lives d application a0 s \<Longrightarrow> life d application s s' \<Longrightarrow> lives d application a0 s'"

subsection \<open>What the start and the end leave alone\<close>

lemma acquire_fields [simp]:
  "mainloop_shutdown (snd (acquire r f a)) = mainloop_shutdown a" "provider (snd (acquire r f a)) = provider a"
  "workers (snd (acquire r f a)) = workers a" "reply_fd (snd (acquire r f a)) = reply_fd a"
  by (simp_all add: acquire_def case_prod_beta)

lemma call_fields [simp]:
  "mainloop_shutdown (snd (call f a)) = mainloop_shutdown a" "provider (snd (call f a)) = provider a"
  "workers (snd (call f a)) = workers a" "owned (snd (call f a)) = owned a" "trace (snd (call f a)) = trace a"
  by (simp_all add: call_def case_prod_beta)

lemma give_back_fields [simp]:
  "mainloop_shutdown (give_back r f a) = mainloop_shutdown a" "provider (give_back r f a) = provider a"
  "workers (give_back r f a) = workers a" "owned (give_back r f a) = owned a - {r}"
  by (auto simp: give_back_def)

lemma give_back_context_fields [simp]:
  "mainloop_shutdown (give_back_context os a) = mainloop_shutdown a"
  "provider (give_back_context os a) = provider a" "workers (give_back_context os a) = workers a"
  "owned (give_back_context os a) = owned a - {Zmq_context}"
  by (auto simp: give_back_context_def)

lemma end_workers_fields:
  "end_workers z a = Inr a1 \<Longrightarrow> mainloop_shutdown a1 = mainloop_shutdown a \<and> provider a1 = provider a \<and>
     owned a1 = owned a \<and> trace a1 = trace a"
  by (auto simp: end_workers_def Let_def split: if_splits prod.splits sum.splits)

lemma end_provider_fields:
  "end_provider d a = Some a1 \<Longrightarrow> mainloop_shutdown a1 = mainloop_shutdown a \<and> provider a1 = None \<and>
     workers a1 = workers a \<and>
     (if provider a = None then a1 = a else owned a1 = owned a - {Provider_object} \<and>
       trace a1 = trace a @ (if Provider_object \<in> owned a then [Closed Provider_object] else []))"
  by (auto simp: end_provider_def give_back_def split: option.splits)

lemma Reset_cases:
  assumes "Reset_app d a = Some (Inr a1)"
  obtains a2 a3 where "end_workers (zmq_of d) a = Inr a2"
    "end_provider d (give_back_context (os_of d) (give_back Reply_socket (zmq_close (os_of d) Reply_socket)
       (give_back Request_socket (zmq_close (os_of d) Request_socket) a2))) = Some a3"
    "a1 = give_back Upa_context (rsslUninitialize (os_of d)) a3"
  using assms by (auto simp: Reset_app_def Let_def split: sum.splits option.splits)

lemma Reset_shutdown:
  assumes "Reset_app d a = Some (Inr a1)"
  shows "mainloop_shutdown a1 = mainloop_shutdown a \<and> provider a1 = None"
  using assms by (rule Reset_cases) (drule end_workers_fields end_provider_fields, drule end_provider_fields, simp)

lemma start_step_shutdown:
  "f \<in> set (start_steps d c) \<Longrightarrow> mainloop_shutdown (snd (f a)) = mainloop_shutdown a"
  by (auto simp: start_steps_def Let_def start_fd_def start_upa_def start_provider_def start_worker_def
      split: prod.splits option.splits)

lemma start_steps_shutdown: "mainloop_shutdown (snd (seq_all (start_steps d c) a)) = mainloop_shutdown a"
  using seq_all_rel [of "\<lambda>s t. mainloop_shutdown t = mainloop_shutdown s" "start_steps d c" a] start_step_shutdown
  by metis

lemma map_sum_Inr: "map_sum f g z = Inr y \<longleftrightarrow> (\<exists>x. z = Inr x \<and> y = g x)"
  by (cases z) auto

lemma Initialize_cases:
  assumes "Initialize_app d a = Some (Inr (ok, a1))"
  obtains "ok" "seq_all (start_steps d (a_cfg a)) a = (True, a1)"
  | a2 where "\<not> ok" "seq_all (start_steps d (a_cfg a)) a = (False, a2)" "Reset_app d a2 = Some (Inr a1)"
  using assms by (auto simp: Initialize_app_def map_sum_Inr split: prod.splits if_splits)

lemma Initialize_shutdown:
  assumes "Initialize_app d a = Some (Inr (ok, a1))"
  shows "mainloop_shutdown a1 = mainloop_shutdown a"
  using assms by (rule Initialize_cases) (use start_steps_shutdown [of d "a_cfg a" a] in \<open>auto dest: Reset_shutdown\<close>)

lemma Start_cases:
  assumes "Start d a = Some (Inr (ok, pumping, a1))"
  obtains "shutting_down a" "ok" "\<not> pumping" "a1 = a"
  | "\<not> shutting_down a" "ok" "Initialize_app d a = Some (Inr (pumping, a1))"
  using assms by (auto simp: Start_def map_sum_Inr split: if_splits)

subsection \<open>Properties of the process\<close>

lemma Start_failed:
  assumes "shutting_down a \<or> Initialize_app d a = Some (Inr (False, a1))" "Start d a = Some (Inr (ok, pumping, a2))"
  shows "ok \<and> \<not> pumping \<and> mainloop_shutdown a2 = mainloop_shutdown a"
  using assms(2) by (rule Start_cases) (use assms(1) Initialize_shutdown in auto)

lemma failed_start_awaits:
  assumes "lives d True a0 s" "\<not> mainloop_shutdown a0" "Initialize_app d a0 = Some (Inr (False, a1))"
  shows "\<exists>m a. s = (m, Not_started, a) \<and> \<not> mainloop_shutdown a \<and>
    (m = Entered \<and> (a = a0 \<or> shutting_down a) \<or> m = Awaiting)"
  using assms(1)
proof (induction rule: lives.induct)
  case enter
  then show ?case using assms(2) by simp
next
  case (go s s')
  then obtain m a where s: "s = (m, Not_started, a)" "\<not> mainloop_shutdown a"
    "m = Entered \<and> (a = a0 \<or> shutting_down a) \<or> m = Awaiting" by blast
  from go.hyps(2) show ?case
  proof (cases rule: life.cases)
    case (start b ok pumping a2)
    then have "b = a" "shutting_down a \<or> Initialize_app d a = Some (Inr (False, a1))" using s assms(3) by auto
    then show ?thesis using Start_failed [of a d a1 ok pumping a2] start s(2) by auto
  qed (use s in \<open>auto simp: Quit_app_def\<close>)
qed

text \<open>C13: when the start of the application fails, \<open>Run\<close> never returns, neither with a failure code nor after any
  console event: \<open>Start\<close> reports success all the same, and the wait is for a message pump that was never started.\<close>

theorem failed_start_hangs:
  assumes "lives d True a0 (m, t, a)" "\<not> mainloop_shutdown a0" "Initialize_app d a0 = Some (Inr (False, a1))"
  shows "m \<noteq> Left \<and> t = Not_started"
  using failed_start_awaits [OF assms] by auto

text \<open>What every state of the process keeps.\<close>

definition in_order :: "main_phase \<times> pump \<times> 'u app \<Rightarrow> bool" where
  "in_order = (\<lambda>(m, t, a). (mainloop_shutdown a \<longrightarrow> t = Pumped) \<and> (m = Entered \<longrightarrow> t = Not_started) \<and>
     (case t of Pumping ph \<Rightarrow> provider a \<noteq> None \<and> m \<noteq> Left | _ \<Rightarrow> True))"

lemma start_provider_last:
  "seq_all (start_steps d c) a = (True, a1) \<Longrightarrow> provider a1 \<noteq> None"
proof -
  assume run: "seq_all (start_steps d c) a = (True, a1)"
  let ?ws = "map (start_worker (os_of d)) [0..<worker_count c]"
  have w: "provider (snd (seq_all ?ws b)) = provider b" for b :: "'a app"
    by (rule seq_all_rel [of "\<lambda>s t. provider t = provider s"])
      (auto simp: start_worker_def split: prod.splits option.splits)
  obtain fs where fs: "start_steps d c = fs @ [start_provider d] @ ?ws"
    by (rule that [of "butlast (take 9 (start_steps d c))"]) (simp add: start_steps_def Let_def)
  obtain b b2 where b: "start_provider d b = (True, b2)" "seq_all ?ws b2 = (True, a1)"
    using run unfolding fs seq_all_append by (auto split: prod.splits if_splits)
  then have "provider b2 \<noteq> None" by (auto simp: start_provider_def Let_def split: prod.splits)
  then show ?thesis using w [of b2] b(2) by simp
qed

lemma Start_pumping: "Start d a = Some (Inr (ok, True, a1)) \<Longrightarrow> provider a1 \<noteq> None"
  by (erule Start_cases) (auto elim: Initialize_cases dest: start_provider_last)

lemma Start_shutdown: "Start d a = Some (Inr (ok, p, a1)) \<Longrightarrow> ok \<and> mainloop_shutdown a1 = mainloop_shutdown a"
  by (erule Start_cases) (auto dest: Initialize_shutdown)

lemma in_order_life:
  assumes "life d application s s'" "in_order s"
  shows "in_order s'"
  using assms
proof (cases rule: life.cases)
  case (start a ok pumping a1)
  then show ?thesis using assms(2) Start_shutdown [OF start(3)] Start_pumping [of d a ok a1]
    by (auto simp: in_order_def)
next
  case (wake a a1 t)
  then show ?thesis using assms(2) Reset_shutdown [OF wake(4)] by (auto simp: in_order_def split: pump.splits)
qed (auto simp: in_order_def Quit_app_def split: pump.splits)

text \<open>C9: the parts of the program are never taken down under a running message pump: while it runs the provider
  exists and the main thread has not left, in the application and in the plug-in, whenever they are told to stop.\<close>

theorem pump_before_reset:
  assumes "lives d application a0 (m, Pumping ph, a)" "\<not> mainloop_shutdown a0"
  shows "provider a \<noteq> None \<and> m \<noteq> Left \<and> \<not> mainloop_shutdown a"
proof -
  have "in_order s" if "lives d application a0 s" for s
    using that
  proof induction
    case enter
    then show ?case using assms(2) by (simp add: in_order_def)
  qed (rule in_order_life)
  from this [OF assms(1)] show ?thesis by (auto simp: in_order_def)
qed

subsection \<open>What a failed start leaves\<close>

text \<open>What the smart pointers own is what has been acquired and not given back; the RSSL context, whose
  pointer is set first, is owned also when it was refused.\<close>

definition books :: "'u app \<Rightarrow> bool" where
  "books a \<longleftrightarrow> (Provider_object \<in> owned a \<longleftrightarrow> provider a \<noteq> None) \<and>
     (\<forall>r. count_list (trace a) (Closed r) = 0) \<and>
     (\<forall>r. r \<noteq> Upa_context \<longrightarrow> count_list (trace a) (Opened r) = (if r \<in> owned a then 1 else 0)) \<and>
     count_list (trace a) (Opened Upa_context) + count_list (trace a) (Refused Upa_context) =
       (if Upa_context \<in> owned a then 1 else 0)"

lemma books_cong: "owned a = owned b \<Longrightarrow> provider a = provider b \<Longrightarrow> trace a = trace b \<Longrightarrow> books a = books b"
  by (simp add: books_def)

lemma books_worker: "books (snd (start_worker os i a)) = books a"
  by (rule books_cong) (simp_all add: start_worker_def split: prod.splits option.splits)

lemma books_init: "books (app_init c u)"
  by (simp add: books_def app_init_def)

text \<open>A step keeps the books, and takes nothing beyond \<open>R'\<close> when nothing beyond \<open>R\<close> was taken before.\<close>

definition keeps_books :: "resource set \<Rightarrow> resource set \<Rightarrow> ('u app \<Rightarrow> bool \<times> 'u app) \<Rightarrow> bool" where
  "keeps_books R R' f \<longleftrightarrow> (\<forall>a. books a \<longrightarrow> owned a \<subseteq> R \<longrightarrow> books (snd (f a)) \<and> owned (snd (f a)) \<subseteq> R')"

lemma books_acquire:
  "r \<notin> R \<Longrightarrow> r \<notin> {Provider_object, Upa_context} \<Longrightarrow> keeps_books R (insert r R) (acquire r f)"
  by (auto simp: keeps_books_def books_def acquire_def split: prod.splits)

lemma books_call: "keeps_books R R (call f)"
  by (simp add: keeps_books_def books_def)

lemma books_fd: "keeps_books R R (start_fd os)"
  by (simp add: keeps_books_def books_def start_fd_def case_prod_beta)

lemma books_upa: "Upa_context \<notin> R \<Longrightarrow> keeps_books R (insert Upa_context R) (start_upa os)"
  by (auto simp: keeps_books_def books_def start_upa_def split: prod.splits)

lemma books_provider: "Provider_object \<notin> R \<Longrightarrow> keeps_books R (insert Provider_object R) (start_provider d)"
proof -
  assume R: "Provider_object \<notin> R"
  have p: "owned (snd (start_provider d a)) = insert Provider_object (owned a)" "provider (snd (start_provider d a)) \<noteq> None"
    "trace (snd (start_provider d a)) = trace a @ [Opened Provider_object]" for a
    by (simp_all add: start_provider_def Let_def case_prod_beta)
  have "books (snd (start_provider d a))" if "books a" "Provider_object \<notin> owned a" for a
    using that p(2) [of a] unfolding books_def p(1,3) by simp
  then show ?thesis using R p(1) by (auto simp: keeps_books_def)
qed

text \<open>A run of steps keeps the books when each step takes something that the steps before did not.\<close>

fun fresh_steps :: "resource set \<Rightarrow> (resource set \<times> ('u app \<Rightarrow> bool \<times> 'u app)) list \<Rightarrow> bool" where
  "fresh_steps R [] = True"
| "fresh_steps R ((R', f) # fs) = (keeps_books R R' f \<and> fresh_steps R' fs)"

lemma books_run: "fresh_steps R fs \<Longrightarrow> books a \<Longrightarrow> owned a \<subseteq> R \<Longrightarrow> books (snd (seq_all (map snd fs) a))"
proof (induction R fs arbitrary: a rule: fresh_steps.induct)
  case (2 R R' f fs)
  obtain ok b where b: "f a = (ok, b)" by (cases "f a")
  have "books (snd (f a)) \<and> owned (snd (f a)) \<subseteq> R'" using 2(2-4) by (simp add: keeps_books_def)
  then have "books b" "owned b \<subseteq> R'" using b by simp_all
  then show ?case using b 2(1,2) by simp
qed simp

lemma books_start: "books (snd (seq_all (start_steps d c) (app_init c u)))"
proof -
  let ?os = "os_of d"
  let ?R1 = "{Zmq_context}" and ?R2 = "insert Request_socket {Zmq_context}"
  let ?R3 = "insert Reply_socket ?R2"
  let ?R4 = "insert Upa_context ?R3"
  let ?fs = "[(?R1, acquire Zmq_context (zmq_ctx_new ?os)), (?R1, call (zmq_ctx_set ?os)),
    (?R2, acquire Request_socket (zmq_socket ?os Request_socket)), (?R2, call (zmq_bind ?os Request_socket)),
    (?R3, acquire Reply_socket (zmq_socket ?os Reply_socket)), (?R3, call (zmq_bind ?os Reply_socket)),
    (?R3, start_fd ?os), (?R4, start_upa ?os), (insert Provider_object ?R4, start_provider d)]"
  have f: "fresh_steps {} ?fs"
    by (simp add: books_acquire books_call books_fd books_upa books_provider)
  have s: "start_steps d c = map snd ?fs @ map (start_worker ?os) [0..<worker_count c]"
    by (simp add: start_steps_def Let_def)
  have w: "books (snd (seq_all (map (start_worker ?os) [0..<worker_count c]) b)) = books b" for b :: "'a app"
    by (rule seq_all_rel [of "\<lambda>s t. books t = books s"])
      (auto simp: books_worker)
  obtain ok b where b: "seq_all (map snd ?fs) (app_init c u) = (ok, b)" by (metis prod.exhaust)
  have "books (snd (seq_all (map snd ?fs) (app_init c u)))"
    by (rule books_run [OF f books_init]) (simp add: app_init_def)
  then have "books b" unfolding b by simp
  then show ?thesis unfolding s seq_all_append b using w [of b] by simp
qed

lemma give_back_counts:
  "count_list (trace (give_back r f a)) (Opened x) = count_list (trace a) (Opened x)"
  "count_list (trace (give_back r f a)) (Refused x) = count_list (trace a) (Refused x)"
  "count_list (trace (give_back r f a)) (Closed x) =
     count_list (trace a) (Closed x) + (if x = r \<and> r \<in> owned a then 1 else 0)"
  by (simp_all add: give_back_def)

lemma give_back_context_counts:
  "count_list (trace (give_back_context os a)) (Opened x) = count_list (trace a) (Opened x)"
  "count_list (trace (give_back_context os a)) (Refused x) = count_list (trace a) (Refused x)"
  "count_list (trace (give_back_context os a)) (Closed x) = count_list (trace a) (Closed x) +
     (if x = Zmq_context \<and> Zmq_context \<in> owned a \<and> \<not> list_ex snd (workers a) then 1 else 0)"
  by (auto simp: give_back_context_def give_back_counts)

lemma end_provider_counts:
  assumes "end_provider d a = Some a1" "Provider_object \<in> owned a \<longleftrightarrow> provider a \<noteq> None"
  shows "owned a1 = owned a - {Provider_object}"
    "count_list (trace a1) (Opened x) = count_list (trace a) (Opened x)"
    "count_list (trace a1) (Refused x) = count_list (trace a) (Refused x)"
    "count_list (trace a1) (Closed x) = count_list (trace a) (Closed x) +
       (if x = Provider_object \<and> Provider_object \<in> owned a then 1 else 0)"
  using end_provider_fields [OF assms(1)] assms(2) by (auto split: if_splits)

text \<open>C16: a failed start ends with empty pointers and no provider. Each resource was handed out at most once, and what
  was handed out is given back once, with two exceptions. The context of ZeroMQ is kept when the workers could not be
  stopped. The RSSL library is left as often as it was entered and refused together: once more than it was entered
  exactly when it refused to be initialised.\<close>

theorem failed_start_releases:
  assumes "Initialize_app d (app_init c u) = Some (Inr (False, a))"
  shows "owned a = {} \<and> provider a = None \<and>
    (\<forall>r. count_list (trace a) (Opened r) \<le> 1) \<and>
    (\<forall>r. r \<notin> {Zmq_context, Upa_context} \<longrightarrow> count_list (trace a) (Closed r) = count_list (trace a) (Opened r)) \<and>
    count_list (trace a) (Closed Zmq_context) =
      (if list_ex snd (workers a) then 0 else count_list (trace a) (Opened Zmq_context)) \<and>
    count_list (trace a) (Closed Upa_context) =
      count_list (trace a) (Opened Upa_context) + count_list (trace a) (Refused Upa_context) \<and>
    count_list (trace a) (Closed Upa_context) \<le> 1"
proof -
  obtain b b2 b3 where b: "seq_all (start_steps d c) (app_init c u) = (False, b)" "end_workers (zmq_of d) b = Inr b2"
    "end_provider d (give_back_context (os_of d) (give_back Reply_socket (zmq_close (os_of d) Reply_socket)
       (give_back Request_socket (zmq_close (os_of d) Request_socket) b2))) = Some b3"
    "a = give_back Upa_context (rsslUninitialize (os_of d)) b3"
    using assms by (auto simp: app_init_def elim!: Initialize_cases Reset_cases)
  have "books b" using books_start [of d c u] b(1) by simp
  then have k: "books b2" using end_workers_fields [OF b(2)] by (simp add: books_def)
  then have p: "Provider_object \<in> owned b2 \<longleftrightarrow> provider b2 \<noteq> None" by (simp add: books_def)
  then have "Provider_object \<in> owned (give_back_context (os_of d) (give_back Reply_socket (zmq_close (os_of d) Reply_socket)
       (give_back Request_socket (zmq_close (os_of d) Request_socket) b2))) \<longleftrightarrow> provider (give_back_context (os_of d)
         (give_back Reply_socket (zmq_close (os_of d) Reply_socket)
           (give_back Request_socket (zmq_close (os_of d) Request_socket) b2))) \<noteq> None" by simp
  note e = end_provider_counts [OF b(3) this]
  have w: "workers b3 = workers b2" "provider b3 = None" using end_provider_fields [OF b(3)] by simp_all
  have o: "owned a = {}" unfolding b(4) by (auto simp: e(1)) (metis resource.exhaust)
  have c: "count_list (trace a) (Opened r) = count_list (trace b2) (Opened r)"
    "count_list (trace a) (Refused r) = count_list (trace b2) (Refused r)"
    "count_list (trace a) (Closed r) = (if r \<in> owned b2 \<and> (r = Zmq_context \<longrightarrow> \<not> list_ex snd (workers b2)) then 1 else 0)" for r
    using k unfolding b(4) books_def
    by (simp_all add: give_back_counts give_back_context_counts e(2-4)) (cases r, auto simp: e(1))
  have w': "workers a = workers b2" "provider a = None" using w unfolding b(4) by simp_all
  have n: "count_list (trace b2) (Opened r) \<le> 1" for r
    using k by (cases "r = Upa_context") (auto simp: books_def split: if_splits)
  show ?thesis
    unfolding w' c o using k n by (auto simp: books_def)
qed

subsection \<open>A system at which the hypotheses hold\<close>

definition toy_os :: "sock option \<Rightarrow> toy_world os" where
  "toy_os bound = \<lparr>zmq_ctx_new = (\<lambda>u. (True, u)), zmq_ctx_set = (\<lambda>u. (True, u)), zmq_ctx_term = (\<lambda>u. u),
     zmq_socket = (\<lambda>r u. (True, u)), zmq_bind = (\<lambda>r u. (True, u)), zmq_connect = (\<lambda>r u. (True, u)),
     zmq_close = (\<lambda>r u. u), zmq_fd = (\<lambda>u. (Some 3, u)), rsslInitialize = (\<lambda>u. (True, u)),
     rsslUninitialize = (\<lambda>u. u), rsslBind = (\<lambda>u. (bound, u)), productVersion = (\<lambda>p. ''upa7.6''),
     UPA_LIBRARY_VERSION = ''7.6'', new_thread = (\<lambda>i u. (Some i, u)), GetProcessAffinityMask = (\<lambda>u. Some 255),
     SetThreadAffinityMask = (\<lambda>m u. (True, u)), SetThreadPriority = (\<lambda>u. u),
     AcquireFlexRecordCursor = (\<lambda>u. (True, u)), fresh_memory = ({}, {}, {})\<rparr>"

definition toy_deps :: "sock option \<Rightarrow> toy_world deps" where
  "toy_deps bound = \<lparr>os_of = toy_os bound, api_of = toy_api, zmq_of = toy_zmq, select_of = (\<lambda>p. p)\<rparr>"

abbreviation toy_app :: "toy_world app" where
  "toy_app \<equiv> app_init default_config (0, {}, {})"

lemma toy_version: "VerifyVersion (toy_os b)"
  by (simp add: VerifyVersion_def strstr_def toy_os_def)

lemma toy_os_fields [simp]:
  "zmq_ctx_new (toy_os b) = (\<lambda>u. (True, u))" "zmq_ctx_set (toy_os b) = (\<lambda>u. (True, u))"
  "zmq_socket (toy_os b) r = (\<lambda>u. (True, u))" "zmq_bind (toy_os b) r = (\<lambda>u. (True, u))"
  "zmq_fd (toy_os b) = (\<lambda>u. (Some 3, u))" "rsslInitialize (toy_os b) = (\<lambda>u. (True, u))"
  "rsslBind (toy_os b) = (\<lambda>u. (b, u))" "new_thread (toy_os b) i = (\<lambda>u. (Some i, u))"
  "zmq_ctx_term (toy_os b) = (\<lambda>u. u)" "zmq_close (toy_os b) r = (\<lambda>u. u)" "rsslUninitialize (toy_os b) = (\<lambda>u. u)"
  "fresh_memory (toy_os b) = ({}, {}, {})"
  by (simp_all add: toy_os_def)

lemma toy_deps_fields [simp]:
  "os_of (toy_deps b) = toy_os b" "api_of (toy_deps b) = toy_api" "zmq_of (toy_deps b) = toy_zmq"
  by (simp_all add: toy_deps_def)

lemma toy_workers: "seq_all (map (start_worker (toy_os b)) ws) a =
    (True, a\<lparr>workers := rev (map (\<lambda>w. (w, True)) ws) @ workers a\<rparr>)"
  by (induction ws arbitrary: a) (simp_all add: start_worker_def)

text \<open>The start succeeds when the port is free.\<close>

lemma toy_start:
  "\<exists>p. seq_all (start_steps (toy_deps b) c) a =
    (b \<noteq> None, a\<lparr>owned := insert Provider_object (insert Upa_context (insert Reply_socket
         (insert Request_socket (insert Zmq_context (owned a))))), reply_fd := Some 3, provider := Some p,
       trace := trace a @ map Opened [Zmq_context, Request_socket, Reply_socket, Upa_context, Provider_object],
       workers := (if b = None then workers a else rev (map (\<lambda>w. (w, True)) [0..<worker_count c]) @ workers a)\<rparr>) \<and>
    clients p = [] \<and> (b = None \<longrightarrow> rssl_sock p = None) \<and> connections p = []"
  by (rule exI [of _ "snd (Initialize_provider toy_api True b
        (provider_init (a_cfg a) (Some 3) ({}, {}, {}) toy_api (a_world a)))"], cases b; cases a)
    (simp_all add: start_steps_def Let_def acquire_def call_def start_fd_def start_upa_def start_provider_def
      toy_version Initialize_provider_def provider_init_def toy_workers del: upt_Suc)

text \<open>A start that fails because the port is taken.\<close>

definition toy_failed :: "toy_world app" where
  "toy_failed = (case Initialize_app (toy_deps None) toy_app of Some (Inr (ok, a)) \<Rightarrow> a | _ \<Rightarrow> toy_app)"

lemma toy_failed: "Initialize_app (toy_deps None) toy_app = Some (Inr (False, toy_failed))"
proof -
  obtain p a where "seq_all (start_steps (toy_deps None) default_config) toy_app = (False, a)" "provider a = Some p"
    "clients p = []" "rssl_sock p = None" "connections p = []" "workers a = []"
    using toy_start [of None default_config toy_app] by (auto simp: app_init_def)
  then have "\<exists>a. Initialize_app (toy_deps None) toy_app = Some (Inr (False, a))"
    by (simp add: Initialize_app_def app_init_def Reset_app_def end_workers_def end_provider_def Close_provider_def
        close_sessions.simps Let_def)
  then show ?thesis by (auto simp: toy_failed_def)
qed

theorem failed_start_hangs_witness:
  "\<exists>m t a. lives (toy_deps None) True toy_app (m, t, a) \<and> m = Awaiting \<and> m \<noteq> Left \<and> t = Not_started"
proof -
  have "\<not> shutting_down toy_app" "\<not> mainloop_shutdown toy_app" by (simp_all add: app_init_def)
  moreover have "Start (toy_deps None) toy_app = Some (Inr (True, False, toy_failed))"
    using toy_failed by (simp add: Start_def app_init_def)
  then have "lives (toy_deps None) True toy_app (Awaiting, Not_started, toy_failed)"
    using lives.go [OF lives.enter life.start [where application = True]] by fastforce
  ultimately show ?thesis using failed_start_hangs [OF _ _ toy_failed] by blast
qed

text \<open>A start that fails because the RSSL library refuses to be initialised.\<close>

definition refusing_deps :: "toy_world deps" where
  "refusing_deps = (toy_deps None)\<lparr>os_of := (toy_os None)\<lparr>rsslInitialize := (\<lambda>u. (False, u))\<rparr>\<rparr>"

definition toy_refused :: "toy_world app" where
  "toy_refused = toy_app\<lparr>reply_fd := Some 3, trace := map Opened [Zmq_context, Request_socket, Reply_socket] @
     Refused Upa_context # map Closed [Request_socket, Reply_socket, Zmq_context, Upa_context]\<rparr>"

lemma toy_refused: "Initialize_app refusing_deps toy_app = Some (Inr (False, toy_refused))"
  by (auto simp: Initialize_app_def app_init_def Reset_app_def end_workers_def end_provider_def give_back_def
      give_back_context_def refusing_deps_def toy_refused_def start_steps_def Let_def acquire_def call_def start_fd_def
      start_upa_def toy_os_def toy_deps_def)

theorem failed_start_releases_witness:
  "owned toy_refused = {} \<and> provider toy_refused = None \<and>
    count_list (trace toy_refused) (Closed Reply_socket) = count_list (trace toy_refused) (Opened Reply_socket) \<and>
    count_list (trace toy_refused) (Opened Upa_context) = 0 \<and> count_list (trace toy_refused) (Closed Upa_context) = 1"
proof -
  have t: "trace toy_refused = map Opened [Zmq_context, Request_socket, Reply_socket] @
     Refused Upa_context # map Closed [Request_socket, Reply_socket, Zmq_context, Upa_context]"
    by (simp add: toy_refused_def)
  show ?thesis using failed_start_releases [OF toy_refused] unfolding t by simp
qed

text \<open>A start that succeeds.\<close>

definition toy_started :: "toy_world app" where
  "toy_started = (case Initialize_app (toy_deps (Some 4)) toy_app of Some (Inr (ok, a)) \<Rightarrow> a | _ \<Rightarrow> toy_app)"

lemma toy_started: "Initialize_app (toy_deps (Some 4)) toy_app = Some (Inr (True, toy_started))"
proof -
  have "\<exists>a. Initialize_app (toy_deps (Some 4)) toy_app = Some (Inr (True, a))"
    using toy_start [of "Some 4" default_config toy_app] by (auto simp: Initialize_app_def app_init_def)
  then show ?thesis by (auto simp: toy_started_def)
qed

theorem pump_before_reset_witness:
  "\<exists>m ph a. lives (toy_deps (Some 4)) True toy_app (m, Pumping ph, a) \<and> provider a \<noteq> None \<and> m \<noteq> Left"
proof -
  have "\<not> mainloop_shutdown toy_app" by (simp add: app_init_def)
  moreover have "Start (toy_deps (Some 4)) toy_app = Some (Inr (True, True, toy_started))"
    using toy_started by (simp add: Start_def app_init_def)
  then have "lives (toy_deps (Some 4)) True toy_app (Awaiting, Pumping Working,
      toy_started\<lparr>provider := map_option watch_listeners (provider toy_started)\<rparr>)"
    using lives.go [OF lives.enter life.start [where application = True]] by fastforce
  ultimately show ?thesis using pump_before_reset by blast
qed

end
