(* ===== verification/Texts.thy ===== *)
theory Texts
  imports Prelude
begin

section \<open>Strings of the base library\<close>

text \<open>
  The string functions of src/src/chromium that the program is built on: the searches of \<open>StringPiece\<close>
  (string_piece.cc and string_piece.hh), trimming, replacing and \<open>strlcpy\<close> (string_util.cc), splitting
  (string_split.cc).

  A \<open>StringPiece\<close> and a \<open>std::string\<close> are the list of their characters; a position is a natural number, and
  \<open>npos\<close> is the largest value of \<open>size_t\<close>.
\<close>

definition npos :: nat where
  "npos = 18446744073709551615"

definition or_npos :: "nat option \<Rightarrow> nat" where
  "or_npos r = (case r of None \<Rightarrow> npos | Some i \<Rightarrow> i)"

text \<open>The two loops of all searches: upwards from \<open>i\<close> below \<open>n\<close>, and downwards from \<open>i\<close> to 0.\<close>

function first_at :: "(nat \<Rightarrow> bool) \<Rightarrow> nat \<Rightarrow> nat \<Rightarrow> nat option" where
  "first_at P i n = (if i < n then if P i then Some i else first_at P (Suc i) n else None)"
  by auto
termination by (relation "measure (\<lambda>(P, i, n). n - i)") auto

declare first_at.simps [simp del]

fun last_at :: "(nat \<Rightarrow> bool) \<Rightarrow> nat \<Rightarrow> nat option" where
  "last_at P 0 = (if P 0 then Some 0 else None)"
| "last_at P (Suc i) = (if P (Suc i) then Some (Suc i) else last_at P i)"

definition occurs_at :: "string \<Rightarrow> string \<Rightarrow> nat \<Rightarrow> bool" where
  "occurs_at s self i \<longleftrightarrow> take (length s) (drop i self) = s"

subsection \<open>Searches\<close>

definition piece_find :: "string \<Rightarrow> string \<Rightarrow> nat \<Rightarrow> nat" where
  "piece_find self s pos =
    (if pos > length self then npos
     else let xpos = (case first_at (occurs_at s self) pos (Suc (length self) - length s) of
                        None \<Rightarrow> length self | Some i \<Rightarrow> i) in
       if xpos + length s \<le> length self then xpos else npos)"

definition piece_find_char :: "string \<Rightarrow> char \<Rightarrow> nat \<Rightarrow> nat" where
  "piece_find_char self c pos =
    (if pos \<ge> length self then npos
     else or_npos (first_at (\<lambda>i. self ! i = c) pos (length self)))"

definition piece_rfind :: "string \<Rightarrow> string \<Rightarrow> nat \<Rightarrow> nat" where
  "piece_rfind self s pos =
    (if length self < length s then npos
     else if s = [] then min (length self) pos
     else or_npos (last_at (occurs_at s self) (min (length self - length s) pos)))"

definition piece_rfind_char :: "string \<Rightarrow> char \<Rightarrow> nat \<Rightarrow> nat" where
  "piece_rfind_char self c pos =
    (if length self = 0 then npos
     else or_npos (last_at (\<lambda>i. self ! i = c) (min pos (length self - 1))))"

text \<open>The table of the characters wanted, by their code as \<open>unsigned char\<close>.\<close>

definition BuildLookupTable :: "string \<Rightarrow> nat \<Rightarrow> bool" where
  "BuildLookupTable characters_wanted = fold (\<lambda>c table. table(of_char c := True)) characters_wanted (\<lambda>_. False)"

definition find_first_of :: "string \<Rightarrow> string \<Rightarrow> nat \<Rightarrow> nat" where
  "find_first_of self s pos =
    (if length self = 0 \<or> length s = 0 then npos
     else if length s = 1 then piece_find_char self (s ! 0) pos
     else or_npos (first_at (\<lambda>i. BuildLookupTable s (of_char (self ! i))) pos (length self)))"

definition find_first_not_of_char :: "string \<Rightarrow> char \<Rightarrow> nat \<Rightarrow> nat" where
  "find_first_not_of_char self c pos =
    (if length self = 0 then npos
     else or_npos (first_at (\<lambda>i. self ! i \<noteq> c) pos (length self)))"

definition find_first_not_of :: "string \<Rightarrow> string \<Rightarrow> nat \<Rightarrow> nat" where
  "find_first_not_of self s pos =
    (if length self = 0 then npos
     else if length s = 0 then 0
     else if length s = 1 then find_first_not_of_char self (s ! 0) pos
     else or_npos (first_at (\<lambda>i. \<not> BuildLookupTable s (of_char (self ! i))) pos (length self)))"

definition find_last_of :: "string \<Rightarrow> string \<Rightarrow> nat \<Rightarrow> nat" where
  "find_last_of self s pos =
    (if length self = 0 \<or> length s = 0 then npos
     else if length s = 1 then piece_rfind_char self (s ! 0) pos
     else or_npos (last_at (\<lambda>i. BuildLookupTable s (of_char (self ! i))) (min pos (length self - 1))))"

definition find_last_not_of_char :: "string \<Rightarrow> char \<Rightarrow> nat \<Rightarrow> nat" where
  "find_last_not_of_char self c pos =
    (if length self = 0 then npos
     else or_npos (last_at (\<lambda>i. self ! i \<noteq> c) (min pos (length self - 1))))"

definition find_last_not_of :: "string \<Rightarrow> string \<Rightarrow> nat \<Rightarrow> nat" where
  "find_last_not_of self s pos =
    (if length self = 0 then npos
     else let i = min pos (length self - 1) in
       if length s = 0 then i
       else if length s = 1 then find_last_not_of_char self (s ! 0) pos
       else or_npos (last_at (\<lambda>i. \<not> BuildLookupTable s (of_char (self ! i))) i))"

definition piece_substr :: "string \<Rightarrow> nat \<Rightarrow> nat \<Rightarrow> string" where
  "piece_substr self pos n =
    (let pos = (if pos > length self then length self else pos);
         n = (if n > length self - pos then length self - pos else n) in
     take n (drop pos self))"

definition starts_with :: "string \<Rightarrow> string \<Rightarrow> bool" where
  "starts_with self x \<longleftrightarrow> length self \<ge> length x \<and> take (length x) self = x"

definition ends_with :: "string \<Rightarrow> string \<Rightarrow> bool" where
  "ends_with self x \<longleftrightarrow> length self \<ge> length x \<and> take (length x) (drop (length self - length x) self) = x"

definition remove_prefix :: "nat \<Rightarrow> string \<Rightarrow> string" where
  "remove_prefix n self = drop n self"

definition remove_suffix :: "nat \<Rightarrow> string \<Rightarrow> string" where
  "remove_suffix n self = take (length self - n) self"

text \<open>\<open>compare\<close> of the character traits: the first difference of the first \<open>n\<close> characters, as unsigned numbers.\<close>

fun wordmemcmp :: "string \<Rightarrow> string \<Rightarrow> nat \<Rightarrow> int" where
  "wordmemcmp (c # p) (c2 # p2) (Suc n) =
    (if (of_char c :: nat) < of_char c2 then -1 else if (of_char c :: nat) > of_char c2 then 1 else wordmemcmp p p2 n)"
| "wordmemcmp _ _ _ = 0"

definition piece_compare :: "string \<Rightarrow> string \<Rightarrow> int" where
  "piece_compare self x =
    (let r = wordmemcmp self x (if length self < length x then length self else length x) in
     if r = 0 then if length self < length x then -1 else if length self > length x then 1 else r
     else r)"

definition piece_eq :: "string \<Rightarrow> string \<Rightarrow> bool" where
  "piece_eq x y \<longleftrightarrow> (if length x \<noteq> length y then False else wordmemcmp x y (length x) = 0)"

definition piece_less :: "string \<Rightarrow> string \<Rightarrow> bool" where
  "piece_less x y \<longleftrightarrow>
    (let r = wordmemcmp x y (if length x < length y then length x else length y) in
     r < 0 \<or> r = 0 \<and> length x < length y)"

subsection \<open>What the searches find\<close>

lemma first_at_Some: "first_at P i n = Some j \<longleftrightarrow> i \<le> j \<and> j < n \<and> P j \<and> (\<forall>k. i \<le> k \<longrightarrow> k < j \<longrightarrow> \<not> P k)"
proof (induction P i n rule: first_at.induct)
  case (1 P i n)
  have "(\<forall>k. i \<le> k \<longrightarrow> k < j \<longrightarrow> \<not> P k) \<longleftrightarrow> (i < j \<longrightarrow> \<not> P i) \<and> (\<forall>k. Suc i \<le> k \<longrightarrow> k < j \<longrightarrow> \<not> P k)" if "i \<le> j"
    using that by (metis Suc_le_eq order_le_less)
  moreover have "i \<le> j \<and> P j \<and> \<not> P i \<longleftrightarrow> Suc i \<le> j \<and> P j \<and> \<not> P i" by (metis Suc_le_eq order_le_less Suc_leD)
  moreover have "first_at P i n = (if i < n then if P i then Some i else first_at P (Suc i) n else None)"
    by (rule first_at.simps)
  ultimately show ?case using 1 by (smt (verit) leD le_eq_less_or_eq less_le_trans option.inject option.distinct(1))
qed

lemma first_at_None: "first_at P i n = None \<longleftrightarrow> (\<forall>k. i \<le> k \<longrightarrow> k < n \<longrightarrow> \<not> P k)"
proof (induction P i n rule: first_at.induct)
  case (1 P i n)
  have "(\<forall>k. i \<le> k \<longrightarrow> k < n \<longrightarrow> \<not> P k) \<longleftrightarrow> (i < n \<longrightarrow> \<not> P i) \<and> (\<forall>k. Suc i \<le> k \<longrightarrow> k < n \<longrightarrow> \<not> P k)"
    by (metis Suc_le_eq order_le_less Suc_leD order_refl)
  then show ?case using 1 by (subst first_at.simps) auto
qed

lemma last_at_Some: "last_at P i = Some j \<longleftrightarrow> j \<le> i \<and> P j \<and> (\<forall>k. j < k \<longrightarrow> k \<le> i \<longrightarrow> \<not> P k)"
proof (induction i)
  case (Suc i)
  then show ?case by (cases "P (Suc i)") (auto simp: le_Suc_eq, metis less_Suc_eq_le)
qed auto

lemma last_at_None: "last_at P i = None \<longleftrightarrow> (\<forall>k\<le>i. \<not> P k)"
  by (induction i) (auto simp: le_Suc_eq)

definition first_result :: "(nat \<Rightarrow> bool) \<Rightarrow> nat \<Rightarrow> nat \<Rightarrow> nat \<Rightarrow> bool" where
  "first_result P lo hi r \<longleftrightarrow>
    (if \<forall>i<hi. lo \<le> i \<longrightarrow> \<not> P i then r = npos else lo \<le> r \<and> r < hi \<and> P r \<and> (\<forall>i<r. lo \<le> i \<longrightarrow> \<not> P i))"

definition last_result :: "(nat \<Rightarrow> bool) \<Rightarrow> nat \<Rightarrow> nat \<Rightarrow> nat \<Rightarrow> bool" where
  "last_result P hi n r \<longleftrightarrow>
    (if \<forall>i<n. i \<le> hi \<longrightarrow> \<not> P i then r = npos else r < n \<and> r \<le> hi \<and> P r \<and> (\<forall>i<n. r < i \<longrightarrow> i \<le> hi \<longrightarrow> \<not> P i))"

lemma first_result_at: "first_result P i n (or_npos (first_at P i n))"
proof (cases "first_at P i n")
  case None
  then show ?thesis using first_at_None [of P i n] by (simp add: first_result_def or_npos_def)
next
  case (Some j)
  then show ?thesis using first_at_Some [of P i n j] by (auto simp: first_result_def or_npos_def)
qed

lemma last_result_at: "n > 0 \<Longrightarrow> last_result P hi n (or_npos (last_at P (min hi (n - 1))))"
proof (cases "last_at P (min hi (n - 1))")
  case None
  assume "n > 0"
  then show ?thesis using None last_at_None [of P "min hi (n - 1)"]
    by (simp add: last_result_def or_npos_def)
next
  case (Some j)
  assume "n > 0"
  then show ?thesis using Some last_at_Some [of P "min hi (n - 1)" j] by (auto simp: last_result_def or_npos_def)
qed

lemma lookup_fold: "fold (\<lambda>c table. table(of_char c := True)) s t n \<longleftrightarrow> t n \<or> n \<in> of_char ` set s"
  by (induction s arbitrary: t) auto

lemma lookup_table [simp]: "BuildLookupTable s (of_char c) \<longleftrightarrow> c \<in> set s"
  by (auto simp: BuildLookupTable_def lookup_fold image_iff of_char_eq_iff)

lemma single: "length s = 1 \<Longrightarrow> s = [s ! 0]"
  by (cases s) auto

lemma occurs_length: "occurs_at s self i \<Longrightarrow> s = [] \<or> i + length s \<le> length self"
proof -
  assume "occurs_at s self i"
  then have "length s = min (length s) (length self - i)" by (metis length_drop length_take occurs_at_def min.commute)
  then show ?thesis by (cases s) auto
qed

lemma find_first: "first_result (occurs_at s self) pos (Suc (length self)) (piece_find self s pos)"
proof (cases "pos > length self")
  case True
  then show ?thesis by (auto simp: piece_find_def first_result_def)
next
  case False
  let ?n = "Suc (length self) - length s"
  have n: "i < ?n \<longleftrightarrow> i + length s \<le> length self" for i by auto
  show ?thesis
  proof (cases "first_at (occurs_at s self) pos ?n")
    case None
    then have none: "\<not> occurs_at s self k" if "pos \<le> k" "k + length s \<le> length self" for k
      using that n by (auto simp: first_at_None)
    have "s \<noteq> []" using none [of pos] False by (auto simp: occurs_at_def)
    then show ?thesis using None False none occurs_length [of s self]
      by (auto simp: piece_find_def first_result_def)
  next
    case (Some j)
    then have "pos \<le> j" "j + length s \<le> length self" "occurs_at s self j" "\<forall>k. pos \<le> k \<longrightarrow> k < j \<longrightarrow> \<not> occurs_at s self k"
      using n [of j] by (auto simp: first_at_Some)
    then show ?thesis using Some False by (auto simp: piece_find_def first_result_def)
  qed
qed

lemma rfind_last: "last_result (occurs_at s self) pos (Suc (length self) - length s) (piece_rfind self s pos)"
proof -
  consider "length self < length s" | "s = []" | "length s \<le> length self" "s \<noteq> []" by linarith
  then show ?thesis
  proof cases
    case 1
    then show ?thesis by (auto simp: piece_rfind_def last_result_def)
  next
    case 2
    then show ?thesis by (auto simp: piece_rfind_def last_result_def occurs_at_def)
  next
    case 3
    then show ?thesis using last_result_at [of "Suc (length self) - length s" "occurs_at s self" pos]
      by (simp add: piece_rfind_def min.commute)
  qed
qed

lemma sizes: obtains "s = []" | c where "s = [c]" | "length s \<noteq> 0" "length s \<noteq> 1" "s \<noteq> []"
  by (metis One_nat_def length_0_conv length_Suc_conv)

lemma no_result [simp]:
  "first_result P pos 0 npos" "first_result (\<lambda>_. False) pos n npos" "last_result P pos 0 npos"
  "last_result (\<lambda>_. False) pos n npos"
  by (auto simp: first_result_def last_result_def)

lemma find_char: "first_result (\<lambda>i. self ! i = c) pos (length self) (piece_find_char self c pos)"
proof (cases "length self \<le> pos")
  case True
  then show ?thesis by (simp add: piece_find_char_def first_result_def)
next
  case False
  then show ?thesis using first_result_at [of "\<lambda>i. self ! i = c" pos "length self"] by (simp add: piece_find_char_def)
qed

lemma not_of_char: "first_result (\<lambda>i. self ! i \<noteq> c) pos (length self) (find_first_not_of_char self c pos)"
  using first_result_at [of "\<lambda>i. self ! i \<noteq> c" pos "length self"]
  by (cases self) (simp_all add: find_first_not_of_char_def)

lemma rfind_char: "last_result (\<lambda>i. self ! i = c) pos (length self) (piece_rfind_char self c pos)"
  using last_result_at [of "length self" "\<lambda>i. self ! i = c" pos]
  by (cases self) (simp_all add: piece_rfind_char_def)

lemma last_not_of_char: "last_result (\<lambda>i. self ! i \<noteq> c) pos (length self) (find_last_not_of_char self c pos)"
  using last_result_at [of "length self" "\<lambda>i. self ! i \<noteq> c" pos]
  by (cases self) (simp_all add: find_last_not_of_char_def)

lemma first_of: "first_result (\<lambda>i. self ! i \<in> set s) pos (length self) (find_first_of self s pos)"
proof (cases s rule: sizes)
  case (2 c)
  then show ?thesis using find_char [of self c pos] by (cases self) (simp_all add: find_first_of_def)
next
  case 3
  then show ?thesis using first_result_at [of "\<lambda>i. self ! i \<in> set s" pos "length self"]
    by (cases self) (simp_all add: find_first_of_def)
qed (simp add: find_first_of_def)

lemma last_of: "last_result (\<lambda>i. self ! i \<in> set s) pos (length self) (find_last_of self s pos)"
proof (cases s rule: sizes)
  case (2 c)
  then show ?thesis using rfind_char [of self c pos] by (cases self) (simp_all add: find_last_of_def)
next
  case 3
  then show ?thesis using last_result_at [of "length self" "\<lambda>i. self ! i \<in> set s" pos]
    by (cases self) (simp_all add: find_last_of_def)
qed (simp add: find_last_of_def)

lemma first_not_of:
  "first_result (\<lambda>i. self ! i \<notin> set s) (if s = [] then 0 else pos) (length self) (find_first_not_of self s pos)"
proof (cases s rule: sizes)
  case 1
  then show ?thesis by (cases self) (auto simp: find_first_not_of_def first_result_def)
next
  case (2 c)
  then show ?thesis using not_of_char [of self c pos] by (cases self) (simp_all add: find_first_not_of_def)
next
  case 3
  then show ?thesis using first_result_at [of "\<lambda>i. self ! i \<notin> set s" pos "length self"]
    by (cases self) (simp_all add: find_first_not_of_def)
qed

lemma last_not_of: "last_result (\<lambda>i. self ! i \<notin> set s) pos (length self) (find_last_not_of self s pos)"
proof (cases s rule: sizes)
  case 1
  then show ?thesis by (cases self) (auto simp: find_last_not_of_def last_result_def Let_def)
next
  case (2 c)
  then show ?thesis using last_not_of_char [of self c pos] by (cases self) (simp_all add: find_last_not_of_def)
next
  case 3
  then show ?thesis using last_result_at [of "length self" "\<lambda>i. self ! i \<notin> set s" pos]
    by (cases self) (simp_all add: find_last_not_of_def)
qed

text \<open>C29: the searches of \<open>StringPiece\<close> find the first, the last position at which what is searched for stands, from or
  up to the given position, and \<open>npos\<close> when there is none; the one exception is the search for the first character
  outside an empty set, which starts at 0 whatever the position asked for.\<close>

theorem searches_correct:
  "first_result (occurs_at s self) pos (Suc (length self)) (piece_find self s pos) \<and>
   first_result (\<lambda>i. self ! i = c) pos (length self) (piece_find_char self c pos) \<and>
   first_result (\<lambda>i. self ! i \<in> set s) pos (length self) (find_first_of self s pos) \<and>
   first_result (\<lambda>i. self ! i \<noteq> c) pos (length self) (find_first_not_of_char self c pos) \<and>
   first_result (\<lambda>i. self ! i \<notin> set s) (if s = [] then 0 else pos) (length self) (find_first_not_of self s pos) \<and>
   last_result (occurs_at s self) pos (Suc (length self) - length s) (piece_rfind self s pos) \<and>
   last_result (\<lambda>i. self ! i = c) pos (length self) (piece_rfind_char self c pos) \<and>
   last_result (\<lambda>i. self ! i \<in> set s) pos (length self) (find_last_of self s pos) \<and>
   last_result (\<lambda>i. self ! i \<noteq> c) pos (length self) (find_last_not_of_char self c pos) \<and>
   last_result (\<lambda>i. self ! i \<notin> set s) pos (length self) (find_last_not_of self s pos)"
  by (intro conjI find_first find_char first_of not_of_char first_not_of rfind_last rfind_char last_of last_not_of_char
      last_not_of)

lemma wordmemcmp_eq: "length x = length y \<Longrightarrow> wordmemcmp x y (length y) = 0 \<longleftrightarrow> x = y"
  by (induction x y rule: list_induct2) (auto split: if_splits simp: of_char_eq_iff not_less order_le_less)

lemma piece_eq_iff [simp]: "piece_eq x y \<longleftrightarrow> x = y"
  by (auto simp: piece_eq_def wordmemcmp_eq)

end
