(* ===== verification/Splitting.thy ===== *)
theory Splitting
  imports Texts
begin

section \<open>Trimming, copying, splitting\<close>

text \<open>
  string_util.cc and string_split.cc. \<open>TrimPositions\<close> is the pair of its two flags, leading and trailing. The loops
  over a string carry the position and the variables of the code; the results a caller collects in a vector are
  appended to the list given.
\<close>

type_synonym trim_positions = "bool \<times> bool"

abbreviation TRIM_NONE :: trim_positions where "TRIM_NONE \<equiv> (False, False)"
abbreviation TRIM_ALL :: trim_positions where "TRIM_ALL \<equiv> (True, True)"

definition kWhitespaceASCII :: string where
  "kWhitespaceASCII = [CHR 0x09, CHR 0x0A, CHR 0x0B, CHR 0x0C, CHR 0x0D, CHR 0x20]"

text \<open>The members of \<open>std::string\<close> with a set of characters.\<close>

definition string_first_not_of :: "string \<Rightarrow> string \<Rightarrow> nat" where
  "string_first_not_of s cs = or_npos (first_at (\<lambda>i. s ! i \<notin> set cs) 0 (length s))"

definition string_last_not_of :: "string \<Rightarrow> string \<Rightarrow> nat" where
  "string_last_not_of s cs = (if s = [] then npos else or_npos (last_at (\<lambda>i. s ! i \<notin> set cs) (length s - 1)))"

definition TrimStringT :: "string \<Rightarrow> string \<Rightarrow> trim_positions \<Rightarrow> trim_positions \<times> string" where
  "TrimStringT input trim_chars positions =
    (let last_char = length input - 1;
         first_good_char = (if fst positions then string_first_not_of input trim_chars else 0);
         last_good_char = (if snd positions then string_last_not_of input trim_chars else last_char) in
     if input = [] \<or> first_good_char = npos \<or> last_good_char = npos
     then (if input = [] then TRIM_NONE else positions, [])
     else ((first_good_char \<noteq> 0, last_good_char \<noteq> last_char),
           take (last_good_char - first_good_char + 1) (drop first_good_char input)))"

definition TrimString :: "string \<Rightarrow> string \<Rightarrow> bool \<times> string" where
  "TrimString input trim_chars = (case TrimStringT input trim_chars TRIM_ALL of (t, output) \<Rightarrow> (t \<noteq> TRIM_NONE, output))"

definition TrimWhitespaceASCII :: "string \<Rightarrow> trim_positions \<Rightarrow> trim_positions \<times> string" where
  "TrimWhitespaceASCII input positions = TrimStringT input kWhitespaceASCII positions"

definition TrimWhitespace :: "string \<Rightarrow> trim_positions \<Rightarrow> trim_positions \<times> string" where
  "TrimWhitespace input positions = TrimWhitespaceASCII input positions"

subsection \<open>Trimming\<close>

definition blank :: "char \<Rightarrow> bool" where
  "blank c \<longleftrightarrow> c \<in> set kWhitespaceASCII"

definition ltrim_of :: "string \<Rightarrow> string \<Rightarrow> string" where
  "ltrim_of cs s = dropWhile (\<lambda>c. c \<in> set cs) s"

definition rtrim_of :: "string \<Rightarrow> string \<Rightarrow> string" where
  "rtrim_of cs s = rev (dropWhile (\<lambda>c. c \<in> set cs) (rev s))"

lemma first_not_of_cases:
  obtains "set s \<subseteq> set cs" "first_at (\<lambda>i. s ! i \<notin> set cs) 0 (length s) = None" "ltrim_of cs s = []"
  | i where "i < length s" "first_at (\<lambda>i. s ! i \<notin> set cs) 0 (length s) = Some i" "ltrim_of cs s = drop i s"
      "\<not> set s \<subseteq> set cs"
proof (cases "first_at (\<lambda>i. s ! i \<notin> set cs) 0 (length s)")
  case None
  then have "set s \<subseteq> set cs" by (auto simp: first_at_None in_set_conv_nth)
  then show ?thesis using None that(1) by (auto simp: ltrim_of_def)
next
  case (Some i)
  then have i: "i < length s" "s ! i \<notin> set cs" "\<forall>k<i. s ! k \<in> set cs" by (auto simp: first_at_Some)
  have s: "s = take i s @ s ! i # drop (Suc i) s" using i(1) by (rule id_take_nth_drop)
  have "\<forall>c\<in>set (take i s). c \<in> set cs" using i by (auto simp: in_set_conv_nth)
  then have "dropWhile (\<lambda>c. c \<in> set cs) (take i s @ s ! i # drop (Suc i) s) = s ! i # drop (Suc i) s"
    using i(2) by (simp add: dropWhile_append2)
  then have "ltrim_of cs s = drop i s" using i(1) s by (simp add: ltrim_of_def Cons_nth_drop_Suc)
  moreover have "\<not> set s \<subseteq> set cs" using i nth_mem by blast
  ultimately show ?thesis using that(2) i(1) Some by blast
qed

lemma last_not_of_cases:
  assumes "s \<noteq> []"
  obtains "set s \<subseteq> set cs" "last_at (\<lambda>i. s ! i \<notin> set cs) (length s - 1) = None" "rtrim_of cs s = []"
  | i where "i < length s" "last_at (\<lambda>i. s ! i \<notin> set cs) (length s - 1) = Some i" "rtrim_of cs s = take (Suc i) s"
      "\<not> set s \<subseteq> set cs" "s ! i \<notin> set cs"
proof (cases "last_at (\<lambda>i. s ! i \<notin> set cs) (length s - 1)")
  case None
  then have "\<forall>k<length s. s ! k \<in> set cs" using assms by (auto simp: last_at_None)
  then have "set s \<subseteq> set cs" by (auto simp: in_set_conv_nth)
  then show ?thesis using None that(1) by (auto simp: rtrim_of_def)
next
  case (Some i)
  then have i: "i \<le> length s - 1" "s ! i \<notin> set cs" and above: "\<And>k. i < k \<Longrightarrow> k \<le> length s - 1 \<Longrightarrow> s ! k \<in> set cs"
    by (auto simp: last_at_Some)
  have l: "i < length s" using i(1) assms by (cases s) auto
  have s: "s = take i s @ s ! i # drop (Suc i) s" using l by (rule id_take_nth_drop)
  have "\<forall>c\<in>set (drop (Suc i) s). c \<in> set cs" using above by (auto simp: in_set_conv_nth)
  then have "dropWhile (\<lambda>c. c \<in> set cs) (rev (drop (Suc i) s) @ s ! i # rev (take i s)) =
      dropWhile (\<lambda>c. c \<in> set cs) (s ! i # rev (take i s))"
    by (intro dropWhile_append2) simp
  then have "dropWhile (\<lambda>c. c \<in> set cs) (rev (take i s @ s ! i # drop (Suc i) s)) = s ! i # rev (take i s)"
    using i(2) by simp
  then have "rtrim_of cs s = take (Suc i) s" using l s by (simp add: rtrim_of_def take_Suc_conv_app_nth)
  moreover have "\<not> set s \<subseteq> set cs" using i l nth_mem by blast
  ultimately show ?thesis using that(2) l i(2) Some by blast
qed

lemma rtrim_append: "\<not> set b \<subseteq> set cs \<Longrightarrow> rtrim_of cs (a @ b) = a @ rtrim_of cs b"
  by (auto simp: rtrim_of_def dropWhile_append subset_code(1) dropWhile_eq_Nil_conv)

lemma ltrim_hd: "s \<noteq> [] \<Longrightarrow> first_at (\<lambda>i. s ! i \<notin> set cs) 0 (length s) = Some i \<Longrightarrow> i \<noteq> 0 \<longleftrightarrow> hd s \<in> set cs"
  by (auto simp: first_at_Some hd_conv_nth intro: gr0I)

lemma rtrim_last: "s \<noteq> [] \<Longrightarrow> last_at (\<lambda>i. s ! i \<notin> set cs) (length s - 1) = Some i \<Longrightarrow> i \<noteq> length s - 1 \<longleftrightarrow> last s \<in> set cs"
  by (auto simp: last_at_Some last_conv_nth)

lemma trim_both:
  assumes "i < length s" "ltrim_of cs s = drop i s" "j < length s" "s ! j \<notin> set cs" "rtrim_of cs s = take (Suc j) s"
    "\<forall>k<i. s ! k \<in> set cs"
  shows "rtrim_of cs (drop i s) = take (j - i + 1) (drop i s)"
proof -
  have ij: "i \<le> j" using assms(4,6) by (meson not_le)
  have "s ! j \<in> set (drop i s)" using assms(3) ij nth_mem [of "j - i" "drop i s"] by simp
  then have "\<not> set (drop i s) \<subseteq> set cs" using assms(4) by blast
  then have "rtrim_of cs s = take i s @ rtrim_of cs (drop i s)" by (metis append_take_drop_id rtrim_append)
  moreover have "take (Suc j) s = take i s @ take (j - i + 1) (drop i s)"
    using ij by (metis Suc_diff_le Suc_eq_plus1 add_diff_inverse_nat le_Suc_eq not_less take_add)
  ultimately show ?thesis using assms(5) by simp
qed

definition trimmed :: "string \<Rightarrow> trim_positions \<Rightarrow> string \<Rightarrow> string" where
  "trimmed cs positions s =
    (let s1 = (if fst positions then ltrim_of cs s else s) in if snd positions then rtrim_of cs s1 else s1)"

lemma TrimStringT_correct:
  assumes "length input < npos"
  shows "TrimStringT input cs positions =
    (if input = [] then TRIM_NONE else (fst positions \<and> hd input \<in> set cs, snd positions \<and> last input \<in> set cs),
     trimmed cs positions input)"
proof (cases "input = []")
  case True
  then show ?thesis by (simp add: TrimStringT_def trimmed_def ltrim_of_def rtrim_of_def)
next
  case ne: False
  show ?thesis
  proof (cases "set input \<subseteq> set cs")
    case True
    then have e: "ltrim_of cs input = []" "rtrim_of cs input = []" "hd input \<in> set cs" "last input \<in> set cs"
      using ne by (auto simp: ltrim_of_def rtrim_of_def)
    moreover have "first_at (\<lambda>i. input ! i \<notin> set cs) 0 (length input) = None"
      "last_at (\<lambda>i. input ! i \<notin> set cs) (length input - 1) = None"
    proof -
      have "\<forall>k<length input. input ! k \<in> set cs" using True nth_mem by blast
      moreover have "k \<le> length input - 1 \<Longrightarrow> k < length input" for k using ne by (cases input) auto
      ultimately show "first_at (\<lambda>i. input ! i \<notin> set cs) 0 (length input) = None"
        "last_at (\<lambda>i. input ! i \<notin> set cs) (length input - 1) = None"
        by (simp_all add: first_at_None last_at_None)
    qed
    ultimately show ?thesis using ne assms
      by (cases positions)
        (auto simp: TrimStringT_def trimmed_def string_first_not_of_def string_last_not_of_def or_npos_def rtrim_of_def Let_def)
  next
    case False
    then obtain i where i: "i < length input" "first_at (\<lambda>i. input ! i \<notin> set cs) 0 (length input) = Some i"
      "ltrim_of cs input = drop i input" by (metis first_not_of_cases)
    obtain j where j: "j < length input" "last_at (\<lambda>i. input ! i \<notin> set cs) (length input - 1) = Some j"
      "rtrim_of cs input = take (Suc j) input" "input ! j \<notin> set cs"
      using False ne by (metis last_not_of_cases)
    have low: "\<forall>k<i. input ! k \<in> set cs" using i(2) by (simp add: first_at_Some)
    have both: "rtrim_of cs (drop i input) = take (j - i + 1) (drop i input)"
      by (rule trim_both [OF i(1,3) j(1,4,3) low])
    show ?thesis
      using ltrim_hd [OF ne i(2)] rtrim_last [OF ne j(2)] both i j ne assms
      by (cases positions)
        (auto simp: TrimStringT_def trimmed_def string_first_not_of_def string_last_not_of_def or_npos_def Let_def)
  qed
qed

subsection \<open>Replacing and copying\<close>

definition string_find :: "string \<Rightarrow> string \<Rightarrow> nat \<Rightarrow> nat" where
  "string_find str s pos = or_npos (first_at (occurs_at s str) pos (Suc (length str) - length s))"

partial_function (option) replace_loop :: "bool \<Rightarrow> string \<Rightarrow> string \<Rightarrow> string \<Rightarrow> nat \<Rightarrow> string option" where
  "replace_loop replace_all find_this replace_with str offs =
    (if offs = npos then Some str
     else let str = take offs str @ replace_with @ drop (offs + length find_this) str;
              offs = offs + length replace_with in
       if \<not> replace_all then Some str
       else replace_loop replace_all find_this replace_with str (string_find str find_this offs))"

definition DoReplaceSubstringsAfterOffset :: "string \<Rightarrow> nat \<Rightarrow> string \<Rightarrow> string \<Rightarrow> bool \<Rightarrow> string option" where
  "DoReplaceSubstringsAfterOffset str start_offset find_this replace_with replace_all =
    (if start_offset = npos \<or> start_offset \<ge> length str then Some str
     else replace_loop replace_all find_this replace_with str (string_find str find_this start_offset))"

definition ReplaceFirstSubstringAfterOffset :: "string \<Rightarrow> nat \<Rightarrow> string \<Rightarrow> string \<Rightarrow> string option" where
  "ReplaceFirstSubstringAfterOffset str start_offset find_this replace_with =
    DoReplaceSubstringsAfterOffset str start_offset find_this replace_with False"

text \<open>\<open>strlcpy\<close> reads from memory and writes into a buffer; the third loop counts the rest of the source.\<close>

function lcpy_loop :: "(nat \<Rightarrow> char) \<Rightarrow> nat \<Rightarrow> nat \<Rightarrow> string \<Rightarrow> nat option \<times> string" where
  "lcpy_loop src dst_size i dst =
    (if i < dst_size then
       (let dst = dst[i := src i] in if src i = CHR 0x00 then (Some i, dst) else lcpy_loop src dst_size (Suc i) dst)
     else (None, dst))"
  by auto
termination by (relation "measure (\<lambda>(_, n, i, _). n - i)") auto

declare lcpy_loop.simps [simp del]

partial_function (option) lcpy_rest :: "(nat \<Rightarrow> char) \<Rightarrow> nat \<Rightarrow> nat option" where
  "lcpy_rest src n = (if src n \<noteq> CHR 0x00 then lcpy_rest src (Suc n) else Some n)"

definition lcpyT :: "string \<Rightarrow> (nat \<Rightarrow> char) \<Rightarrow> nat \<Rightarrow> (nat \<times> string) option" where
  "lcpyT dst src dst_size = (case lcpy_loop src dst_size 0 dst of
     (Some i, dst) \<Rightarrow> Some (i, dst)
   | (None, dst) \<Rightarrow>
       (let dst = (if dst_size \<noteq> 0 then dst[dst_size - 1 := CHR 0x00] else dst) in
        map_option (\<lambda>n. (n, dst)) (lcpy_rest src dst_size)))"

subsection \<open>Splitting\<close>

abbreviation trim_all :: "string \<Rightarrow> string" where
  "trim_all s \<equiv> snd (TrimWhitespace s TRIM_ALL)"

function split_loop :: "string \<Rightarrow> char \<Rightarrow> bool \<Rightarrow> nat \<Rightarrow> nat \<Rightarrow> string list \<Rightarrow> string list" where
  "split_loop str s trim_whitespace i last_end r =
    (if i > length str then r
     else if i = length str \<or> str ! i = s then
       (let tmp = take (i - last_end) (drop last_end str) in
        split_loop str s trim_whitespace (Suc i) (Suc i) (r @ [if trim_whitespace then trim_all tmp else tmp]))
     else split_loop str s trim_whitespace (Suc i) last_end r)"
  by auto
termination by (relation "measure (\<lambda>(str, _, _, i, _, _). Suc (length str) - i)") auto

declare split_loop.simps [simp del]

definition SplitStringT :: "string \<Rightarrow> char \<Rightarrow> bool \<Rightarrow> string list \<Rightarrow> string list" where
  "SplitStringT str s trim_whitespace r = split_loop str s trim_whitespace 0 0 r"

definition SplitString :: "string \<Rightarrow> char \<Rightarrow> string list \<Rightarrow> string list" where
  "SplitString str c r = SplitStringT str c True r"

definition SplitStringDontTrim :: "string \<Rightarrow> char \<Rightarrow> string list \<Rightarrow> string list" where
  "SplitStringDontTrim str c r = SplitStringT str c False r"

text \<open>The result, the key and the values.\<close>

definition SplitStringIntoKeyValues :: "string \<Rightarrow> char \<Rightarrow> bool \<times> string \<times> string list" where
  "SplitStringIntoKeyValues line key_value_delimiter =
    (let end_key_pos = or_npos (first_at (\<lambda>i. line ! i = key_value_delimiter) 0 (length line)) in
     if end_key_pos = npos then (False, [], [])
     else let key = take end_key_pos line;
              remains = drop end_key_pos line;
              begin_values_pos = string_first_not_of remains [key_value_delimiter] in
       if begin_values_pos = npos then (False, key, [])
       else (True, key, [drop begin_values_pos remains]))"

fun pairs_loop :: "char \<Rightarrow> string list \<Rightarrow> bool \<Rightarrow> (string \<times> string) list \<Rightarrow> bool \<times> (string \<times> string) list" where
  "pairs_loop d [] success kv_pairs = (success, kv_pairs)"
| "pairs_loop d (p # ps) success kv_pairs =
    (if p = [] then pairs_loop d ps success kv_pairs
     else case SplitStringIntoKeyValues p d of (ok, key, value) \<Rightarrow>
       pairs_loop d ps (if \<not> ok then False else success)
         (kv_pairs @ [(key, if value = [] then [] else value ! 0)]))"

definition SplitStringIntoKeyValuePairs :: "string \<Rightarrow> char \<Rightarrow> char \<Rightarrow> bool \<times> (string \<times> string) list" where
  "SplitStringIntoKeyValuePairs line key_value_delimiter key_value_pair_delimiter =
    pairs_loop key_value_delimiter (SplitString line key_value_pair_delimiter []) True []"

partial_function (option) substr_loop :: "string \<Rightarrow> string \<Rightarrow> nat \<Rightarrow> string list \<Rightarrow> string list option" where
  "substr_loop str s begin_index r =
    (let end_index = string_find str s begin_index in
     if end_index = npos then Some (r @ [trim_all (drop begin_index str)])
     else substr_loop str s (end_index + length s)
            (r @ [trim_all (take (end_index - begin_index) (drop begin_index str))]))"

definition SplitStringUsingSubstr :: "string \<Rightarrow> string \<Rightarrow> string list \<Rightarrow> string list option" where
  "SplitStringUsingSubstr str s r = substr_loop str s 0 r"

function ws_loop :: "string \<Rightarrow> nat \<Rightarrow> bool \<Rightarrow> nat \<Rightarrow> string list \<Rightarrow> bool \<times> nat \<times> string list" where
  "ws_loop str i last_was_ws last_non_ws_start result =
    (if i < length str then
       if blank (str ! i) then
         (if \<not> last_was_ws then
            ws_loop str (Suc i) True last_non_ws_start
              (if i > 0 then result @ [take (i - last_non_ws_start) (drop last_non_ws_start str)] else result)
          else ws_loop str (Suc i) last_was_ws last_non_ws_start result)
       else if last_was_ws then ws_loop str (Suc i) False i result
       else ws_loop str (Suc i) last_was_ws last_non_ws_start result
     else (last_was_ws, last_non_ws_start, result))"
  by auto
termination by (relation "measure (\<lambda>(str, i, _, _, _). length str - i)") auto

declare ws_loop.simps [simp del]

definition SplitStringAlongWhitespace :: "string \<Rightarrow> string list \<Rightarrow> string list" where
  "SplitStringAlongWhitespace str result =
    (if length str = 0 then result
     else case ws_loop str 0 False 0 result of (last_was_ws, last_non_ws_start, result) \<Rightarrow>
       if \<not> last_was_ws then result @ [take (length str - last_non_ws_start) (drop last_non_ws_start str)] else result)"

subsection \<open>What splitting gives\<close>

text \<open>The pieces between the characters that satisfy a predicate, and their inverse.\<close>

fun pieces :: "(char \<Rightarrow> bool) \<Rightarrow> string \<Rightarrow> string list" where
  "pieces P [] = [[]]"
| "pieces P (x # xs) = (if P x then [] # pieces P xs else (x # hd (pieces P xs)) # tl (pieces P xs))"

fun join :: "char \<Rightarrow> string list \<Rightarrow> string" where
  "join c [] = []"
| "join c [p] = p"
| "join c (p # q # ps) = p @ c # join c (q # ps)"

lemma fields_ne [simp]: "pieces P s \<noteq> []"
  by (cases s) auto

lemma fields_none: "\<forall>c\<in>set p. \<not> P c \<Longrightarrow> pieces P p = [p]"
  by (induction p) auto

lemma fields_cut: "\<forall>c\<in>set p. \<not> P c \<Longrightarrow> P c \<Longrightarrow> pieces P (p @ c # q) = p # pieces P q"
  by (induction p) auto

lemma join_Cons: "ps \<noteq> [] \<Longrightarrow> join c (p # ps) = p @ c # join c ps"
  by (cases ps) auto

lemma join_fields: "join c (pieces ((=) c) s) = s"
proof (induction s)
  case (Cons x s)
  then show ?case using fields_ne [of "(=) c" s]
    by (cases "pieces ((=) c) s"; cases "tl (pieces ((=) c) s)") (auto simp: join_Cons)
qed simp

lemma in_fields: "p \<in> set (pieces P s) \<Longrightarrow> c \<in> set p \<Longrightarrow> \<not> P c"
proof (induction s arbitrary: p)
  case (Cons x s)
  then show ?case using fields_ne [of P s] Cons.IH [of "hd (pieces P s)"]
    by (cases "pieces P s") (auto split: if_splits)
qed simp

lemma fields_join:
  "ps \<noteq> [] \<Longrightarrow> \<forall>p\<in>set ps. c \<notin> set p \<Longrightarrow> pieces ((=) c) (join c ps) = ps"
proof (induction ps rule: induct_list012)
  case (2 p)
  then show ?case using fields_none [of p "(=) c"] by auto
next
  case (3 p q ps)
  then have "\<forall>x\<in>set p. c \<noteq> x" by auto
  then show ?case using fields_cut [of p "(=) c" c "join c (q # ps)"] 3 by simp
qed simp

lemma piece_at:
  assumes "b \<le> i" "i < length str"
  shows "drop b str = take (i - b) (drop b str) @ str ! i # drop (Suc i) str"
  using assms id_take_nth_drop [of "i - b" "drop b str"] by simp

lemma split_loop_end: "split_loop str s t (Suc (length str)) b r = r"
  by (subst split_loop.simps) simp

lemma split_loop_fields:
  assumes "b \<le> i" "i \<le> length str" "\<forall>c\<in>set (take (i - b) (drop b str)). c \<noteq> s"
  shows "split_loop str s t i b r = r @ map (if t then trim_all else id) (pieces ((=) s) (drop b str))"
  using assms
proof (induction str s t i b r rule: split_loop.induct)
  case (1 str s t i b r)
  let ?p = "take (i - b) (drop b str)"
  consider "i = length str" | "i < length str" "str ! i = s" | "i < length str" "str ! i \<noteq> s"
    using 1(4) by linarith
  then show ?case
  proof cases
    case 1
    then have "pieces ((=) s) (drop b str) = [?p]" using fields_none [of ?p "(=) s"] "1.prems" by auto
    then show ?thesis using 1 "1.prems" by (subst split_loop.simps) (simp add: split_loop_end)
  next
    case 2
    have p: "pieces ((=) s) (drop b str) = ?p # pieces ((=) s) (drop (Suc i) str)"
      by (subst piece_at [of b i str]) (use 2 "1.prems" in \<open>auto intro!: fields_cut\<close>)
    show ?thesis unfolding p
      by (subst split_loop.simps) (use 2 "1.IH"(1) in simp)
  next
    case 3
    have "take (Suc i - b) (drop b str) = ?p @ [str ! i]"
      using 3 "1.prems" by (simp add: Suc_diff_le take_Suc_conv_app_nth)
    then have "\<forall>c\<in>set (take (Suc i - b) (drop b str)). c \<noteq> s" using 3 "1.prems" by auto
    then show ?thesis using 3 "1.IH"(2) "1.prems" by (subst split_loop.simps) simp
  qed
qed

lemma SplitStringT_fields:
  "SplitStringT str s t r = r @ map (if t then trim_all else id) (pieces ((=) s) str)"
  unfolding SplitStringT_def by (subst split_loop_fields) auto

text \<open>\<open>SplitStringDontTrim\<close> and joining are inverse to each other: the pieces hold no delimiter and joined by it
  they are the string; and the pieces of joined texts without the delimiter are those texts.\<close>

theorem split_join:
  assumes "ps \<noteq> []" "\<forall>p\<in>set ps. c \<notin> set p"
  shows "SplitStringDontTrim (join c ps) c [] = ps \<and>
    join c (SplitStringDontTrim str c []) = str \<and> list_all (\<lambda>p. c \<notin> set p) (SplitStringDontTrim str c [])"
  using fields_join [OF assms] in_fields [of _ "(=) c" str]
  by (auto simp: SplitStringDontTrim_def SplitStringT_fields join_fields list_all_iff)

theorem split_join_witness:
  "SplitStringDontTrim (join CHR '','' [''a'', '''', ''bc'']) CHR '','' [] = [''a'', '''', ''bc''] \<and>
    join CHR '','' (SplitStringDontTrim '',x'' CHR '','' []) = '',x''"
  using split_join [of "[''a'', '''', ''bc'']" "CHR '',''" "'',x''"] by simp

subsection \<open>A delimiter of several characters\<close>

lemma string_find_range:
  assumes "string_find str s b \<noteq> npos"
  shows "b \<le> string_find str s b \<and> string_find str s b + length s \<le> length str"
proof (cases "first_at (occurs_at s str) b (Suc (length str) - length s)")
  case (Some e)
  then have "b \<le> e \<and> e < Suc (length str) - length s" by (simp add: first_at_Some)
  then show ?thesis using Some by (auto simp: string_find_def or_npos_def)
qed (use assms in \<open>simp add: string_find_def or_npos_def\<close>)

lemma substr_loop_ends: "s \<noteq> [] \<Longrightarrow> substr_loop str s b r \<noteq> None"
proof (induction "length str - b" arbitrary: b r rule: less_induct)
  case less
  show ?case
  proof (cases "string_find str s b = npos")
    case True
    then show ?thesis by (subst substr_loop.simps) simp
  next
    case False
    then have e: "b \<le> string_find str s b" "string_find str s b + length s \<le> length str"
      using string_find_range by blast+
    have "length str - (string_find str s b + length s) < length str - b" using e less.prems by (cases s) auto
    then have "substr_loop str s (string_find str s b + length s) r' \<noteq> None" for r' using less by simp
    then show ?thesis using False by (subst substr_loop.simps) (simp add: Let_def)
  qed
qed

lemma substr_loop_hangs:
  "substr_loop str s b r = Some y \<Longrightarrow> s = [] \<and> length str < npos \<longrightarrow> b > length str"
proof (induction rule: substr_loop.raw_induct [rotated, consumes 1])
  case (1 f str s b r y)
  show ?case
  proof (rule impI, rule ccontr)
    assume s: "s = [] \<and> length str < npos" and b: "\<not> b > length str"
    then have "string_find str s b = b" "b \<noteq> npos"
      by (auto simp: string_find_def first_at.simps [of _ b] occurs_at_def or_npos_def)
    then have "f str s b (r @ [trim_all []]) = Some y" using 1(2) s by (simp add: Let_def)
    then show False using 1(1) s b by blast
  qed
qed

text \<open>\<open>SplitStringUsingSubstr\<close> returns exactly when its delimiter is not empty; with an empty one it adds pieces
  for ever.\<close>

theorem split_substr_ends_iff:
  assumes "length str < npos"
  shows "SplitStringUsingSubstr str s r \<noteq> None \<longleftrightarrow> s \<noteq> []"
  using substr_loop_ends [of s str 0 r] substr_loop_hangs [of str s 0 r] assms
  by (cases "SplitStringUsingSubstr str s r") (auto simp: SplitStringUsingSubstr_def)

theorem split_substr_ends_iff_witness: "SplitStringUsingSubstr ''a--b'' '''' [] = None"
  using split_substr_ends_iff [of "''a--b''" "''''" "[]"] by (simp add: npos_def)

subsection \<open>White space\<close>

lemma fields_words:
  assumes "\<forall>c\<in>set p. \<not> blank c"
  shows "p \<noteq> [] \<Longrightarrow> filter (\<lambda>p. p \<noteq> []) (pieces blank p) = [p]"
    and "p \<noteq> [] \<Longrightarrow> blank c \<Longrightarrow> filter (\<lambda>p. p \<noteq> []) (pieces blank (p @ c # q)) = p # filter (\<lambda>p. p \<noteq> []) (pieces blank q)"
  using fields_none [OF assms] fields_cut [OF assms] by auto

definition ws_end :: "string \<Rightarrow> bool \<times> nat \<times> string list \<Rightarrow> string list" where
  "ws_end str = (\<lambda>(w, st, r). if \<not> w then r @ [take (length str - st) (drop st str)] else r)"

lemma ws_loop_words:
  assumes "i \<le> length str" "\<not> w \<longrightarrow> b < i \<and> (\<forall>c\<in>set (take (i - b) (drop b str)). \<not> blank c)"
  shows "ws_end str (ws_loop str i w b r) =
    r @ filter (\<lambda>p. p \<noteq> []) (pieces blank (drop (if w then i else b) str))"
  using assms
proof (induction str i w b r rule: ws_loop.induct)
  case (1 str i w b r)
  let ?p = "take (i - b) (drop b str)"
  consider "i = length str" | "i < length str" "blank (str ! i)" | "i < length str" "\<not> blank (str ! i)"
    using 1(5) by linarith
  then show ?case
  proof cases
    case 1
    have "?p \<noteq> []" if "\<not> w" using that "1.prems" 1 by auto
    then show ?thesis using 1 "1.prems" fields_words(1) [of ?p]
      by (subst ws_loop.simps) (auto simp: ws_end_def)
  next
    case 2
    have "drop i str = str ! i # drop (Suc i) str" using 2 by (simp add: Cons_nth_drop_Suc)
    moreover have "filter (\<lambda>p. p \<noteq> []) (pieces blank (drop b str)) =
        ?p # filter (\<lambda>p. p \<noteq> []) (pieces blank (drop (Suc i) str))" if "\<not> w"
      by (subst piece_at [of b i str]) (use that 2 "1.prems" in \<open>auto intro!: fields_words(2)\<close>)
    ultimately show ?thesis using 2 "1.IH"(1,2) "1.prems" by (subst ws_loop.simps) auto
  next
    case 3
    have "take (Suc i - b) (drop b str) = ?p @ [str ! i]" if "\<not> w"
      using 3 "1.prems"(2) that by (auto simp: Suc_diff_le take_Suc_conv_app_nth)
    moreover have "take (Suc i - i) (drop i str) = [str ! i]" using 3 by (simp add: take_Suc_conv_app_nth)
    ultimately show ?thesis using 3 "1.IH"(3,4) "1.prems" by (subst ws_loop.simps) auto
  qed
qed

lemma SplitStringAlongWhitespace_words:
  "SplitStringAlongWhitespace str r = r @ filter (\<lambda>p. p \<noteq> []) (pieces blank str)"
proof (cases str)
  case (Cons c s)
  have e: "SplitStringAlongWhitespace str r = ws_end str (ws_loop str 0 False 0 r)"
    using Cons by (simp add: SplitStringAlongWhitespace_def ws_end_def)
  show ?thesis
  proof (cases "blank c")
    case True
    then have "ws_loop str 0 False 0 r = ws_loop str 1 True 0 r" using Cons by (subst ws_loop.simps) simp
    then show ?thesis using e Cons True ws_loop_words [of 1 str True 0 r] by simp
  next
    case False
    then have "ws_loop str 0 False 0 r = ws_loop str 1 False 0 r" using Cons by (subst ws_loop.simps) simp
    then show ?thesis using e Cons False ws_loop_words [of 1 str False 0 r] by simp
  qed
qed (simp add: SplitStringAlongWhitespace_def)

text \<open>\<open>TrimString\<close> takes away the characters of the set at both ends and no others, and says whether there were
  any; \<open>SplitStringAlongWhitespace\<close> gives the words: the non-empty pieces between white space.\<close>

theorem trim_and_words:
  assumes "length str < npos"
  shows "TrimString str cs = (str \<noteq> [] \<and> (hd str \<in> set cs \<or> last str \<in> set cs), rtrim_of cs (ltrim_of cs str)) \<and>
    SplitStringAlongWhitespace str [] = filter (\<lambda>p. p \<noteq> []) (pieces blank str)"
  using TrimStringT_correct [OF assms, of cs TRIM_ALL]
  by (simp add: TrimString_def SplitStringAlongWhitespace_words trimmed_def)

theorem trim_and_words_witness:
  "TrimString ''  a b '' '' '' = (True, ''a b'') \<and> SplitStringAlongWhitespace ''  a b '' [] = [''a'', ''b'']"
  using trim_and_words [of "''  a b ''" "'' ''"]
  by (simp add: npos_def rtrim_of_def ltrim_of_def blank_def kWhitespaceASCII_def)

subsection \<open>strlcpy\<close>

text \<open>The memory behind a pointer to the C string \<open>s\<close>.\<close>

definition holds_cstr :: "(nat \<Rightarrow> char) \<Rightarrow> string \<Rightarrow> bool" where
  "holds_cstr src s \<longleftrightarrow> (\<forall>i<length s. src i = s ! i \<and> s ! i \<noteq> CHR 0x00) \<and> src (length s) = CHR 0x00"

lemma lcpy_loop_copies:
  assumes "holds_cstr src s" "i \<le> length s" "i \<le> n" "n \<le> length dst" "take i dst = take i s"
  shows "lcpy_loop src n i dst =
    (if length s < n then (Some (length s), s @ [CHR 0x00] @ drop (Suc (length s)) dst) else (None, take n s @ drop n dst))"
  using assms
proof (induction src n i dst rule: lcpy_loop.induct)
  case (1 src n i dst)
  consider "i = n" | "i < n" "i < length s" | "i < n" "i = length s" using 1(3,4) by linarith
  then show ?case
  proof cases
    case 1
    then show ?thesis using "1.prems" by (subst lcpy_loop.simps) (auto, metis append_take_drop_id)
  next
    case 2
    have c: "src i = s ! i" "s ! i \<noteq> CHR 0x00" using "1.prems"(1) 2 by (auto simp: holds_cstr_def)
    have "take (Suc i) (dst[i := src i]) = take (Suc i) s"
      using 2 c "1.prems" by (simp add: take_Suc_conv_app_nth)
    then show ?thesis using 2 c "1.IH" "1.prems" by (subst lcpy_loop.simps) (auto simp: Let_def)
  next
    case 3
    have "src i = CHR 0x00" using "1.prems"(1) 3 by (simp add: holds_cstr_def)
    then show ?thesis using 3 "1.prems" by (subst lcpy_loop.simps) (simp add: upd_conv_take_nth_drop)
  qed
qed

lemma lcpy_rest_counts:
  "holds_cstr src s \<Longrightarrow> n \<le> length s \<Longrightarrow> lcpy_rest src n = Some (length s)"
proof (induction "length s - n" arbitrary: n)
  case 0
  then show ?case by (subst lcpy_rest.simps) (simp add: holds_cstr_def)
next
  case (Suc d)
  then show ?case by (subst lcpy_rest.simps) (auto simp: holds_cstr_def)
qed

text \<open>\<open>strlcpy\<close> returns the length of its source; into a buffer of \<open>dst_size > 0\<close> bytes it writes the first
  \<open>dst_size - 1\<close> characters with a terminator, into an empty one nothing, and no byte behind them.\<close>

theorem strlcpy_correct:
  assumes "holds_cstr src s" "dst_size \<le> length dst"
  shows "lcpyT dst src dst_size = Some (length s,
    if dst_size = 0 then dst
    else take (dst_size - 1) s @ [CHR 0x00] @ drop (Suc (min (length s) (dst_size - 1))) dst)"
proof -
  note copy = lcpy_loop_copies [OF assms(1), of 0 dst_size dst]
  show ?thesis
  proof (cases "length s < dst_size")
    case True
    then show ?thesis using copy assms by (simp add: lcpyT_def min_def)
  next
    case False
    then have r: "lcpy_rest src dst_size = Some (length s)" using lcpy_rest_counts [OF assms(1)] by simp
    have "(take dst_size s @ drop dst_size dst)[dst_size - 1 := CHR 0x00] =
        take (dst_size - 1) s @ [CHR 0x00] @ drop dst_size dst" if "dst_size \<noteq> 0"
      using that False assms(2) by (simp add: upd_conv_take_nth_drop min_def)
    then show ?thesis using copy assms False r by (auto simp: lcpyT_def min_def Let_def)
  qed
qed

theorem strlcpy_correct_witness:
  "lcpyT ''........'' (\<lambda>i. (''hello'' @ [CHR 0x00]) ! i) 4 = Some (5, ''hel'' @ [CHR 0x00] @ ''....'')"
  using strlcpy_correct [of "\<lambda>i. (''hello'' @ [CHR 0x00]) ! i" "''hello''" 4 "''........''"]
  by (simp add: holds_cstr_def All_less_Suc eval_nat_numeral)

end
