(* ===== verification/Vlog.thy ===== *)
theory Vlog
  imports Splitting
begin

section \<open>Verbose logging\<close>

text \<open>
  vlog.cc: which verbosity applies to a source file. The switch \<open>--v\<close> sets the level of all files, \<open>--vmodule\<close> gives
  patterns with levels of their own, tried in order. The variable \<open>min_log_level\<close> of logging.cc, which \<open>VlogInfo\<close>
  writes through a pointer, is an argument and a result. \<open>atoi\<close> is modelled for numbers that an \<open>int\<close> holds.
\<close>

subsection \<open>Patterns\<close>

definition slash :: "char \<Rightarrow> bool" where
  "slash c \<longleftrightarrow> c = CHR ''/'' \<or> c = CHR 0x5C"

text \<open>One turn of the first loop, for one character of the pattern and one of the string.\<close>

definition pattern_char :: "char \<Rightarrow> char \<Rightarrow> bool" where
  "pattern_char p s =
    (if slash p then (if s \<noteq> CHR ''/'' \<and> s \<noteq> CHR 0x5C then False else True)
     else if p = CHR ''?'' then True
     else (if p \<noteq> s then False else True))"

text \<open>The first loop: \<open>None\<close> when a character does not match, else what is left of the pattern and the string.\<close>

fun consume_chars :: "string \<Rightarrow> string \<Rightarrow> (string \<times> string) option" where
  "consume_chars (p # ps) (s # ss) =
    (if p = CHR ''*'' then Some (p # ps, s # ss)
     else if pattern_char p s then consume_chars ps ss else None)"
| "consume_chars ps ss = Some (ps, ss)"

definition skip_stars :: "string \<Rightarrow> string" where
  "skip_stars p = dropWhile (\<lambda>c. c = CHR ''*'') p"

lemma consume_chars_shorter:
  "consume_chars ps ss = Some (p, s) \<Longrightarrow>
     length p \<le> length ps \<and> length s \<le> length ss \<and> (p \<noteq> [] \<longrightarrow> s \<noteq> [] \<longrightarrow> hd p = CHR ''*'')"
  by (induction ps ss rule: consume_chars.induct) (auto split: if_splits)

lemma skip_stars_shorter: "hd p = CHR ''*'' \<Longrightarrow> p \<noteq> [] \<Longrightarrow> length (skip_stars p) < length p"
  by (cases p) (auto simp: skip_stars_def length_dropWhile_le le_imp_less_Suc)

text \<open>The function and its last loop, over the ends of the string.\<close>

function MatchVlogPattern :: "string \<Rightarrow> string \<Rightarrow> bool"
  and match_ends :: "string \<Rightarrow> string \<Rightarrow> bool" where
  "MatchVlogPattern string vlog_pattern = (case consume_chars vlog_pattern string of
     None \<Rightarrow> False
   | Some (p, s) \<Rightarrow>
       if p = [] then s = []
       else let p' = skip_stars p in
         if p' = [] then True
         else if s = [] then False
         else match_ends s p')"
| "match_ends s p =
    (if s = [] then False else if MatchVlogPattern s p then True else match_ends (tl s) p)"
  by pat_completeness auto
termination
  by (relation "measure (\<lambda>x. case x of Inl (s, p) \<Rightarrow> 2 * (length p + length s) | Inr (s, p) \<Rightarrow> Suc (2 * (length p + length s)))")
    (auto dest!: consume_chars_shorter dest: skip_stars_shorter)

declare MatchVlogPattern.simps [simp del] match_ends.simps [simp del]

text \<open>The reference: a star stands for any run of characters, a question mark for any character, a slash of either
  kind for a slash of either kind, and every other character for itself.\<close>

fun glob :: "string \<Rightarrow> string \<Rightarrow> bool" where
  "glob [] s \<longleftrightarrow> s = []"
| "glob (p # ps) s \<longleftrightarrow>
    (if p = CHR ''*'' then \<exists>k\<le>length s. glob ps (drop k s)
     else s \<noteq> [] \<and> (slash p \<and> slash (hd s) \<or> p = CHR ''?'' \<or> p = hd s) \<and> glob ps (tl s))"

lemma pattern_char_iff: "pattern_char p c \<longleftrightarrow> slash p \<and> slash c \<or> p = CHR ''?'' \<or> p = c"
  by (auto simp: pattern_char_def slash_def)

lemma consume_chars_glob:
  "case consume_chars ps ss of None \<Rightarrow> \<not> glob ps ss | Some (p, s) \<Rightarrow> glob ps ss = glob p s"
  by (induction ps ss rule: consume_chars.induct) (auto simp: pattern_char_iff split: option.splits)

lemma later: "(\<exists>k\<le>n. \<exists>j\<le>n - k. Q (j + k)) \<longleftrightarrow> (\<exists>k\<le>n. Q k)" for n :: nat
proof
  assume "\<exists>k\<le>n. \<exists>j\<le>n - k. Q (j + k)"
  then obtain k j where "k \<le> n" "j \<le> n - k" "Q (j + k)" by blast
  then have "j + k \<le> n \<and> Q (j + k)" by simp
  then show "\<exists>k\<le>n. Q k" by blast
next
  assume "\<exists>k\<le>n. Q k"
  then obtain k where "k \<le> n" "Q (0 + k)" by auto
  then show "\<exists>k\<le>n. \<exists>j\<le>n - k. Q (j + k)" by blast
qed

lemma glob_star: "glob (CHR ''*'' # p) s \<longleftrightarrow> (\<exists>k\<le>length s. glob (skip_stars p) (drop k s))"
proof (induction p arbitrary: s)
  case (Cons c p)
  show ?case
  proof (cases "c = CHR ''*''")
    case True
    have "glob (CHR ''*'' # CHR ''*'' # p) s \<longleftrightarrow> (\<exists>k\<le>length s. \<exists>j\<le>length s - k. glob (skip_stars p) (drop (j + k) s))"
      using Cons by (subst glob.simps) (simp add: add.commute del: glob.simps)
    also have "\<dots> \<longleftrightarrow> (\<exists>k\<le>length s. glob (skip_stars p) (drop k s))"
      by (rule later)
    finally show ?thesis using True by (simp add: skip_stars_def)
  qed (simp add: skip_stars_def)
qed (simp add: skip_stars_def)

lemma skip_stars_hd: "skip_stars p = c # q \<Longrightarrow> c \<noteq> CHR ''*''"
  using hd_dropWhile [of "\<lambda>c. c = CHR ''*''" p] by (simp add: skip_stars_def)

lemma glob_rest:
  assumes "p \<noteq> []" "s \<noteq> [] \<longrightarrow> hd p = CHR ''*''"
  shows "glob p s \<longleftrightarrow> skip_stars p = [] \<or> (\<exists>k<length s. glob (skip_stars p) (drop k s))"
proof (cases "hd p = CHR ''*''")
  case True
  then obtain q where p: "p = CHR ''*'' # q" using assms(1) by (cases p) auto
  have "glob p s \<longleftrightarrow> (\<exists>k\<le>length s. glob (skip_stars p) (drop k s))"
    unfolding p by (subst glob_star) (simp add: skip_stars_def)
  moreover have "glob (skip_stars p) [] \<longleftrightarrow> skip_stars p = []"
    using skip_stars_hd [of p] by (cases "skip_stars p") auto
  ultimately show ?thesis by (auto simp: le_less)
next
  case False
  then have "s = []" "skip_stars p = p" using assms by (auto simp: skip_stars_def dropWhile_eq_self_iff)
  then show ?thesis using False assms(1) by (cases p) auto
qed

lemma match_glob:
  "MatchVlogPattern s p = glob p s" "match_ends s p \<longleftrightarrow> (\<exists>k<length s. glob p (drop k s))"
proof (induction s p and s p rule: MatchVlogPattern_match_ends.induct)
  case (1 string pat)
  show ?case
  proof (cases "consume_chars pat string")
    case None
    then show ?thesis using consume_chars_glob [of pat string] by (simp add: MatchVlogPattern.simps)
  next
    case (Some ps)
    obtain p s where ps: "ps = (p, s)" by (cases ps)
    have g: "glob pat string = glob p s" using Some ps consume_chars_glob [of pat string] by simp
    show ?thesis
    proof (cases "p = []")
      case False
      have "glob p s \<longleftrightarrow> skip_stars p = [] \<or> (\<exists>k<length s. glob (skip_stars p) (drop k s))"
        using glob_rest [OF False, of s] consume_chars_shorter [OF Some [unfolded ps]] False by simp
      moreover have "match_ends s (skip_stars p) \<longleftrightarrow> (\<exists>k<length s. glob (skip_stars p) (drop k s))"
        if "skip_stars p \<noteq> []" "s \<noteq> []" using 1 [OF Some ps [symmetric] False refl that] .
      moreover have "MatchVlogPattern string pat \<longleftrightarrow>
          (if skip_stars p = [] then True else if s = [] then False else match_ends s (skip_stars p))"
        using False by (simp add: MatchVlogPattern.simps Some ps Let_def)
      ultimately show ?thesis using g by (cases "skip_stars p = []"; cases "s = []") simp_all
    qed (use Some ps g in \<open>simp add: MatchVlogPattern.simps\<close>)
  qed
next
  case (2 s p)
  show ?case
  proof (cases s)
    case (Cons c t)
    have "(\<exists>k<length s. glob p (drop k s)) \<longleftrightarrow> glob p s \<or> (\<exists>k<length t. glob p (drop k t))"
      unfolding Cons by (simp add: Ex_less_Suc2)
    moreover have "match_ends s p \<longleftrightarrow> MatchVlogPattern s p \<or> match_ends t p"
      by (subst match_ends.simps) (simp add: Cons)
    moreover have "MatchVlogPattern s p = glob p s" by (rule 2(1)) (simp add: Cons)
    moreover have "\<not> MatchVlogPattern s p \<Longrightarrow> match_ends t p \<longleftrightarrow> (\<exists>k<length t. glob p (drop k t))"
      using 2(2) Cons by simp
    ultimately show ?thesis by blast
  qed (simp add: match_ends.simps)
qed

text \<open>C30: \<open>MatchVlogPattern\<close>, which works from the left with a recursion per star, ends on every input and is the
  matching of the reference.\<close>

theorem pattern_reference: "MatchVlogPattern s p \<longleftrightarrow> glob p s"
  by (rule match_glob)

subsection \<open>Levels\<close>

definition decimal_value :: "string \<Rightarrow> int" where
  "decimal_value ds = foldl (\<lambda>v c. 10 * v + (of_char c - 48)) 0 ds"

definition is_digit :: "char \<Rightarrow> bool" where
  "is_digit c \<longleftrightarrow> (48 :: nat) \<le> of_char c \<and> (of_char c :: nat) \<le> 57"

text \<open>\<open>atoi\<close>: white space, a sign, digits; a number that an \<open>int\<close> does not hold gives the nearest one.\<close>

definition atoi :: "string \<Rightarrow> int" where
  "atoi s =
    (let t = dropWhile blank s;
         neg = (t \<noteq> [] \<and> hd t = CHR ''-'');
         ds = takeWhile is_digit (if t \<noteq> [] \<and> (hd t = CHR ''-'' \<or> hd t = CHR ''+'') then tl t else t);
         v = (if neg then - decimal_value ds else decimal_value ds) in
     max (- 2147483648) (min 2147483647 v))"

text \<open>Negation of an \<open>int\<close>.\<close>

definition neg32 :: "int \<Rightarrow> int" where
  "neg32 x = (if x = - 2147483648 then x else - x)"

datatype match_target = MATCH_MODULE | MATCH_FILE

record VmodulePattern =
  pattern :: string
  vlog_level :: int
  target_of :: match_target

definition kDefaultVlogLevel :: int where
  "kDefaultVlogLevel = 0"

definition new_pattern :: "string \<Rightarrow> VmodulePattern" where
  "new_pattern p =
    (let first_slash = or_npos (first_at (\<lambda>i. p ! i \<in> set [CHR 0x5C, CHR ''/'']) 0 (length p)) in
     \<lparr>pattern = p, vlog_level = kDefaultVlogLevel, target_of = (if first_slash \<noteq> npos then MATCH_FILE else MATCH_MODULE)\<rparr>)"

definition SetMaxVlogLevel :: "int \<Rightarrow> int \<Rightarrow> int" where
  "SetMaxVlogLevel level min_log_level = neg32 level"

definition GetMaxVlogLevel :: "int \<Rightarrow> int" where
  "GetMaxVlogLevel min_log_level = neg32 min_log_level"

text \<open>The constructor: the patterns, and what it leaves in \<open>min_log_level\<close>.\<close>

definition new_VlogInfo :: "string \<Rightarrow> string \<Rightarrow> int \<Rightarrow> VmodulePattern list \<times> int" where
  "new_VlogInfo v_switch vmodule_switch min_log_level =
    (let min_log_level = (if v_switch \<noteq> [] then SetMaxVlogLevel (atoi v_switch) min_log_level else min_log_level);
         kv_pairs = snd (SplitStringIntoKeyValuePairs vmodule_switch CHR ''='' CHR '','') in
     (map (\<lambda>(k, v). (new_pattern k)\<lparr>vlog_level := atoi v\<rparr>) kv_pairs, min_log_level))"

definition GetModule :: "string \<Rightarrow> string" where
  "GetModule file =
    (let module = file;
         last_slash_pos = find_last_of module [CHR 0x5C, CHR ''/''] npos;
         module = (if last_slash_pos \<noteq> npos then remove_prefix (last_slash_pos + 1) module else module);
         extension_start = piece_rfind_char module CHR ''.'' npos;
         module = piece_substr module 0 extension_start in
     if ends_with module ''-inl'' then remove_suffix 4 module else module)"

fun level_loop :: "string \<Rightarrow> string \<Rightarrow> int \<Rightarrow> VmodulePattern list \<Rightarrow> int" where
  "level_loop file module min_log_level [] = GetMaxVlogLevel min_log_level"
| "level_loop file module min_log_level (it # its) =
    (let target = (if target_of it = MATCH_FILE then file else module) in
     if MatchVlogPattern target (pattern it) then vlog_level it else level_loop file module min_log_level its)"

definition GetVlogLevel :: "VmodulePattern list \<Rightarrow> int \<Rightarrow> string \<Rightarrow> int" where
  "GetVlogLevel vmodule_levels min_log_level file =
    (if vmodule_levels \<noteq> [] then level_loop file (GetModule file) min_log_level vmodule_levels
     else GetMaxVlogLevel min_log_level)"

subsection \<open>The module of a file\<close>

definition before_last :: "char \<Rightarrow> string \<Rightarrow> string" where
  "before_last c s = (if c \<in> set s then rev (tl (dropWhile (\<lambda>x. x \<noteq> c) (rev s))) else s)"

definition base_name :: "string \<Rightarrow> string" where
  "base_name s = rev (takeWhile (\<lambda>c. \<not> slash c) (rev s))"

definition module_of :: "string \<Rightarrow> string" where
  "module_of file = (let m = before_last CHR ''.'' (base_name file) in
     if drop (length m - 4) m = ''-inl'' then take (length m - 4) m else m)"

lemma last_found:
  assumes "last_result (\<lambda>i. P (s ! i)) npos (length s) r" "length s < npos"
  shows "if \<exists>c\<in>set s. P c then r < length s \<and> P (s ! r) \<and> (\<forall>c\<in>set (drop (Suc r) s). \<not> P c) else r = npos"
proof (cases "\<exists>c\<in>set s. P c")
  case True
  then obtain i where i: "i < length s" "P (s ! i)" by (auto simp: in_set_conv_nth)
  then have "i \<le> npos" using assms(2) by simp
  then have "\<not> (\<forall>i<length s. i \<le> npos \<longrightarrow> \<not> P (s ! i))" using i by blast
  then have r: "r < length s \<and> r \<le> npos \<and> P (s ! r) \<and> (\<forall>i<length s. r < i \<longrightarrow> i \<le> npos \<longrightarrow> \<not> P (s ! i))"
    using assms(1) unfolding last_result_def by (simp only: if_False) blast
  have "\<not> P c" if "c \<in> set (drop (Suc r) s)" for c
  proof -
    obtain k where k: "k < length s - Suc r" "c = s ! (Suc r + k)" using \<open>c \<in> _\<close> by (auto simp: in_set_conv_nth)
    then have "Suc r + k < length s" by simp
    moreover have "Suc r + k \<le> npos" using calculation assms(2) by simp
    ultimately show ?thesis using r k(2) by auto
  qed
  then show ?thesis using True r by simp
next
  case False
  then have "\<forall>i<length s. i \<le> npos \<longrightarrow> \<not> P (s ! i)" using nth_mem by blast
  then show ?thesis using False assms(1) unfolding last_result_def by (simp only: if_True if_False)
qed

lemma base_name_cut: "slash c \<Longrightarrow> \<forall>x\<in>set b. \<not> slash x \<Longrightarrow> base_name (a @ c # b) = b"
  by (simp add: base_name_def) (subst takeWhile_append2, auto)

lemma base_name_none: "\<forall>x\<in>set b. \<not> slash x \<Longrightarrow> base_name b = b"
  by (simp add: base_name_def takeWhile_eq_all_conv [THEN iffD2])

lemma before_last_cut: "\<forall>x\<in>set b. x \<noteq> c \<Longrightarrow> before_last c (a @ c # b) = a"
  by (simp add: before_last_def) (subst dropWhile_append2, auto)

lemma GetModule_name:
  assumes "length file < npos"
  shows "GetModule file = module_of file"
proof -
  define r where "r = find_last_of file [CHR 0x5C, CHR ''/''] npos"
  have "last_result (\<lambda>i. slash (file ! i)) npos (length file) r"
    using last_of [of "file" "[CHR 0x5C, CHR ''/'']" npos] by (simp add: r_def slash_def disj_commute)
  then have r: "if \<exists>c\<in>set file. slash c
    then r < length file \<and> slash (file ! r) \<and> (\<forall>c\<in>set (drop (Suc r) file). \<not> slash c)
    else r = npos" using assms by (rule last_found)
  define m where "m = (if r \<noteq> npos then remove_prefix (r + 1) file else file)"
  have m: "m = base_name file"
  proof (cases "\<exists>c\<in>set file. slash c")
    case True
    then have s: "r < length file" "slash (file ! r)" "\<forall>c\<in>set (drop (Suc r) file). \<not> slash c" using r by simp_all
    have "base_name file = drop (Suc r) file" by (subst id_take_nth_drop [OF s(1)]) (rule base_name_cut [OF s(2,3)])
    then show ?thesis using s(1) assms by (simp add: m_def remove_prefix_def)
  next
    case False
    then show ?thesis using r base_name_none [of "file"] by (simp add: m_def)
  qed
  have lm: "length m < npos" using assms by (auto simp: m_def remove_prefix_def)
  define e where "e = piece_rfind_char m CHR ''.'' npos"
  have e: "if \<exists>c\<in>set m. c = CHR ''.''
    then e < length m \<and> m ! e = CHR ''.'' \<and> (\<forall>c\<in>set (drop (Suc e) m). c \<noteq> CHR ''.'')
    else e = npos"
    using last_found [OF rfind_char [of m "CHR ''.''" npos] lm] by (simp add: e_def)
  have p: "piece_substr m 0 e = before_last CHR ''.'' m"
  proof (cases "CHR ''.'' \<in> set m")
    case True
    then have s: "e < length m" "m ! e = CHR ''.''" "\<forall>c\<in>set (drop (Suc e) m). c \<noteq> CHR ''.''" using e by simp_all
    have "before_last CHR ''.'' m = take e m"
      by (subst id_take_nth_drop [OF s(1)]) (unfold s(2), rule before_last_cut [OF s(3)])
    then show ?thesis using s(1) by (simp add: piece_substr_def Let_def)
  next
    case False
    then have "e = npos" using e by auto
    then show ?thesis using False lm by (simp add: piece_substr_def before_last_def Let_def)
  qed
  have inl: "ends_with t ''-inl'' \<longleftrightarrow> drop (length t - 4) t = ''-inl''" for t
    by (auto simp: ends_with_def eval_nat_numeral dest: arg_cong [of _ _ length])
  show ?thesis
    unfolding GetModule_def module_of_def Let_def r_def [symmetric] m_def [symmetric] e_def [symmetric] p
      m [symmetric] inl remove_suffix_def ..
qed

subsection \<open>Keys and values\<close>

lemma dropWhile_none: "\<forall>x\<in>set xs. \<not> P x \<Longrightarrow> dropWhile P xs = xs"
  by (cases xs) auto

lemma trim_all_none:
  assumes "length s < npos" "\<forall>c\<in>set s. \<not> blank c"
  shows "trim_all s = s"
proof -
  have "dropWhile (\<lambda>c. c \<in> set kWhitespaceASCII) t = t" if "set t = set s" for t
    using that assms(2) by (intro dropWhile_none) (simp add: blank_def)
  then show ?thesis
    using assms(1) by (simp add: TrimWhitespace_def TrimWhitespaceASCII_def TrimStringT_correct trimmed_def ltrim_of_def rtrim_of_def)
qed

lemma key_value:
  assumes "d \<notin> set k" "v \<noteq> []" "hd v \<noteq> d" "length k < npos"
  shows "SplitStringIntoKeyValues (k @ d # v) d = (True, k, [v])"
proof -
  have "\<forall>i<length k. k ! i \<noteq> d" using assms(1) nth_mem by blast
  then have "first_at (\<lambda>i. (k @ d # v) ! i = d) 0 (length (k @ d # v)) = Some (length k)"
    by (simp add: first_at_Some nth_append)
  moreover have "first_at (\<lambda>i. (d # v) ! i \<noteq> d) 0 (length (d # v)) = Some 1"
    using assms(2,3) by (cases v) (auto simp: first_at_Some)
  then have "string_first_not_of (d # v) [d] = 1" by (simp add: string_first_not_of_def or_npos_def)
  ultimately show ?thesis using assms(4) by (simp add: SplitStringIntoKeyValues_def or_npos_def npos_def)
qed

definition plain_pair :: "char \<Rightarrow> char \<Rightarrow> string \<times> string \<Rightarrow> bool" where
  "plain_pair d c = (\<lambda>(k, v). list_all (\<lambda>x. x \<noteq> d \<and> x \<noteq> c \<and> \<not> blank x) k \<and> list_all (\<lambda>x. x \<noteq> c \<and> \<not> blank x) v \<and>
     v \<noteq> [] \<and> hd v \<noteq> d \<and> length k + length v + 1 < npos)"

lemma pairs_loop_plain:
  "list_all (plain_pair d c) kvs \<Longrightarrow>
   pairs_loop d (map (\<lambda>(k, v). k @ d # v) kvs) ok r = (ok, r @ kvs)"
proof (induction kvs arbitrary: r)
  case (Cons kv kvs)
  obtain k v where kv: "kv = (k, v)" by (cases kv)
  have "SplitStringIntoKeyValues (k @ d # v) d = (True, k, [v])"
    using Cons.prems by (intro key_value) (auto simp: kv plain_pair_def list_all_iff)
  then show ?case using Cons by (simp add: kv)
qed simp

lemma pairs_plain:
  assumes "list_all (plain_pair d c) kvs" "d \<noteq> c" "\<not> blank d"
  shows "SplitStringIntoKeyValuePairs (join c (map (\<lambda>(k, v). k @ d # v) kvs)) d c = (True, kvs)"
proof (cases "kvs = []")
  case False
  let ?ps = "map (\<lambda>(k, v). k @ d # v) kvs"
  have no: "\<forall>p\<in>set ?ps. c \<notin> set p" using assms by (auto simp: plain_pair_def list_all_iff)
  have "trim_all p = p" if m: "p \<in> set ?ps" for p
  proof -
    obtain k v where p: "(k, v) \<in> set kvs" "p = k @ d # v" using m by auto
    then have "plain_pair d c (k, v)" using assms(1) by (auto simp: list_all_iff)
    then show ?thesis using p(2) assms(3) by (intro trim_all_none) (auto simp: plain_pair_def list_all_iff)
  qed
  then have "map trim_all ?ps = ?ps" by (intro map_idI) blast
  then have "SplitString (join c ?ps) c [] = ?ps"
    using False fields_join [OF _ no] by (simp add: SplitString_def SplitStringT_fields)
  then show ?thesis using pairs_loop_plain [OF assms(1), of True "[]"] by (simp add: SplitStringIntoKeyValuePairs_def)
qed (simp add: SplitStringIntoKeyValuePairs_def SplitString_def SplitStringT_fields TrimWhitespace_def
    TrimWhitespaceASCII_def TrimStringT_def)

text \<open>The pairs that \<open>SplitStringIntoKeyValuePairs\<close> reads from a list of keys and values written with the two
  delimiters are the pairs written.\<close>

theorem pairs_roundtrip:
  assumes "list_all (plain_pair d c) kvs" "d \<noteq> c" "\<not> blank d"
  shows "SplitStringIntoKeyValuePairs (join c (map (\<lambda>(k, v). k @ d # v) kvs)) d c = (True, kvs)"
  using assms by (rule pairs_plain)

theorem pairs_roundtrip_witness:
  "SplitStringIntoKeyValuePairs ''client=3,*/chromium/*=2'' CHR ''='' CHR '','' =
    (True, [(''client'', ''3''), (''*/chromium/*'', ''2'')])"
  using pairs_roundtrip [of "CHR ''=''" "CHR '',''" "[(''client'', ''3''), (''*/chromium/*'', ''2'')]"]
  by (simp add: plain_pair_def npos_def blank_def kWhitespaceASCII_def)

subsection \<open>The level of a file\<close>

definition pattern_matches :: "string \<Rightarrow> string \<times> string \<Rightarrow> bool" where
  "pattern_matches path = (\<lambda>(p, l). glob p (if list_ex slash p then path else module_of path))"

lemma new_pattern_target:
  assumes "length p < npos"
  shows "target_of (new_pattern p) = MATCH_FILE \<longleftrightarrow> list_ex slash p"
proof (cases "first_at (\<lambda>i. p ! i \<in> set [CHR 0x5C, CHR ''/'']) 0 (length p)")
  case None
  then have "\<forall>i<length p. \<not> slash (p ! i)" by (auto simp: first_at_None slash_def)
  then have "\<not> list_ex slash p" by (auto simp: list_ex_iff in_set_conv_nth)
  then show ?thesis using None by (simp add: new_pattern_def or_npos_def)
next
  case (Some i)
  then have "i < length p" "slash (p ! i)" by (auto simp: first_at_Some slash_def)
  then have "list_ex slash p" using nth_mem by (auto simp: list_ex_iff)
  then show ?thesis using Some assms \<open>i < length p\<close> by (auto simp: new_pattern_def or_npos_def)
qed

lemma level_loop_find:
  "list_all (\<lambda>(k, v). length k < npos) kvs \<Longrightarrow>
   level_loop path (module_of path) m (map (\<lambda>(k, v). (new_pattern k)\<lparr>vlog_level := atoi v\<rparr>) kvs) =
     (case find (pattern_matches path) kvs of Some (_, l) \<Rightarrow> atoi l | None \<Rightarrow> neg32 m)"
proof (induction kvs)
  case (Cons kv kvs)
  obtain k v where kv: "kv = (k, v)" by (cases kv)
  have "pattern (new_pattern k) = k" by (simp add: new_pattern_def)
  then show ?case using Cons new_pattern_target [of k]
    by (simp add: kv pattern_matches_def pattern_reference Let_def)
qed (simp add: GetMaxVlogLevel_def)

text \<open>The level that applies to a file: that of the first pattern of \<open>--vmodule\<close> that matches it, compared with the
  whole path when the pattern has a slash and else with the name of the file without directory, extension and
  \<open>-inl\<close>; without such a pattern that of \<open>--v\<close>, and without \<open>--v\<close> the one before.\<close>

theorem file_level:
  assumes "length path < npos" "snd (SplitStringIntoKeyValuePairs vmodule CHR ''='' CHR '','') = kvs"
    "list_all (\<lambda>(k, l). length k < npos) kvs" "new_VlogInfo v vmodule m = (levels, m1)"
  shows "GetVlogLevel levels m1 path =
      (case find (pattern_matches path) kvs of Some (_, l) \<Rightarrow> atoi l | None \<Rightarrow> GetMaxVlogLevel m1) \<and>
    (if v = [] then m1 = m else GetMaxVlogLevel m1 = atoi v)"
proof -
  have l: "levels = map (\<lambda>(k, v). (new_pattern k)\<lparr>vlog_level := atoi v\<rparr>) kvs"
    "m1 = (if v \<noteq> [] then neg32 (atoi v) else m)"
    using assms(2,4) by (auto simp: new_VlogInfo_def SetMaxVlogLevel_def Let_def)
  have "\<exists>x. atoi v = max (- 2147483648) (min 2147483647 x)" by (auto simp: atoi_def Let_def)
  then have "neg32 (neg32 (atoi v)) = atoi v" by (auto simp: neg32_def)
  then show ?thesis using level_loop_find [OF assms(3), of path m1] GetModule_name [OF assms(1)] l
    by (auto simp: GetVlogLevel_def GetMaxVlogLevel_def split: option.splits)
qed

lemma sample_pairs: "SplitStringIntoKeyValuePairs ''client=3,*/chromium/*=2'' CHR ''='' CHR '','' =
    (True, [(''client'', ''3''), (''*/chromium/*'', ''2'')])"
  using pairs_plain [of "CHR ''=''" "CHR '',''" "[(''client'', ''3''), (''*/chromium/*'', ''2'')]"]
  by (simp add: plain_pair_def npos_def blank_def kWhitespaceASCII_def)

theorem file_level_witness:
  "GetVlogLevel (fst (new_VlogInfo ''1'' ''client=3,*/chromium/*=2'' 0))
    (snd (new_VlogInfo ''1'' ''client=3,*/chromium/*=2'' 0)) ''src/client.cc'' = 3"
proof -
  let ?i = "new_VlogInfo ''1'' ''client=3,*/chromium/*=2'' 0"
  have "GetVlogLevel (fst ?i) (snd ?i) ''src/client.cc'' = atoi ''3''"
    using file_level [of "''src/client.cc''" "''client=3,*/chromium/*=2''" "[(''client'', ''3''), (''*/chromium/*'', ''2'')]"
        "''1''" 0 "fst ?i" "snd ?i"]
    by (simp add: sample_pairs npos_def pattern_matches_def slash_def module_of_def base_name_def before_last_def
)
  then show ?thesis by (simp add: atoi_def is_digit_def decimal_value_def blank_def kWhitespaceASCII_def)
qed

end
