(* ===== verification/Command_Line.thy ===== *)
theory Command_Line
  imports Vlog
begin

section \<open>The command line\<close>

text \<open>
  command_line.cc as it is compiled here, without the case conversion of Windows: switches are kept in front of
  arguments in \<open>cl_argv\<close>, the divider is \<open>cl_begin_args\<close>, and \<open>cl_switches\<close> maps the name of a switch, without its prefix, to
  its last value. The object of the process is an \<open>option\<close>.
\<close>

record CommandLine =
  cl_argv :: "string list"
  cl_switches :: "string \<Rightarrow> string option"
  cl_begin_args :: nat

definition kSwitchTerminator :: string where
  "kSwitchTerminator = ''--''"

definition kSwitchValueSeparator :: string where
  "kSwitchValueSeparator = ''=''"

definition kSwitchPrefixes :: "string list" where
  "kSwitchPrefixes = [''--'', ''-'']"

fun prefix_loop :: "string \<Rightarrow> string list \<Rightarrow> nat" where
  "prefix_loop s [] = 0"
| "prefix_loop s (prefix # ps) = (if take (length prefix) s = prefix then length prefix else prefix_loop s ps)"

definition GetSwitchPrefixLength :: "string \<Rightarrow> nat" where
  "GetSwitchPrefixLength s = prefix_loop s kSwitchPrefixes"

text \<open>Whether a string is a switch, the switch with its prefix, and its value.\<close>

definition IsSwitch :: "string \<Rightarrow> bool \<times> string \<times> string" where
  "IsSwitch s =
    (if GetSwitchPrefixLength s = 0 then (False, [], [])
     else let equals_position = string_find s kSwitchValueSeparator 0 in
       (True, take equals_position s, if equals_position \<noteq> npos then drop (equals_position + 1) s else []))"

definition LowerASCIIOnWindows :: "string \<Rightarrow> string" where
  "LowerASCIIOnWindows s = s"

definition no_program :: CommandLine where
  "no_program = \<lparr>cl_argv = [[]], cl_switches = Map.empty, cl_begin_args = 1\<rparr>"

definition AppendSwitchNative :: "CommandLine \<Rightarrow> string \<Rightarrow> string \<Rightarrow> CommandLine" where
  "AppendSwitchNative c switch_string v =
    (let switch_key = LowerASCIIOnWindows switch_string;
         prefix_length = GetSwitchPrefixLength switch_string;
         combined = (if prefix_length = 0 then kSwitchPrefixes ! 0 @ switch_string else switch_string);
         combined = (if v \<noteq> [] then combined @ kSwitchValueSeparator @ v else combined) in
     \<lparr>cl_argv = take (cl_begin_args c) (cl_argv c) @ combined # drop (cl_begin_args c) (cl_argv c),
      cl_switches = (cl_switches c)(drop prefix_length switch_key \<mapsto> v), cl_begin_args = cl_begin_args c + 1\<rparr>)"

definition AppendSwitch :: "CommandLine \<Rightarrow> string \<Rightarrow> CommandLine" where
  "AppendSwitch c switch_string = AppendSwitchNative c switch_string []"

definition AppendArgNative :: "CommandLine \<Rightarrow> string \<Rightarrow> CommandLine" where
  "AppendArgNative c v = c\<lparr>cl_argv := cl_argv c @ [v]\<rparr>"

fun append_loop :: "CommandLine \<Rightarrow> bool \<Rightarrow> string list \<Rightarrow> CommandLine" where
  "append_loop c parse_switches [] = c"
| "append_loop c parse_switches (a # as) =
    (let arg = trim_all a;
         parse_switches = (parse_switches \<and> arg \<noteq> kSwitchTerminator) in
     case IsSwitch arg of (is_switch, switch_string, switch_value) \<Rightarrow>
       if parse_switches \<and> is_switch
       then append_loop (AppendSwitchNative c switch_string switch_value) parse_switches as
       else append_loop (AppendArgNative c arg) parse_switches as)"

definition AppendSwitchesAndArguments :: "CommandLine \<Rightarrow> string list \<Rightarrow> CommandLine" where
  "AppendSwitchesAndArguments c argv = append_loop c True (drop 1 argv)"

definition InitFromArgv :: "CommandLine \<Rightarrow> string list \<Rightarrow> CommandLine" where
  "InitFromArgv c argv = AppendSwitchesAndArguments (c\<lparr>cl_argv := [[]], cl_begin_args := 1\<rparr>) argv"

definition ParseFromString :: "CommandLine \<Rightarrow> string \<Rightarrow> CommandLine" where
  "ParseFromString c command_line =
    (if trim_all command_line = [] then c else InitFromArgv c (SplitString command_line CHR '' '' []))"

definition FromString :: "string \<Rightarrow> CommandLine" where
  "FromString command_line = ParseFromString no_program command_line"

definition Init_command_line :: "string list \<Rightarrow> CommandLine option \<Rightarrow> CommandLine option" where
  "Init_command_line argv current = (case current of Some c \<Rightarrow> Some c | None \<Rightarrow> Some (InitFromArgv no_program argv))"

fun string_loop :: "bool \<Rightarrow> string list \<Rightarrow> string" where
  "string_loop parse_switches [] = []"
| "string_loop parse_switches (arg # as) =
    (let parse_switches = (parse_switches \<and> arg \<noteq> kSwitchTerminator) in
     case IsSwitch arg of (is_switch, switch_string, switch_value) \<Rightarrow>
       '' '' @ (if parse_switches \<and> is_switch
         then switch_string @ (if switch_value \<noteq> [] then kSwitchValueSeparator @ switch_value else [])
         else arg) @ string_loop parse_switches as)"

definition GetCommandLineString :: "CommandLine \<Rightarrow> string" where
  "GetCommandLineString c = cl_argv c ! 0 @ string_loop True (drop 1 (cl_argv c))"

definition HasSwitch :: "CommandLine \<Rightarrow> string \<Rightarrow> bool" where
  "HasSwitch c switch_string \<longleftrightarrow> cl_switches c (LowerASCIIOnWindows switch_string) \<noteq> None"

definition GetSwitchValueNative :: "CommandLine \<Rightarrow> string \<Rightarrow> string" where
  "GetSwitchValueNative c switch_string =
    (case cl_switches c (LowerASCIIOnWindows switch_string) of None \<Rightarrow> [] | Some v \<Rightarrow> v)"

fun CopySwitchesFrom :: "CommandLine \<Rightarrow> CommandLine \<Rightarrow> string list \<Rightarrow> CommandLine" where
  "CopySwitchesFrom c source [] = c"
| "CopySwitchesFrom c source (s # ss) =
    CopySwitchesFrom (if HasSwitch source s then AppendSwitchNative c s (GetSwitchValueNative source s) else c) source ss"

definition GetArgs :: "CommandLine \<Rightarrow> string list" where
  "GetArgs c = remove1 kSwitchTerminator (drop (cl_begin_args c) (cl_argv c))"

definition PrependWrapper :: "CommandLine \<Rightarrow> string \<Rightarrow> CommandLine" where
  "PrependWrapper c wrapper =
    (if wrapper = [] then c
     else let wrapper_argv = SplitString wrapper CHR '' '' [] in
       c\<lparr>cl_argv := wrapper_argv @ cl_argv c, cl_begin_args := cl_begin_args c + length wrapper_argv\<rparr>)"

subsection \<open>What a command line says\<close>

definition sw_string :: "string \<Rightarrow> string" where
  "sw_string s = takeWhile (\<lambda>c. c \<noteq> CHR ''='') s"

definition sw_name :: "string \<Rightarrow> string" where
  "sw_name s = drop (GetSwitchPrefixLength (sw_string s)) (sw_string s)"

definition sw_value :: "string \<Rightarrow> string" where
  "sw_value s = tl (dropWhile (\<lambda>c. c \<noteq> CHR ''='') s)"

definition sw_text :: "string \<Rightarrow> string" where
  "sw_text s = sw_string s @ (if sw_value s = [] then [] else CHR ''='' # sw_value s)"

definition is_switch :: "string \<Rightarrow> bool" where
  "is_switch s \<longleftrightarrow> s \<noteq> [] \<and> hd s = CHR ''-''"

text \<open>The switches, up to the terminator, and the rest.\<close>

definition switches_of :: "string list \<Rightarrow> string list" where
  "switches_of args = filter is_switch (takeWhile (\<lambda>a. a \<noteq> ''--'') args)"

definition arguments_of :: "string list \<Rightarrow> string list" where
  "arguments_of args =
    filter (\<lambda>a. \<not> is_switch a) (takeWhile (\<lambda>a. a \<noteq> ''--'') args) @ dropWhile (\<lambda>a. a \<noteq> ''--'') args"

lemma prefix_length: "GetSwitchPrefixLength s = (if take 2 s = ''--'' then 2 else if is_switch s then 1 else 0)"
  by (cases s) (auto simp: GetSwitchPrefixLength_def kSwitchPrefixes_def is_switch_def)

lemma prefix_zero: "GetSwitchPrefixLength s = 0 \<longleftrightarrow> \<not> is_switch s"
  by (cases s) (auto simp: prefix_length is_switch_def)

lemma is_switch_string [simp]: "is_switch (sw_string s) = is_switch s"
  by (cases s) (auto simp: is_switch_def sw_string_def)

lemma sw_split:
  assumes "CHR ''='' \<notin> set a"
  shows "sw_string (a @ CHR ''='' # b) = a" "sw_value (a @ CHR ''='' # b) = b" "sw_string a = a" "sw_value a = []"
proof -
  have a: "\<forall>x\<in>set a. x \<noteq> CHR ''=''" using assms by auto
  then show "sw_string (a @ CHR ''='' # b) = a" "sw_value (a @ CHR ''='' # b) = b"
    unfolding sw_string_def sw_value_def by (simp_all add: takeWhile_append2 dropWhile_append2 list.set_intros)
  show "sw_string a = a" using a by (simp add: sw_string_def takeWhile_eq_all_conv)
  have "dropWhile (\<lambda>x. x \<noteq> CHR ''='') a = []" using a by simp
  then show "sw_value a = []" unfolding sw_value_def by (simp only: list.sel)
qed

lemma sw_cases:
  obtains "CHR ''='' \<notin> set s" "sw_string s = s" "sw_value s = []"
  | a b where "CHR ''='' \<notin> set a" "s = a @ CHR ''='' # b" "sw_string s = a" "sw_value s = b"
  using sw_split by (metis split_list_first)

lemma occurs_equals: "occurs_at ''='' s k \<longleftrightarrow> k < length s \<and> s ! k = CHR ''=''"
proof (cases "k < length s")
  case True
  then have "drop k s = s ! k # drop (Suc k) s" by (simp add: Cons_nth_drop_Suc)
  then show ?thesis using True by (simp add: occurs_at_def)
qed (simp add: occurs_at_def)

lemma IsSwitch_eq:
  assumes "length s < npos"
  shows "IsSwitch s = (if is_switch s then (True, sw_string s, sw_value s) else (False, [], []))"
proof (cases s rule: sw_cases)
  case 1
  then have "\<forall>k<length s. s ! k \<noteq> CHR ''=''" using nth_mem by metis
  then have "first_at (occurs_at ''='' s) 0 (Suc (length s) - length ''='') = None"
    by (simp add: first_at_None occurs_equals)
  then have "string_find s ''='' 0 = npos" by (simp add: string_find_def or_npos_def)
  then show ?thesis using 1 assms by (simp add: IsSwitch_def kSwitchValueSeparator_def prefix_zero Let_def)
next
  case (2 a b)
  have "\<forall>k<length a. a ! k \<noteq> CHR ''=''" using 2(1) nth_mem by metis
  then have "first_at (occurs_at ''='' s) 0 (Suc (length s) - length ''='') = Some (length a)"
    by (simp add: first_at_Some occurs_equals 2(2) nth_append)
  then have "string_find s ''='' 0 = length a" by (simp add: string_find_def or_npos_def)
  then show ?thesis using 2 assms by (simp add: IsSwitch_def kSwitchValueSeparator_def prefix_zero Let_def)
qed

definition sw_pair :: "string \<Rightarrow> string \<times> string" where
  "sw_pair s = (sw_name s, sw_value s)"

lemma AppendSwitchNative_eq:
  assumes "is_switch s" "cl_argv c = pre @ suf" "cl_begin_args c = length pre"
  shows "AppendSwitchNative c (sw_string s) (sw_value s) =
    \<lparr>cl_argv = pre @ sw_text s # suf, cl_switches = (cl_switches c)(sw_name s \<mapsto> sw_value s),
     cl_begin_args = Suc (length pre)\<rparr>"
proof -
  have "GetSwitchPrefixLength (sw_string s) \<noteq> 0" using assms(1) by (simp add: prefix_zero)
  then show ?thesis using assms(2,3)
    by (simp add: AppendSwitchNative_def LowerASCIIOnWindows_def sw_name_def sw_text_def kSwitchValueSeparator_def Let_def)
qed

text \<open>The loop, while switches are read and after the terminator.\<close>

lemma append_rest:
  "list_all (\<lambda>a. length (trim_all a) < npos) as \<Longrightarrow>
   append_loop c False as = c\<lparr>cl_argv := cl_argv c @ map trim_all as\<rparr>"
  by (induction as arbitrary: c) (auto simp: AppendArgNative_def IsSwitch_eq)

lemma append_loop_eq:
  assumes "list_all (\<lambda>a. length (trim_all a) < npos) as" "cl_argv c = pre @ suf" "cl_begin_args c = length pre"
  shows "append_loop c True as =
    \<lparr>cl_argv = pre @ map sw_text (switches_of (map trim_all as)) @ suf @ arguments_of (map trim_all as),
     cl_switches = cl_switches c ++ map_of (rev (map sw_pair (switches_of (map trim_all as)))),
     cl_begin_args = length pre + length (switches_of (map trim_all as))\<rparr>"
  using assms
proof (induction as arbitrary: c pre suf)
  case Nil
  then show ?case by (cases c) (simp add: switches_of_def arguments_of_def)
next
  case (Cons a as)
  let ?t = "trim_all a"
  have l: "length ?t < npos" "list_all (\<lambda>a. length (trim_all a) < npos) as" using Cons.prems(1) by simp_all
  consider "?t = ''--''" | "?t \<noteq> ''--''" "is_switch ?t" | "?t \<noteq> ''--''" "\<not> is_switch ?t" by blast
  then show ?case
  proof cases
    case 1
    then show ?thesis using Cons.prems(2,3) append_rest [OF l(2)] l(1)
      by (cases c) (simp add: kSwitchTerminator_def AppendArgNative_def switches_of_def arguments_of_def IsSwitch_eq)
  next
    case 2
    note n = AppendSwitchNative_eq [OF 2(2) Cons.prems(2,3)]
    have "append_loop c True (a # as) = append_loop (AppendSwitchNative c (sw_string ?t) (sw_value ?t)) True as"
      using 2 l(1) by (simp add: kSwitchTerminator_def IsSwitch_eq Let_def)
    also have "\<dots> = append_loop \<lparr>cl_argv = (pre @ [sw_text ?t]) @ suf,
        cl_switches = (cl_switches c)(sw_name ?t \<mapsto> sw_value ?t), cl_begin_args = length (pre @ [sw_text ?t])\<rparr> True as"
      by (simp add: n)
    also have "\<dots> = \<lparr>cl_argv = (pre @ [sw_text ?t]) @ map sw_text (switches_of (map trim_all as)) @ suf @ arguments_of (map trim_all as),
        cl_switches = (cl_switches c)(sw_name ?t \<mapsto> sw_value ?t) ++ map_of (rev (map sw_pair (switches_of (map trim_all as)))),
        cl_begin_args = length (pre @ [sw_text ?t]) + length (switches_of (map trim_all as))\<rparr>"
      by (subst Cons.IH [OF l(2), of _ "pre @ [sw_text ?t]" suf]) simp_all
    finally have e: "append_loop c True (a # as) = \<dots>" .
    have s: "switches_of (map trim_all (a # as)) = ?t # switches_of (map trim_all as)"
      "arguments_of (map trim_all (a # as)) = arguments_of (map trim_all as)"
      using 2 by (simp_all add: switches_of_def arguments_of_def)
    show ?thesis unfolding e s by (simp add: sw_pair_def [of ?t] map_add_assoc [symmetric])
  next
    case 3
    have "append_loop c True (a # as) = append_loop (AppendArgNative c ?t) True as"
      using 3 l(1) by (simp add: kSwitchTerminator_def IsSwitch_eq Let_def)
    then show ?thesis using 3 Cons.IH [OF l(2), of "AppendArgNative c ?t" pre "suf @ [?t]"] Cons.prems(2,3)
      by (simp add: AppendArgNative_def switches_of_def arguments_of_def)
  qed
qed

lemma length_trim_all:
  assumes "length s < npos"
  shows "length (trim_all s) < npos"
proof -
  have "length (rtrim_of cs s) \<le> length s" "length (ltrim_of cs s) \<le> length s" for s cs
    using length_dropWhile_le [of _ "rev s"] by (simp_all add: rtrim_of_def ltrim_of_def length_dropWhile_le)
  then have "length (trim_all s) \<le> length s"
    using assms by (simp add: TrimWhitespace_def TrimWhitespaceASCII_def TrimStringT_correct trimmed_def)
      (meson order_trans)
  then show ?thesis using assms by simp
qed

lemma InitFromArgv_eq:
  assumes "list_all (\<lambda>a. length a < npos) argv" "args = map trim_all (drop 1 argv)" "cl_switches c = Map.empty"
  shows "InitFromArgv c argv =
    \<lparr>cl_argv = [] # map sw_text (switches_of args) @ arguments_of args,
     cl_switches = map_of (rev (map sw_pair (switches_of args))), cl_begin_args = Suc (length (switches_of args))\<rparr>"
proof -
  have "list_all (\<lambda>a. length (trim_all a) < npos) (drop 1 argv)"
    using assms(1) length_trim_all by (auto simp: list_all_iff dest!: in_set_dropD)
  then show ?thesis
    using append_loop_eq [of "drop 1 argv" "c\<lparr>cl_argv := [[]], cl_begin_args := 1\<rparr>" "[[]]" "[]"] assms(2,3)
    by (simp add: InitFromArgv_def AppendSwitchesAndArguments_def)
qed

text \<open>C31: what the command line of a process says: the arguments that begin with a hyphen, up to \<open>--\<close>, are switches,
  in any place; a switch has the value of its last occurrence; the rest, in order and without the first \<open>--\<close>, are the
  arguments.\<close>

theorem command_line_reads:
  assumes "list_all (\<lambda>a. length a < npos) argv" "args = map trim_all (drop 1 argv)"
    "Init_command_line argv None = Some c"
  shows "GetArgs c = remove1 ''--'' (arguments_of args) \<and>
    HasSwitch c k = (k \<in> sw_name ` set (switches_of args)) \<and>
    GetSwitchValueNative c k = (case find (\<lambda>s. sw_name s = k) (rev (switches_of args)) of None \<Rightarrow> [] | Some s \<Rightarrow> sw_value s)"
proof -
  have c: "c = InitFromArgv no_program argv" using assms(3) by (simp add: Init_command_line_def)
  have "cl_switches no_program = Map.empty" by (simp add: no_program_def)
  note e = InitFromArgv_eq [OF assms(1,2) this]
  have "map_of (map sw_pair ss) k = map_option sw_value (find (\<lambda>s. sw_name s = k) ss)" for ss
    by (induction ss) (auto simp: sw_pair_def)
  then have "map_of (rev (map sw_pair ss)) k = map_option sw_value (find (\<lambda>s. sw_name s = k) (rev ss))" for ss
    by (simp add: rev_map)
  moreover have "map_of (rev (map sw_pair ss)) k = None \<longleftrightarrow> k \<notin> sw_name ` set ss" for ss
    by (auto simp: map_of_eq_None_iff sw_pair_def image_image)
  ultimately have k: "map_of (rev (map sw_pair ss)) k = map_option sw_value (find (\<lambda>s. sw_name s = k) (rev ss))"
    "find (\<lambda>s. sw_name s = k) (rev ss) = None \<longleftrightarrow> k \<notin> sw_name ` set ss" for ss by auto
  show ?thesis using k [of "switches_of args"]
    by (cases "find (\<lambda>s. sw_name s = k) (rev (switches_of args))")
      (simp_all add: c e GetArgs_def HasSwitch_def GetSwitchValueNative_def LowerASCIIOnWindows_def kSwitchTerminator_def)
qed

theorem command_line_reads_witness:
  "\<exists>c. Init_command_line [''hitsuji'', ''--v=1'', ''x'', ''-v=2'', ''--'', ''--y''] None = Some c \<and>
    GetArgs c = [''x'', ''--y''] \<and> HasSwitch c ''v'' \<and> GetSwitchValueNative c ''v'' = ''2''"
proof -
  let ?argv = "[''hitsuji'', ''--v=1'', ''x'', ''-v=2'', ''--'', ''--y'']"
  have t: "map trim_all (drop 1 ?argv) = drop 1 ?argv"
    by (simp add: trim_all_none npos_def blank_def kWhitespaceASCII_def)
  obtain c where c: "Init_command_line ?argv None = Some c" by (simp add: Init_command_line_def)
  have "list_all (\<lambda>a. length a < npos) ?argv" by (simp add: npos_def)
  from command_line_reads [OF this t [symmetric] c, of "''v''"] c show ?thesis
    by (simp add: switches_of_def arguments_of_def is_switch_def sw_name_def sw_string_def sw_value_def
      GetSwitchPrefixLength_def kSwitchPrefixes_def)
qed

subsection \<open>Writing a command line\<close>

lemma sw_text_again:
  assumes "is_switch s"
  shows "sw_string (sw_text s) = sw_string s" "sw_value (sw_text s) = sw_value s" "sw_text (sw_text s) = sw_text s"
    "is_switch (sw_text s)" "sw_pair (sw_text s) = sw_pair s"
proof -
  have "CHR ''='' \<notin> set (sw_string s)" unfolding sw_string_def by (metis (mono_tags, lifting) set_takeWhileD)
  then have e: "sw_string (sw_text s) = sw_string s \<and> sw_value (sw_text s) = sw_value s"
    using sw_split(1,2) [of "sw_string s" "sw_value s"] sw_split(3,4) [of "sw_string s"] by (simp add: sw_text_def)
  then show "sw_string (sw_text s) = sw_string s" "sw_value (sw_text s) = sw_value s" "sw_pair (sw_text s) = sw_pair s"
    by (simp_all add: sw_pair_def sw_name_def)
  have "sw_text (sw_text s) = sw_string s @ (if sw_value s = [] then [] else CHR ''='' # sw_value s)"
    by (subst sw_text_def) (simp only: e)
  then show "sw_text (sw_text s) = sw_text s" by (rule trans) (rule sw_text_def [symmetric])
  show "is_switch (sw_text s)" using e assms by (metis is_switch_string)
qed

lemma length_sw_text: "length (sw_text s) \<le> length s"
  by (cases s rule: sw_cases) (auto simp: sw_text_def)

lemma string_loop_rest: "list_all (\<lambda>a. length a < npos) as \<Longrightarrow> string_loop False as = concat (map (\<lambda>a. CHR '' '' # a) as)"
  by (induction as) (auto simp: IsSwitch_eq)

lemma string_loop_texts:
  "list_all (\<lambda>a. length a < npos \<and> (is_switch a \<longrightarrow> sw_text a = a)) (takeWhile (\<lambda>a. a \<noteq> ''--'') as) \<Longrightarrow>
   list_all (\<lambda>a. length a < npos) as \<Longrightarrow> string_loop True as = concat (map (\<lambda>a. CHR '' '' # a) as)"
proof (induction as)
  case (Cons a as)
  show ?case
  proof (cases "a = ''--''")
    case True
    then show ?thesis using Cons.prems string_loop_rest [of as]
      by (simp add: kSwitchTerminator_def IsSwitch_eq)
  next
    case False
    then have "is_switch a \<Longrightarrow> sw_string a @ (if sw_value a \<noteq> [] then kSwitchValueSeparator @ sw_value a else []) = a"
      using Cons.prems by (simp add: sw_text_def kSwitchValueSeparator_def split: if_splits)
    then show ?thesis using Cons False by (simp add: kSwitchTerminator_def IsSwitch_eq)
  qed
qed simp

lemma concat_join: "as \<noteq> [] \<Longrightarrow> concat (map (\<lambda>a. c # a) as) = c # join c as"
  by (induction as rule: induct_list012) auto

lemma switches_again:
  assumes "''--'' \<notin> set (map sw_text (switches_of args))"
  shows "switches_of (map sw_text (switches_of args) @ arguments_of args) = map sw_text (switches_of args)"
    "arguments_of (map sw_text (switches_of args) @ arguments_of args) = arguments_of args"
    "takeWhile (\<lambda>a. a \<noteq> ''--'') (map sw_text (switches_of args) @ arguments_of args) =
      map sw_text (switches_of args) @ filter (\<lambda>a. \<not> is_switch a) (takeWhile (\<lambda>a. a \<noteq> ''--'') args)"
proof -
  let ?sw = "map sw_text (switches_of args)" and ?front = "filter (\<lambda>a. \<not> is_switch a) (takeWhile (\<lambda>a. a \<noteq> ''--'') args)"
    and ?behind = "dropWhile (\<lambda>a. a \<noteq> ''--'') args"
  have n: "\<forall>a\<in>set (?sw @ ?front). a \<noteq> ''--''" using assms by (auto dest: set_takeWhileD)
  have b: "takeWhile P (dropWhile P xs) = []" "dropWhile P (dropWhile P xs) = dropWhile P xs" for P and xs :: "string list"
    by (induction xs) auto
  have e: "?sw @ arguments_of args = (?sw @ ?front) @ ?behind" by (simp add: arguments_of_def)
  have t: "takeWhile P (xs @ ys) = xs @ takeWhile P ys" "dropWhile P (xs @ ys) = dropWhile P ys"
    if "\<forall>x\<in>set xs. P x" for P and xs ys :: "string list"
    using that by (induction xs) auto
  show w: "takeWhile (\<lambda>a. a \<noteq> ''--'') (?sw @ arguments_of args) = ?sw @ ?front"
    unfolding e t(1) [OF n] b by (rule append_Nil2)
  have d: "dropWhile (\<lambda>a. a \<noteq> ''--'') (?sw @ arguments_of args) = ?behind"
    unfolding e t(2) [OF n] b ..
  have s: "\<forall>a\<in>set ?sw. is_switch a" using sw_text_again(4) by (auto simp: switches_of_def)
  then show "switches_of (?sw @ arguments_of args) = ?sw" "arguments_of (?sw @ arguments_of args) = arguments_of args"
    unfolding switches_of_def [of "?sw @ _"] arguments_of_def [of "?sw @ _"] w d
    by (simp_all add: filter_True arguments_of_def)
qed

lemma trim_all_empty: "length s < npos \<Longrightarrow> trim_all s = [] \<Longrightarrow> \<forall>x\<in>set s. blank x"
proof -
  assume l: "length s < npos" and "trim_all s = []"
  then have "rtrim_of kWhitespaceASCII (ltrim_of kWhitespaceASCII s) = []"
    by (simp add: TrimWhitespace_def TrimWhitespaceASCII_def TrimStringT_correct trimmed_def)
  then have "\<forall>x\<in>set (rev (ltrim_of kWhitespaceASCII s)). x \<in> set kWhitespaceASCII"
    unfolding rtrim_of_def by (simp only: rev_is_Nil_conv dropWhile_eq_Nil_conv)
  then have all: "\<forall>x\<in>set (ltrim_of kWhitespaceASCII s). x \<in> set kWhitespaceASCII" by simp
  have "ltrim_of kWhitespaceASCII s = []"
  proof (rule ccontr)
    assume ne: "ltrim_of kWhitespaceASCII s \<noteq> []"
    then have "hd (ltrim_of kWhitespaceASCII s) \<notin> set kWhitespaceASCII"
      unfolding ltrim_of_def using hd_dropWhile [of "\<lambda>c. c \<in> set kWhitespaceASCII" s] by blast
    then show False using all ne hd_in_set by blast
  qed
  then show ?thesis unfolding ltrim_of_def blank_def by (simp only: dropWhile_eq_Nil_conv)
qed

text \<open>A command line that was read, written as one string and read again is the same, if its words have no white
  space, one is not empty, and no switch is a bare \<open>--\<close>.\<close>

theorem command_line_roundtrip:
  assumes "list_all (\<lambda>a. length a < npos) argv" "c = InitFromArgv no_program argv"
    "list_all (list_all (\<lambda>x. \<not> blank x)) (cl_argv c)" "list_ex (\<lambda>a. a \<noteq> []) (cl_argv c)"
    "''--'' \<notin> set (take (cl_begin_args c) (cl_argv c))" "length (GetCommandLineString c) < npos"
  shows "FromString (GetCommandLineString c) = c"
proof -
  define args where "args = map trim_all (drop 1 argv)"
  let ?ws = "map sw_text (switches_of args) @ arguments_of args"
  have n: "cl_switches no_program = Map.empty" by (simp add: no_program_def)
  have c: "c = \<lparr>cl_argv = [] # ?ws, cl_switches = map_of (rev (map sw_pair (switches_of args))),
      cl_begin_args = Suc (length (switches_of args))\<rparr>"
    unfolding assms(2) by (rule InitFromArgv_eq [OF assms(1) args_def n])
  have ne: "?ws \<noteq> []" using assms(4) c by auto
  have plain: "\<forall>a\<in>set ([] # ?ws). \<forall>x\<in>set a. \<not> blank x" using assms(3) by (simp add: c list_all_iff)
  have "length a < npos" if "a \<in> set args" for a
    using that assms(1) length_trim_all by (auto simp: args_def list_all_iff dest!: in_set_dropD)
  then have len: "\<forall>a\<in>set ([] # ?ws). length a < npos"
    using length_sw_text le_less_trans
    by (auto simp: switches_of_def arguments_of_def npos_def dest!: set_takeWhileD set_dropWhileD) blast
  have bare: "''--'' \<notin> set (map sw_text (switches_of args))" using assms(5) by (simp add: c)
  note again = switches_again [OF bare]
  have "list_all (\<lambda>a. length a < npos \<and> (is_switch a \<longrightarrow> sw_text a = a)) (takeWhile (\<lambda>a. a \<noteq> ''--'') ?ws)"
    unfolding again(3) list_all_iff
  proof
    fix a assume a: "a \<in> set (map sw_text (switches_of args) @ filter (\<lambda>a. \<not> is_switch a) (takeWhile (\<lambda>a. a \<noteq> ''--'') args))"
    then have "a \<in> set ?ws" by (auto simp: arguments_of_def)
    then show "length a < npos \<and> (is_switch a \<longrightarrow> sw_text a = a)" using a len sw_text_again(3) by (auto simp: switches_of_def)
  qed
  moreover have "list_all (\<lambda>a. length a < npos) ?ws" using len unfolding list_all_iff by simp
  ultimately have "string_loop True ?ws = concat (map (\<lambda>a. CHR '' '' # a) ?ws)" by (rule string_loop_texts)
  then have s: "GetCommandLineString c = join CHR '' '' ([] # ?ws)"
    using concat_join [OF ne] ne by (simp add: GetCommandLineString_def c join_Cons)
  have "blank CHR '' ''" by (simp add: blank_def kWhitespaceASCII_def)
  then have "pieces ((=) CHR '' '') (join CHR '' '' ([] # ?ws)) = [] # ?ws"
    using plain by (intro fields_join) auto
  moreover have t: "map trim_all ws = ws" if "set ws \<subseteq> set ([] # ?ws)" for ws
    using that trim_all_none len plain by (intro map_idI) blast
  ultimately have split: "SplitString (GetCommandLineString c) CHR '' '' [] = [] # ?ws"
    unfolding s SplitString_def SplitStringT_fields by (simp only: t [OF order_refl] if_True append_Nil)
  have "\<exists>a\<in>set ?ws. a \<noteq> []" using assms(4) unfolding c list_ex_iff by simp
  then obtain a x where a: "a \<in> set ([] # ?ws)" "x \<in> set a" using hd_in_set list.set_intros(2) by metis
  have "set a \<subseteq> set (join c as)" if "a \<in> set as" for c as
    using that by (induction as rule: induct_list012) auto
  then have "x \<in> set (GetCommandLineString c)" unfolding s using a by blast
  moreover have "\<not> blank x" using plain a by blast
  ultimately have "trim_all (GetCommandLineString c) \<noteq> []" using trim_all_empty assms(6) by blast
  then have "FromString (GetCommandLineString c) = InitFromArgv no_program ([] # ?ws)"
    by (simp add: FromString_def ParseFromString_def split)
  moreover have "list_all (\<lambda>a. length a < npos) ([] # ?ws)" using len by (simp add: list_all_iff)
  moreover have "?ws = map trim_all (drop 1 ([] # ?ws))" unfolding One_nat_def drop_Suc_Cons drop0 by (rule t [symmetric]) auto
  ultimately have "FromString (GetCommandLineString c) =
    \<lparr>cl_argv = [] # map sw_text (switches_of ?ws) @ arguments_of ?ws,
     cl_switches = map_of (rev (map sw_pair (switches_of ?ws))), cl_begin_args = Suc (length (switches_of ?ws))\<rparr>"
    using InitFromArgv_eq [of "[] # ?ws" ?ws no_program] n by simp
  also have "\<dots> = c"
  proof -
    have "map sw_text (map sw_text (switches_of args)) = map sw_text (switches_of args)"
      "map sw_pair (map sw_text (switches_of args)) = map sw_pair (switches_of args)"
      using sw_text_again(3,5) by (simp_all add: switches_of_def)
    then show ?thesis unfolding again c by (simp only: length_map)
  qed
  finally show ?thesis .
qed

theorem command_line_roundtrip_witness:
  "FromString (GetCommandLineString (InitFromArgv no_program [''hitsuji'', ''x'', ''--v=1''])) =
    InitFromArgv no_program [''hitsuji'', ''x'', ''--v=1'']"
proof -
  let ?argv = "[''hitsuji'', ''x'', ''--v=1'']"
  have t: "map trim_all (drop 1 ?argv) = drop 1 ?argv"
    by (simp add: trim_all_none npos_def blank_def kWhitespaceASCII_def)
  have l: "list_all (\<lambda>a. length a < npos) ?argv" by (simp add: npos_def)
  have "cl_switches no_program = Map.empty" by (simp add: no_program_def)
  note e = InitFromArgv_eq [OF l t [symmetric] this]
  have a: "cl_argv (InitFromArgv no_program ?argv) = ['''', ''--v=1'', ''x'']"
    "cl_begin_args (InitFromArgv no_program ?argv) = 2"
    unfolding e by (simp_all add: switches_of_def arguments_of_def is_switch_def sw_text_def sw_string_def sw_value_def)
  then have "GetCommandLineString (InitFromArgv no_program ?argv) = '' --v=1 x''"
    by (simp add: GetCommandLineString_def IsSwitch_eq npos_def is_switch_def sw_string_def sw_value_def
      kSwitchTerminator_def kSwitchValueSeparator_def)
  then show ?thesis
    by (intro command_line_roundtrip [OF l refl])
      (simp_all add: a npos_def blank_def kWhitespaceASCII_def numeral_2_eq_2)
qed

end
