(* ===== verification/Logging.thy ===== *)
theory Logging
  imports Command_Line
begin

section \<open>The log\<close>

text \<open>
  logging.cc and the macros of logging.hh, and the set-up of the log by the two entry points (\<open>env_t\<close> of main.cc and of
  plugin.cc). The globals of logging.cc are the record \<open>logger\<close>; what reaches the outside is appended to \<open>log_out\<close>:
  output, files opened, closed and deleted, and the lock taken and released where there is one. The operating system is the record
  \<open>log_os\<close>. A message handler returns whether it took care of the message, and what it wrote. The messages that
  \<open>VlogInfo\<close> writes in debug builds about a bad switch are left out.
\<close>

datatype log_event =
  To_stdout string | To_stderr string | To_debugger string | To_file string string | Msg_log nat string
  | Opened_file string | Closed_file string | Deleted_file string | Locked | Unlocked

datatype destination = LOG_NONE | LOG_ONLY_TO_FILE | LOG_ONLY_TO_SYSTEM_DEBUG_LOG | LOG_TO_BOTH_FILE_AND_SYSTEM_DEBUG_LOG

datatype locking = LOCK_LOG_FILE | DONT_LOCK_LOG_FILE

datatype deletion = DELETE_OLD_LOG_FILE | APPEND_TO_OLD_LOG_FILE

record log_os =
  can_open :: "string \<Rightarrow> bool"
  can_create_mutex :: "string \<Rightarrow> bool"
  process_id :: int
  thread_id :: int
  tick_count :: nat
  local_time :: "int \<times> int \<times> int \<times> int \<times> int"
  debug_build :: bool
  stack_trace :: string

type_synonym handler = "int \<Rightarrow> string \<Rightarrow> int \<Rightarrow> nat \<Rightarrow> string \<Rightarrow> bool \<times> log_event list"

record logger =
  min_log_level :: int
  g_vlog_info :: "VmodulePattern list option"
  logging_destination :: destination
  log_file_name :: "string option"
  log_file :: "string option"
  log_process_id :: bool
  log_thread_id :: bool
  log_timestamp :: bool
  log_tickcount :: bool
  log_message_handler :: "handler option"
  log_lock :: bool
  log_mutex :: "string option"
  lock_initialized :: bool
  lock_log_file :: locking
  log_out :: "log_event list"

definition initial_logger :: logger where
  "initial_logger = \<lparr>min_log_level = 0, g_vlog_info = None, logging_destination = LOG_ONLY_TO_SYSTEM_DEBUG_LOG,
     log_file_name = None, log_file = None, log_process_id = False, log_thread_id = False, log_timestamp = False,
     log_tickcount = False, log_message_handler = None, log_lock = False, log_mutex = None, lock_initialized = False, lock_log_file = LOCK_LOG_FILE, log_out = []\<rparr>"

definition LOG_INFO :: int where "LOG_INFO = 0"
definition LOG_WARNING :: int where "LOG_WARNING = 1"
definition LOG_ERROR :: int where "LOG_ERROR = 2"
definition LOG_FATAL :: int where "LOG_FATAL = 3"

definition log_severity_names :: "string list" where
  "log_severity_names = [''INFO'', ''WARNING'', ''ERROR'', ''FATAL'']"

definition emit :: "log_event list \<Rightarrow> logger \<Rightarrow> logger" where
  "emit es l = l\<lparr>log_out := log_out l @ es\<rparr>"

text \<open>Numbers as a stream prints them.\<close>

fun show_nat :: "nat \<Rightarrow> string" where
  "show_nat n = (if n < 10 then [char_of (48 + n)] else show_nat (n div 10) @ [char_of (48 + n mod 10)])"

declare show_nat.simps [simp del]

definition show_int :: "int \<Rightarrow> string" where
  "show_int i = (if i < 0 then CHR ''-'' # show_nat (nat (- i)) else show_nat (nat i))"

definition setw2 :: "int \<Rightarrow> string" where
  "setw2 i = replicate (2 - length (show_int i)) CHR ''0'' @ show_int i"

subsection \<open>The lock and the file\<close>

definition GetDefaultLogFile :: string where
  "GetDefaultLogFile = ''debug.log''"

text \<open>The lock is a mutex of the system, or a lock of the process. Where the mutex cannot be created the handle stays null, and
  the next message tries again under the default name.\<close>

definition mutex_name :: "string option \<Rightarrow> string" where
  "mutex_name new_log_file =
    (let safe_name = (case new_log_file of Some name \<Rightarrow> name | None \<Rightarrow> GetDefaultLogFile) in
     ''Global'' @ [CHR 0x5C] @ map (\<lambda>c. if c = CHR 0x5C then CHR ''/'' else c) safe_name)"

definition LoggingLock_Init :: "log_os \<Rightarrow> locking \<Rightarrow> string option \<Rightarrow> logger \<Rightarrow> logger" where
  "LoggingLock_Init os lock_log new_log_file l =
    (if lock_initialized l then l
     else let l = l\<lparr>lock_log_file := lock_log\<rparr> in
       if lock_log = LOCK_LOG_FILE then
         (let t = mutex_name new_log_file;
              l = (if log_mutex l = None
                   then l\<lparr>log_mutex := (if can_create_mutex os t then Some t else None)\<rparr> else l) in
          if log_mutex l = None then l else l\<lparr>lock_initialized := True\<rparr>)
       else l\<lparr>log_lock := True, lock_initialized := True\<rparr>)"

text \<open>Whether \<open>LockLogging\<close> and \<open>UnlockLogging\<close> work on a lock. A wait for the null handle fails at once, and its result is
  not tested; the lock of the process exists wherever it is chosen.\<close>

definition locks :: "logger \<Rightarrow> bool" where
  "locks l \<longleftrightarrow> (if lock_log_file l = LOCK_LOG_FILE then log_mutex l \<noteq> None else log_lock l)"

definition LockLogging :: "logger \<Rightarrow> logger" where
  "LockLogging l = (if locks l then emit [Locked] l else l)"

definition UnlockLogging :: "logger \<Rightarrow> logger" where
  "UnlockLogging l = (if locks l then emit [Unlocked] l else l)"

text \<open>A body run while a \<open>LoggingLock\<close> is on the stack.\<close>

definition with_LoggingLock :: "(logger \<Rightarrow> 'a \<times> logger) \<Rightarrow> logger \<Rightarrow> 'a \<times> logger" where
  "with_LoggingLock body l = (case body (LockLogging l) of (r, l) \<Rightarrow> (r, UnlockLogging l))"

definition InitializeLogFileHandle :: "log_os \<Rightarrow> logger \<Rightarrow> bool \<times> logger" where
  "InitializeLogFileHandle os l =
    (if log_file l \<noteq> None then (True, l)
     else let l = (if log_file_name l = None then l\<lparr>log_file_name := Some GetDefaultLogFile\<rparr> else l) in
       if logging_destination l = LOG_ONLY_TO_FILE \<or> logging_destination l = LOG_TO_BOTH_FILE_AND_SYSTEM_DEBUG_LOG then
         (let name = the (log_file_name l); here = ''.'' @ [CHR 0x5C] @ ''debug.log'' in
          if can_open os name then (True, emit [Opened_file name] (l\<lparr>log_file := Some name\<rparr>))
          else if can_open os here then (True, emit [Opened_file here] (l\<lparr>log_file := Some here\<rparr>))
          else (False, l\<lparr>log_file := None\<rparr>))
       else (True, l))"

definition InitLogging ::
  "log_os \<Rightarrow> CommandLine \<Rightarrow> string \<Rightarrow> destination \<Rightarrow> locking \<Rightarrow> deletion \<Rightarrow> logger \<Rightarrow> bool \<times> logger" where
  "InitLogging os command_line new_log_file logging_dest lock_log delete_old l =
    (let l = (if HasSwitch command_line ''v'' \<or> HasSwitch command_line ''vmodule'' then
                (case new_VlogInfo (GetSwitchValueNative command_line ''v'') (GetSwitchValueNative command_line ''vmodule'')
                   (min_log_level l) of (levels, m) \<Rightarrow> l\<lparr>g_vlog_info := Some levels, min_log_level := m\<rparr>)
              else l);
         l = LoggingLock_Init os lock_log (Some new_log_file) l in
     with_LoggingLock (\<lambda>l.
       let l = (case log_file l of None \<Rightarrow> l | Some f \<Rightarrow> emit [Closed_file f] (l\<lparr>log_file := None\<rparr>));
           l = l\<lparr>logging_destination := logging_dest\<rparr> in
       if logging_destination l = LOG_NONE \<or> logging_destination l = LOG_ONLY_TO_SYSTEM_DEBUG_LOG then (True, l)
       else let l = l\<lparr>log_file_name := Some new_log_file\<rparr>;
                l = (if delete_old = DELETE_OLD_LOG_FILE then emit [Deleted_file new_log_file] l else l) in
         InitializeLogFileHandle os l) l)"

subsection \<open>Levels\<close>

definition SetMinLogLevel :: "int \<Rightarrow> logger \<Rightarrow> logger" where
  "SetMinLogLevel level l = l\<lparr>min_log_level := min LOG_ERROR level\<rparr>"

definition GetVlogVerbosity :: "logger \<Rightarrow> int" where
  "GetVlogVerbosity l = max (-1) (LOG_INFO - min_log_level l)"

definition GetVlogLevelHelper :: "logger \<Rightarrow> string \<Rightarrow> int" where
  "GetVlogLevelHelper l path = (case g_vlog_info l of
     Some vlog_info \<Rightarrow> GetVlogLevel vlog_info (min_log_level l) path
   | None \<Rightarrow> GetVlogVerbosity l)"

definition LOG_IS_ON :: "int \<Rightarrow> logger \<Rightarrow> bool" where
  "LOG_IS_ON severity l \<longleftrightarrow> severity \<ge> min_log_level l"

definition VLOG_IS_ON :: "int \<Rightarrow> string \<Rightarrow> logger \<Rightarrow> bool" where
  "VLOG_IS_ON verboselevel path l \<longleftrightarrow> verboselevel \<le> GetVlogLevelHelper l path"

definition SetLogItems :: "bool \<Rightarrow> bool \<Rightarrow> bool \<Rightarrow> bool \<Rightarrow> logger \<Rightarrow> logger" where
  "SetLogItems enable_process_id enable_thread_id enable_timestamp enable_tickcount l =
    l\<lparr>log_process_id := enable_process_id, log_thread_id := enable_thread_id, log_timestamp := enable_timestamp,
      log_tickcount := enable_tickcount\<rparr>"

definition SetLogMessageHandler :: "handler option \<Rightarrow> logger \<Rightarrow> logger" where
  "SetLogMessageHandler h l = l\<lparr>log_message_handler := h\<rparr>"

subsection \<open>Messages\<close>

text \<open>The header of a message.\<close>

definition LogMessage_Init :: "log_os \<Rightarrow> logger \<Rightarrow> string \<Rightarrow> int \<Rightarrow> int \<Rightarrow> string" where
  "LogMessage_Init os l path line severity =
    (let last_slash_pos = find_last_of path [CHR 0x5C, CHR ''/''] npos;
         filename = (if last_slash_pos \<noteq> npos then drop (last_slash_pos + 1) path else path) in
     ''['' @
     (if log_process_id l then show_int (process_id os) @ '':'' else []) @
     (if log_thread_id l then show_int (thread_id os) @ '':'' else []) @
     (if log_timestamp l then
        (case local_time os of (tm_mon, tm_mday, tm_hour, tm_min, tm_sec) \<Rightarrow>
          setw2 (1 + tm_mon) @ setw2 tm_mday @ ''/'' @ setw2 tm_hour @ setw2 tm_min @ setw2 tm_sec @ '':'')
      else []) @
     (if log_tickcount l then show_nat (tick_count os) @ '':'' else []) @
     (if severity \<ge> 0 then log_severity_names ! nat severity else ''VERBOSE'' @ show_int (- severity)) @
     '':'' @ filename @ ''('' @ show_int line @ '')] '')"

definition kAlwaysPrintErrorLevel :: int where
  "kAlwaysPrintErrorLevel = LOG_ERROR"

text \<open>The destructor, which writes the message.\<close>

definition write_message :: "log_os \<Rightarrow> int \<Rightarrow> string \<Rightarrow> int \<Rightarrow> nat \<Rightarrow> string \<Rightarrow> logger \<Rightarrow> logger" where
  "write_message os severity path line message_start stream l =
    (let nl = [CHR 0x0A];
         stream = (if debug_build os \<and> severity = LOG_FATAL then stream @ nl @ stack_trace os else stream);
         str_newline = stream @ nl in
     case (case log_message_handler l of None \<Rightarrow> (False, [])
           | Some h \<Rightarrow> h severity path line message_start str_newline) of (taken, es) \<Rightarrow>
       let l = emit es l in
       if taken then l
       else let l = (if logging_destination l = LOG_ONLY_TO_SYSTEM_DEBUG_LOG \<or>
                        logging_destination l = LOG_TO_BOTH_FILE_AND_SYSTEM_DEBUG_LOG
                     then emit [To_debugger str_newline, To_stderr str_newline] l
                     else if severity \<ge> kAlwaysPrintErrorLevel then emit [To_stderr str_newline] l
                     else l);
                l = LoggingLock_Init os LOCK_LOG_FILE None l in
         if logging_destination l \<noteq> LOG_NONE \<and> logging_destination l \<noteq> LOG_ONLY_TO_SYSTEM_DEBUG_LOG then
           snd (with_LoggingLock (\<lambda>l. case InitializeLogFileHandle os l of (ok, l) \<Rightarrow>
             ((), if ok then emit [To_file (the (log_file l)) str_newline] l else l)) l)
         else l)"

definition LogMessage :: "log_os \<Rightarrow> string \<Rightarrow> int \<Rightarrow> int \<Rightarrow> string \<Rightarrow> logger \<Rightarrow> logger" where
  "LogMessage os path line severity text l =
    (let header = LogMessage_Init os l path line severity in
     write_message os severity path line (length header) (header @ text) l)"

definition LOG :: "log_os \<Rightarrow> string \<Rightarrow> int \<Rightarrow> int \<Rightarrow> string \<Rightarrow> logger \<Rightarrow> logger" where
  "LOG os path line severity text l = (if \<not> LOG_IS_ON severity l then l else LogMessage os path line severity text l)"

definition VLOG :: "log_os \<Rightarrow> string \<Rightarrow> int \<Rightarrow> int \<Rightarrow> string \<Rightarrow> logger \<Rightarrow> logger" where
  "VLOG os path line verbose_level text l =
    (if \<not> VLOG_IS_ON verbose_level path l then l else LogMessage os path line (- verbose_level) text l)"

subsection \<open>The two entry points\<close>

definition DetermineLogMode :: "bool \<Rightarrow> CommandLine \<Rightarrow> destination" where
  "DetermineLogMode debug command_line =
    (let kDefaultLoggingMode = (if \<not> debug then LOG_NONE else LOG_TO_BOTH_FILE_AND_SYSTEM_DEBUG_LOG) in
     if GetSwitchValueNative command_line ''enable-logging'' = ''file'' then LOG_ONLY_TO_FILE else kDefaultLoggingMode)"

definition main_log_handler :: handler where
  "main_log_handler severity path line message_start str = (True, [To_stdout str])"

definition plugin_log_handler :: "(int \<Rightarrow> nat) \<Rightarrow> handler" where
  "plugin_log_handler eMsg severity path line message_start str =
    (let priority = (if severity = LOG_WARNING then eMsg LOG_WARNING
                     else if severity = LOG_ERROR then eMsg LOG_ERROR
                     else if severity = LOG_FATAL then eMsg LOG_FATAL
                     else eMsg LOG_INFO) in
     (False, [Msg_log priority (rtrim_of kWhitespaceASCII str)]))"

definition main_env :: "log_os \<Rightarrow> string list \<Rightarrow> CommandLine option \<times> logger \<Rightarrow> CommandLine option \<times> logger" where
  "main_env os argv = (\<lambda>(current, l).
     let current = Init_command_line argv current;
         command_line = the current;
         l = snd (InitLogging os command_line ''/Hitsuji.log'' (DetermineLogMode (debug_build os) command_line)
                    DONT_LOCK_LOG_FILE APPEND_TO_OLD_LOG_FILE l) in
     (current, SetLogMessageHandler (Some main_log_handler) l))"

definition plugin_env ::
  "log_os \<Rightarrow> (int \<Rightarrow> nat) \<Rightarrow> string option \<Rightarrow> CommandLine option \<times> logger \<Rightarrow> CommandLine option \<times> logger" where
  "plugin_env os eMsg var = (\<lambda>(current, l).
     let current = Init_command_line [] current;
         command_line = ''HitsujiPlugin'' @ (case var of None \<Rightarrow> [] | Some buffer \<Rightarrow> '' '' @ buffer);
         c = ParseFromString (the current) command_line;
         l = snd (InitLogging os c ''/Hitsuji.log'' (DetermineLogMode (debug_build os) c)
                    DONT_LOCK_LOG_FILE APPEND_TO_OLD_LOG_FILE l) in
     (Some c, SetLogMessageHandler (Some (plugin_log_handler eMsg)) l))"

subsection \<open>The file is used under the lock\<close>

text \<open>What may happen to the file: the state is whether the lock is held, and which file is open. The strict reading
  lets the file be touched only while the lock is held.\<close>

fun guard :: "bool \<Rightarrow> bool \<times> string option \<Rightarrow> log_event list \<Rightarrow> (bool \<times> string option) option" where
  "guard strict s [] = Some s"
| "guard strict (held, file) (Locked # es) = (if held then None else guard strict (True, file) es)"
| "guard strict (held, file) (Unlocked # es) = (if held then guard strict (False, file) es else None)"
| "guard strict (held, file) (Opened_file f # es) =
     (if (held \<or> \<not> strict) \<and> file = None then guard strict (held, Some f) es else None)"
| "guard strict (held, file) (Closed_file f # es) =
     (if (held \<or> \<not> strict) \<and> file = Some f then guard strict (held, None) es else None)"
| "guard strict (held, file) (Deleted_file f # es) =
     (if (held \<or> \<not> strict) \<and> file = None then guard strict (held, file) es else None)"
| "guard strict (held, file) (To_file f s # es) =
     (if (held \<or> \<not> strict) \<and> file = Some f then guard strict (held, file) es else None)"
| "guard strict s (e # es) = guard strict s es"

fun harmless :: "log_event \<Rightarrow> bool" where
  "harmless (To_stdout s) = True"
| "harmless (To_stderr s) = True"
| "harmless (To_debugger s) = True"
| "harmless (Msg_log n s) = True"
| "harmless _ = False"

lemma guard_append: "guard st s (es @ fs) = (case guard st s es of None \<Rightarrow> None | Some s' \<Rightarrow> guard st s' fs)"
  by (induction st s es rule: guard.induct) auto

lemma guard_harmless: "list_all harmless es \<Longrightarrow> guard st s es = Some s \<and> Locked \<notin> set es \<and> Unlocked \<notin> set es"
proof (induction es)
  case (Cons e es)
  then show ?case by (cases e) auto
qed simp

lemma guard_weaken: "guard True s es = Some s' \<Longrightarrow> guard st s es = Some s'"
  by (induction True s es rule: guard.induct) (auto split: if_splits)

lemma guard_unlocked:
  "guard True (True, f) es = Some (True, f') \<Longrightarrow> Locked \<notin> set es \<Longrightarrow> Unlocked \<notin> set es \<Longrightarrow>
     guard False (False, f) es = Some (False, f')"
proof (induction es arbitrary: f)
  case (Cons e es)
  then show ?case by (cases e) (auto split: if_splits)
qed simp

text \<open>Operations on the log; one step of each.\<close>

datatype log_op =
  Init_op CommandLine string destination locking deletion
  | Min_level_op int
  | Items_op bool bool bool bool
  | Handler_op "handler option"
  | Log_op string int int string
  | Vlog_op string int int string

fun log_step :: "log_os \<Rightarrow> log_op \<Rightarrow> logger \<Rightarrow> logger" where
  "log_step os (Init_op c f d k x) l = snd (InitLogging os c f d k x l)"
| "log_step os (Min_level_op n) l = SetMinLogLevel n l"
| "log_step os (Items_op a b c d) l = SetLogItems a b c d l"
| "log_step os (Handler_op h) l = SetLogMessageHandler h l"
| "log_step os (Log_op p n s t) l = LOG os p n s t l"
| "log_step os (Vlog_op p n v t) l = VLOG os p n v t l"

definition handler_ok :: "handler option \<Rightarrow> bool" where
  "handler_ok h \<longleftrightarrow> (\<forall>f s p n m t. h = Some f \<longrightarrow> list_all harmless (snd (f s p n m t)))"

fun op_ok :: "log_op \<Rightarrow> bool" where
  "op_ok (Handler_op h) \<longleftrightarrow> handler_ok h"
| "op_ok _ \<longleftrightarrow> True"

text \<open>Once it is initialised the lock exists, and not before.\<close>

definition lock_ok :: "logger \<Rightarrow> bool" where
  "lock_ok l \<longleftrightarrow> (lock_initialized l \<longleftrightarrow> locks l) \<and> (\<not> lock_initialized l \<longrightarrow> log_mutex l = None)"

definition lock_state :: "logger \<Rightarrow> bool \<times> bool \<times> string option \<times> locking" where
  "lock_state l = (lock_initialized l, log_lock l, log_mutex l, lock_log_file l)"

lemma lock_state_out [simp]: "lock_state (l\<lparr>log_out := es\<rparr>) = lock_state l"
  by (simp add: lock_state_def)

definition adds :: "bool \<Rightarrow> logger \<Rightarrow> logger \<Rightarrow> bool" where
  "adds strict l l' \<longleftrightarrow> (\<exists>es. log_out l' = log_out l @ es \<and>
       guard strict (False, log_file l) es = Some (False, log_file l') \<and> (\<not> strict \<longrightarrow> Locked \<notin> set es)) \<and>
     log_message_handler l' = log_message_handler l"

lemma adds_refl: "log_out l' = log_out l \<Longrightarrow> log_file l' = log_file l \<Longrightarrow>
    log_message_handler l' = log_message_handler l \<Longrightarrow> adds st l l'"
  by (simp add: adds_def)

lemma adds_trans: "adds st a b \<Longrightarrow> adds st b c \<Longrightarrow> adds st a c"
  unfolding adds_def by (auto simp: guard_append)

lemma adds_emit: "list_all harmless es \<Longrightarrow> adds st l (emit es l)"
  by (simp add: adds_def emit_def guard_harmless)

lemma LoggingLock_Init_fields [simp]:
  "log_out (LoggingLock_Init os k n l) = log_out l" "log_file (LoggingLock_Init os k n l) = log_file l"
  "log_message_handler (LoggingLock_Init os k n l) = log_message_handler l"
  "logging_destination (LoggingLock_Init os k n l) = logging_destination l"
  by (simp_all add: LoggingLock_Init_def Let_def)

lemma lock_state_ok: "lock_state l' = lock_state l \<Longrightarrow> lock_ok l' = lock_ok l \<and> locks l' = locks l \<and> lock_initialized l' = lock_initialized l"
  by (simp add: lock_state_def lock_ok_def locks_def)

lemma LoggingLock_Init_lock:
  assumes "lock_ok l"
  shows "lock_ok (LoggingLock_Init os k n l)" "lock_initialized l \<Longrightarrow> lock_initialized (LoggingLock_Init os k n l)"
    "k = DONT_LOCK_LOG_FILE \<or> (\<forall>name. can_create_mutex os name) \<Longrightarrow> lock_initialized (LoggingLock_Init os k n l)"
proof -
  have m: "\<not> lock_initialized l \<Longrightarrow> log_mutex l = None" using assms by (simp add: lock_ok_def)
  show "lock_ok (LoggingLock_Init os k n l)" using assms m
    by (cases "lock_initialized l"; cases k) (simp_all add: LoggingLock_Init_def Let_def lock_ok_def locks_def)
  show "lock_initialized l \<Longrightarrow> lock_initialized (LoggingLock_Init os k n l)" by (simp add: LoggingLock_Init_def)
  show "k = DONT_LOCK_LOG_FILE \<or> (\<forall>name. can_create_mutex os name) \<Longrightarrow> lock_initialized (LoggingLock_Init os k n l)"
    by (cases k) (auto simp: LoggingLock_Init_def Let_def)
qed

text \<open>What a body may do while the lock is held.\<close>

definition adds_held :: "logger \<Rightarrow> logger \<Rightarrow> bool" where
  "adds_held l l' \<longleftrightarrow> (\<exists>es. log_out l' = log_out l @ es \<and> guard True (True, log_file l) es = Some (True, log_file l') \<and>
       Locked \<notin> set es \<and> Unlocked \<notin> set es) \<and>
     log_message_handler l' = log_message_handler l \<and> lock_state l' = lock_state l"

lemma adds_held_trans: "adds_held a b \<Longrightarrow> adds_held b c \<Longrightarrow> adds_held a c"
  unfolding adds_held_def by (auto simp: guard_append)

lemma with_lock_adds:
  assumes "adds_held (LockLogging l) (snd (body (LockLogging l)))"
  shows "adds (locks l) l (snd (with_LoggingLock body l)) \<and> lock_state (snd (with_LoggingLock body l)) = lock_state l"
proof -
  obtain r l' where b: "body (LockLogging l) = (r, l')" by (cases "body (LockLogging l)")
  have "lock_state l' = lock_state l" using assms b by (simp add: adds_held_def LockLogging_def emit_def split: if_splits)
  moreover from this have "locks l' = locks l" using lock_state_ok by blast
  moreover obtain es where "log_out l' = log_out (LockLogging l) @ es" "Locked \<notin> set es" "Unlocked \<notin> set es"
    "guard True (True, log_file l) es = Some (True, log_file l')" "log_message_handler l' = log_message_handler l"
    using assms b by (auto simp: adds_held_def LockLogging_def emit_def split: if_splits)
  ultimately show ?thesis
    using b guard_unlocked [of "log_file l" es "log_file l'"]
    by (auto simp: adds_def with_LoggingLock_def LockLogging_def UnlockLogging_def emit_def guard_append)
qed

lemma adds_held_emit:
  "list_all harmless es \<Longrightarrow> adds_held l (emit es l)" "log_file l = Some f \<Longrightarrow> adds_held l (emit [To_file f s] l)"
  by (simp_all add: adds_held_def lock_state_def emit_def guard_harmless)

lemma file_handle_held: "InitializeLogFileHandle os l = (ok, l') \<Longrightarrow> adds_held l l'"
  by (cases "log_file l"; cases "log_file_name l")
    (auto simp: InitializeLogFileHandle_def adds_held_def lock_state_def emit_def Let_def split: if_splits)

lemma file_handle_open:
  assumes "InitializeLogFileHandle os l = (True, l')" "logging_destination l \<noteq> LOG_NONE"
    "logging_destination l \<noteq> LOG_ONLY_TO_SYSTEM_DEBUG_LOG"
  shows "\<exists>f. log_file l' = Some f"
proof -
  have "logging_destination l = LOG_ONLY_TO_FILE \<or> logging_destination l = LOG_TO_BOTH_FILE_AND_SYSTEM_DEBUG_LOG"
    using assms(2,3) by (cases "logging_destination l") simp_all
  then show ?thesis using assms(1)
    by (cases "log_file l"; cases "log_file_name l")
      (auto simp: InitializeLogFileHandle_def emit_def Let_def split: if_splits)
qed

definition write_file :: "log_os \<Rightarrow> string \<Rightarrow> logger \<Rightarrow> unit \<times> logger" where
  "write_file os str l = (case InitializeLogFileHandle os l of (ok, l) \<Rightarrow>
     ((), if ok then emit [To_file (the (log_file l)) str] l else l))"

lemma write_file_held:
  assumes "logging_destination l \<noteq> LOG_NONE" "logging_destination l \<noteq> LOG_ONLY_TO_SYSTEM_DEBUG_LOG"
  shows "adds_held l (snd (write_file os str l))"
proof -
  obtain ok l' where h: "InitializeLogFileHandle os l = (ok, l')" by (cases "InitializeLogFileHandle os l")
  note a = file_handle_held [OF h]
  show ?thesis
  proof (cases ok)
    case True
    then obtain f where "log_file l' = Some f" using file_handle_open [of os l l'] h assms by auto
    then show ?thesis using h True adds_held_trans [OF a adds_held_emit(2)] by (simp add: write_file_def)
  qed (use h a in \<open>simp add: write_file_def\<close>)
qed

lemma emit_fields [simp]:
  "log_file (emit es l) = log_file l" "logging_destination (emit es l) = logging_destination l"
  "log_message_handler (emit es l) = log_message_handler l" "lock_state (emit es l) = lock_state l"
  by (simp_all add: emit_def lock_state_def)

lemma LockLogging_destination [simp]: "logging_destination (LockLogging l) = logging_destination l"
  by (simp add: LockLogging_def)

text \<open>What an operation does: it keeps the lock; it touches the file under the lock once there is one, and in any case
  when the system creates every mutex.\<close>

definition steps_ok :: "log_os \<Rightarrow> logger \<Rightarrow> logger \<Rightarrow> bool" where
  "steps_ok os l l' \<longleftrightarrow> lock_ok l' \<and> (lock_initialized l \<longrightarrow> lock_initialized l') \<and>
     adds (lock_initialized l') l l' \<and> ((\<forall>name. can_create_mutex os name) \<longrightarrow> adds True l l')"

lemma steps_ok_quiet:
  "(\<And>st. adds st l l') \<Longrightarrow> lock_state l' = lock_state l \<Longrightarrow> lock_ok l \<Longrightarrow> steps_ok os l l'"
  using lock_state_ok [of l' l] by (simp add: steps_ok_def)

text \<open>A stretch without effect on the file, the set-up of the lock, and a body under it.\<close>

lemma steps_ok_lock:
  assumes quiet: "\<And>st. adds st l l2" "lock_state l2 = lock_state l" and "lock_ok l"
    and l3: "l3 = LoggingLock_Init os k n l2"
    and body: "adds_held (LockLogging l3) (snd (body (LockLogging l3)))"
  shows "steps_ok os l (snd (with_LoggingLock body l3))"
proof -
  have ok2: "lock_ok l2" "lock_initialized l2 = lock_initialized l" using lock_state_ok [OF quiet(2)] assms(3) by simp_all
  note i = LoggingLock_Init_lock [OF ok2(1), where os = os and k = k and n = n, folded l3]
  note w = with_lock_adds [of l3 body, OF body]
  have "adds st l2 l3" for st unfolding l3 by (simp add: adds_refl)
  then have a: "adds (locks l3) l (snd (with_LoggingLock body l3))"
    using quiet(1) w adds_trans by blast
  have "lock_initialized l3 = locks l3" using i(1) by (simp add: lock_ok_def)
  then show ?thesis
    using a i ok2(2) lock_state_ok [of "snd (with_LoggingLock body l3)" l3] w by (auto simp: steps_ok_def)
qed

lemma write_message_adds:
  assumes "handler_ok (log_message_handler l)" "lock_ok l"
  shows "steps_ok os l (write_message os severity path line start stream l)"
proof -
  define str where "str = (if debug_build os \<and> severity = LOG_FATAL then stream @ [CHR 0x0A] @ stack_trace os else stream) @ [CHR 0x0A]"
  obtain taken es where h: "(case log_message_handler l of None \<Rightarrow> (False, [])
      | Some h \<Rightarrow> h severity path line start str) = (taken, es)" by fastforce
  then have es: "list_all harmless es" using assms(1) by (auto simp: handler_ok_def split: option.splits) (metis snd_conv)
  define l2 where "l2 = (if logging_destination l = LOG_ONLY_TO_SYSTEM_DEBUG_LOG \<or>
      logging_destination l = LOG_TO_BOTH_FILE_AND_SYSTEM_DEBUG_LOG then emit [To_debugger str, To_stderr str] (emit es l)
    else if severity \<ge> kAlwaysPrintErrorLevel then emit [To_stderr str] (emit es l) else emit es l)"
  have "emit fs (emit es l) = emit (es @ fs) l" for fs by (simp add: emit_def)
  then have l2: "adds st l l2" for st unfolding l2_def using es by (auto intro: adds_emit)
  have l2s: "lock_state l2 = lock_state l" by (simp add: l2_def)
  have w: "write_message os severity path line start stream l =
    (if taken then emit es l
     else let l = LoggingLock_Init os LOCK_LOG_FILE None l2 in
       if logging_destination l \<noteq> LOG_NONE \<and> logging_destination l \<noteq> LOG_ONLY_TO_SYSTEM_DEBUG_LOG
       then snd (with_LoggingLock (write_file os str) l) else l)"
    unfolding write_message_def Let_def str_def [symmetric] write_file_def [abs_def] h prod.case emit_fields l2_def [symmetric] ..
  show ?thesis
  proof (cases taken)
    case True
    then show ?thesis using w es assms(2) by (auto intro!: steps_ok_quiet adds_emit)
  next
    case False
    define l3 where "l3 = LoggingLock_Init os LOCK_LOG_FILE None l2"
    show ?thesis
    proof (cases "logging_destination l2 = LOG_NONE \<or> logging_destination l2 = LOG_ONLY_TO_SYSTEM_DEBUG_LOG")
      case True
      have ok2: "lock_ok l2" "lock_initialized l2 = lock_initialized l" using lock_state_ok [OF l2s] assms(2) by simp_all
      have "adds st l l3" for st unfolding l3_def by (rule adds_trans [OF l2]) (simp add: adds_refl)
      then show ?thesis
        using w False True LoggingLock_Init_lock(1,2) [OF ok2(1), of os LOCK_LOG_FILE None] ok2(2)
        by (auto simp: steps_ok_def l3_def [symmetric] Let_def) (simp_all add: l3_def)
    next
      case dest: False
      have "write_message os severity path line start stream l = snd (with_LoggingLock (write_file os str) l3)"
        using w False dest by (simp add: l3_def Let_def)
      moreover have "steps_ok os l (snd (with_LoggingLock (write_file os str) l3))"
        by (rule steps_ok_lock [OF l2 l2s assms(2) l3_def], rule write_file_held) (use dest in \<open>simp_all add: l3_def\<close>)
      ultimately show ?thesis by simp
    qed
  qed
qed

lemma InitLogging_adds:
  assumes "lock_ok l"
  shows "steps_ok os l (snd (InitLogging os c f d k x l)) \<and>
    (k = DONT_LOCK_LOG_FILE \<longrightarrow> lock_initialized (snd (InitLogging os c f d k x l)))"
proof -
  define l1 where "l1 = (if HasSwitch c ''v'' \<or> HasSwitch c ''vmodule'' then
      (case new_VlogInfo (GetSwitchValueNative c ''v'') (GetSwitchValueNative c ''vmodule'') (min_log_level l) of
        (levels, m) \<Rightarrow> l\<lparr>g_vlog_info := Some levels, min_log_level := m\<rparr>) else l)"
  define l2 where "l2 = LoggingLock_Init os k (Some f) l1"
  have 1: "adds st l l1" "lock_state l1 = lock_state l" for st
    unfolding l1_def by (auto intro!: adds_refl simp: lock_state_def split: prod.splits)
  define closed where "closed = (\<lambda>l :: logger. case log_file l of None \<Rightarrow> l | Some f \<Rightarrow> emit [Closed_file f] (l\<lparr>log_file := None\<rparr>))"
  have cl: "adds_held l ((closed l)\<lparr>logging_destination := d\<rparr>)" "log_file (closed l) = None" for l
    by (auto simp: closed_def adds_held_def lock_state_def emit_def split: option.splits)
  define named where "named = (\<lambda>l. if x = DELETE_OLD_LOG_FILE then emit [Deleted_file f] (l\<lparr>log_file_name := Some f\<rparr>)
      else l\<lparr>log_file_name := Some f\<rparr>)"
  have na: "adds_held ((closed l)\<lparr>logging_destination := d\<rparr>) (named ((closed l)\<lparr>logging_destination := d\<rparr>))" for l
    using cl(2) [of l] by (simp add: named_def adds_held_def lock_state_def emit_def)
  define body where "body = (\<lambda>l. if d = LOG_NONE \<or> d = LOG_ONLY_TO_SYSTEM_DEBUG_LOG then (True, (closed l)\<lparr>logging_destination := d\<rparr>)
      else InitializeLogFileHandle os (named ((closed l)\<lparr>logging_destination := d\<rparr>)))"
  have "adds_held l (snd (body l))" for l
    using cl(1) [of l] adds_held_trans [OF adds_held_trans [OF cl(1) na] file_handle_held [OF surjective_pairing]]
    by (simp add: body_def)
  then have "steps_ok os l (snd (with_LoggingLock body l2))" "adds_held (LockLogging l2) (snd (body (LockLogging l2)))"
    by (simp_all add: steps_ok_lock [OF 1 assms l2_def])
  moreover have "k = DONT_LOCK_LOG_FILE \<longrightarrow> lock_initialized l2"
    using LoggingLock_Init_lock(3) [of l1 k os "Some f"] lock_state_ok [OF 1(2)] assms by (auto simp: l2_def)
  moreover have "InitLogging os c f d k x l = with_LoggingLock body l2"
    unfolding InitLogging_def l1_def [symmetric] l2_def [symmetric] Let_def body_def closed_def named_def
    by (intro arg_cong [of _ _ "\<lambda>b. with_LoggingLock b l2"] ext) simp
  ultimately show ?thesis using lock_state_ok [OF conjunct2 [OF with_lock_adds [of l2 body]]] by metis
qed

lemma lock_ok_same: "lock_ok l \<Longrightarrow> lock_state l' = lock_state l \<Longrightarrow> lock_ok l'"
  using lock_state_ok by blast

text \<open>What a run of operations does.\<close>

definition run_ok :: "log_os \<Rightarrow> logger \<Rightarrow> logger \<Rightarrow> bool" where
  "run_ok os l l' \<longleftrightarrow> (\<exists>es. log_out l' = log_out l @ es \<and>
      guard False (False, log_file l) es = Some (False, log_file l') \<and>
      (lock_initialized l \<longrightarrow> guard True (False, log_file l) es = Some (False, log_file l')) \<and>
      (\<not> lock_initialized l' \<longrightarrow> Locked \<notin> set es) \<and>
      ((\<forall>name. can_create_mutex os name) \<longrightarrow> guard True (False, log_file l) es = Some (False, log_file l'))) \<and>
    (lock_initialized l \<longrightarrow> lock_initialized l')"

definition log_ok :: "logger \<Rightarrow> bool" where
  "log_ok l \<longleftrightarrow> lock_ok l \<and> handler_ok (log_message_handler l)"

lemma run_ok_step:
  assumes "steps_ok os l l'"
  shows "run_ok os l l'"
proof -
  obtain es where es: "log_out l' = log_out l @ es"
    "guard (lock_initialized l') (False, log_file l) es = Some (False, log_file l')" "\<not> lock_initialized l' \<longrightarrow> Locked \<notin> set es"
    using assms unfolding steps_ok_def adds_def by blast
  have 1: "guard False (False, log_file l) es = Some (False, log_file l')"
    using es(2) guard_weaken [of "(False, log_file l)" es "(False, log_file l')" False] by (cases "lock_initialized l'") simp_all
  have "(\<forall>name. can_create_mutex os name) \<longrightarrow> guard True (False, log_file l) es = Some (False, log_file l')"
    using assms es(1) by (auto simp: steps_ok_def adds_def)
  moreover have "lock_initialized l \<longrightarrow> lock_initialized l'" using assms by (simp add: steps_ok_def)
  moreover from this have "lock_initialized l \<longrightarrow> guard True (False, log_file l) es = Some (False, log_file l')"
    using es(2) by auto
  ultimately show ?thesis unfolding run_ok_def using es(1,3) 1 by blast
qed

lemma run_ok_refl: "run_ok os l l"
  by (simp add: run_ok_def)

lemma run_ok_trans:
  assumes "run_ok os a b" "run_ok os b c"
  shows "run_ok os a c"
proof -
  obtain es where es: "log_out b = log_out a @ es" "guard False (False, log_file a) es = Some (False, log_file b)"
      "lock_initialized a \<longrightarrow> guard True (False, log_file a) es = Some (False, log_file b)"
      "\<not> lock_initialized b \<longrightarrow> Locked \<notin> set es"
      "(\<forall>name. can_create_mutex os name) \<longrightarrow> guard True (False, log_file a) es = Some (False, log_file b)"
      "lock_initialized a \<longrightarrow> lock_initialized b"
    using assms(1) unfolding run_ok_def by blast
  obtain fs where fs: "log_out c = log_out b @ fs" "guard False (False, log_file b) fs = Some (False, log_file c)"
      "lock_initialized b \<longrightarrow> guard True (False, log_file b) fs = Some (False, log_file c)"
      "\<not> lock_initialized c \<longrightarrow> Locked \<notin> set fs"
      "(\<forall>name. can_create_mutex os name) \<longrightarrow> guard True (False, log_file b) fs = Some (False, log_file c)"
      "lock_initialized b \<longrightarrow> lock_initialized c"
    using assms(2) unfolding run_ok_def by blast
  have "guard st (False, log_file a) (es @ fs) = Some (False, log_file c)"
    if "guard st (False, log_file a) es = Some (False, log_file b)" "guard st (False, log_file b) fs = Some (False, log_file c)" for st
    using that by (simp add: guard_append)
  then show ?thesis using es fs unfolding run_ok_def by (intro conjI exI [of _ "es @ fs"]) auto
qed

lemma run_ok_same:
  "log_out l' = log_out l \<Longrightarrow> log_file l' = log_file l \<Longrightarrow> lock_state l' = lock_state l \<Longrightarrow> run_ok os l l'"
  by (simp add: run_ok_def lock_state_def)

lemma log_ok_step:
  assumes "log_ok l" "steps_ok os l l'"
  shows "log_ok l'"
  using assms by (simp add: log_ok_def steps_ok_def adds_def)

lemma message_ok: "log_ok l \<Longrightarrow> steps_ok os l (LogMessage os p n s t l)"
  by (simp add: LogMessage_def Let_def log_ok_def write_message_adds)

lemma log_step_ok:
  assumes "log_ok l" "op_ok oper"
  shows "run_ok os l (log_step os oper l) \<and> log_ok (log_step os oper l)"
proof (cases oper)
  case (Init_op c f d k x)
  have "steps_ok os l (log_step os oper l)" using InitLogging_adds [of l os c f d k x] assms(1) by (simp add: Init_op log_ok_def)
  then show ?thesis using run_ok_step log_ok_step assms(1) by blast
next
  case (Log_op p n s t)
  note m = message_ok [OF assms(1), of os p n s t]
  show ?thesis using run_ok_step [OF m] log_ok_step [OF assms(1) m] assms(1) by (simp add: Log_op LOG_def run_ok_refl)
next
  case (Vlog_op p n v t)
  note m = message_ok [OF assms(1), of os p n "- v" t]
  show ?thesis using run_ok_step [OF m] log_ok_step [OF assms(1) m] assms(1) by (simp add: Vlog_op VLOG_def run_ok_refl)
next
  case (Min_level_op n)
  then show ?thesis using assms(1)
    by (auto simp: SetMinLogLevel_def log_ok_def lock_state_def intro!: run_ok_same elim!: lock_ok_same)
next
  case (Items_op a b c d)
  then show ?thesis using assms(1)
    by (auto simp: SetLogItems_def log_ok_def lock_state_def intro!: run_ok_same elim!: lock_ok_same)
next
  case (Handler_op h)
  then show ?thesis using assms
    by (auto simp: SetLogMessageHandler_def log_ok_def lock_state_def intro!: run_ok_same elim!: lock_ok_same)
qed

lemma log_run_ok:
  "list_all op_ok ops \<Longrightarrow> log_ok l \<Longrightarrow> run_ok os l (fold (log_step os) ops l) \<and> log_ok (fold (log_step os) ops l)"
proof (induction ops arbitrary: l)
  case (Cons oper ops)
  note 1 = log_step_ok [of l oper os]
  show ?case using 1 Cons run_ok_trans [of os l "log_step os oper l" "fold (log_step os) ops (log_step os oper l)"]
    by (simp del: log_step.simps)
qed (simp add: run_ok_refl)


definition sample_os :: log_os where
  "sample_os = \<lparr>can_open = (\<lambda>f. True), can_create_mutex = (\<lambda>t. True), process_id = 1, thread_id = 2, tick_count = 3,
     local_time = (0, 1, 2, 3, 4), debug_build = False, stack_trace = []\<rparr>"


text \<open>Where no mutex can be created a message reaches the file without a lock.\<close>

lemma unguarded_log:
  "let os = sample_os\<lparr>can_create_mutex := (\<lambda>t. False)\<rparr>;
       l = fold (log_step os) [Init_op no_program ''a.log'' LOG_ONLY_TO_FILE LOCK_LOG_FILE APPEND_TO_OLD_LOG_FILE,
                               Log_op ''b.cc'' 7 0 ''hello''] initial_logger
   in (\<exists>text. log_out l = [Opened_file ''a.log'', To_file ''a.log'' text]) \<and> guard True (False, None) (log_out l) = None"
  by (simp add: Let_def sample_os_def initial_logger_def InitLogging_def HasSwitch_def no_program_def LoggingLock_Init_def
      with_LoggingLock_def LockLogging_def UnlockLogging_def locks_def InitializeLogFileHandle_def emit_def LOG_def
      LOG_IS_ON_def LogMessage_def write_message_def kAlwaysPrintErrorLevel_def LOG_ERROR_def LOG_FATAL_def)

subsection \<open>The log of the application\<close>

fun is_message :: "log_op \<Rightarrow> bool" where
  "is_message (Log_op p n s t) = True"
| "is_message (Vlog_op p n v t) = True"
| "is_message _ = False"

definition to_stdout :: "log_event \<Rightarrow> bool" where
  "to_stdout e \<longleftrightarrow> (\<exists>s. e = To_stdout s)"

lemma message_to_stdout:
  assumes "log_message_handler l = Some main_log_handler" "is_message oper"
  shows "\<exists>es. log_out (log_step os oper l) = log_out l @ es \<and> list_all to_stdout es \<and>
    log_message_handler (log_step os oper l) = Some main_log_handler"
proof -
  have "\<exists>es. log_out (write_message os s p n m t l) = log_out l @ es \<and> list_all to_stdout es \<and>
      log_message_handler (write_message os s p n m t l) = Some main_log_handler" for s p n m t
    using assms(1) by (simp add: write_message_def main_log_handler_def Let_def emit_def to_stdout_def)
  then show ?thesis using assms
    by (cases oper) (simp_all add: LOG_def VLOG_def LogMessage_def Let_def)
qed

lemma messages_to_stdout:
  assumes "log_message_handler l = Some main_log_handler" "list_all is_message ops"
  shows "\<exists>es. log_out (fold (log_step os) ops l) = log_out l @ es \<and> list_all to_stdout es"
  using assms
proof (induction ops arbitrary: l)
  case (Cons oper ops)
  obtain es where es: "log_out (log_step os oper l) = log_out l @ es" "list_all to_stdout es"
    "log_message_handler (log_step os oper l) = Some main_log_handler"
    using message_to_stdout [OF Cons.prems(1), of oper os] Cons.prems(2) by auto
  then obtain fs where "log_out (fold (log_step os) ops (log_step os oper l)) = log_out l @ (es @ fs)" "list_all to_stdout fs"
    using Cons.IH [of "log_step os oper l"] Cons.prems(2) by auto
  then show ?case using es(2) by (intro exI [of _ "es @ fs"]) simp
qed simp

lemma InitLogging_file:
  assumes "log_file l = None"
  shows "log_file (snd (InitLogging os c f d k APPEND_TO_OLD_LOG_FILE l)) =
    (if d = LOG_NONE \<or> d = LOG_ONLY_TO_SYSTEM_DEBUG_LOG then None
     else if can_open os f then Some f
     else if can_open os (''.'' @ [CHR 0x5C] @ ''debug.log'') then Some (''.'' @ [CHR 0x5C] @ ''debug.log'') else None)"
proof -
  define l1 where "l1 = LoggingLock_Init os k (Some f) (if HasSwitch c ''v'' \<or> HasSwitch c ''vmodule'' then
      (case new_VlogInfo (GetSwitchValueNative c ''v'') (GetSwitchValueNative c ''vmodule'') (min_log_level l) of
        (levels, m) \<Rightarrow> l\<lparr>g_vlog_info := Some levels, min_log_level := m\<rparr>) else l)"
  have "log_file l1 = None" unfolding l1_def using assms by (simp split: prod.split)
  then show ?thesis unfolding InitLogging_def Let_def l1_def [symmetric]
    by (cases d) (simp_all add: with_LoggingLock_def LockLogging_def UnlockLogging_def InitializeLogFileHandle_def emit_def Let_def)
qed

lemma main_env_fields:
  assumes "main_env os argv (None, initial_logger) = (current, l)"
  shows "log_message_handler l = Some main_log_handler"
    "log_file l = (if GetSwitchValueNative (the current) ''enable-logging'' = ''file'' \<or> debug_build os then
        if can_open os ''/Hitsuji.log'' then Some ''/Hitsuji.log''
        else if can_open os (''.'' @ [CHR 0x5C] @ ''debug.log'') then Some (''.'' @ [CHR 0x5C] @ ''debug.log'') else None
      else None)"
proof -
  have "log_file initial_logger = None" by (simp add: initial_logger_def)
  note i = InitLogging_file [OF this]
  have l: "l = SetLogMessageHandler (Some main_log_handler) (snd (InitLogging os (the current) ''/Hitsuji.log''
      (DetermineLogMode (debug_build os) (the current)) DONT_LOCK_LOG_FILE APPEND_TO_OLD_LOG_FILE initial_logger))"
    using assms by (auto simp: main_env_def Let_def)
  then show "log_message_handler l = Some main_log_handler" by (simp add: SetLogMessageHandler_def)
  have "log_file l = log_file (snd (InitLogging os (the current) ''/Hitsuji.log''
      (DetermineLogMode (debug_build os) (the current)) DONT_LOCK_LOG_FILE APPEND_TO_OLD_LOG_FILE initial_logger))"
    by (simp add: l SetLogMessageHandler_def)
  then show "log_file l = (if GetSwitchValueNative (the current) ''enable-logging'' = ''file'' \<or> debug_build os then
        if can_open os ''/Hitsuji.log'' then Some ''/Hitsuji.log''
        else if can_open os (''.'' @ [CHR 0x5C] @ ''debug.log'') then Some (''.'' @ [CHR 0x5C] @ ''debug.log'') else None
      else None)"
    by (simp add: i DetermineLogMode_def)
qed

text \<open>In the application every message goes to the standard output and nowhere else: also with
  \<open>--enable-logging=file\<close>, when the log file has been opened, nothing is written to it.\<close>

theorem application_log:
  assumes "main_env os argv (None, initial_logger) = (current, l)" "list_all is_message ops"
  shows "(\<exists>es. log_out (fold (log_step os) ops l) = log_out l @ es \<and> list_all to_stdout es) \<and>
    (log_file l \<noteq> None) = ((GetSwitchValueNative (the current) ''enable-logging'' = ''file'' \<or> debug_build os) \<and>
      (can_open os ''/Hitsuji.log'' \<or> can_open os (''.'' @ [CHR 0x5C] @ ''debug.log'')))"
  using messages_to_stdout [OF main_env_fields(1) [OF assms(1)] assms(2)] main_env_fields(2) [OF assms(1)] by auto

theorem application_log_witness:
  "\<exists>current l. main_env sample_os [''hitsuji'', ''--enable-logging=file''] (None, initial_logger) = (current, l) \<and>
    log_file l \<noteq> None \<and>
    (\<exists>es. log_out (fold (log_step sample_os) [Log_op ''a/b.cc'' 5 2 ''failed''] l) = log_out l @ es \<and> list_all to_stdout es)"
proof -
  obtain current l where e: "main_env sample_os [''hitsuji'', ''--enable-logging=file''] (None, initial_logger) = (current, l)"
    by (cases "main_env sample_os [''hitsuji'', ''--enable-logging=file''] (None, initial_logger)")
  have "trim_all ''--enable-logging=file'' = ''--enable-logging=file''"
    by (simp add: trim_all_none npos_def blank_def kWhitespaceASCII_def)
  moreover have "current = Some (InitFromArgv no_program [''hitsuji'', ''--enable-logging=file''])"
    using e by (auto simp: main_env_def Init_command_line_def Let_def)
  ultimately have "GetSwitchValueNative (the current) ''enable-logging'' = ''file''"
    by (simp add: InitFromArgv_def AppendSwitchesAndArguments_def IsSwitch_eq npos_def is_switch_def sw_string_def
      sw_value_def kSwitchTerminator_def AppendSwitchNative_def LowerASCIIOnWindows_def GetSwitchValueNative_def
      GetSwitchPrefixLength_def kSwitchPrefixes_def Let_def)
  then show ?thesis using e application_log [OF e, of "[Log_op ''a/b.cc'' 5 2 ''failed'']"] by (auto simp: sample_os_def)
qed

end
