(* ===== verification/Values.thy ===== *)
theory Values
  imports Splitting "HOL-Library.Char_ord" "HOL-Library.List_Lexorder" "HOL-Library.Sublist"
begin

section \<open>Values\<close>

text \<open>
  values.cc: trees of values with dictionaries and lists, dictionaries addressed by paths of keys with dots between them.
  A value owns its children and no value has two parents, so that a tree is a term and changing a child in place is
  rebuilding the path to it. A \<open>std::map\<close> from strings is the list of its entries in the order of the keys. Doubles
  are a type of their own with the operations of the standard library as parameters.
\<close>

subsection \<open>Types\<close>

datatype Type = TYPE_NULL | TYPE_BOOLEAN | TYPE_INTEGER | TYPE_DOUBLE | TYPE_STRING | TYPE_BINARY | TYPE_DICTIONARY | TYPE_LIST

datatype 'd Value =
    NullValue
  | BooleanValue bool
  | IntegerValue "32 word"
  | DoubleValue 'd
  | StringValue string
  | BinaryValue "8 word list"
  | DictionaryValue "(string \<times> 'd Value) list"
  | ListValue "'d Value list"

type_synonym 'd ValueMap = "(string \<times> 'd Value) list"

record 'd doubles =
  IsFinite :: "'d \<Rightarrow> bool"
  double_zero :: 'd
  double_of_int :: "32 word \<Rightarrow> 'd"
  double_equal :: "'d \<Rightarrow> 'd \<Rightarrow> bool"

fun GetType :: "'d Value \<Rightarrow> Type" where
  "GetType NullValue = TYPE_NULL"
| "GetType (BooleanValue _) = TYPE_BOOLEAN"
| "GetType (IntegerValue _) = TYPE_INTEGER"
| "GetType (DoubleValue _) = TYPE_DOUBLE"
| "GetType (StringValue _) = TYPE_STRING"
| "GetType (BinaryValue _) = TYPE_BINARY"
| "GetType (DictionaryValue _) = TYPE_DICTIONARY"
| "GetType (ListValue _) = TYPE_LIST"

definition IsType :: "'d Value \<Rightarrow> Type \<Rightarrow> bool" where
  "IsType v t = (t = GetType v)"

text \<open>A double that is not finite becomes zero; the build with debug checks stops there.\<close>

definition CreateDoubleValue :: "('d, 'e) doubles_scheme \<Rightarrow> 'd \<Rightarrow> 'd Value" where
  "CreateDoubleValue D d = DoubleValue (if IsFinite D d then d else double_zero D)"

fun GetAsBoolean :: "'d Value \<Rightarrow> bool option" where
  "GetAsBoolean (BooleanValue b) = Some b"
| "GetAsBoolean _ = None"

fun GetAsInteger :: "'d Value \<Rightarrow> 32 word option" where
  "GetAsInteger (IntegerValue i) = Some i"
| "GetAsInteger _ = None"

fun GetAsDouble :: "('d, 'e) doubles_scheme \<Rightarrow> 'd Value \<Rightarrow> 'd option" where
  "GetAsDouble D (DoubleValue d) = Some d"
| "GetAsDouble D (IntegerValue i) = Some (double_of_int D i)"
| "GetAsDouble D _ = None"

fun GetAsString :: "'d Value \<Rightarrow> string option" where
  "GetAsString (StringValue s) = Some s"
| "GetAsString _ = None"

fun GetAsList :: "'d Value \<Rightarrow> 'd Value list option" where
  "GetAsList (ListValue l) = Some l"
| "GetAsList _ = None"

fun GetAsDictionary :: "'d Value \<Rightarrow> 'd ValueMap option" where
  "GetAsDictionary (DictionaryValue d) = Some d"
| "GetAsDictionary _ = None"

fun GetAsBinary :: "'d Value \<Rightarrow> 8 word list option" where
  "GetAsBinary (BinaryValue b) = Some b"
| "GetAsBinary _ = None"

subsection \<open>The map\<close>

definition ordered :: "'d ValueMap \<Rightarrow> bool" where
  "ordered d = sorted_wrt (<) (map fst d)"

definition HasKey :: "'d ValueMap \<Rightarrow> string \<Rightarrow> bool" where
  "HasKey d key = (map_of d key \<noteq> None)"

fun SetWithoutPathExpansion :: "string \<Rightarrow> 'd Value \<Rightarrow> 'd ValueMap \<Rightarrow> 'd ValueMap" where
  "SetWithoutPathExpansion key v [] = [(key, v)]"
| "SetWithoutPathExpansion key v ((k, w) # d) =
    (if key < k then (key, v) # (k, w) # d
     else if key = k then (k, v) # d
     else (k, w) # SetWithoutPathExpansion key v d)"

definition GetWithoutPathExpansion :: "'d ValueMap \<Rightarrow> string \<Rightarrow> 'd Value option" where
  "GetWithoutPathExpansion d key = map_of d key"

definition RemoveWithoutPathExpansion :: "string \<Rightarrow> 'd ValueMap \<Rightarrow> ('d Value \<times> 'd ValueMap) option" where
  "RemoveWithoutPathExpansion key d = (case map_of d key of
     None \<Rightarrow> None
   | Some entry \<Rightarrow> Some (entry, filter (\<lambda>e. fst e \<noteq> key) d))"

definition GetIntegerWithoutPathExpansion :: "'d ValueMap \<Rightarrow> string \<Rightarrow> 32 word option" where
  "GetIntegerWithoutPathExpansion d key = Option.bind (GetWithoutPathExpansion d key) GetAsInteger"
definition GetDoubleWithoutPathExpansion :: "('d, 'e) doubles_scheme \<Rightarrow> 'd ValueMap \<Rightarrow> string \<Rightarrow> 'd option" where
  "GetDoubleWithoutPathExpansion D d key = Option.bind (GetWithoutPathExpansion d key) (GetAsDouble D)"
definition GetStringWithoutPathExpansion :: "'d ValueMap \<Rightarrow> string \<Rightarrow> string option" where
  "GetStringWithoutPathExpansion d key = Option.bind (GetWithoutPathExpansion d key) GetAsString"
definition GetDictionaryWithoutPathExpansion :: "'d ValueMap \<Rightarrow> string \<Rightarrow> 'd ValueMap option" where
  "GetDictionaryWithoutPathExpansion d key = Option.bind (GetWithoutPathExpansion d key) GetAsDictionary"
definition GetListWithoutPathExpansion :: "'d ValueMap \<Rightarrow> string \<Rightarrow> 'd Value list option" where
  "GetListWithoutPathExpansion d key = Option.bind (GetWithoutPathExpansion d key) GetAsList"

definition DictionaryValue_Clear :: "'d ValueMap \<Rightarrow> 'd ValueMap" where "DictionaryValue_Clear d = []"
definition DictionaryValue_Swap :: "'d ValueMap \<times> 'd ValueMap \<Rightarrow> 'd ValueMap \<times> 'd ValueMap" where
  "DictionaryValue_Swap p = (snd p, fst p)"

subsection \<open>Paths\<close>

text \<open>\<open>std::string::find\<close> and \<open>rfind\<close> of a character.\<close>

definition str_find :: "char \<Rightarrow> string \<Rightarrow> nat option" where
  "str_find c s = (if c \<in> set s then Some (length (takeWhile (\<lambda>x. x \<noteq> c) s)) else None)"

definition str_rfind :: "char \<Rightarrow> string \<Rightarrow> nat option" where
  "str_rfind c s = map_option (\<lambda>i. length s - Suc i) (str_find c (rev s))"

lemma str_find_Cons: "str_find c (x # s) = (if x = c then Some 0 else map_option Suc (str_find c s))"
  by (auto simp: str_find_def)

lemma str_find_less: "str_find c s = Some i \<Longrightarrow> i < length s"
  by (induction s arbitrary: i) (auto simp: str_find_Cons str_find_def [of c "[]"] split: if_splits)

text \<open>\<open>GetDictionary\<close> gets its path with \<open>Get\<close>, which gets each dictionary on the way with \<open>GetDictionary\<close>.\<close>

function Get :: "'d ValueMap \<Rightarrow> string \<Rightarrow> 'd Value option"
  and GetDictionary :: "'d ValueMap \<Rightarrow> string \<Rightarrow> 'd ValueMap option" where
  "Get d path = (case str_find CHR ''.'' path of
     None \<Rightarrow> GetWithoutPathExpansion d path
   | Some i \<Rightarrow> (case GetDictionary d (take i path) of
       None \<Rightarrow> None
     | Some child \<Rightarrow> Get child (drop (i + 1) path)))"
| "GetDictionary d path = (case Get d path of
     None \<Rightarrow> None
   | Some v \<Rightarrow> if IsType v TYPE_DICTIONARY then GetAsDictionary v else None)"
  by pat_completeness auto
termination
  by (relation "measure (\<lambda>x. case x of Inl (d, p) \<Rightarrow> 2 * length p | Inr (d, p) \<Rightarrow> 2 * length p + 1)")
    (auto dest: str_find_less)

declare Get.simps [simp del] GetDictionary.simps [simp del]

function DictionaryValue_Set :: "string \<Rightarrow> 'd Value \<Rightarrow> 'd ValueMap \<Rightarrow> 'd ValueMap" where
  "DictionaryValue_Set path v d = (case str_find CHR ''.'' path of
     None \<Rightarrow> SetWithoutPathExpansion path v d
   | Some i \<Rightarrow>
       let key = take i path;
           child = (case GetDictionary d key of None \<Rightarrow> [] | Some c \<Rightarrow> c) in
       SetWithoutPathExpansion key (DictionaryValue (DictionaryValue_Set (drop (i + 1) path) v child)) d)"
  by pat_completeness auto
termination
  by (relation "measure (\<lambda>(p, v, d). length p)") (auto dest: str_find_less)

declare DictionaryValue_Set.simps [simp del]

definition SetBoolean :: "string \<Rightarrow> bool \<Rightarrow> 'd ValueMap \<Rightarrow> 'd ValueMap" where
  "SetBoolean path b = DictionaryValue_Set path (BooleanValue b)"
definition SetInteger :: "string \<Rightarrow> 32 word \<Rightarrow> 'd ValueMap \<Rightarrow> 'd ValueMap" where
  "SetInteger path i = DictionaryValue_Set path (IntegerValue i)"
definition SetDouble :: "('d, 'e) doubles_scheme \<Rightarrow> string \<Rightarrow> 'd \<Rightarrow> 'd ValueMap \<Rightarrow> 'd ValueMap" where
  "SetDouble D path x = DictionaryValue_Set path (CreateDoubleValue D x)"
definition SetString :: "string \<Rightarrow> string \<Rightarrow> 'd ValueMap \<Rightarrow> 'd ValueMap" where
  "SetString path s = DictionaryValue_Set path (StringValue s)"

definition GetBoolean :: "'d ValueMap \<Rightarrow> string \<Rightarrow> bool option" where
  "GetBoolean d path = Option.bind (Get d path) GetAsBoolean"
definition GetInteger :: "'d ValueMap \<Rightarrow> string \<Rightarrow> 32 word option" where
  "GetInteger d path = Option.bind (Get d path) GetAsInteger"
definition GetDouble :: "('d, 'e) doubles_scheme \<Rightarrow> 'd ValueMap \<Rightarrow> string \<Rightarrow> 'd option" where
  "GetDouble D d path = Option.bind (Get d path) (GetAsDouble D)"
definition GetString :: "'d ValueMap \<Rightarrow> string \<Rightarrow> string option" where
  "GetString d path = Option.bind (Get d path) GetAsString"
definition GetStringASCII :: "'d ValueMap \<Rightarrow> string \<Rightarrow> string option" where
  "GetStringASCII d path = GetString d path"
definition GetBinary :: "'d ValueMap \<Rightarrow> string \<Rightarrow> 8 word list option" where
  "GetBinary d path = Option.bind (Get d path) GetAsBinary"
definition GetList :: "'d ValueMap \<Rightarrow> string \<Rightarrow> 'd Value list option" where
  "GetList d path = Option.bind (Get d path) GetAsList"

text \<open>\<open>Remove\<close> gives the value that was removed and what is left; the dictionary that holds it is reached by its path.\<close>

definition put_dictionary :: "string \<Rightarrow> 'd ValueMap \<Rightarrow> 'd ValueMap \<Rightarrow> 'd ValueMap" where
  "put_dictionary path sub d = DictionaryValue_Set path (DictionaryValue sub) d"

definition DictionaryValue_Remove :: "string \<Rightarrow> 'd ValueMap \<Rightarrow> ('d Value \<times> 'd ValueMap) option" where
  "DictionaryValue_Remove path d = (case str_rfind CHR ''.'' path of
     None \<Rightarrow> RemoveWithoutPathExpansion path d
   | Some i \<Rightarrow> (case GetDictionary d (take i path) of
       None \<Rightarrow> None
     | Some sub \<Rightarrow> map_option (\<lambda>(v, sub). (v, put_dictionary (take i path) sub d))
         (RemoveWithoutPathExpansion (drop (i + 1) path) sub)))"

subsection \<open>Copies, merging and comparison\<close>

fun DeepCopy :: "('d, 'e) doubles_scheme \<Rightarrow> 'd Value \<Rightarrow> 'd Value"
  and list_DeepCopy :: "('d, 'e) doubles_scheme \<Rightarrow> 'd Value list \<Rightarrow> 'd Value list \<Rightarrow> 'd Value list"
  and dict_DeepCopy :: "('d, 'e) doubles_scheme \<Rightarrow> 'd ValueMap \<Rightarrow> 'd ValueMap \<Rightarrow> 'd ValueMap" where
  "DeepCopy D NullValue = NullValue"
| "DeepCopy D (BooleanValue b) = BooleanValue b"
| "DeepCopy D (IntegerValue i) = IntegerValue i"
| "DeepCopy D (DoubleValue d) = CreateDoubleValue D d"
| "DeepCopy D (StringValue s) = StringValue s"
| "DeepCopy D (BinaryValue b) = BinaryValue b"
| "DeepCopy D (DictionaryValue d) = DictionaryValue (dict_DeepCopy D d [])"
| "DeepCopy D (ListValue l) = ListValue (list_DeepCopy D l [])"
| "list_DeepCopy D [] result = result"
| "list_DeepCopy D (v # l) result = list_DeepCopy D l (result @ [DeepCopy D v])"
| "dict_DeepCopy D [] result = result"
| "dict_DeepCopy D ((k, v) # d) result = dict_DeepCopy D d (SetWithoutPathExpansion k (DeepCopy D v) result)"

fun CopyWithoutEmptyChildren :: "('d, 'e) doubles_scheme \<Rightarrow> 'd Value \<Rightarrow> 'd Value option"
  and list_CopyWithoutEmpty :: "('d, 'e) doubles_scheme \<Rightarrow> 'd Value list \<Rightarrow> 'd Value list \<Rightarrow> 'd Value list"
  and dict_CopyWithoutEmpty :: "('d, 'e) doubles_scheme \<Rightarrow> 'd ValueMap \<Rightarrow> 'd ValueMap \<Rightarrow> 'd ValueMap" where
  "CopyWithoutEmptyChildren D (ListValue l) =
    (let copy = list_CopyWithoutEmpty D l [] in if copy \<noteq> [] then Some (ListValue copy) else None)"
| "CopyWithoutEmptyChildren D (DictionaryValue d) =
    (let copy = dict_CopyWithoutEmpty D d [] in if copy \<noteq> [] then Some (DictionaryValue copy) else None)"
| "CopyWithoutEmptyChildren D v = Some (DeepCopy D v)"
| "list_CopyWithoutEmpty D [] copy = copy"
| "list_CopyWithoutEmpty D (v # l) copy = list_CopyWithoutEmpty D l
    (case CopyWithoutEmptyChildren D v of None \<Rightarrow> copy | Some child \<Rightarrow> copy @ [child])"
| "dict_CopyWithoutEmpty D [] copy = copy"
| "dict_CopyWithoutEmpty D ((k, v) # d) copy = dict_CopyWithoutEmpty D d
    (case CopyWithoutEmptyChildren D v of None \<Rightarrow> copy | Some child \<Rightarrow> SetWithoutPathExpansion k child copy)"

definition DeepCopyWithoutEmptyChildren :: "('d, 'e) doubles_scheme \<Rightarrow> 'd ValueMap \<Rightarrow> 'd ValueMap" where
  "DeepCopyWithoutEmptyChildren D d = (case CopyWithoutEmptyChildren D (DictionaryValue d) of
     Some (DictionaryValue copy) \<Rightarrow> copy
   | _ \<Rightarrow> [])"

text \<open>The dictionary that is merged into comes first; the other one is walked over and is not the same object.\<close>

fun MergeDictionary :: "('d, 'e) doubles_scheme \<Rightarrow> 'd ValueMap \<Rightarrow> 'd ValueMap \<Rightarrow> 'd ValueMap" where
  "MergeDictionary D self [] = self"
| "MergeDictionary D self ((key, merge_value) # d) = MergeDictionary D
    (case merge_value of
       DictionaryValue m \<Rightarrow> (case GetDictionaryWithoutPathExpansion self key of
           Some sub_dict \<Rightarrow> SetWithoutPathExpansion key (DictionaryValue (MergeDictionary D sub_dict m)) self
         | None \<Rightarrow> SetWithoutPathExpansion key (DeepCopy D merge_value) self)
     | _ \<Rightarrow> SetWithoutPathExpansion key (DeepCopy D merge_value) self) d"

fun Equals :: "('d, 'e) doubles_scheme \<Rightarrow> 'd Value \<Rightarrow> 'd Value \<Rightarrow> bool"
  and list_Equals :: "('d, 'e) doubles_scheme \<Rightarrow> 'd Value list \<Rightarrow> 'd Value list \<Rightarrow> bool"
  and dict_Equals :: "('d, 'e) doubles_scheme \<Rightarrow> 'd ValueMap \<Rightarrow> 'd ValueMap \<Rightarrow> bool" where
  "Equals D NullValue other = IsType other TYPE_NULL"
| "Equals D (BooleanValue b) other = (case other of BooleanValue c \<Rightarrow> b = c | _ \<Rightarrow> False)"
| "Equals D (IntegerValue i) other = (case other of IntegerValue j \<Rightarrow> i = j | _ \<Rightarrow> False)"
| "Equals D (DoubleValue d) other = (case other of DoubleValue e \<Rightarrow> double_equal D d e | _ \<Rightarrow> False)"
| "Equals D (StringValue s) other = (case other of StringValue t \<Rightarrow> s = t | _ \<Rightarrow> False)"
| "Equals D (BinaryValue b) other = (case other of BinaryValue c \<Rightarrow> length c = length b \<and> b = c | _ \<Rightarrow> False)"
| "Equals D (DictionaryValue d) other = (case other of DictionaryValue e \<Rightarrow> dict_Equals D d e | _ \<Rightarrow> False)"
| "Equals D (ListValue l) other = (case other of ListValue m \<Rightarrow> list_Equals D l m | _ \<Rightarrow> False)"
| "list_Equals D (v # l) (w # m) = (Equals D v w \<and> list_Equals D l m)"
| "list_Equals D l m = (l = [] \<and> m = [])"
| "dict_Equals D ((j, v) # d) ((k, w) # e) = (j = k \<and> Equals D v w \<and> dict_Equals D d e)"
| "dict_Equals D d e = (d = [] \<and> e = [])"

text \<open>Comparison of pointers that may be null.\<close>

definition Equals_pointers :: "('d, 'e) doubles_scheme \<Rightarrow> 'd Value option \<Rightarrow> 'd Value option \<Rightarrow> bool" where
  "Equals_pointers D a b = (case (a, b) of
     (None, None) \<Rightarrow> True
   | (Some v, Some w) \<Rightarrow> Equals D v w
   | _ \<Rightarrow> False)"

subsection \<open>Lists\<close>

definition ListValue_Set :: "nat \<Rightarrow> 'd Value option \<Rightarrow> 'd Value list \<Rightarrow> bool \<times> 'd Value list" where
  "ListValue_Set index in_value l = (case in_value of
     None \<Rightarrow> (False, l)
   | Some v \<Rightarrow>
       if index \<ge> length l then (True, l @ replicate (index - length l) NullValue @ [v])
       else (True, l[index := v]))"

definition ListValue_Clear :: "'d Value list \<Rightarrow> 'd Value list" where "ListValue_Clear l = []"
definition ListValue_Swap :: "'d Value list \<times> 'd Value list \<Rightarrow> 'd Value list \<times> 'd Value list" where
  "ListValue_Swap p = (snd p, fst p)"

definition ListValue_Get :: "nat \<Rightarrow> 'd Value list \<Rightarrow> 'd Value option" where
  "ListValue_Get index l = (if index \<ge> length l then None else Some (l ! index))"

definition ListValue_GetBoolean :: "nat \<Rightarrow> 'd Value list \<Rightarrow> bool option" where
  "ListValue_GetBoolean index l = Option.bind (ListValue_Get index l) GetAsBoolean"
definition ListValue_GetInteger :: "nat \<Rightarrow> 'd Value list \<Rightarrow> 32 word option" where
  "ListValue_GetInteger index l = Option.bind (ListValue_Get index l) GetAsInteger"
definition ListValue_GetDouble :: "('d, 'e) doubles_scheme \<Rightarrow> nat \<Rightarrow> 'd Value list \<Rightarrow> 'd option" where
  "ListValue_GetDouble D index l = Option.bind (ListValue_Get index l) (GetAsDouble D)"
definition ListValue_GetString :: "nat \<Rightarrow> 'd Value list \<Rightarrow> string option" where
  "ListValue_GetString index l = Option.bind (ListValue_Get index l) GetAsString"
definition ListValue_GetBinary :: "nat \<Rightarrow> 'd Value list \<Rightarrow> 8 word list option" where
  "ListValue_GetBinary index l = Option.bind (ListValue_Get index l) GetAsBinary"
definition ListValue_GetDictionary :: "nat \<Rightarrow> 'd Value list \<Rightarrow> 'd ValueMap option" where
  "ListValue_GetDictionary index l = Option.bind (ListValue_Get index l) GetAsDictionary"
definition ListValue_GetList :: "nat \<Rightarrow> 'd Value list \<Rightarrow> 'd Value list option" where
  "ListValue_GetList index l = Option.bind (ListValue_Get index l) GetAsList"

definition erase_at :: "nat \<Rightarrow> 'a list \<Rightarrow> 'a list" where
  "erase_at i l = take i l @ drop (Suc i) l"

definition ListValue_Remove :: "nat \<Rightarrow> 'd Value list \<Rightarrow> ('d Value \<times> 'd Value list) option" where
  "ListValue_Remove index l = (if index \<ge> length l then None else Some (l ! index, erase_at index l))"

text \<open>The position of the first value that is equal to the given one; \<open>find_if\<close> compares the other way round.\<close>

fun first_equal :: "('a \<Rightarrow> bool) \<Rightarrow> nat \<Rightarrow> 'a list \<Rightarrow> nat option" where
  "first_equal P i [] = None"
| "first_equal P i (v # l) = (if P v then Some i else first_equal P (Suc i) l)"

definition ListValue_RemoveValue :: "('d, 'e) doubles_scheme \<Rightarrow> 'd Value \<Rightarrow> 'd Value list \<Rightarrow> (nat \<times> 'd Value list) option" where
  "ListValue_RemoveValue D v l = map_option (\<lambda>i. (i, erase_at i l)) (first_equal (\<lambda>w. Equals D w v) 0 l)"

definition ListValue_Find :: "('d, 'e) doubles_scheme \<Rightarrow> 'd Value \<Rightarrow> 'd Value list \<Rightarrow> nat option" where
  "ListValue_Find D v l = first_equal (\<lambda>w. Equals D v w) 0 l"

definition ListValue_Append :: "'d Value \<Rightarrow> 'd Value list \<Rightarrow> 'd Value list" where
  "ListValue_Append v l = l @ [v]"

definition ListValue_AppendIfNotPresent :: "('d, 'e) doubles_scheme \<Rightarrow> 'd Value \<Rightarrow> 'd Value list \<Rightarrow> bool \<times> 'd Value list" where
  "ListValue_AppendIfNotPresent D v l = (case first_equal (\<lambda>w. Equals D w v) 0 l of
     Some i \<Rightarrow> (False, l)
   | None \<Rightarrow> (True, l @ [v]))"

definition ListValue_Insert :: "nat \<Rightarrow> 'd Value \<Rightarrow> 'd Value list \<Rightarrow> bool \<times> 'd Value list" where
  "ListValue_Insert index v l = (if index > length l then (False, l) else (True, take index l @ v # drop index l))"


subsection \<open>The map in order\<close>

lemma map_of_set: "map_of (SetWithoutPathExpansion k v d) = (map_of d)(k \<mapsto> v)"
  by (induction d) (auto simp: fun_eq_iff)

lemma keys_set: "fst ` set (SetWithoutPathExpansion k v d) = insert k (fst ` set d)"
  using arg_cong [OF map_of_set [of k v d], of dom] by (simp add: dom_map_of_conv_image_fst insert_commute)

lemma values_set: "e \<in> set (SetWithoutPathExpansion k v d) \<Longrightarrow> snd e = v \<or> e \<in> set d"
  by (induction d) (auto split: if_splits)

lemma ordered_Nil [simp]: "ordered []"
  by (simp add: ordered_def)

lemma ordered_Cons: "ordered (e # d) \<longleftrightarrow> (\<forall>k\<in>fst ` set d. fst e < k) \<and> ordered d"
  by (auto simp: ordered_def)

lemma ordered_set: "ordered d \<Longrightarrow> ordered (SetWithoutPathExpansion k v d)"
proof (induction d)
  case (Cons e d)
  then show ?case
    by (cases e; cases k "fst e" rule: linorder_cases) (auto simp: ordered_Cons keys_set dest: order.strict_trans)
qed (simp add: ordered_Cons)

lemma ordered_distinct: "ordered d \<Longrightarrow> distinct (map fst d)"
  by (induction d) (auto simp: ordered_Cons)

lemma ordered_filter: "ordered d \<Longrightarrow> ordered (filter P d)"
  by (induction d) (auto simp: ordered_Cons)

text \<open>A map in order is determined by its entries.\<close>

lemma ordered_unique: "ordered d \<Longrightarrow> ordered e \<Longrightarrow> map_of d = map_of e \<Longrightarrow> d = e"
proof (induction d arbitrary: e)
  case Nil
  then show ?case by (cases e) (auto simp: fun_eq_iff split: if_splits)
next
  case (Cons a d)
  have "map_of e (fst a) = Some (snd a)" using Cons.prems(3) by (metis map_of_Cons_code(2) prod.collapse)
  then obtain b e' where e: "e = b # e'" by (cases e) auto
  have k: "fst a = fst b"
  proof (rule ccontr)
    assume n: "fst a \<noteq> fst b"
    have "fst ` set (a # d) = fst ` set e" using Cons.prems(3) by (metis dom_map_of_conv_image_fst)
    then have "fst a \<in> fst ` set e'" "fst b \<in> fst ` set d" using n unfolding e by (auto dest: equalityD2)
    then have "fst a < fst b" "fst b < fst a" using Cons.prems(1,2) unfolding e ordered_Cons by blast+
    then show False by (rule less_asym)
  qed
  have o: "fst a \<notin> fst ` set d" "fst b \<notin> fst ` set e'" using Cons.prems(1,2) by (auto simp: e ordered_Cons)
  have "map_of d x = map_of e' x" for x
  proof (cases "x = fst a")
    case True
    then have "map_of d x = None" "map_of e' x = None" using o k by (auto simp: map_of_eq_None_iff)
    then show ?thesis by simp
  next
    case False
    then show ?thesis using fun_cong [OF Cons.prems(3), of x] k by (cases a; cases b) (auto simp: e)
  qed
  moreover have "snd a = snd b" using fun_cong [OF Cons.prems(3), of "fst a"] k by (cases a; cases b) (auto simp: e)
  ultimately show ?case using Cons.IH [of e'] Cons.prems k by (auto simp: e ordered_Cons prod_eq_iff)
qed

lemma set_last: "(\<forall>x\<in>fst ` set d. x < k) \<Longrightarrow> SetWithoutPathExpansion k v d = d @ [(k, v)]"
  by (induction d) (auto simp: not_less_iff_gr_or_eq)

subsection \<open>Well-formed values\<close>

text \<open>The keys of every dictionary are in order and every double is finite.\<close>

fun wf_Value :: "('d, 'e) doubles_scheme \<Rightarrow> 'd Value \<Rightarrow> bool"
  and wf_list :: "('d, 'e) doubles_scheme \<Rightarrow> 'd Value list \<Rightarrow> bool"
  and wf_dict :: "('d, 'e) doubles_scheme \<Rightarrow> 'd ValueMap \<Rightarrow> bool" where
  "wf_Value D (DoubleValue d) \<longleftrightarrow> IsFinite D d"
| "wf_Value D (DictionaryValue d) \<longleftrightarrow> ordered d \<and> wf_dict D d"
| "wf_Value D (ListValue l) \<longleftrightarrow> wf_list D l"
| "wf_Value D _ \<longleftrightarrow> True"
| "wf_list D [] \<longleftrightarrow> True"
| "wf_list D (v # l) \<longleftrightarrow> wf_Value D v \<and> wf_list D l"
| "wf_dict D [] \<longleftrightarrow> True"
| "wf_dict D (e # d) \<longleftrightarrow> wf_Value D (snd e) \<and> wf_dict D d"

lemma wf_list_iff: "wf_list D l \<longleftrightarrow> (\<forall>v\<in>set l. wf_Value D v)"
  by (induction l) auto

lemma wf_list_append [simp]: "wf_list D (l @ m) \<longleftrightarrow> wf_list D l \<and> wf_list D m"
  by (induction l) auto

lemma wf_dict_iff: "wf_dict D d \<longleftrightarrow> (\<forall>v\<in>snd ` set d. wf_Value D v)"
  by (induction d) auto

definition wf_map :: "('d, 'e) doubles_scheme \<Rightarrow> 'd ValueMap \<Rightarrow> bool" where
  "wf_map D d \<longleftrightarrow> ordered d \<and> wf_dict D d"

lemma wf_map_Value [simp]: "wf_Value D (DictionaryValue d) \<longleftrightarrow> wf_map D d"
  by (simp add: wf_map_def)

declare wf_Value.simps(2) [simp del]

lemma wf_map_Nil [simp]: "wf_map D []"
  by (simp add: wf_map_def)

lemma wf_map_lookup: "wf_map D d \<Longrightarrow> map_of d k = Some v \<Longrightarrow> wf_Value D v"
  by (auto simp: wf_map_def wf_dict_iff dest!: map_of_SomeD intro: rev_image_eqI)

lemma wf_map_set: "wf_map D d \<Longrightarrow> wf_Value D v \<Longrightarrow> wf_map D (SetWithoutPathExpansion k v d)"
  by (auto simp: wf_map_def ordered_set wf_dict_iff dest!: values_set)

lemma wf_map_filter: "wf_map D d \<Longrightarrow> wf_map D (filter P d)"
  by (auto simp: wf_map_def ordered_filter wf_dict_iff)

lemma wf_create [simp]: "IsFinite D (double_zero D) \<Longrightarrow> wf_Value D (CreateDoubleValue D d)"
  by (simp add: CreateDoubleValue_def)


subsection \<open>Paths are lists of keys\<close>

definition keys_of :: "string \<Rightarrow> string list" where
  "keys_of path = pieces ((=) CHR ''.'') path"

lemma keys_of_ne [simp]: "keys_of path \<noteq> []"
  by (simp add: keys_of_def)

lemma find_split: "str_find c s = Some i \<Longrightarrow> s = take i s @ c # drop (Suc i) s \<and> c \<notin> set (take i s)"
  by (induction s arbitrary: i) (auto simp: str_find_Cons str_find_def [of c "[]"] split: if_splits)

lemma find_none: "str_find c s = None \<longleftrightarrow> c \<notin> set s"
  by (simp add: str_find_def)

lemma keys_of_find:
  "keys_of path = (case str_find CHR ''.'' path of None \<Rightarrow> [path] | Some i \<Rightarrow> take i path # keys_of (drop (Suc i) path))"
proof (cases "str_find CHR ''.'' path")
  case None
  then have "pieces ((=) CHR ''.'') path = [path]" by (intro fields_none) (auto simp: find_none)
  then show ?thesis using None by (simp add: keys_of_def)
next
  case (Some i)
  have "pieces ((=) CHR ''.'') (take i path @ CHR ''.'' # drop (Suc i) path) =
      take i path # pieces ((=) CHR ''.'') (drop (Suc i) path)"
    using find_split [OF Some] by (intro fields_cut) auto
  then show ?thesis using find_split [OF Some] Some by (simp add: keys_of_def)
qed

lemma keys_of_key: "CHR ''.'' \<notin> set key \<Longrightarrow> keys_of key = [key]"
  by (simp add: keys_of_find find_none [THEN iffD2])

text \<open>The value at the end of a list of keys, and the dictionary with a value put there.\<close>

fun walk :: "string list \<Rightarrow> 'd ValueMap \<Rightarrow> 'd Value option" where
  "walk [] d = Some (DictionaryValue d)"
| "walk (k # ks) d = (case map_of d k of
     None \<Rightarrow> None
   | Some v \<Rightarrow> if ks = [] then Some v else Option.bind (GetAsDictionary v) (walk ks))"

definition child :: "string \<Rightarrow> 'd ValueMap \<Rightarrow> 'd ValueMap" where
  "child k d = (case Option.bind (map_of d k) GetAsDictionary of None \<Rightarrow> [] | Some c \<Rightarrow> c)"

fun plant :: "string list \<Rightarrow> 'd Value \<Rightarrow> 'd ValueMap \<Rightarrow> 'd ValueMap" where
  "plant [] v d = d"
| "plant (k # ks) v d =
    SetWithoutPathExpansion k (if ks = [] then v else DictionaryValue (plant ks v (child k d))) d"

lemma IsType_dictionary: "(if IsType v TYPE_DICTIONARY then GetAsDictionary v else None) = GetAsDictionary v"
  by (cases v) (simp_all add: IsType_def)

lemma GetDictionary_bind: "GetDictionary d path = Option.bind (Get d path) GetAsDictionary"
  unfolding GetDictionary.simps [of d path] IsType_dictionary by (cases "Get d path") simp_all

lemma Get_key: "CHR ''.'' \<notin> set key \<Longrightarrow> Get d key = map_of d key"
  by (subst Get.simps) (simp add: find_none [THEN iffD2] GetWithoutPathExpansion_def)

lemma Get_walk: "Get (d :: 'd ValueMap) path = walk (keys_of path) d"
proof (induction "length path" arbitrary: d path rule: less_induct)
  case less
  show ?case
  proof (cases "str_find CHR ''.'' path")
    case None
    then have "keys_of path = [path]" by (subst keys_of_find) simp
    then show ?thesis using None Get_key [of path d] by (simp add: find_none split: option.split)
  next
    case (Some i)
    have k: "GetDictionary d (take i path) = Option.bind (map_of d (take i path)) GetAsDictionary"
      using find_split [OF Some] by (simp add: GetDictionary_bind Get_key)
    have "length (drop (Suc i) path) < length path" using str_find_less [OF Some] by simp
    from less [OF this] have "Get c (drop (i + 1) path) = walk (keys_of (drop (Suc i) path)) c" for c :: "'d ValueMap" by simp
    moreover have "keys_of path = take i path # keys_of (drop (Suc i) path)" using Some by (subst keys_of_find) simp
    ultimately show ?thesis
      by (subst Get.simps) (simp add: Some k split: option.split bind_split)
  qed
qed

lemma Set_plant: "DictionaryValue_Set path v d = plant (keys_of path) v d"
proof (induction "length path" arbitrary: d path rule: less_induct)
  case less
  show ?case
  proof (cases "str_find CHR ''.'' path")
    case None
    then have "keys_of path = [path]" by (subst keys_of_find) simp
    then show ?thesis using None by (subst DictionaryValue_Set.simps) simp
  next
    case (Some i)
    have k: "GetDictionary d (take i path) = Option.bind (map_of d (take i path)) GetAsDictionary"
      using find_split [OF Some] by (simp add: GetDictionary_bind Get_key)
    have "length (drop (Suc i) path) < length path" using str_find_less [OF Some] by simp
    from less [OF this] have "DictionaryValue_Set (drop (i + 1) path) v c = plant (keys_of (drop (Suc i) path)) v c" for c
      by simp
    moreover have "keys_of path = take i path # keys_of (drop (Suc i) path)" using Some by (subst keys_of_find) simp
    ultimately show ?thesis
      by (subst DictionaryValue_Set.simps) (simp add: Some k child_def Let_def)
  qed
qed

lemma walk_plant: "ks \<noteq> [] \<Longrightarrow> walk ks (plant ks v d) = Some v"
  by (induction ks arbitrary: d) (auto simp: map_of_set)

lemma walk_empty: "ks \<noteq> [] \<Longrightarrow> walk ks [] = None"
  by (cases ks) auto

lemma walk_child: "ks \<noteq> [] \<Longrightarrow> walk (k # ks) d = walk ks (child k d)"
  by (auto simp: child_def walk_empty split: option.split bind_split)

lemma walk_plant_other: "\<not> prefix ks js \<Longrightarrow> \<not> prefix js ks \<Longrightarrow> walk js (plant ks v d) = walk js d"
proof (induction ks arbitrary: js d)
  case (Cons k ks)
  show ?case
  proof (cases js)
    case (Cons j js')
    show ?thesis
    proof (cases "j = k")
      case True
      then have "js' \<noteq> []" "ks \<noteq> []" "walk js' (plant ks v (child k d)) = walk js' (child k d)"
        using Cons Cons.IH [of js' "child k d"] Cons.prems by auto
      then show ?thesis using True walk_child [of js' k d] by (simp add: Cons map_of_set)
    qed (simp add: Cons map_of_set)
  qed (use Cons.prems in simp)
qed simp

text \<open>The position of the last dot.\<close>

lemma rfind_split: "str_rfind c s = Some i \<Longrightarrow> s = take i s @ c # drop (Suc i) s \<and> c \<notin> set (drop (Suc i) s)"
proof -
  assume "str_rfind c s = Some i"
  then obtain j where j: "str_find c (rev s) = Some j" "i = length s - Suc j" by (auto simp: str_rfind_def)
  have l: "j < length s" using str_find_less [OF j(1)] by simp
  have "rev s = rev (drop (length s - j) s) @ c # rev (take i s)" "c \<notin> set (drop (length s - j) s)"
    using find_split [OF j(1)] j(2) by (auto simp: take_rev drop_rev)
  moreover have "Suc i = length s - j" using j(2) l by simp
  ultimately have "s = rev (rev (drop (Suc i) s) @ c # rev (take i s))" "c \<notin> set (drop (Suc i) s)" by (metis rev_rev_ident)+
  then show ?thesis by simp
qed

lemma rfind_none: "str_rfind c s = None \<longleftrightarrow> c \<notin> set s"
  by (simp add: str_rfind_def find_none)

lemma pieces_last: "c \<notin> set q \<Longrightarrow> pieces ((=) c) (p @ c # q) = pieces ((=) c) p @ [q]"
proof (induction p)
  case Nil
  then show ?case using fields_cut [of "[]" "(=) c" c q] fields_none [of q "(=) c"] by auto
next
  case (Cons x p)
  then show ?case using fields_ne [of "(=) c" p] by (cases "pieces ((=) c) p") auto
qed

lemma keys_of_rfind: "str_rfind CHR ''.'' path = Some i \<Longrightarrow> keys_of path = keys_of (take i path) @ [drop (Suc i) path]"
  using rfind_split [of "CHR ''.''" path i] pieces_last [of "CHR ''.''" "drop (Suc i) path" "take i path"] by (simp add: keys_of_def)


lemma walk_append:
  "ks \<noteq> [] \<Longrightarrow> js \<noteq> [] \<Longrightarrow> walk (ks @ js) d = Option.bind (Option.bind (walk ks d) GetAsDictionary) (walk js)"
  by (induction ks arbitrary: d) (auto split: option.split bind_split)

lemma Remove_walk: "DictionaryValue_Remove path d = (case walk (keys_of path) d of
    None \<Rightarrow> None
  | Some v \<Rightarrow> Some (v, case str_rfind CHR ''.'' path of
       None \<Rightarrow> filter (\<lambda>e. fst e \<noteq> path) d
     | Some i \<Rightarrow> plant (keys_of (take i path)) (DictionaryValue (filter (\<lambda>e. fst e \<noteq> drop (Suc i) path)
         (the (Option.bind (walk (keys_of (take i path)) d) GetAsDictionary)))) d))"
proof (cases "str_rfind CHR ''.'' path")
  case None
  then have "keys_of path = [path]" by (simp add: rfind_none keys_of_key)
  then show ?thesis
    using None by (simp add: DictionaryValue_Remove_def RemoveWithoutPathExpansion_def split: option.split)
next
  case (Some i)
  then show ?thesis
    by (auto simp: DictionaryValue_Remove_def RemoveWithoutPathExpansion_def keys_of_rfind walk_append GetDictionary_bind
        Get_walk put_dictionary_def Set_plant split: option.split bind_split)
qed

lemma map_of_without: "map_of (filter (\<lambda>e. fst e \<noteq> k) d) = (map_of d)(k := None)"
  by (induction d) (auto simp: fun_eq_iff)

definition apart :: "string \<Rightarrow> string \<Rightarrow> bool" where
  "apart p q \<longleftrightarrow> \<not> prefix (keys_of p) (keys_of q) \<and> \<not> prefix (keys_of q) (keys_of p)"

text \<open>What is left without the value, at its path and at another one.\<close>

lemma walk_removed:
  assumes "walk (ks @ [k]) d = Some w" "ks \<noteq> []"
    and "e = plant ks (DictionaryValue (filter (\<lambda>e. fst e \<noteq> k) (the (Option.bind (walk ks d) GetAsDictionary)))) d"
  shows "walk (ks @ [k]) e = None"
    and "\<not> prefix (ks @ [k]) js \<Longrightarrow> \<not> prefix js (ks @ [k]) \<Longrightarrow> walk js e = walk js d"
proof -
  obtain sub where sub: "Option.bind (walk ks d) GetAsDictionary = Some sub" "map_of sub k = Some w"
    using assms(1,2) by (auto simp: walk_append bind_eq_Some_conv split: option.splits)
  have e: "e = plant ks (DictionaryValue (filter (\<lambda>e. fst e \<noteq> k) sub)) d" using assms(3) sub(1) by simp
  show "walk (ks @ [k]) e = None"
    using assms(2) unfolding e by (simp add: walk_append walk_plant map_of_without)
  assume a: "\<not> prefix (ks @ [k]) js" "\<not> prefix js (ks @ [k])"
  show "walk js e = walk js d"
  proof (cases "prefix ks js")
    case True
    then obtain r where r: "js = ks @ r" by (auto simp: prefix_def)
    then obtain j js' where j: "r = j # js'" "j \<noteq> k" using a by (cases r) (auto simp: prefix_def)
    have "walk r (filter (\<lambda>e. fst e \<noteq> k) sub) = walk r sub" using j by (simp add: map_of_without)
    then show ?thesis using assms(2) j(1) sub(1) unfolding e r by (simp add: walk_append walk_plant)
  next
    case False
    moreover have "\<not> prefix js ks" using a(2) by (auto simp: prefix_def)
    ultimately show ?thesis unfolding e by (rule walk_plant_other)
  qed
qed

lemma removed_path: "walk (keys_of path) d = Some w \<Longrightarrow> DictionaryValue_Remove path d = Some (w, e) \<Longrightarrow>
  walk (keys_of path) e = None \<and> (\<not> prefix (keys_of path) js \<longrightarrow> \<not> prefix js (keys_of path) \<longrightarrow> walk js e = walk js d)"
proof (cases "str_rfind CHR ''.'' path")
  case None
  assume w: "walk (keys_of path) d = Some w" "DictionaryValue_Remove path d = Some (w, e)"
  have k: "keys_of path = [path]" using None by (simp add: rfind_none keys_of_key)
  have e: "e = filter (\<lambda>e. fst e \<noteq> path) d" using w None by (simp add: Remove_walk)
  have "walk js e = walk js d" if "\<not> prefix [path] js" "\<not> prefix js [path]"
    using that unfolding e by (cases js) (simp_all add: map_of_without)
  then show ?thesis by (simp add: k e map_of_without)
next
  case (Some i)
  assume w: "walk (keys_of path) d = Some w" "DictionaryValue_Remove path d = Some (w, e)"
  show ?thesis
    using walk_removed(1) [where ks = "keys_of (take i path)" and k = "drop (Suc i) path" and d = d and w = w and e = e]
      walk_removed(2) [where ks = "keys_of (take i path)" and k = "drop (Suc i) path" and js = js and d = d and w = w and e = e]
      w Some
    by (simp add: Remove_walk keys_of_rfind)
qed

text \<open>C35: What paths promise: after \<open>Set\<close> the path leads to the value, whatever stood at its keys, and no path that is neither
  an extension nor a beginning of it leads anywhere else. \<open>Remove\<close> finds what \<open>Get\<close> finds; after it the path leads nowhere and
  the other paths lead where they did.\<close>

theorem value_paths:
  assumes "apart p q"
  shows "Get (DictionaryValue_Set p v d) p = Some v \<and>
    Get (DictionaryValue_Set p v d) q = Get d q \<and>
    (case DictionaryValue_Remove p d of
       None \<Rightarrow> Get d p = None
     | Some (w, e) \<Rightarrow> Get d p = Some w \<and> Get e p = None \<and> Get e q = Get d q)"
proof -
  have "case DictionaryValue_Remove p d of
       None \<Rightarrow> Get d p = None
     | Some (w, e) \<Rightarrow> Get d p = Some w \<and> Get e p = None \<and> Get e q = Get d q"
  proof (cases "walk (keys_of p) d")
    case None
    then show ?thesis by (simp add: Remove_walk Get_walk)
  next
    case (Some w)
    then obtain e where e: "DictionaryValue_Remove p d = Some (w, e)" by (simp add: Remove_walk)
    then show ?thesis using removed_path [OF Some e, of "keys_of q"] assms Some by (simp add: Get_walk apart_def)
  qed
  then show ?thesis using assms by (simp add: Get_walk Set_plant walk_plant walk_plant_other apart_def)
qed

theorem value_paths_witness:
  "Get (DictionaryValue_Set ''a.b.c'' (IntegerValue 1) [(''a'', BooleanValue True :: nat Value)]) ''a.b.c'' = Some (IntegerValue 1) \<and>
   Get (DictionaryValue_Set ''a.b.c'' (IntegerValue 1) [(''x'', BooleanValue True :: nat Value)]) ''x'' = Some (BooleanValue True)"
proof -
  have a: "apart ''a.b.c'' ''x''" by (simp add: apart_def keys_of_def)
  show ?thesis
    using value_paths [OF a, of "IntegerValue 1" "[(''a'', BooleanValue True :: nat Value)]"]
      value_paths [OF a, of "IntegerValue 1" "[(''x'', BooleanValue True :: nat Value)]"]
      Get_key [of "''x''" "[(''x'', BooleanValue True :: nat Value)]"]
    by simp
qed


subsection \<open>Copies and comparison are those of the tree\<close>

lemma ordered_append: "ordered (d @ e) \<longleftrightarrow> ordered d \<and> ordered e \<and> (\<forall>k\<in>fst ` set d. \<forall>l\<in>fst ` set e. k < l)"
  by (auto simp: ordered_def sorted_wrt_append)

lemma DeepCopy_same:
  shows "wf_Value D v \<Longrightarrow> DeepCopy D v = v"
    and "wf_list D l \<Longrightarrow> list_DeepCopy D l r = r @ l"
    and "wf_dict D d \<Longrightarrow> ordered (m @ d) \<Longrightarrow> dict_DeepCopy D d m = m @ d"
proof (induction D v and D l r and D d m rule: DeepCopy_list_DeepCopy_dict_DeepCopy.induct)
  case (12 D k v d m)
  have "SetWithoutPathExpansion k v m = m @ [(k, v)]" using 12(4) by (intro set_last) (auto simp: ordered_append)
  then show ?case using 12 by simp
qed (simp_all add: CreateDoubleValue_def wf_map_def)

lemma Equals_same:
  assumes "double_equal D = (=)"
  shows "Equals D v w \<longleftrightarrow> v = w" and "list_Equals D l m \<longleftrightarrow> l = m" and "dict_Equals D d e \<longleftrightarrow> d = e"
  using assms
  by (induction D v w and D l m and D d e rule: Equals_list_Equals_dict_Equals.induct)
    (auto simp: IsType_def split: Value.splits elim: GetType.elims [OF sym])

text \<open>Values without empty lists and dictionaries.\<close>

fun full :: "'d Value \<Rightarrow> bool"
  and list_full :: "'d Value list \<Rightarrow> bool"
  and dict_full :: "'d ValueMap \<Rightarrow> bool" where
  "full (DictionaryValue d) \<longleftrightarrow> d \<noteq> [] \<and> dict_full d"
| "full (ListValue l) \<longleftrightarrow> l \<noteq> [] \<and> list_full l"
| "full _ \<longleftrightarrow> True"
| "list_full [] \<longleftrightarrow> True"
| "list_full (v # l) \<longleftrightarrow> full v \<and> list_full l"
| "dict_full [] \<longleftrightarrow> True"
| "dict_full (e # d) \<longleftrightarrow> full (snd e) \<and> dict_full d"

lemma list_full_iff: "list_full l \<longleftrightarrow> (\<forall>v\<in>set l. full v)"
  by (induction l) auto

lemma list_full_append [simp]: "list_full (l @ m) \<longleftrightarrow> list_full l \<and> list_full m"
  by (induction l) auto

lemma dict_full_iff: "dict_full d \<longleftrightarrow> (\<forall>e\<in>set d. full (snd e))"
  by (induction d) auto

lemma set_not_empty [simp]: "SetWithoutPathExpansion k v d \<noteq> []"
  by (cases d) (auto split: if_splits)

lemma dict_full_set: "dict_full d \<Longrightarrow> full v \<Longrightarrow> dict_full (SetWithoutPathExpansion k v d)"
  by (auto simp: dict_full_iff dest!: values_set)

lemmas Value_induct = full_list_full_dict_full.induct

lemma copy_full:
  shows "wf_Value D v \<Longrightarrow> pred_option full (CopyWithoutEmptyChildren D v)"
    and "wf_list D l \<Longrightarrow> list_full r \<Longrightarrow> list_full (list_CopyWithoutEmpty D l r)"
    and "wf_dict D d \<Longrightarrow> dict_full m \<Longrightarrow> dict_full (dict_CopyWithoutEmpty D d m)"
proof (induction v and l and d arbitrary: and r and m rule: Value_induct)
  case (7 e d)
  then show ?case by (cases e) (auto simp: dict_full_set split: option.split)
qed (auto simp: Let_def CreateDoubleValue_def wf_map_def split: option.split)

lemma copy_same:
  shows "wf_Value D v \<Longrightarrow> full v \<Longrightarrow> CopyWithoutEmptyChildren D v = Some v"
    and "wf_list D l \<Longrightarrow> list_full l \<Longrightarrow> list_CopyWithoutEmpty D l r = r @ l"
    and "wf_dict D d \<Longrightarrow> ordered (m @ d) \<Longrightarrow> dict_full d \<Longrightarrow> dict_CopyWithoutEmpty D d m = m @ d"
proof (induction v and l and d arbitrary: and r and m rule: Value_induct)
  case (7 e d)
  obtain k v where e: "e = (k, v)" by (cases e)
  have "SetWithoutPathExpansion k v m = m @ [(k, v)]" using 7(4) by (intro set_last) (auto simp: ordered_append e)
  then show ?case using 7 by (simp add: e)
qed (simp_all add: Let_def CreateDoubleValue_def wf_map_def)

lemma copy_wf:
  assumes "IsFinite D (double_zero D)"
  shows "wf_Value D v \<Longrightarrow> pred_option (wf_Value D) (CopyWithoutEmptyChildren D v)"
    and "wf_list D l \<Longrightarrow> wf_list D r \<Longrightarrow> wf_list D (list_CopyWithoutEmpty D l r)"
    and "wf_dict D d \<Longrightarrow> wf_map D m \<Longrightarrow> wf_map D (dict_CopyWithoutEmpty D d m)"
proof (induction v and l and d arbitrary: and r and m rule: Value_induct)
  case (7 e d)
  then show ?case by (cases e) (auto simp: wf_map_set split: option.split)
qed (use assms in \<open>auto simp: Let_def CreateDoubleValue_def wf_map_def split: option.split\<close>)


subsection \<open>Merging\<close>

text \<open>What is under a key after merging.\<close>

lemma merge_step:
  "MergeDictionary D self ((key, v) # d) = MergeDictionary D (SetWithoutPathExpansion key
    (case (v, Option.bind (map_of self key) GetAsDictionary) of
       (DictionaryValue m, Some sub) \<Rightarrow> DictionaryValue (MergeDictionary D sub m)
     | _ \<Rightarrow> DeepCopy D v) self) d"
  by (cases v) (simp_all add: GetDictionaryWithoutPathExpansion_def GetWithoutPathExpansion_def split: option.split)

lemma merge_lookup:
  assumes "wf_dict D e" "distinct (map fst e)"
  shows "map_of (MergeDictionary D d e) k = (case map_of e k of
      None \<Rightarrow> map_of d k
    | Some v \<Rightarrow> Some (case (v, Option.bind (map_of d k) GetAsDictionary) of
        (DictionaryValue m, Some sub) \<Rightarrow> DictionaryValue (MergeDictionary D sub m)
      | _ \<Rightarrow> v))"
  using assms
proof (induction e arbitrary: d)
  case (Cons a e)
  obtain key v where a: "a = (key, v)" by (cases a)
  then have v: "DeepCopy D v = v" "wf_dict D e" "distinct (map fst e)" "map_of e key = None"
    using Cons.prems DeepCopy_same(1) by (auto simp: map_of_eq_None_iff)
  show ?case
    unfolding a merge_step Cons.IH [OF v(2,3)] v(1) map_of_set by (cases "k = key"; cases "map_of e k") (simp_all add: v(4))
qed simp

lemma wf_merge:
  shows "wf_Value D v \<Longrightarrow> (\<And>m. v = DictionaryValue m \<Longrightarrow> wf_map D d \<Longrightarrow> wf_map D (MergeDictionary D d m))"
    and "wf_list D l \<Longrightarrow> True"
    and "wf_dict D e \<Longrightarrow> wf_map D d \<Longrightarrow> wf_map D (MergeDictionary D d e)"
proof (induction v and l and e arbitrary: d and and d rule: Value_induct)
  case (7 a e)
  obtain key v where a: "a = (key, v)" by (cases a)
  have v: "wf_Value D v" "wf_dict D e" using 7(3) by (simp_all add: a)
  have "wf_Value D (case (v, Option.bind (map_of d key) GetAsDictionary) of
       (DictionaryValue m, Some sub) \<Rightarrow> DictionaryValue (MergeDictionary D sub m)
     | _ \<Rightarrow> DeepCopy D v)"
  proof (cases "\<exists>m sub. v = DictionaryValue m \<and> map_of d key = Some (DictionaryValue sub)")
    case True
    then obtain m sub where m: "v = DictionaryValue m" "map_of d key = Some (DictionaryValue sub)" by blast
    then have "wf_map D sub" using wf_map_lookup [OF 7(4) m(2)] by simp
    then show ?thesis using 7(1) [of m sub] v m by (simp add: a)
  next
    case False
    then show ?thesis using v(1) DeepCopy_same(1) [OF v(1)]
      by (auto split: Value.splits option.splits bind_splits elim!: GetAsDictionary.elims)
  qed
  then show ?case unfolding a merge_step by (intro 7(2) v(2) wf_map_set 7(4))
qed (auto simp: wf_map_def)


lemma wf_walk: "wf_map D d \<Longrightarrow> pred_option (wf_Value D) (walk ks d)"
proof (induction ks arbitrary: d)
  case (Cons k ks)
  show ?case
  proof (cases "map_of d k")
    case (Some v)
    then have v: "wf_Value D v" using Cons.prems by (rule wf_map_lookup [rotated])
    then show ?thesis using Some Cons.IH by (cases v) auto
  qed simp
qed simp

lemma GetAsDictionary_Some: "GetAsDictionary v = Some c \<longleftrightarrow> v = DictionaryValue c"
  by (cases v) auto

lemma wf_plant: "wf_map D d \<Longrightarrow> wf_Value D v \<Longrightarrow> wf_map D (plant ks v d)"
proof (induction ks arbitrary: d)
  case (Cons k ks)
  have "wf_map D (child k d)"
    using wf_map_lookup [OF Cons.prems(1), of k]
    by (auto simp: child_def GetAsDictionary_Some bind_eq_Some_conv split: option.split)
  then have "wf_map D (plant ks v (child k d))" by (rule Cons.IH [OF _ Cons.prems(2)])
  then show ?case using Cons.prems by (simp add: wf_map_set)
qed simp

text \<open>The type invariant of values: the keys of every dictionary, at every level, are in strictly increasing order and every
  double is finite. Setting and removing at any path, merging, copying without empty children and the operations on lists keep
  it, and what \<open>Get\<close> and \<open>Remove\<close> hand out satisfies it.\<close>

theorem values_well_formed:
  assumes "wf_map D d" "wf_map D e" "wf_Value D v" "wf_list D l" "IsFinite D (double_zero D)"
  shows "wf_map D (DictionaryValue_Set p v d) \<and>
    pred_option (wf_Value D) (Get d p) \<and>
    pred_option (\<lambda>(w, c). wf_Value D w \<and> wf_map D c) (DictionaryValue_Remove p d) \<and>
    wf_map D (SetDouble D p x d) \<and>
    wf_map D (MergeDictionary D d e) \<and>
    wf_map D (DeepCopyWithoutEmptyChildren D d) \<and>
    wf_list D (snd (ListValue_Set i (Some v) l)) \<and>
    wf_list D (snd (ListValue_Insert i v l)) \<and>
    wf_list D (snd (ListValue_AppendIfNotPresent D v l)) \<and>
    pred_option (\<lambda>(w, m). wf_Value D w \<and> wf_list D m) (ListValue_Remove i l)"
proof (intro conjI)
  show "wf_map D (DictionaryValue_Set p v d)" "wf_map D (SetDouble D p x d)"
    using assms by (simp_all add: Set_plant wf_plant SetDouble_def)
  show "pred_option (wf_Value D) (Get d p)" using wf_walk [OF assms(1)] by (simp add: Get_walk)
  show "pred_option (\<lambda>(w, c). wf_Value D w \<and> wf_map D c) (DictionaryValue_Remove p d)"
  proof (cases "walk (keys_of p) d")
    case (Some w)
    have "wf_map D sub" if "Option.bind (walk (keys_of (take i p)) d) GetAsDictionary = Some sub" for i sub
      using wf_walk [OF assms(1), of "keys_of (take i p)"] that by (auto split: bind_splits elim!: GetAsDictionary.elims)
    moreover have "Option.bind (walk (keys_of (take i p)) d) GetAsDictionary \<noteq> None" if "str_rfind CHR ''.'' p = Some i" for i
      using Some that by (auto simp: keys_of_rfind walk_append bind_eq_Some_conv)
    ultimately show ?thesis
      using wf_walk [OF assms(1), of "keys_of p"] Some assms(1)
      by (auto simp: Remove_walk intro!: wf_map_filter wf_plant split: option.splits)
  qed (simp add: Remove_walk)
  show "wf_map D (MergeDictionary D d e)" by (rule wf_merge(3) [OF _ assms(1)]) (use assms(2) in \<open>simp add: wf_map_def\<close>)
  show "wf_map D (DeepCopyWithoutEmptyChildren D d)"
    using copy_wf(1) [OF assms(5), of "DictionaryValue d"] assms(1)
    by (auto simp: DeepCopyWithoutEmptyChildren_def simp del: CopyWithoutEmptyChildren.simps split: option.split Value.split)
qed (use assms in \<open>auto simp: wf_list_iff ListValue_Set_def ListValue_Insert_def ListValue_AppendIfNotPresent_def ListValue_Remove_def
    erase_at_def dest: set_update_subset_insert [THEN subsetD] in_set_takeD in_set_dropD split: option.split\<close>)

definition nat_doubles :: "nat doubles" where
  "nat_doubles = \<lparr>IsFinite = (\<lambda>n. n < 1000), double_zero = 0, double_of_int = unat, double_equal = (=)\<rparr>"

theorem values_well_formed_witness:
  "wf_map nat_doubles (DictionaryValue_Set ''a.b'' (IntegerValue 7) [(''a'', NullValue), (''c'', DoubleValue 5)])"
proof -
  have "wf_map nat_doubles [(''a'', NullValue), (''c'', DoubleValue 5)]" "IsFinite nat_doubles (double_zero nat_doubles)"
    by (simp_all add: wf_map_def ordered_def nat_doubles_def)
  then show ?thesis
    using values_well_formed [of nat_doubles "[(''a'', NullValue), (''c'', DoubleValue 5)]" "[]" "IntegerValue 7" "[]" "''a.b''"]
    by simp
qed

text \<open>Merging and copying without empty children, by the paths.\<close>

definition way_clear :: "string list \<Rightarrow> 'd ValueMap \<Rightarrow> bool" where
  "way_clear ks e \<longleftrightarrow> (\<forall>js w. strict_prefix js ks \<longrightarrow> walk js e = Some w \<longrightarrow> GetType w = TYPE_DICTIONARY)"

lemma type_dictionary: "GetType v = TYPE_DICTIONARY \<longleftrightarrow> (\<exists>m. v = DictionaryValue m)"
  by (cases v) simp_all

lemma not_dictionary: "GetType v \<noteq> TYPE_DICTIONARY \<Longrightarrow> GetAsDictionary v = None"
  by (cases v) simp_all

lemma way_clear_Cons:
  "way_clear (k # ks) e \<longleftrightarrow> ks = [] \<or> (case map_of e k of None \<Rightarrow> True | Some (DictionaryValue m) \<Rightarrow> way_clear ks m | _ \<Rightarrow> False)"
proof -
  have "way_clear (k # ks) e \<longleftrightarrow> (\<forall>js w. strict_prefix js ks \<longrightarrow> walk (k # js) e = Some w \<longrightarrow> GetType w = TYPE_DICTIONARY)"
    unfolding way_clear_def by (auto simp: strict_prefix_def prefix_Cons)
  also have "\<dots> \<longleftrightarrow> ks = [] \<or> (case map_of e k of None \<Rightarrow> True | Some (DictionaryValue m) \<Rightarrow> way_clear ks m | _ \<Rightarrow> False)"
  proof (cases "map_of e k")
    case (Some v)
    show ?thesis
    proof (cases "GetType v = TYPE_DICTIONARY")
      case True
      then obtain m where m: "v = DictionaryValue m" by (auto simp: type_dictionary)
      then have "walk (k # js) e = walk js m" for js by (simp add: Some)
      then show ?thesis unfolding Some m option.case Value.case way_clear_def by (auto simp: strict_prefix_def)
    next
      case False
      have "walk [k] e = Some v" by (simp add: Some)
      then have "ks = [] \<longleftrightarrow> (\<forall>js w. strict_prefix js ks \<longrightarrow> walk (k # js) e = Some w \<longrightarrow> GetType w = TYPE_DICTIONARY)"
      proof (cases ks)
        case (Cons a list)
        then have "strict_prefix [] ks" by (simp add: strict_prefix_def)
        then show ?thesis using False \<open>walk [k] e = Some v\<close> Cons by blast
      qed simp
      then show ?thesis using False by (cases v) (simp_all add: Some)
    qed
  qed simp
  finally show ?thesis .
qed

lemma merge_walk:
  assumes "wf_map D e" "GetType v \<noteq> TYPE_DICTIONARY" "ks \<noteq> []"
  shows "walk ks (MergeDictionary D d e) = Some v \<longleftrightarrow>
    walk ks e = Some v \<or> walk ks d = Some v \<and> walk ks e = None \<and> way_clear ks e"
  using assms(1,3)
proof (induction ks arbitrary: d e)
  case (Cons k ks)
  have e: "wf_dict D e" "distinct (map fst e)" using Cons.prems(1) ordered_distinct by (auto simp: wf_map_def)
  note l = merge_lookup [OF e, of d k]
  show ?case
  proof (cases "map_of e k")
    case None
    then show ?thesis using l by (simp add: way_clear_Cons)
  next
    case (Some w)
    show ?thesis
    proof (cases "GetType w = TYPE_DICTIONARY")
      case False
      then have "map_of (MergeDictionary D d e) k = Some w" using l Some by (cases w) simp_all
      then show ?thesis using Some False by (cases w) (auto simp: way_clear_Cons)
    next
      case True
      then obtain m where m: "w = DictionaryValue m" by (auto simp: type_dictionary)
      have "wf_map D m" using wf_map_lookup [OF Cons.prems(1) Some] m by simp
      note IH = Cons.IH [OF this]
      show ?thesis
      proof (cases "Option.bind (map_of d k) GetAsDictionary")
        case None
        then show ?thesis using l Some m assms(2)
          by (auto simp: way_clear_Cons walk.simps split: option.splits bind_splits)
      next
        case (Some sub)
        then have "map_of d k = Some (DictionaryValue sub)" by (auto simp: bind_eq_Some_conv GetAsDictionary_Some)
        then show ?thesis using l \<open>map_of e k = Some w\<close> m assms(2) IH [of sub] by (auto simp: way_clear_Cons)
      qed
    qed
  qed
qed simp

lemma copy_lookup:
  "distinct (map fst d) \<Longrightarrow> map_of (dict_CopyWithoutEmpty D d m) k = (case map_of d k of
     None \<Rightarrow> map_of m k
   | Some v \<Rightarrow> (case CopyWithoutEmptyChildren D v of None \<Rightarrow> map_of m k | Some c \<Rightarrow> Some c))"
proof (induction d arbitrary: m)
  case (Cons a d)
  obtain j v where a: "a = (j, v)" by (cases a)
  then have "j \<notin> fst ` set d" using Cons.prems by auto
  then have "map_of d j = None" by (simp add: map_of_eq_None_iff)
  then show ?case using Cons by (auto simp: a map_of_set split: option.split)
qed simp

lemma copy_walk:
  assumes "wf_map D d" "GetType x \<notin> {TYPE_DICTIONARY, TYPE_LIST}" "ks \<noteq> []"
  shows "walk ks (dict_CopyWithoutEmpty D d []) = Some x \<longleftrightarrow> walk ks d = Some x"
  using assms(1,3)
proof (induction ks arbitrary: d)
  case (Cons k ks)
  have l: "map_of (dict_CopyWithoutEmpty D d []) k = Option.bind (map_of d k) (CopyWithoutEmptyChildren D)"
    using copy_lookup [of d D "[]" k] ordered_distinct [of d] Cons.prems(1)
    by (cases "map_of d k") (auto simp: wf_map_def split: option.splits)
  show ?case
  proof (cases "map_of d k")
    case (Some v)
    have v: "wf_Value D v" using wf_map_lookup [OF Cons.prems(1) Some] .
    show ?thesis
    proof (cases "\<exists>m. v = DictionaryValue m")
      case True
      then obtain m where m: "v = DictionaryValue m" by blast
      then show ?thesis using l Some Cons.IH [of m] v assms(2) walk_empty [of ks]
        by (cases ks) (auto simp: Let_def split: if_splits)
    next
      case False
      then show ?thesis using l Some assms(2) DeepCopy_same(1) [OF v]
        by (cases v) (auto simp: Let_def split: if_splits)
    qed
  qed (simp add: l)
qed simp

lemma copy_dictionary: "DeepCopyWithoutEmptyChildren D d = dict_CopyWithoutEmpty D d []"
  by (simp add: DeepCopyWithoutEmptyChildren_def Let_def)



end
