(* ===== verification/Numbers.thy ===== *)
theory Numbers
  imports Splitting "HOL-Library.Signed_Division"
begin

section \<open>Numbers as strings\<close>

text \<open>
  string_number_conversions.cc. The templates are over the integer type: a word of any width, read as signed or not.
  A conversion from a string gives whether the string is a number, and the value left in the output parameter.
\<close>

subsection \<open>Writing\<close>

text \<open>The loop that fills the buffer from its end.\<close>

fun digits_loop :: "nat \<Rightarrow> string \<Rightarrow> string" where
  "digits_loop res out =
    (let out = char_of (res mod 10 + 48) # out; res = res div 10 in
     if res = 0 then out else digits_loop res out)"

declare digits_loop.simps [simp del]

text \<open>\<open>IntToStringT\<close>: \<open>NEG\<close> says whether the type is signed; the negative value is negated in its own type.\<close>

definition IntToStringT :: "bool \<Rightarrow> 'a::len word \<Rightarrow> string" where
  "IntToStringT NEG v =
    (let is_neg = (NEG \<and> sint v < 0);
         res = unat (if is_neg then - v else v);
         out = digits_loop res [] in
     if is_neg then CHR ''-'' # out else out)"

definition IntToString :: "32 word \<Rightarrow> string" where "IntToString v = IntToStringT True v"
definition UintToString :: "32 word \<Rightarrow> string" where "UintToString v = IntToStringT False v"
definition Int64ToString :: "64 word \<Rightarrow> string" where "Int64ToString v = IntToStringT True v"
definition Uint64ToString :: "64 word \<Rightarrow> string" where "Uint64ToString v = IntToStringT False v"

definition kHexChars :: string where
  "kHexChars = ''0123456789ABCDEF''"

definition HexEncode :: "8 word list \<Rightarrow> string" where
  "HexEncode bytes = concat (map (\<lambda>b. [kHexChars ! unat (and (drop_bit 4 b) 15), kHexChars ! unat (and b 15)]) bytes)"

subsection \<open>Reading\<close>

definition CharToDigit :: "nat \<Rightarrow> char \<Rightarrow> nat option" where
  "CharToDigit BASE ch =
    (let c = (of_char ch :: nat) in
     if BASE \<le> 10 then (if c \<ge> 48 \<and> c < 48 + BASE then Some (c - 48) else None)
     else if c \<ge> 48 \<and> c \<le> 57 then Some (c - 48)
     else if c \<ge> 97 \<and> c < 97 + BASE - 10 then Some (c - 97 + 10)
     else if c \<ge> 65 \<and> c < 65 + BASE - 10 then Some (c - 65 + 10)
     else None)"

record traits =
  type_signed :: bool
  type_min :: int
  type_max :: int
  kBase :: nat

definition value_of :: "traits \<Rightarrow> 'a::len word \<Rightarrow> int" where
  "value_of t v = (if type_signed t then sint v else uint v)"

text \<open>Whether the next digit fits, for a positive and for a negative number.\<close>

definition CheckBounds :: "traits \<Rightarrow> bool \<Rightarrow> int \<Rightarrow> nat \<Rightarrow> bool" where
  "CheckBounds t neg v new_digit =
    (if \<not> neg then \<not> (v > type_max t sdiv int (kBase t) \<or>
        v = type_max t sdiv int (kBase t) \<and> int new_digit > type_max t smod int (kBase t))
     else \<not> (v < type_min t sdiv int (kBase t) \<or>
        v = type_min t sdiv int (kBase t) \<and> int new_digit > 0 - type_min t smod int (kBase t)))"

fun number_loop :: "traits \<Rightarrow> bool \<Rightarrow> bool \<Rightarrow> string \<Rightarrow> 'a::len word \<Rightarrow> bool \<times> 'a word" where
  "number_loop t neg first [] out = (True, out)"
| "number_loop t neg first (c # cs) out = (case CharToDigit (kBase t) c of
     None \<Rightarrow> (False, out)
   | Some d \<Rightarrow>
       if \<not> first \<and> \<not> CheckBounds t neg (value_of t out) d
       then (False, word_of_int (if neg then type_min t else type_max t))
       else let out = (if first then out else out * of_nat (kBase t));
                out = (if neg then out - of_nat d else out + of_nat d) in
         number_loop t neg False cs out)"

definition sign_invoke :: "traits \<Rightarrow> bool \<Rightarrow> string \<Rightarrow> bool \<times> 'a::len word" where
  "sign_invoke t neg s =
    (if s = [] then (False, 0)
     else let s = (if kBase t = 16 \<and> length s > 2 \<and> s ! 0 = CHR ''0'' \<and> (s ! 1 = CHR ''x'' \<or> s ! 1 = CHR ''X'')
                   then drop 2 s else s) in
       number_loop t neg True s 0)"

definition number_invoke :: "traits \<Rightarrow> string \<Rightarrow> bool \<times> 'a::len word" where
  "number_invoke t s =
    (let rest = dropWhile blank s; valid = (rest = s) in
     case (if rest \<noteq> [] \<and> hd rest = CHR ''-'' then sign_invoke t True (tl rest)
           else sign_invoke t False (if rest \<noteq> [] \<and> hd rest = CHR ''+'' then tl rest else rest)) of
       (ok, out) \<Rightarrow> (valid \<and> ok, out))"

definition int_traits :: "nat \<Rightarrow> traits" where
  "int_traits w = \<lparr>type_signed = True, type_min = - (2 ^ (w - 1)), type_max = 2 ^ (w - 1) - 1, kBase = 10\<rparr>"

definition uint_traits :: "nat \<Rightarrow> traits" where
  "uint_traits w = \<lparr>type_signed = False, type_min = 0, type_max = 2 ^ w - 1, kBase = 10\<rparr>"

definition hex_traits :: traits where
  "hex_traits = \<lparr>type_signed = True, type_min = - (2 ^ 31), type_max = 2 ^ 32 - 1, kBase = 16\<rparr>"

definition StringToInt :: "string \<Rightarrow> bool \<times> 32 word" where "StringToInt s = number_invoke (int_traits 32) s"
definition StringToUint :: "string \<Rightarrow> bool \<times> 32 word" where "StringToUint s = number_invoke (uint_traits 32) s"
definition StringToInt64 :: "string \<Rightarrow> bool \<times> 64 word" where "StringToInt64 s = number_invoke (int_traits 64) s"
definition StringToUint64 :: "string \<Rightarrow> bool \<times> 64 word" where "StringToUint64 s = number_invoke (uint_traits 64) s"
definition StringToSizeT :: "string \<Rightarrow> bool \<times> 64 word" where "StringToSizeT s = number_invoke (uint_traits 64) s"
definition HexStringToInt :: "string \<Rightarrow> bool \<times> 32 word" where "HexStringToInt s = number_invoke hex_traits s"

text \<open>The bytes already read stay in the vector when a character is not a digit.\<close>

fun hex_bytes :: "string \<Rightarrow> bool \<times> 8 word list" where
  "hex_bytes (m # l # s) = (case (CharToDigit 16 m, CharToDigit 16 l) of
     (Some msb, Some lsb) \<Rightarrow> (case hex_bytes s of (ok, r) \<Rightarrow> (ok, or (push_bit 4 (of_nat msb)) (of_nat lsb) # r))
   | _ \<Rightarrow> (False, []))"
| "hex_bytes _ = (True, [])"

definition HexStringToBytes :: "string \<Rightarrow> bool \<times> 8 word list" where
  "HexStringToBytes s = (if length s = 0 \<or> length s mod 2 \<noteq> 0 then (False, []) else hex_bytes s)"

subsection \<open>The value of digits\<close>

definition digit_of :: "char \<Rightarrow> int" where
  "digit_of c = int (of_char c) - 48"

definition digits_value :: "string \<Rightarrow> int" where
  "digits_value ds = foldl (\<lambda>v c. 10 * v + digit_of c) 0 ds"

definition decimal_digit :: "char \<Rightarrow> bool" where
  "decimal_digit c \<longleftrightarrow> (48 :: nat) \<le> of_char c \<and> (of_char c :: nat) \<le> 57"

definition decimal :: "string \<Rightarrow> bool" where
  "decimal ds \<longleftrightarrow> ds \<noteq> [] \<and> list_all decimal_digit ds"

lemma digit_value:
  assumes "decimal_digit c"
  obtains d where "CharToDigit 10 c = Some d" "int d = digit_of c" "d \<le> 9"
  using assms that [of "of_char c - 48"] by (auto simp: CharToDigit_def decimal_digit_def digit_of_def)

text \<open>When the next digit fits.\<close>

lemma fits:
  assumes "0 \<le> d" "d < 10"
  shows "\<not> (v > m div 10 \<or> v = m div 10 \<and> d > m mod 10) \<longleftrightarrow> 10 * v + d \<le> (m :: int)"
proof -
  define q r where "q = m div 10" "r = m mod 10"
  then have "m = 10 * q + r" "0 \<le> r" "r < 10" by (simp_all add: mult.commute)
  then show ?thesis unfolding q_r_def [symmetric] using assms by auto
qed

lemma signed_div:
  assumes "0 \<le> (m :: int)"
  shows "m sdiv 10 = m div 10" "m smod 10 = m mod 10" "(- m) sdiv 10 = - (m div 10)" "(- m) smod 10 = - (m mod 10)"
  using assms by (cases "m = 0"; simp add: signed_divide_int_def signed_modulo_int_def)+

definition limits :: "traits \<Rightarrow> nat \<Rightarrow> bool" where
  "limits t w \<longleftrightarrow> t = int_traits w \<or> t = uint_traits w"

lemma limits_value:
  assumes "limits t LENGTH('a::len)" "type_min t \<le> v" "v \<le> type_max t"
  shows "value_of t (word_of_int v :: 'a word) = v"
proof -
  consider "t = int_traits LENGTH('a)" | "t = uint_traits LENGTH('a)" using assms(1) by (auto simp: limits_def)
  then show ?thesis
  proof cases
    case 1
    then have "signed_take_bit (LENGTH('a) - Suc 0) v = v"
      using assms(2,3) by (intro signed_take_bit_int_eq_self) (simp_all add: int_traits_def)
    then show ?thesis using 1 by (simp add: value_of_def int_traits_def sint_sbintrunc')
  next
    case 2
    then have "take_bit LENGTH('a) v = v"
      using assms(2,3) by (intro take_bit_int_eq_self) (simp_all add: uint_traits_def)
    then show ?thesis using 2 assms(2) by (simp add: value_of_def uint_traits_def unsigned_of_int)
  qed
qed

lemma limits_range: "limits t w \<Longrightarrow> type_min t \<le> 0" "limits t w \<Longrightarrow> kBase t = 10"
  by (auto simp: limits_def int_traits_def uint_traits_def)

definition more_digits :: "int \<Rightarrow> string \<Rightarrow> int" where
  "more_digits v ds = foldl (\<lambda>v c. 10 * v + digit_of c) v ds"

lemma more_digits_simps [simp]:
  "more_digits v [] = v" "more_digits v (c # cs) = more_digits (10 * v + digit_of c) cs"
  "more_digits v (cs @ ds) = more_digits (more_digits v cs) ds"
  by (simp_all add: more_digits_def)

lemma more_digits_ge: "list_all decimal_digit ds \<Longrightarrow> 0 \<le> v \<Longrightarrow> v \<le> more_digits v ds"
proof (induction ds arbitrary: v)
  case (Cons c ds)
  then have "0 \<le> digit_of c" by (simp add: decimal_digit_def digit_of_def)
  then show ?case using Cons.IH [of "10 * v + digit_of c"] Cons.prems by simp
qed simp

lemma word_digit: "(word_of_int v :: 'a::len word) * of_nat 10 + of_nat d = word_of_int (10 * v + int d)"
  "(word_of_int (- v) :: 'a::len word) * of_nat 10 - of_nat d = word_of_int (- (10 * v + int d))"
  by (simp_all add: mult.commute)

lemma loop_step:
  assumes "CharToDigit (kBase t) c = Some d" "CheckBounds t neg (value_of t w) d"
  shows "number_loop t neg False (c # cs) w =
    number_loop t neg False cs (if neg then w * of_nat (kBase t) - of_nat d else w * of_nat (kBase t) + of_nat d)"
  using assms by (simp add: Let_def)

lemma loop_stop:
  assumes "CharToDigit (kBase t) c = Some d" "\<not> CheckBounds t neg (value_of t w) d"
  shows "number_loop t neg False (c # cs) w = (False, word_of_int (if neg then type_min t else type_max t))"
  using assms by simp

lemma loop_positive:
  assumes "limits t LENGTH('a::len)" "list_all decimal_digit cs" "0 \<le> v" "v \<le> type_max t"
  shows "number_loop t False False cs (word_of_int v :: 'a word) =
    (if more_digits v cs \<le> type_max t then (True, word_of_int (more_digits v cs)) else (False, word_of_int (type_max t)))"
  using assms
proof (induction cs arbitrary: v)
  case (Cons c cs)
  then obtain d where d: "CharToDigit 10 c = Some d" "int d = digit_of c" "d \<le> 9" by (auto elim: digit_value)
  note b = limits_range [OF Cons.prems(1)]
  have v: "value_of t (word_of_int v :: 'a word) = v" using Cons.prems b(1) by (intro limits_value) simp_all
  have c: "CheckBounds t False v d \<longleftrightarrow> 10 * v + digit_of c \<le> type_max t"
    using fits [where d = "int d" and v = v and m = "type_max t"] d Cons.prems(3,4) by (simp add: CheckBounds_def b(2) signed_div)
  show ?case
  proof (cases "10 * v + digit_of c \<le> type_max t")
    case True
    then have "number_loop t False False (c # cs) (word_of_int v :: 'a word) =
        number_loop t False False cs (word_of_int (10 * v + digit_of c))"
      by (subst loop_step [of t c d]) (unfold b(2) v if_False word_digit(1) d(2), simp_all only: d(1) c)
    then show ?thesis unfolding more_digits_simps by (subst Cons.IH [symmetric]) (use True Cons.prems d(2) in simp_all)
  next
    case False
    then have "\<not> more_digits v (c # cs) \<le> type_max t"
      using more_digits_ge [of cs "10 * v + digit_of c"] Cons.prems d(2) by simp
    moreover have "number_loop t False False (c # cs) (word_of_int v :: 'a word) = (False, word_of_int (type_max t))"
      by (subst loop_stop [of t c d]) (unfold b(2) v, simp_all add: d(1) c False)
    ultimately show ?thesis by (simp only: if_False)
  qed
qed simp

lemma loop_negative:
  assumes "t = int_traits LENGTH('a::len)" "list_all decimal_digit cs" "0 \<le> v" "v \<le> - type_min t"
  shows "number_loop t True False cs (word_of_int (- v) :: 'a word) =
    (if more_digits v cs \<le> - type_min t then (True, word_of_int (- more_digits v cs)) else (False, word_of_int (type_min t)))"
  using assms
proof (induction cs arbitrary: v)
  case (Cons c cs)
  then obtain d where d: "CharToDigit 10 c = Some d" "int d = digit_of c" "d \<le> 9" by (auto elim: digit_value)
  have l: "limits t LENGTH('a)" using assms(1) by (simp add: limits_def)
  note b = limits_range [OF l]
  have m: "0 \<le> type_max t" "type_min t = - (type_max t + 1)" using assms(1) by (simp_all add: int_traits_def)
  have v: "value_of t (word_of_int (- v) :: 'a word) = - v"
    using Cons.prems m by (intro limits_value [OF l]) simp_all
  have s: "type_min t sdiv 10 = - ((- type_min t) div 10)" "type_min t smod 10 = - ((- type_min t) mod 10)"
    using signed_div(3,4) [of "- type_min t"] m unfolding minus_minus by simp_all
  have c: "CheckBounds t True (- v) d \<longleftrightarrow> 10 * v + digit_of c \<le> - type_min t"
    using fits [where d = "int d" and v = v and m = "- type_min t"] d Cons.prems(3,4) unfolding CheckBounds_def b(2) by (simp add: s)
  show ?case
  proof (cases "10 * v + digit_of c \<le> - type_min t")
    case True
    then have "number_loop t True False (c # cs) (word_of_int (- v) :: 'a word) =
        number_loop t True False cs (word_of_int (- (10 * v + digit_of c)))"
      by (subst loop_step [of t c d]) (unfold b(2) v if_True word_digit(2) d(2), simp_all only: d(1) c)
    then show ?thesis unfolding more_digits_simps by (subst Cons.IH [symmetric]) (use True Cons.prems d(2) in simp_all)
  next
    case False
    then have "\<not> more_digits v (c # cs) \<le> - type_min t"
      using more_digits_ge [of cs "10 * v + digit_of c"] Cons.prems d(2) by simp
    moreover have "number_loop t True False (c # cs) (word_of_int (- v) :: 'a word) = (False, word_of_int (type_min t))"
      by (subst loop_stop [of t c d]) (unfold b(2) v, simp_all add: d(1) c False)
    ultimately show ?thesis by (simp only: if_False)
  qed
qed simp

lemma sign_invoke_decimal:
  assumes "decimal ds"
  shows "limits t LENGTH('a::len) \<Longrightarrow> 9 \<le> type_max t \<Longrightarrow> sign_invoke t False ds =
      (if digits_value ds \<le> type_max t then (True, word_of_int (digits_value ds) :: 'a word)
       else (False, word_of_int (type_max t)))"
    and "t = int_traits LENGTH('a) \<Longrightarrow> 9 \<le> - type_min t \<Longrightarrow> sign_invoke t True ds =
      (if digits_value ds \<le> - type_min t then (True, word_of_int (- digits_value ds) :: 'a word)
       else (False, word_of_int (type_min t)))"
proof -
  obtain c cs where ds: "ds = c # cs" "decimal_digit c" "list_all decimal_digit cs"
    using assms by (cases ds) (auto simp: decimal_def)
  then obtain d where d: "CharToDigit 10 c = Some d" "int d = digit_of c" "d \<le> 9" by (auto elim: digit_value)
  have v: "digits_value ds = more_digits (digit_of c) cs" by (simp add: digits_value_def more_digits_def ds(1))
  note v = v [unfolded ds(1)]
  have w: "(of_nat d :: 'a word) = word_of_int (digit_of c)" by (simp flip: d(2))
  show "sign_invoke t False ds = (if digits_value ds \<le> type_max t then (True, word_of_int (digits_value ds) :: 'a word)
       else (False, word_of_int (type_max t)))" if "limits t LENGTH('a)" "9 \<le> type_max t"
    using loop_positive [OF that(1) ds(3), of "digit_of c"] d that limits_range(2) [OF that(1)]
    by (simp add: sign_invoke_def ds(1) v w)
  show "sign_invoke t True ds = (if digits_value ds \<le> - type_min t then (True, word_of_int (- digits_value ds) :: 'a word)
       else (False, word_of_int (type_min t)))" if "t = int_traits LENGTH('a)" "9 \<le> - type_min t"
  proof -
    have "kBase t = 10" using that(1) by (simp add: int_traits_def)
    then show ?thesis using loop_negative [OF that(1) ds(3), of "digit_of c"] d that(2)
      by (simp add: sign_invoke_def ds(1) v w)
  qed
qed

lemma decimal_start: "decimal ds \<Longrightarrow> ds \<noteq> [] \<and> \<not> blank (hd ds) \<and> hd ds \<noteq> CHR ''-'' \<and> hd ds \<noteq> CHR ''+''"
  by (cases ds) (auto simp: decimal_def decimal_digit_def blank_def kWhitespaceASCII_def)

lemma number_invoke_decimal:
  assumes "decimal ds"
  shows "number_invoke t ds = sign_invoke t False ds" "number_invoke t (CHR ''-'' # ds) = sign_invoke t True ds"
proof -
  have "dropWhile blank ds = ds" using decimal_start [OF assms] by (cases ds) auto
  moreover have "\<not> blank CHR ''-''" by (simp add: blank_def kWhitespaceASCII_def)
  ultimately show "number_invoke t ds = sign_invoke t False ds" "number_invoke t (CHR ''-'' # ds) = sign_invoke t True ds"
    using decimal_start [OF assms] by (simp_all add: number_invoke_def)
qed


subsection \<open>The two directions together\<close>

lemma digits_value_snoc: "digits_value (ds @ [c]) = 10 * digits_value ds + digit_of c"
  by (simp add: digits_value_def)

text \<open>The loop writes digits, and they are those of the number.\<close>

lemma digits_loop_value: "\<exists>ds. digits_loop n out = ds @ out \<and> decimal ds \<and> digits_value ds = int n"
proof (induction n out rule: digits_loop.induct)
  case (1 n out)
  define c where "c = char_of (n mod 10 + 48 :: nat)"
  have c: "decimal_digit c" "digit_of c = int (n mod 10)"
    by (simp_all add: c_def decimal_digit_def digit_of_def of_char_of take_bit_eq_mod)
  show ?case
  proof (cases "n div 10 = 0")
    case True
    then have "digits_loop n out = [c] @ out" by (subst digits_loop.simps) (simp add: Let_def c_def)
    moreover have "digits_value [c] = int n" using True c(2) by (simp add: digits_value_def div_eq_0_iff)
    ultimately show ?thesis using c(1) by (auto simp: decimal_def)
  next
    case False
    then obtain ds where ds: "digits_loop (n div 10) (c # out) = ds @ c # out" "decimal ds" "digits_value ds = int (n div 10)"
      using 1 unfolding c_def by blast
    have "int n = 10 * int (n div 10) + int (n mod 10)"
      by (metis div_mult_mod_eq int_ops(6,7) mult.commute of_nat_numeral of_nat_add of_nat_mult)
    then have "digits_value (ds @ [c]) = int n" by (simp only: digits_value_snoc ds(3) c(2))
    moreover have "digits_loop n out = (ds @ [c]) @ out"
      using False ds(1) by (subst digits_loop.simps) (simp add: Let_def flip: c_def)
    ultimately show ?thesis using ds(2) c(1) by (auto simp: decimal_def)
  qed
qed

lemma digits_loop_start:
  obtains ds where "digits_loop n [] = ds" "decimal ds" "digits_value ds = int n"
  using digits_loop_value [of n "[]"] by auto

text \<open>A word of at least five bits: nine fits, so that the first digit needs no check.\<close>

lemma wide:
  assumes "5 \<le> LENGTH('a::len)"
  shows "9 \<le> type_max (int_traits LENGTH('a))" "9 \<le> - type_min (int_traits LENGTH('a))" "9 \<le> type_max (uint_traits LENGTH('a))"
proof -
  have "(2::int) ^ 4 \<le> 2 ^ (LENGTH('a) - 1)" "(2::int) ^ 5 \<le> 2 ^ LENGTH('a)"
    using assms by (intro power_increasing; simp)+
  then show "9 \<le> type_max (int_traits LENGTH('a))" "9 \<le> - type_min (int_traits LENGTH('a))"
    "9 \<le> type_max (uint_traits LENGTH('a))"
    by (simp_all add: int_traits_def uint_traits_def)
qed

lemma unsigned_round_trip:
  assumes "5 \<le> LENGTH('a::len)"
  shows "number_invoke (uint_traits LENGTH('a)) (IntToStringT False (v :: 'a word)) = (True, v)"
proof -
  obtain ds where ds: "digits_loop (unat v) [] = ds" "decimal ds" "digits_value ds = int (unat v)" by (rule digits_loop_start)
  have "uint v \<le> type_max (uint_traits LENGTH('a))" using uint_lt2p [of v] by (simp add: uint_traits_def)
  then show ?thesis
    using sign_invoke_decimal(1) [OF ds(2), where 'a = 'a and t = "uint_traits LENGTH('a)"] wide(3) [OF assms] ds(3)
    by (simp add: IntToStringT_def ds(1) number_invoke_decimal(1) [OF ds(2)] limits_def)
qed

lemma uint_signed: "0 \<le> i \<Longrightarrow> i \<le> 2 ^ (LENGTH('a) - 1) \<Longrightarrow> uint (word_of_int i :: 'a::len word) = i"
proof -
  assume i: "0 \<le> i" "i \<le> 2 ^ (LENGTH('a) - 1)"
  have "(2::int) ^ (LENGTH('a) - 1) < 2 ^ LENGTH('a)" by (rule power_strict_increasing) simp_all
  with i(2) have "i < 2 ^ LENGTH('a)" by (rule order.strict_trans1)
  then show ?thesis using i(1) by (simp add: uint_word_of_int)
qed

lemma negated_value: "sint (v :: 'a::len word) < 0 \<Longrightarrow> int (unat (- v)) = - sint v"
  using uint_signed [where 'a = 'a, of "- sint v"] sint_ge [of v] by simp

lemma positive_value: "\<not> sint (v :: 'a::len word) < 0 \<Longrightarrow> int (unat v) = sint v"
  using uint_signed [where 'a = 'a, of "sint v"] sint_lt [of v] by simp

lemma signed_round_trip:
  assumes "5 \<le> LENGTH('a::len)"
  shows "number_invoke (int_traits LENGTH('a)) (IntToStringT True (v :: 'a word)) = (True, v)"
proof (cases "sint v < 0")
  case True
  obtain ds where ds: "digits_loop (unat (- v)) [] = ds" "decimal ds" "digits_value ds = int (unat (- v))"
    by (rule digits_loop_start)
  have "- sint v \<le> - type_min (int_traits LENGTH('a))" using sint_ge [of v] by (simp add: int_traits_def)
  then show ?thesis
    using sign_invoke_decimal(2) [OF ds(2), where 'a = 'a and t = "int_traits LENGTH('a)"] wide(2) [OF assms]
      ds(3) [unfolded negated_value [OF True]] True
    by (simp add: IntToStringT_def ds(1) number_invoke_decimal(2) [OF ds(2)])
next
  case False
  obtain ds where ds: "digits_loop (unat v) [] = ds" "decimal ds" "digits_value ds = int (unat v)" by (rule digits_loop_start)
  note positive_value [OF False]
  moreover have "sint v \<le> type_max (int_traits LENGTH('a))" using sint_lt [of v] by (simp add: int_traits_def)
  ultimately show ?thesis
    using sign_invoke_decimal(1) [OF ds(2), where 'a = 'a and t = "int_traits LENGTH('a)"] wide(1) [OF assms] ds(3) False
    by (simp add: IntToStringT_def ds(1) number_invoke_decimal(1) [OF ds(2)] limits_def)
qed

text \<open>Bytes in hexadecimal.\<close>

lemma hex_digit: "d < 16 \<Longrightarrow> CharToDigit 16 (kHexChars ! d) = Some d"
proof -
  have "list_all (\<lambda>d. CharToDigit 16 (kHexChars ! d) = Some d) [0..<16]" by code_simp
  then show "d < 16 \<Longrightarrow> CharToDigit 16 (kHexChars ! d) = Some d" by (simp add: list_all_iff)
qed

lemma nibble: "unat (and (w :: 8 word) 15) < 16"
proof -
  have "and w 15 = take_bit 4 w" by (simp add: take_bit_eq_mask mask_eq_exp_minus_1)
  then show ?thesis using take_bit_nat_less_exp [of 4 "unat w"] by (simp add: unsigned_take_bit_eq)
qed

lemma nibbles: "or (push_bit 4 (and (drop_bit 4 b) 15)) (and b 15) = (b :: 8 word)"
proof -
  have m: "(15 :: 8 word) = mask 4" by (simp add: mask_eq_exp_minus_1)
  show ?thesis unfolding m by (rule bit_word_eqI) (auto simp: bit_simps)
qed

lemma hex_bytes_encode: "hex_bytes (HexEncode bs) = (True, bs)"
proof (induction bs)
  case (Cons b bs)
  then show ?case
    using nibbles [of b] by (simp add: HexEncode_def hex_digit nibble)
qed (simp add: HexEncode_def)

lemma length_HexEncode: "length (HexEncode bs) = 2 * length bs"
  by (induction bs) (simp_all add: HexEncode_def)

text \<open>C33: A number written as a string is read back: for each of the four types the conversion from a string succeeds on what
  the conversion to a string gave, with the same value, the least value of the signed types included.\<close>

theorem number_roundtrip:
  "StringToInt (IntToString i) = (True, i) \<and> StringToUint (UintToString u) = (True, u) \<and>
   StringToInt64 (Int64ToString i64) = (True, i64) \<and> StringToUint64 (Uint64ToString u64) = (True, u64) \<and>
   StringToSizeT (Uint64ToString u64) = (True, u64)"
  using signed_round_trip [where v = i] unsigned_round_trip [where v = u]
    signed_round_trip [where v = i64] unsigned_round_trip [where v = u64]
  by (simp add: StringToInt_def IntToString_def StringToUint_def UintToString_def StringToInt64_def Int64ToString_def
      StringToUint64_def StringToSizeT_def Uint64ToString_def)

text \<open>What reading a decimal number gives: its value when that is in the range of the type, and otherwise false and the
  nearest bound of the type. White space in front of the number also gives false, with the number all the same.
  A minus sign is accepted for an unsigned type as well: minus one is its greatest value.\<close>

theorem number_in_range:
  assumes "decimal ds"
  shows "StringToInt ds =
      (if digits_value ds \<le> 2 ^ 31 - 1 then (True, word_of_int (digits_value ds)) else (False, 2 ^ 31 - 1)) \<and>
    StringToInt (CHR ''-'' # ds) =
      (if digits_value ds \<le> 2 ^ 31 then (True, word_of_int (- digits_value ds)) else (False, - (2 ^ 31))) \<and>
    StringToUint ds =
      (if digits_value ds \<le> 2 ^ 32 - 1 then (True, word_of_int (digits_value ds)) else (False, - 1)) \<and>
    StringToInt (CHR '' '' # ds) = (False, snd (StringToInt ds)) \<and>
    StringToUint ''-1'' = (True, - 1)"
proof -
  have c: "number_invoke t (CHR '' '' # ds) = (False, snd (number_invoke t ds :: bool \<times> 32 word))" for t
  proof -
    have "dropWhile blank (CHR '' '' # ds) = ds" "dropWhile blank ds = ds" "blank CHR '' ''"
      using decimal_start [OF assms] by (cases ds; simp add: blank_def kWhitespaceASCII_def)+
    then show ?thesis by (simp add: number_invoke_def split: prod.splits)
  qed
  note d = sign_invoke_decimal [OF assms, where 'a = 32]
  have "StringToInt ds =
      (if digits_value ds \<le> 2 ^ 31 - 1 then (True, word_of_int (digits_value ds)) else (False, 2 ^ 31 - 1))"
    using d(1) [of "int_traits 32"] by (simp add: StringToInt_def number_invoke_decimal(1) [OF assms] limits_def int_traits_def)
  moreover have "StringToInt (CHR ''-'' # ds) =
      (if digits_value ds \<le> 2 ^ 31 then (True, word_of_int (- digits_value ds)) else (False, - (2 ^ 31)))"
    using d(2) [of "int_traits 32"] by (simp add: StringToInt_def number_invoke_decimal(2) [OF assms] int_traits_def)
  moreover have "StringToUint ds =
      (if digits_value ds \<le> 2 ^ 32 - 1 then (True, word_of_int (digits_value ds)) else (False, - 1))"
    using d(1) [of "uint_traits 32"] by (simp add: StringToUint_def number_invoke_decimal(1) [OF assms] limits_def uint_traits_def)
  moreover have "StringToUint ''-1'' = (True, - 1)" by code_simp
  ultimately show ?thesis using c [of "int_traits 32"] by (simp add: StringToInt_def)
qed

theorem number_in_range_witness:
  "StringToInt ''2147483648'' = (False, 2147483647) \<and> StringToInt ''-2147483648'' = (True, 2147483648) \<and>
   StringToUint ''4294967296'' = (False, 4294967295) \<and> StringToInt '' 2147483648'' = (False, 2147483647)"
proof -
  have d: "decimal ''2147483648''" "decimal ''4294967296''" by code_simp+
  have v: "digits_value ''2147483648'' = 2147483648" "digits_value ''4294967296'' = 4294967296" by code_simp+
  show ?thesis using number_in_range [OF d(1)] number_in_range [OF d(2)] by (simp add: v)
qed

text \<open>Bytes written in hexadecimal are read back, and only the empty sequence is refused; an odd number of characters or
  one that is no hexadecimal digit is refused too.\<close>

theorem hex_roundtrip:
  "HexStringToBytes (HexEncode bs) = (bs \<noteq> [], bs) \<and> HexStringToInt ''FFFFFFFF'' = (True, - 1) \<and>
   HexStringToInt ''0x7fffffff'' = (True, 2 ^ 31 - 1) \<and> HexStringToBytes ''0g'' = (False, [])"
proof -
  have "HexStringToBytes (HexEncode bs) = (bs \<noteq> [], bs)"
    by (cases "bs = []") (simp_all add: HexStringToBytes_def length_HexEncode hex_bytes_encode)
  moreover have "HexStringToInt ''FFFFFFFF'' = (True, - 1)" by code_simp
  moreover have "HexStringToInt ''0x7fffffff'' = (True, 2 ^ 31 - 1)" by code_simp
  moreover have "HexStringToBytes ''0g'' = (False, [])" by code_simp
  ultimately show ?thesis by blast
qed

end
