(* ===== verification/Json_Writer.thy ===== *)
theory Json_Writer
  imports Values Numbers
begin

section \<open>Writing JSON\<close>

text \<open>
  json_writer.cc and string_escape.cc. What the writer appends to its string is what its functions return. The operations
  of the standard library on doubles are parameters: the text that \<open>std::to_string\<close> gives, the 64 bit integer that is equal
  to a double, and what \<open>std::stod\<close> reads, with the number of characters it used, or that it throws.
\<close>

record 'd json_doubles = "'d doubles" +
  std_to_string :: "'d \<Rightarrow> string"
  whole_int64 :: "'d \<Rightarrow> 64 word option"
  std_stod :: "string \<Rightarrow> ('d \<times> nat) option"

definition DoubleToString :: "('d, 'e) json_doubles_scheme \<Rightarrow> 'd \<Rightarrow> string" where
  "DoubleToString D d = std_to_string D d"

text \<open>\<open>None\<close> when \<open>std::stod\<close> throws; its errors never reach the test of \<open>errno\<close>.\<close>

definition StringToDouble :: "('d, 'e) json_doubles_scheme \<Rightarrow> string \<Rightarrow> (bool \<times> 'd) option" where
  "StringToDouble D input = (case std_stod D input of
     None \<Rightarrow> None
   | Some (d, pos) \<Rightarrow> Some (input \<noteq> [] \<and> length input = pos \<and> \<not> blank (hd input), d))"

subsection \<open>Strings\<close>

definition JsonSingleEscapeChar :: "char \<Rightarrow> string option" where
  "JsonSingleEscapeChar c =
    (if c = CHR 0x08 then Some [CHR 0x5C, CHR ''b'']
     else if c = CHR 0x0C then Some [CHR 0x5C, CHR ''f'']
     else if c = CHR 0x0A then Some [CHR 0x5C, CHR ''n'']
     else if c = CHR 0x0D then Some [CHR 0x5C, CHR ''r'']
     else if c = CHR 0x09 then Some [CHR 0x5C, CHR ''t'']
     else if c = CHR 0x5C then Some [CHR 0x5C, CHR 0x5C]
     else if c = CHR 0x22 then Some [CHR 0x5C, CHR 0x22]
     else None)"

text \<open>The format \<open>%04X\<close> of a character.\<close>

definition hex4 :: "nat \<Rightarrow> string" where
  "hex4 n = map (\<lambda>k. kHexChars ! (n div 16 ^ k mod 16)) [3, 2, 1, 0]"

definition escape_char :: "char \<Rightarrow> string" where
  "escape_char c = (case JsonSingleEscapeChar c of
     Some e \<Rightarrow> e
   | None \<Rightarrow>
       if (of_char c :: nat) < 32 \<or> (of_char c :: nat) > 126 \<or> c = CHR ''<'' \<or> c = CHR ''>''
       then CHR 0x5C # CHR ''u'' # hex4 (of_char c)
       else [c])"

definition JsonDoubleQuote :: "string \<Rightarrow> bool \<Rightarrow> string" where
  "JsonDoubleQuote str put_in_quotes =
    (if put_in_quotes then [CHR 0x22] else []) @ concat (map escape_char str) @ (if put_in_quotes then [CHR 0x22] else [])"

definition GetDoubleQuotedJson :: "string \<Rightarrow> string" where
  "GetDoubleQuotedJson str = JsonDoubleQuote str True"

subsection \<open>The writer\<close>

record writer =
  escape :: bool
  omit_binary_values :: bool
  omit_double_type_preservation :: bool
  pretty_print :: bool

definition kPrettyPrintLineEnding :: string where
  "kPrettyPrintLineEnding = [CHR 0x0D, CHR 0x0A]"

definition kEmptyArray :: string where
  "kEmptyArray = ''[]''"

definition IndentLine :: "nat \<Rightarrow> string" where
  "IndentLine depth = replicate (depth * 3) (CHR '' '')"

definition AppendQuotedString :: "string \<Rightarrow> string" where
  "AppendQuotedString str = JsonDoubleQuote str True"

definition double_text :: "writer \<Rightarrow> ('d, 'e) json_doubles_scheme \<Rightarrow> 'd \<Rightarrow> string" where
  "double_text w D d =
    (case (omit_double_type_preservation w, whole_int64 D d) of
       (True, Some i) \<Rightarrow> Int64ToString i
     | _ \<Rightarrow>
       let real = DoubleToString D d;
           real = (if CHR ''.'' \<notin> set real \<and> CHR ''e'' \<notin> set real \<and> CHR ''E'' \<notin> set real then real @ ''.0'' else real) in
       if real ! 0 = CHR ''.'' then CHR ''0'' # real
       else if length real > 1 \<and> real ! 0 = CHR ''-'' \<and> real ! 1 = CHR ''.'' then CHR ''-'' # CHR ''0'' # tl real
       else real)"

definition spaced :: "writer \<Rightarrow> string \<Rightarrow> string" where
  "spaced w s = (if pretty_print w then s else [])"

fun BuildJSONString :: "writer \<Rightarrow> ('d, 'e) json_doubles_scheme \<Rightarrow> 'd Value \<Rightarrow> nat \<Rightarrow> string"
  and list_JSON :: "writer \<Rightarrow> ('d, 'e) json_doubles_scheme \<Rightarrow> nat \<Rightarrow> 'd Value list \<Rightarrow> nat \<Rightarrow> string"
  and dict_JSON :: "writer \<Rightarrow> ('d, 'e) json_doubles_scheme \<Rightarrow> bool \<Rightarrow> 'd ValueMap \<Rightarrow> nat \<Rightarrow> string" where
  "BuildJSONString w D NullValue depth = ''null''"
| "BuildJSONString w D (BooleanValue b) depth = (if b then ''true'' else ''false'')"
| "BuildJSONString w D (IntegerValue i) depth = IntToString i"
| "BuildJSONString w D (DoubleValue d) depth = double_text w D d"
| "BuildJSONString w D (StringValue s) depth = JsonDoubleQuote s True"
| "BuildJSONString w D (ListValue l) depth =
    ''['' @ spaced w '' '' @ list_JSON w D 0 l depth @ spaced w '' '' @ '']''"
| "BuildJSONString w D (DictionaryValue d) depth =
    ''{'' @ spaced w kPrettyPrintLineEnding @ dict_JSON w D True d depth
      @ spaced w (kPrettyPrintLineEnding @ IndentLine depth) @ ''}''"
| "BuildJSONString w D (BinaryValue b) depth = []"
| "list_JSON w D i [] depth = []"
| "list_JSON w D i (v # l) depth =
    (if omit_binary_values w \<and> GetType v = TYPE_BINARY then list_JSON w D (i + 1) l depth
     else (if i \<noteq> 0 then '','' @ spaced w '' '' else []) @ BuildJSONString w D v depth @ list_JSON w D (i + 1) l depth)"
| "dict_JSON w D first [] depth = []"
| "dict_JSON w D first ((k, v) # d) depth =
    (if omit_binary_values w \<and> GetType v = TYPE_BINARY then dict_JSON w D False d depth
     else (if \<not> first then '','' @ spaced w kPrettyPrintLineEnding else []) @
       spaced w (IndentLine (depth + 1)) @ AppendQuotedString k @ (if pretty_print w then '': '' else '':'') @
       BuildJSONString w D v (depth + 1) @ dict_JSON w D False d depth)"

definition new_writer :: "32 word \<Rightarrow> writer" where
  "new_writer options =
    \<lparr>escape = \<not> bit options 0, omit_binary_values = bit options 1,
     omit_double_type_preservation = bit options 2, pretty_print = bit options 3\<rparr>"

definition WriteWithOptions :: "32 word \<Rightarrow> ('d, 'e) json_doubles_scheme \<Rightarrow> 'd Value \<Rightarrow> string" where
  "WriteWithOptions options D node =
    (let w = new_writer options in BuildJSONString w D node 0 @ spaced w kPrettyPrintLineEnding)"

definition Write :: "('d, 'e) json_doubles_scheme \<Rightarrow> 'd Value \<Rightarrow> string" where
  "Write D node = WriteWithOptions 0 D node"

end
