(* ===== verification/Json_Reader.thy ===== *)
theory Json_Reader
  imports Json_Writer
begin

section \<open>Reading JSON\<close>

text \<open>
  json_reader.cc. A position in the text is what remains from it to the end; the character there is NUL at the end, where the
  terminator of the string stands. A token has its type and its length and begins at the position of the reader.
\<close>

subsection \<open>Tokens\<close>

datatype token_type = OBJECT_BEGIN | OBJECT_END | ARRAY_BEGIN | ARRAY_END | STRING | NUMBER | BOOL_TRUE | BOOL_FALSE
  | NULL_TOKEN | LIST_SEPARATOR | OBJECT_PAIR_SEPARATOR | END_OF_INPUT | INVALID_TOKEN

record token =
  token_type :: token_type
  token_length :: nat

definition Token :: "token_type \<Rightarrow> nat \<Rightarrow> token" where
  "Token t n = \<lparr>token_type = t, token_length = n\<rparr>"

definition CreateInvalidToken :: token where
  "CreateInvalidToken = Token INVALID_TOKEN 0"

definition char_at :: "string \<Rightarrow> nat \<Rightarrow> char" where
  "char_at s i = (if i < length s then s ! i else CHR 0x00)"

definition IsAsciiDigit :: "char \<Rightarrow> bool" where
  "IsAsciiDigit c = (c \<ge> CHR ''0'' \<and> c \<le> CHR ''9'')"

definition IsHexDigit :: "char \<Rightarrow> bool" where
  "IsHexDigit c = (c \<ge> CHR ''0'' \<and> c \<le> CHR ''9'' \<or> c \<ge> CHR ''A'' \<and> c \<le> CHR ''F'' \<or> c \<ge> CHR ''a'' \<and> c \<le> CHR ''f'')"

text \<open>\<open>NextStringMatch\<close> is \<open>strncmp\<close>, which ends at the terminator.\<close>

definition NextStringMatch :: "string \<Rightarrow> string \<Rightarrow> bool" where
  "NextStringMatch pos str = (take (length str) pos = str)"

text \<open>The length of the token after the digits behind it.\<close>

definition ReadInt :: "string \<Rightarrow> nat \<Rightarrow> bool \<Rightarrow> nat option" where
  "ReadInt pos tlen can_have_leading_zeros =
    (let first = char_at pos tlen; len = length (takeWhile (\<lambda>c. c \<noteq> CHR 0x00 \<and> IsAsciiDigit c) (drop tlen pos)) in
     if len = 0 then None
     else if \<not> can_have_leading_zeros \<and> len > 1 \<and> first = CHR ''0'' then None
     else Some (tlen + len))"

definition ParseNumberToken :: "string \<Rightarrow> token" where
  "ParseNumberToken pos =
    (let n = (if char_at pos 0 = CHR ''-'' then 1 else 0) in
     case ReadInt pos n False of
       None \<Rightarrow> CreateInvalidToken
     | Some n \<Rightarrow>
       (case (if char_at pos n = CHR ''.'' then ReadInt pos (n + 1) True else Some n) of
          None \<Rightarrow> CreateInvalidToken
        | Some n \<Rightarrow>
          (if char_at pos n = CHR ''e'' \<or> char_at pos n = CHR ''E''
           then let n = n + 1; n = (if char_at pos n = CHR ''-'' \<or> char_at pos n = CHR ''+'' then n + 1 else n) in
             (case ReadInt pos n True of None \<Rightarrow> CreateInvalidToken | Some n \<Rightarrow> Token NUMBER n)
           else Token NUMBER n)))"

definition ReadHexDigits :: "string \<Rightarrow> nat \<Rightarrow> bool" where
  "ReadHexDigits s digits = list_all (\<lambda>i. char_at s i \<noteq> CHR 0x00 \<and> IsHexDigit (char_at s i)) [0..<digits]"

text \<open>
  The loop of \<open>ParseStringToken\<close>, from the character behind the token of length \<open>n\<close>: the length of the token, or none with
  the place of an invalid escape sequence.
\<close>

fun string_token :: "string \<Rightarrow> nat \<Rightarrow> nat option + nat" where
  "string_token [] n = Inl None"
| "string_token (c # s) n =
    (if c = CHR 0x5C then
       let n = n + 1; e = char_at s 0 in
       if e = CHR ''x'' then
         (if ReadHexDigits (tl s) 2 then string_token (drop 3 s) (n + 3) else Inl (Some n))
       else if e = CHR ''u'' then
         (if ReadHexDigits (tl s) 4 then string_token (drop 5 s) (n + 5) else Inl (Some n))
       else if e = CHR 0x5C \<or> e = CHR ''/'' \<or> e = CHR ''b'' \<or> e = CHR ''f'' \<or> e = CHR ''n'' \<or> e = CHR ''r'' \<or>
           e = CHR ''t'' \<or> e = CHR ''v'' \<or> e = CHR 0x22 then string_token (drop 1 s) (n + 1)
       else Inl (Some n)
     else if c = CHR 0x22 then Inr (n + 1)
     else string_token s (n + 1))"

fun decode_chars :: "string \<Rightarrow> string option" where
  "decode_chars [] = Some []"
| "decode_chars [c] = Some []"
| "decode_chars (c # e # s) =
    (if c \<noteq> CHR 0x5C then map_option ((#) c) (decode_chars (e # s))
     else if e = CHR 0x22 \<or> e = CHR ''/'' \<or> e = CHR 0x5C then map_option ((#) e) (decode_chars s)
     else if e = CHR ''b'' then map_option ((#) (CHR 0x08)) (decode_chars s)
     else if e = CHR ''f'' then map_option ((#) (CHR 0x0C)) (decode_chars s)
     else if e = CHR ''n'' then map_option ((#) (CHR 0x0A)) (decode_chars s)
     else if e = CHR ''r'' then map_option ((#) (CHR 0x0D)) (decode_chars s)
     else if e = CHR ''t'' then map_option ((#) (CHR 0x09)) (decode_chars s)
     else if e = CHR ''v'' then map_option ((#) (CHR 0x0B)) (decode_chars s)
     else if e = CHR ''x'' then
       (if length s < 2 then None
        else case HexStringToInt (take 2 s) of
          (False, _) \<Rightarrow> None
        | (True, d) \<Rightarrow> map_option ((#) (char_of (uint d))) (decode_chars (drop 2 s)))
     else None)"

text \<open>The text of a token without its first character; its last one is the quote that ends the loop.\<close>

definition DecodeString :: "string \<Rightarrow> string option" where
  "DecodeString text = decode_chars (tl text)"

datatype 'd outcome = Built "'d Value" | Null_pointer | Thrown | Out_of_fuel

definition DecodeNumber :: "('d, 'e) json_doubles_scheme \<Rightarrow> string \<Rightarrow> 'd outcome" where
  "DecodeNumber D num_string =
    (case StringToInt num_string of
       (True, i) \<Rightarrow> Built (IntegerValue i)
     | (False, _) \<Rightarrow> (case StringToDouble D num_string of
         None \<Rightarrow> Thrown
       | Some (ok, d) \<Rightarrow> if ok \<and> IsFinite D d then Built (CreateDoubleValue D d) else Null_pointer))"

subsection \<open>White space and comments\<close>

fun eat_line :: "string \<Rightarrow> string" where
  "eat_line [] = []"
| "eat_line (c # s) = (if c = CHR 0x0A \<or> c = CHR 0x0D then s else eat_line s)"

fun eat_block :: "string \<Rightarrow> string" where
  "eat_block [] = []"
| "eat_block (c # s) = (if c = CHR ''*'' \<and> char_at s 0 = CHR ''/'' then drop 1 s else eat_block s)"

definition EatComment :: "string \<Rightarrow> bool \<times> string" where
  "EatComment pos =
    (if char_at pos 0 \<noteq> CHR ''/'' then (False, pos)
     else if char_at pos 1 = CHR ''/'' then (True, eat_line (drop 2 pos))
     else if char_at pos 1 = CHR ''*'' then (True, eat_block (drop 2 pos))
     else (False, pos))"

lemma eaten: "length (eat_line s) \<le> length s" "length (eat_block s) \<le> length s"
  by (induction s) auto

lemma EatComment_less: "EatComment pos = (True, s) \<Longrightarrow> length s < length pos"
  using eaten [of "drop 2 pos"] by (cases pos) (auto simp: EatComment_def char_at_def split: if_splits)

definition json_space :: "char \<Rightarrow> bool" where
  "json_space c = (c = CHR '' '' \<or> c = CHR 0x0A \<or> c = CHR 0x0D \<or> c = CHR 0x09)"

function EatWhitespaceAndComments :: "string \<Rightarrow> string" where
  "EatWhitespaceAndComments [] = []"
| "EatWhitespaceAndComments (c # s) =
    (if json_space c then EatWhitespaceAndComments s
     else if c = CHR ''/'' then
       (case EatComment (c # s) of
          (True, r) \<Rightarrow> EatWhitespaceAndComments r
        | (False, r) \<Rightarrow> r)
     else c # s)"
  by pat_completeness auto
termination
  by (relation "measure length") (auto dest!: EatComment_less [OF sym])

subsection \<open>The reader\<close>

datatype JsonParseError = JSON_NO_ERROR | JSON_BAD_ROOT_ELEMENT_TYPE | JSON_INVALID_ESCAPE | JSON_SYNTAX_ERROR | JSON_TRAILING_COMMA
  | JSON_TOO_MUCH_NESTING | JSON_UNEXPECTED_DATA_AFTER_ROOT | JSON_UNSUPPORTED_ENCODING | JSON_UNQUOTED_DICTIONARY_KEY

record reader =
  start_pos :: string
  json_pos :: string
  stack_depth :: nat
  allow_trailing_comma :: bool
  error_code :: JsonParseError
  error_line :: nat
  error_col :: nat

definition kStackLimit :: nat where
  "kStackLimit = 100"

fun line_and_column :: "string \<Rightarrow> nat \<times> nat \<Rightarrow> nat \<times> nat" where
  "line_and_column [] lc = lc"
| "line_and_column (c # s) (l, k) = line_and_column s (if c = CHR 0x0A then (l + 1, 1) else (l, k + 1))"

definition SetErrorCode :: "JsonParseError \<Rightarrow> string \<Rightarrow> reader \<Rightarrow> reader" where
  "SetErrorCode e error_pos r =
    (case line_and_column (take (length (start_pos r) - length error_pos) (start_pos r)) (1, 1) of (l, k) \<Rightarrow>
       r\<lparr>error_line := l, error_col := k, error_code := e\<rparr>)"

definition ParseStringToken :: "reader \<Rightarrow> token \<times> reader" where
  "ParseStringToken r = (case string_token (drop 1 (json_pos r)) 1 of
     Inr n \<Rightarrow> (Token STRING n, r)
   | Inl None \<Rightarrow> (CreateInvalidToken, r)
   | Inl (Some n) \<Rightarrow> (CreateInvalidToken, SetErrorCode JSON_INVALID_ESCAPE (drop n (json_pos r)) r))"

definition ParseToken :: "reader \<Rightarrow> token \<times> reader" where
  "ParseToken r =
    (let pos = EatWhitespaceAndComments (json_pos r);
         r = r\<lparr>json_pos := pos\<rparr>;
         c = char_at pos 0 in
     if c = CHR 0x00 then (Token END_OF_INPUT 0, r)
     else if c = CHR ''n'' then (if NextStringMatch pos ''null'' then Token NULL_TOKEN 4 else CreateInvalidToken, r)
     else if c = CHR ''t'' then (if NextStringMatch pos ''true'' then Token BOOL_TRUE 4 else CreateInvalidToken, r)
     else if c = CHR ''f'' then (if NextStringMatch pos ''false'' then Token BOOL_FALSE 5 else CreateInvalidToken, r)
     else if c = CHR ''['' then (Token ARRAY_BEGIN 1, r)
     else if c = CHR '']'' then (Token ARRAY_END 1, r)
     else if c = CHR '','' then (Token LIST_SEPARATOR 1, r)
     else if c = CHR ''{'' then (Token OBJECT_BEGIN 1, r)
     else if c = CHR ''}'' then (Token OBJECT_END 1, r)
     else if c = CHR '':'' then (Token OBJECT_PAIR_SEPARATOR 1, r)
     else if IsAsciiDigit c \<or> c = CHR ''-'' then (ParseNumberToken pos, r)
     else if c = CHR 0x22 then ParseStringToken r
     else (CreateInvalidToken, r))"

definition token_text :: "token \<Rightarrow> reader \<Rightarrow> string" where
  "token_text t r = take (token_length t) (json_pos r)"

definition pass_token :: "token \<Rightarrow> reader \<Rightarrow> reader" where
  "pass_token t r = r\<lparr>json_pos := drop (token_length t) (json_pos r)\<rparr>"

text \<open>Behind the switch: the token is passed and the level left.\<close>

definition leave :: "'d outcome \<Rightarrow> token \<Rightarrow> reader \<Rightarrow> 'd outcome \<times> reader" where
  "leave node t r = (case node of
     Built v \<Rightarrow> (node, (pass_token t r)\<lparr>stack_depth := stack_depth r - 1\<rparr>)
   | _ \<Rightarrow> (node, r))"

text \<open>
  \<open>BuildValue\<close> with the loops over the elements of a list and the entries of a dictionary. The fuel bounds the nested calls.
\<close>

fun BuildValue :: "('d, 'e) json_doubles_scheme \<Rightarrow> nat \<Rightarrow> bool \<Rightarrow> reader \<Rightarrow> 'd outcome \<times> reader"
  and array_loop :: "('d, 'e) json_doubles_scheme \<Rightarrow> nat \<Rightarrow> 'd Value list \<Rightarrow> token \<Rightarrow> reader \<Rightarrow> 'd outcome \<times> token \<times> reader"
  and object_loop :: "('d, 'e) json_doubles_scheme \<Rightarrow> nat \<Rightarrow> 'd ValueMap \<Rightarrow> token \<Rightarrow> reader \<Rightarrow> 'd outcome \<times> token \<times> reader" where
  "BuildValue D 0 is_root r = (Out_of_fuel, r)"
| "BuildValue D (Suc n) is_root r =
    (let r = r\<lparr>stack_depth := stack_depth r + 1\<rparr> in
     if stack_depth r > kStackLimit then (Null_pointer, SetErrorCode JSON_TOO_MUCH_NESTING (json_pos r) r)
     else case ParseToken r of (t, r) \<Rightarrow>
       if is_root \<and> token_type t \<noteq> OBJECT_BEGIN \<and> token_type t \<noteq> ARRAY_BEGIN
       then (Null_pointer, SetErrorCode JSON_BAD_ROOT_ELEMENT_TYPE (json_pos r) r)
       else case token_type t of
         NULL_TOKEN \<Rightarrow> leave (Built NullValue) t r
       | BOOL_TRUE \<Rightarrow> leave (Built (BooleanValue True)) t r
       | BOOL_FALSE \<Rightarrow> leave (Built (BooleanValue False)) t r
       | NUMBER \<Rightarrow> leave (DecodeNumber D (token_text t r)) t r
       | STRING \<Rightarrow> leave (case DecodeString (token_text t r) of None \<Rightarrow> Null_pointer | Some s \<Rightarrow> Built (StringValue s)) t r
       | ARRAY_BEGIN \<Rightarrow>
           (case ParseToken (pass_token t r) of (t, r) \<Rightarrow>
              case array_loop D n [] t r of (node, t, r) \<Rightarrow> leave node t r)
       | OBJECT_BEGIN \<Rightarrow>
           (case ParseToken (pass_token t r) of (t, r) \<Rightarrow>
              case object_loop D n [] t r of (node, t, r) \<Rightarrow> leave node t r)
       | _ \<Rightarrow> (Null_pointer, r))"
| "array_loop D 0 l t r = (Out_of_fuel, t, r)"
| "array_loop D (Suc n) l t r =
    (if token_type t = ARRAY_END then (Built (ListValue l), t, r)
     else case BuildValue D n False r of
       (Built v, r) \<Rightarrow>
         (let l = ListValue_Append v l in
          case ParseToken r of (t, r) \<Rightarrow>
            if token_type t = LIST_SEPARATOR then
              (case ParseToken (pass_token t r) of (t, r) \<Rightarrow>
                 if token_type t = ARRAY_END then
                   (if \<not> allow_trailing_comma r then (Null_pointer, t, SetErrorCode JSON_TRAILING_COMMA (json_pos r) r)
                    else (Built (ListValue l), t, r))
                 else array_loop D n l t r)
            else if token_type t \<noteq> ARRAY_END then (Null_pointer, t, r)
            else (Built (ListValue l), t, r))
     | (failure, r) \<Rightarrow> (failure, t, r))"
| "object_loop D 0 d t r = (Out_of_fuel, t, r)"
| "object_loop D (Suc n) d t r =
    (if token_type t = OBJECT_END then (Built (DictionaryValue d), t, r)
     else if token_type t \<noteq> STRING then (Null_pointer, t, SetErrorCode JSON_UNQUOTED_DICTIONARY_KEY (json_pos r) r)
     else case DecodeString (token_text t r) of
       None \<Rightarrow> (Null_pointer, t, r)
     | Some dict_key \<Rightarrow>
       (case ParseToken (pass_token t r) of (t, r) \<Rightarrow>
          if token_type t \<noteq> OBJECT_PAIR_SEPARATOR then (Null_pointer, t, r)
          else case ParseToken (pass_token t r) of (t, r) \<Rightarrow>
            case BuildValue D n False r of
              (Built dict_value, r) \<Rightarrow>
                (let d = SetWithoutPathExpansion dict_key dict_value d in
                 case ParseToken r of (t, r) \<Rightarrow>
                   if token_type t = LIST_SEPARATOR then
                     (case ParseToken (pass_token t r) of (t, r) \<Rightarrow>
                        if token_type t = OBJECT_END then
                          (if \<not> allow_trailing_comma r then (Null_pointer, t, SetErrorCode JSON_TRAILING_COMMA (json_pos r) r)
                           else (Built (DictionaryValue d), t, r))
                        else object_loop D n d t r)
                   else if token_type t \<noteq> OBJECT_END then (Null_pointer, t, r)
                   else (Built (DictionaryValue d), t, r))
            | (failure, r) \<Rightarrow> (failure, t, r)))"

declare BuildValue.simps(2) [simp del] array_loop.simps(2) [simp del] object_loop.simps(2) [simp del]

text \<open>The byte order mark in front is passed over.\<close>

definition JsonToValue :: "('d, 'e) json_doubles_scheme \<Rightarrow> string \<Rightarrow> bool \<Rightarrow> bool \<Rightarrow> 'd outcome \<times> reader" where
  "JsonToValue D json check_root trailing =
    (let s = (if length json \<ge> 3 \<and> json ! 0 = CHR 0xEF \<and> json ! 1 = CHR 0xBB \<and> json ! 2 = CHR 0xBF then drop 3 json else json);
         r = \<lparr>start_pos = s, json_pos = s, stack_depth = 0, allow_trailing_comma = trailing,
              error_code = JSON_NO_ERROR, error_line = 0, error_col = 0\<rparr> in
     case BuildValue D (2 * length s + 1) check_root r of
       (Built root, r) \<Rightarrow>
         (case ParseToken r of (t, r) \<Rightarrow>
            if token_type t = END_OF_INPUT then (Built root, r)
            else (Null_pointer, SetErrorCode JSON_UNEXPECTED_DATA_AFTER_ROOT (json_pos r) r))
     | (Null_pointer, r) \<Rightarrow>
         (Null_pointer, if error_code r = JSON_NO_ERROR then SetErrorCode JSON_SYNTAX_ERROR (json_pos r) r else r)
     | other \<Rightarrow> other)"

fun ErrorCodeToString :: "JsonParseError \<Rightarrow> string" where
  "ErrorCodeToString JSON_NO_ERROR = []"
| "ErrorCodeToString JSON_BAD_ROOT_ELEMENT_TYPE = ''Root value must be an array or object.''"
| "ErrorCodeToString JSON_INVALID_ESCAPE = ''Invalid escape sequence.''"
| "ErrorCodeToString JSON_SYNTAX_ERROR = ''Syntax error.''"
| "ErrorCodeToString JSON_TRAILING_COMMA = ''Trailing comma not allowed.''"
| "ErrorCodeToString JSON_TOO_MUCH_NESTING = ''Too much nesting.''"
| "ErrorCodeToString JSON_UNEXPECTED_DATA_AFTER_ROOT = ''Unexpected data after root element.''"
| "ErrorCodeToString JSON_UNSUPPORTED_ENCODING = ''Unsupported encoding. JSON must be UTF-8.''"
| "ErrorCodeToString JSON_UNQUOTED_DICTIONARY_KEY = ''Dictionary keys must be quoted.''"

definition FormatErrorMessage :: "nat \<Rightarrow> nat \<Rightarrow> string \<Rightarrow> string" where
  "FormatErrorMessage line column description =
    (if line \<noteq> 0 \<or> column \<noteq> 0
     then ''Line: '' @ IntToString (of_nat line) @ '', column: '' @ IntToString (of_nat column) @ '', '' @ description
     else description)"

definition GetErrorMessage :: "reader \<Rightarrow> string" where
  "GetErrorMessage r = FormatErrorMessage (error_line r) (error_col r) (ErrorCodeToString (error_code r))"

text \<open>The value, or the code and the message of the error.\<close>

definition ReadAndReturnError ::
    "('d, 'e) json_doubles_scheme \<Rightarrow> string \<Rightarrow> bool \<Rightarrow> 'd outcome \<times> (JsonParseError \<times> string) option" where
  "ReadAndReturnError D json trailing = (case JsonToValue D json True trailing of
     (Null_pointer, r) \<Rightarrow> (Null_pointer, Some (error_code r, GetErrorMessage r))
   | (node, r) \<Rightarrow> (node, None))"

definition Read :: "('d, 'e) json_doubles_scheme \<Rightarrow> string \<Rightarrow> bool \<Rightarrow> 'd outcome" where
  "Read D json trailing = fst (ReadAndReturnError D json trailing)"


subsection \<open>Every token takes something\<close>

abbreviation rest :: "reader \<Rightarrow> nat" where
  "rest r \<equiv> length (json_pos r)"

lemma eaten_space: "length (EatWhitespaceAndComments s) \<le> length s"
proof (induction s rule: EatWhitespaceAndComments.induct)
  case (2 c s)
  obtain b r where e: "EatComment (c # s) = (b, r)" by (cases "EatComment (c # s)")
  have "length (EatWhitespaceAndComments (c # s)) \<le> length (c # s)" if "\<not> json_space c" "c = CHR ''/''"
  proof (cases b)
    case True
    then have "length (EatWhitespaceAndComments r) \<le> length r" using 2(2) that e by simp
    then show ?thesis using EatComment_less [of "c # s" r] that e True by simp
  next
    case False
    then have "r = c # s" using e by (simp add: EatComment_def split: if_splits)
    then show ?thesis using that e False by simp
  qed
  then show ?case using 2(1) by (cases "json_space c"; cases "c = CHR ''/''") simp_all
qed simp

lemma SetErrorCode_frame [simp]:
  "json_pos (SetErrorCode e p r) = json_pos r" "stack_depth (SetErrorCode e p r) = stack_depth r"
  "allow_trailing_comma (SetErrorCode e p r) = allow_trailing_comma r" "start_pos (SetErrorCode e p r) = start_pos r"
  "error_code (SetErrorCode e p r) = e"
  by (simp_all add: SetErrorCode_def split: prod.split)

lemma Token_simps [simp]: "token_type (Token t n) = t" "token_length (Token t n) = n"
  "token_type CreateInvalidToken = INVALID_TOKEN"
  by (simp_all add: Token_def CreateInvalidToken_def)

lemma ReadInt_longer: "ReadInt pos n z = Some m \<Longrightarrow> n < m"
  by (auto simp: ReadInt_def Let_def split: if_splits)

lemma ReadInt_pos: "ReadInt pos n z = Some m \<Longrightarrow> 0 < m"
  using ReadInt_longer by fastforce

lemma number_token: "token_type (ParseNumberToken pos) = INVALID_TOKEN \<or>
    token_type (ParseNumberToken pos) = NUMBER \<and> 0 < token_length (ParseNumberToken pos)"
proof -
  define n where "n = (if char_at pos 0 = CHR ''-'' then 1 else 0 :: nat)"
  show ?thesis
  proof (cases "ReadInt pos n False")
    case None
    then show ?thesis by (simp add: ParseNumberToken_def flip: n_def)
  next
    case (Some a)
    define f where "f = (if char_at pos a = CHR ''.'' then ReadInt pos (a + 1) True else Some a)"
    have a: "0 < a" using ReadInt_longer [OF Some] by simp
    show ?thesis
    proof (cases f)
      case None
      then show ?thesis using Some by (simp add: ParseNumberToken_def flip: n_def f_def)
    next
      case f: (Some b)
      have "0 < b" using a f ReadInt_longer [of pos "a + 1" True b] by (simp add: f_def split: if_splits)
      then show ?thesis
        using Some f by (auto simp: ParseNumberToken_def Let_def simp flip: n_def f_def dest: ReadInt_pos split: option.split)
    qed
  qed
qed

lemma string_token_longer: "string_token s n = Inr m \<Longrightarrow> n < m"
proof (induction "length s" arbitrary: s n rule: less_induct)
  case less
  show ?case
  proof (cases s)
    case (Cons c s')
    have "n < m" if "string_token t k = Inr m" "n < k" "length t \<le> length s'" for t k
      using less.hyps [of t k] that Cons by simp
    then show ?thesis using less.prems unfolding Cons by (auto simp: Let_def split: if_splits)
  qed (use less.prems in simp)
qed

definition took :: "reader \<Rightarrow> token \<times> reader \<Rightarrow> bool" where
  "took r p \<longleftrightarrow> (case p of (t, r') \<Rightarrow>
     rest r' \<le> rest r \<and> stack_depth r' = stack_depth r \<and> allow_trailing_comma r' = allow_trailing_comma r \<and>
     (token_type t = END_OF_INPUT \<or> token_type t = INVALID_TOKEN \<or> 0 < token_length t \<and> 0 < rest r'))"

lemma took_string:
  assumes "0 < rest r"
  shows "took r (ParseStringToken r)"
  using assms string_token_longer [of "drop 1 (json_pos r)" 1]
  by (fastforce simp: ParseStringToken_def took_def split: sum.split option.split)

lemma took_token: "took r (ParseToken r)"
proof -
  define s where "s = EatWhitespaceAndComments (json_pos r)"
  have l: "length s \<le> rest r" unfolding s_def by (rule eaten_space)
  show ?thesis
  proof (cases "char_at s 0 = CHR 0x00")
    case True
    then show ?thesis using l by (simp add: ParseToken_def took_def flip: s_def)
  next
    case False
    then have "0 < length s" by (auto simp: char_at_def)
    then have "took r (ParseStringToken (r\<lparr>json_pos := s\<rparr>))"
      using took_string [of "r\<lparr>json_pos := s\<rparr>"] l by (auto simp: took_def split: prod.splits)
    then show ?thesis using l \<open>0 < length s\<close> number_token [of s] by (auto simp: ParseToken_def took_def Let_def simp flip: s_def)
  qed
qed

lemma ParseToken_took:
  assumes "ParseToken r = (t, r')"
  shows "rest r' \<le> rest r" "stack_depth r' = stack_depth r" "allow_trailing_comma r' = allow_trailing_comma r"
    and "token_type t \<noteq> END_OF_INPUT \<Longrightarrow> token_type t \<noteq> INVALID_TOKEN \<Longrightarrow> rest (pass_token t r') < rest r"
proof -
  note k = took_token [of r, unfolded assms took_def prod.case]
  show "rest r' \<le> rest r" "stack_depth r' = stack_depth r" "allow_trailing_comma r' = allow_trailing_comma r"
    using k by blast+
  assume "token_type t \<noteq> END_OF_INPUT" "token_type t \<noteq> INVALID_TOKEN"
  then have "0 < token_length t" "0 < rest r'" "rest r' \<le> rest r" using k by blast+
  moreover have "rest (pass_token t r') = rest r' - token_length t" by (simp add: pass_token_def)
  ultimately show "rest (pass_token t r') < rest r" by linarith
qed

lemma pass_token_frame [simp]:
  "stack_depth (pass_token t r) = stack_depth r" "allow_trailing_comma (pass_token t r) = allow_trailing_comma r"
  "json_pos (pass_token t r) = drop (token_length t) (json_pos r)" "start_pos (pass_token t r) = start_pos r"
  by (simp_all add: pass_token_def)

end
