(* ===== verification/Json_Types.thy ===== *)
theory Json_Types
  imports Json_Reader
begin

section \<open>What the JSON reader returns\<close>

text \<open>
  The reader ends on every text, and what it builds is well formed: no deeper than the stack limit, without binary values,
  with ordered keys and finite doubles; an exception leaves it only where \<open>std::stod\<close> throws on a number of the text.
\<close>

fun levels :: "'d Value \<Rightarrow> nat"
  and list_levels :: "'d Value list \<Rightarrow> nat"
  and dict_levels :: "'d ValueMap \<Rightarrow> nat" where
  "levels (ListValue l) = Suc (list_levels l)"
| "levels (DictionaryValue d) = Suc (dict_levels d)"
| "levels _ = 1"
| "list_levels [] = 0"
| "list_levels (v # l) = max (levels v) (list_levels l)"
| "dict_levels [] = 0"
| "dict_levels (e # d) = max (levels (snd e)) (dict_levels d)"

fun no_binary :: "'d Value \<Rightarrow> bool"
  and list_no_binary :: "'d Value list \<Rightarrow> bool"
  and dict_no_binary :: "'d ValueMap \<Rightarrow> bool" where
  "no_binary (ListValue l) \<longleftrightarrow> list_no_binary l"
| "no_binary (DictionaryValue d) \<longleftrightarrow> dict_no_binary d"
| "no_binary (BinaryValue _) \<longleftrightarrow> False"
| "no_binary _ \<longleftrightarrow> True"
| "list_no_binary [] \<longleftrightarrow> True"
| "list_no_binary (v # l) \<longleftrightarrow> no_binary v \<and> list_no_binary l"
| "dict_no_binary [] \<longleftrightarrow> True"
| "dict_no_binary (e # d) \<longleftrightarrow> no_binary (snd e) \<and> dict_no_binary d"

lemma list_levels_append [simp]: "list_levels (l @ m) = max (list_levels l) (list_levels m)"
  by (induction l) auto

lemma list_no_binary_append [simp]: "list_no_binary (l @ m) \<longleftrightarrow> list_no_binary l \<and> list_no_binary m"
  by (induction l) auto

text \<open>A value that fits at a depth; the elements of a list or of a dictionary that stands at that depth.\<close>

definition fits_at :: "('d, 'e) doubles_scheme \<Rightarrow> nat \<Rightarrow> 'd Value \<Rightarrow> bool" where
  "fits_at D k v \<longleftrightarrow> wf_Value D v \<and> no_binary v \<and> k + levels v \<le> kStackLimit"

lemma fits_set: "fits_at D k (DictionaryValue d) \<Longrightarrow> fits_at D (Suc k) v \<Longrightarrow>
  fits_at D k (DictionaryValue (SetWithoutPathExpansion key v d))"
proof -
  assume d: "fits_at D k (DictionaryValue d)" and v: "fits_at D (Suc k) v"
  have "k + Suc (dict_levels (SetWithoutPathExpansion key v d)) \<le> kStackLimit"
    using d v by (induction d) (auto simp: fits_at_def max_def wf_map_def ordered_Cons split: if_splits)
  moreover have "dict_no_binary (SetWithoutPathExpansion key v d)"
    using d v by (induction d) (auto simp: fits_at_def wf_map_def ordered_Cons)
  ultimately show ?thesis using d v by (auto simp: fits_at_def wf_map_set)
qed

lemma fits_append: "fits_at D k (ListValue l) \<Longrightarrow> fits_at D (Suc k) v \<Longrightarrow> fits_at D k (ListValue (ListValue_Append v l))"
  by (auto simp: fits_at_def ListValue_Append_def max_def)

definition built_ok :: "('d, 'e) doubles_scheme \<Rightarrow> reader \<Rightarrow> 'd outcome \<times> reader \<Rightarrow> bool" where
  "built_ok D r p \<longleftrightarrow> (case p of
     (Built v, r') \<Rightarrow> rest r' < rest r \<and> stack_depth r' = stack_depth r \<and> fits_at D (stack_depth r) v
   | (Out_of_fuel, r') \<Rightarrow> False
   | _ \<Rightarrow> True)"

text \<open>The loops run one level below the value they build.\<close>

definition loop_ok :: "('d, 'e) doubles_scheme \<Rightarrow> reader \<Rightarrow> 'd outcome \<times> token \<times> reader \<Rightarrow> bool" where
  "loop_ok D r p \<longleftrightarrow> (case p of
     (Built v, t, r') \<Rightarrow> rest r' \<le> rest r \<and> stack_depth r' = stack_depth r \<and> fits_at D (stack_depth r - 1) v
   | (Out_of_fuel, t, r') \<Rightarrow> False
   | _ \<Rightarrow> True)"

definition leaf :: "('d, 'e) doubles_scheme \<Rightarrow> 'd Value \<Rightarrow> bool" where
  "leaf D v \<longleftrightarrow> wf_Value D v \<and> no_binary v \<and> levels v = 1"

lemma DecodeNumber_leaf: "DecodeNumber D s \<noteq> Out_of_fuel" "DecodeNumber D s = Built v \<Longrightarrow> leaf D v"
  by (auto simp: DecodeNumber_def CreateDoubleValue_def leaf_def split: prod.splits bool.splits option.splits if_splits)

lemma leafs: "leaf D (StringValue s)" "leaf D NullValue" "leaf D (BooleanValue b)"
  by (simp_all add: leaf_def)

lemma array_step:
  assumes build: "\<And>r. 2 * rest r + 1 \<le> n \<Longrightarrow> built_ok D r (BuildValue D n False r)"
    and loop: "\<And>l t r. 2 * rest r + 2 \<le> n \<Longrightarrow> 0 < stack_depth r \<Longrightarrow> fits_at D (stack_depth r - 1) (ListValue l) \<Longrightarrow>
      loop_ok D r (array_loop D n l t r)"
    and r: "2 * rest r + 2 \<le> Suc n" "0 < stack_depth r" "fits_at D (stack_depth r - 1) (ListValue l)"
  shows "loop_ok D r (array_loop D (Suc n) l t r)"
proof (cases "token_type t = ARRAY_END")
  case True
  then show ?thesis using r by (simp add: array_loop.simps(2) loop_ok_def)
next
  case False
  obtain o1 r1 where b: "BuildValue D n False r = (o1, r1)" by (cases "BuildValue D n False r")
  then have o1: "built_ok D r (o1, r1)" using build [of r] r by simp
  show ?thesis
  proof (cases o1)
    case (Built v)
    obtain t2 r2 where p2: "ParseToken r1 = (t2, r2)" by (cases "ParseToken r1")
    obtain t3 r3 where p3: "ParseToken (pass_token t2 r2) = (t3, r3)" by (cases "ParseToken (pass_token t2 r2)")
    note k = ParseToken_took [OF p2] ParseToken_took [OF p3]
    have v: "rest r1 < rest r" "stack_depth r1 = stack_depth r" "fits_at D (stack_depth r) v"
      using o1 Built by (simp_all add: built_ok_def)
    have l: "fits_at D (stack_depth r - 1) (ListValue (ListValue_Append v l))"
      using v(3) r(2,3) by (intro fits_append) simp_all
    have s: "loop_ok D r (array_loop D n (ListValue_Append v l) t3 r3)"
    proof -
      have "loop_ok D r3 (array_loop D n (ListValue_Append v l) t3 r3)"
        using k v r(1,2) l by (intro loop) auto
      then show ?thesis using k v by (auto simp: loop_ok_def split: prod.splits outcome.splits)
    qed
    show ?thesis
      using False l s k v(1,2)
      by (auto simp: array_loop.simps(2) b Built Let_def p2 p3 loop_ok_def split del: if_split split: if_split)
  qed (use o1 False in \<open>simp_all add: array_loop.simps(2) b loop_ok_def built_ok_def\<close>)
qed


lemma object_step:
  assumes build: "\<And>r. 2 * rest r + 1 \<le> n \<Longrightarrow> built_ok D r (BuildValue D n False r)"
    and loop: "\<And>d t r. 2 * rest r + 2 \<le> n \<Longrightarrow> 0 < stack_depth r \<Longrightarrow> fits_at D (stack_depth r - 1) (DictionaryValue d) \<Longrightarrow>
      loop_ok D r (object_loop D n d t r)"
    and r: "2 * rest r + 2 \<le> Suc n" "0 < stack_depth r" "fits_at D (stack_depth r - 1) (DictionaryValue d)"
  shows "loop_ok D r (object_loop D (Suc n) d t r)"
proof (cases "token_type t = STRING")
  case False
  then show ?thesis using r by (simp add: object_loop.simps(2) loop_ok_def)
next
  case string: True
  show ?thesis
  proof (cases "DecodeString (token_text t r)")
    case (Some key)
    obtain ta ra where pa: "ParseToken (pass_token t r) = (ta, ra)" by (cases "ParseToken (pass_token t r)")
    show ?thesis
    proof (cases "token_type ta = OBJECT_PAIR_SEPARATOR")
      case True
      obtain tb rb where pb: "ParseToken (pass_token ta ra) = (tb, rb)" by (cases "ParseToken (pass_token ta ra)")
      note kb = ParseToken_took [OF pa] ParseToken_took [OF pb]
      have rb: "rest rb \<le> rest r" "stack_depth rb = stack_depth r" using kb True by auto
      obtain o1 r1 where b: "BuildValue D n False rb = (o1, r1)" by (cases "BuildValue D n False rb")
      then have o1: "built_ok D rb (o1, r1)" using build [of rb] r(1) rb(1) by simp
      note u = object_loop.simps(2) string Some pa pb True b
      show ?thesis
      proof (cases o1)
        case (Built v)
        obtain t2 r2 where p2: "ParseToken r1 = (t2, r2)" by (cases "ParseToken r1")
        obtain t3 r3 where p3: "ParseToken (pass_token t2 r2) = (t3, r3)" by (cases "ParseToken (pass_token t2 r2)")
        note k = ParseToken_took [OF p2] ParseToken_took [OF p3]
        have v: "rest r1 < rest r" "stack_depth r1 = stack_depth r" "fits_at D (stack_depth r) v"
          using o1 Built rb by (simp_all add: built_ok_def)
        have l: "fits_at D (stack_depth r - 1) (DictionaryValue (SetWithoutPathExpansion key v d))"
          using v(3) r(2,3) by (intro fits_set) simp_all
        have s: "loop_ok D r (object_loop D n (SetWithoutPathExpansion key v d) t3 r3)"
        proof -
          have "loop_ok D r3 (object_loop D n (SetWithoutPathExpansion key v d) t3 r3)"
            using k v r(1,2) l by (intro loop) auto
          then show ?thesis using k v by (auto simp: loop_ok_def split: prod.splits outcome.splits)
        qed
        show ?thesis
          using l s k v(1,2)
          by (auto simp: u Built Let_def p2 p3 loop_ok_def split del: if_split split: if_split)
      qed (use o1 in \<open>simp_all add: u loop_ok_def built_ok_def\<close>)
    qed (simp add: object_loop.simps(2) string Some pa loop_ok_def)
  qed (simp add: object_loop.simps(2) string loop_ok_def)
qed

lemma leave_ok:
  assumes "rest (pass_token t r') < rest r" "stack_depth r' = Suc (stack_depth r)"
    and "node \<noteq> Out_of_fuel" "\<And>v. node = Built v \<Longrightarrow> fits_at D (stack_depth r) v"
  shows "built_ok D r (leave node t r')"
  using assms by (cases node) (simp_all add: leave_def built_ok_def)

lemma leave_loop:
  assumes "loop_ok D r1 (node, t, r')" "rest r1 < rest r" "stack_depth r1 = Suc (stack_depth r)"
  shows "built_ok D r (leave node t r')"
  using assms by (cases node) (auto simp: leave_def built_ok_def loop_ok_def)

lemma build_step:
  assumes array: "\<And>l t r. 2 * rest r + 2 \<le> n \<Longrightarrow> 0 < stack_depth r \<Longrightarrow> fits_at D (stack_depth r - 1) (ListValue l) \<Longrightarrow>
      loop_ok D r (array_loop D n l t r)"
    and object: "\<And>d t r. 2 * rest r + 2 \<le> n \<Longrightarrow> 0 < stack_depth r \<Longrightarrow> fits_at D (stack_depth r - 1) (DictionaryValue d) \<Longrightarrow>
      loop_ok D r (object_loop D n d t r)"
    and r: "2 * rest r + 1 \<le> Suc n"
  shows "built_ok D r (BuildValue D (Suc n) root r)"
proof (cases "Suc (stack_depth r) > kStackLimit")
  case False
  let ?r = "r\<lparr>stack_depth := Suc (stack_depth r)\<rparr>"
  obtain t r1 where p: "ParseToken ?r = (t, r1)" by (cases "ParseToken ?r")
  obtain t2 r2 where p2: "ParseToken (pass_token t r1) = (t2, r2)" by (cases "ParseToken (pass_token t r1)")
  note k = ParseToken_took [OF p, simplified] ParseToken_took [OF p2]
  show ?thesis
  proof (cases "root \<and> token_type t \<noteq> OBJECT_BEGIN \<and> token_type t \<noteq> ARRAY_BEGIN")
    case True
    then show ?thesis using False by (simp add: BuildValue.simps(2) p built_ok_def)
  next
    case go: False
    note u = BuildValue.simps(2) False go p p2 Let_def
    have lv: "built_ok D r (leave node t r1)"
      if "token_type t \<noteq> END_OF_INPUT" "token_type t \<noteq> INVALID_TOKEN" "node \<noteq> Out_of_fuel" "\<And>v. node = Built v \<Longrightarrow> leaf D v" for node
      using that k(1-4) False by (intro leave_ok) (auto simp: fits_at_def leaf_def)
    show ?thesis
    proof (cases "token_type t = ARRAY_BEGIN \<or> token_type t = OBJECT_BEGIN")
      case True
      then have l: "rest r2 < rest r" "stack_depth r2 = Suc (stack_depth r)" using k by auto
      have e: "fits_at D (stack_depth r2 - 1) (ListValue [])" "fits_at D (stack_depth r2 - 1) (DictionaryValue [])"
        using False l(2) by (simp_all add: fits_at_def)
      have "loop_ok D r2 (array_loop D n [] t2 r2)" "loop_ok D r2 (object_loop D n [] t2 r2)"
        using l r e by (auto intro!: array object)
      then show ?thesis using True leave_loop [OF _ l] by (auto simp: u split: prod.split)
    next
      case False
      then show ?thesis
      proof (cases "token_type t")
        case NUMBER
        then show ?thesis using go lv [of "DecodeNumber D (token_text t r1)"] by (simp add: u DecodeNumber_leaf)
      next
        case STRING
        then show ?thesis
          using go lv [of "case DecodeString (token_text t r1) of None \<Rightarrow> Null_pointer | Some s \<Rightarrow> Built (StringValue s)"]
          by (cases "DecodeString (token_text t r1)") (simp_all add: u leafs)
      qed (use False go lv [of "Built NullValue"] lv [of "Built (BooleanValue True)"] lv [of "Built (BooleanValue False)"]
        in \<open>simp_all add: u leafs built_ok_def [of D r "(Null_pointer, _)"]\<close>)
    qed
  qed
qed (simp add: BuildValue.simps(2) Let_def built_ok_def)


lemma reader_ok:
  "(\<forall>r root. 2 * rest r + 1 \<le> n \<longrightarrow> built_ok D r (BuildValue D n root r)) \<and>
   (\<forall>l t r. 2 * rest r + 2 \<le> n \<longrightarrow> 0 < stack_depth r \<longrightarrow> fits_at D (stack_depth r - 1) (ListValue l) \<longrightarrow>
      loop_ok D r (array_loop D n l t r)) \<and>
   (\<forall>d t r. 2 * rest r + 2 \<le> n \<longrightarrow> 0 < stack_depth r \<longrightarrow> fits_at D (stack_depth r - 1) (DictionaryValue d) \<longrightarrow>
      loop_ok D r (object_loop D n d t r))"
proof (induction n)
  case (Suc n)
  then show ?case by (blast intro: build_step array_step object_step)
qed simp

text \<open>With the root checked the value is a list or a dictionary.\<close>

lemma array_loop_type: "fst (array_loop D n l t r) = Built v \<Longrightarrow> GetType v = TYPE_LIST"
proof (induction n arbitrary: l t r)
  case (Suc n)
  then show ?case by (auto simp: array_loop.simps(2) Let_def split: prod.splits outcome.splits if_splits)
qed simp

lemma object_loop_type: "fst (object_loop D n d t r) = Built v \<Longrightarrow> GetType v = TYPE_DICTIONARY"
proof (induction n arbitrary: d t r)
  case (Suc n)
  then show ?case
    by (auto simp: object_loop.simps(2) Let_def split: prod.splits outcome.splits if_splits option.splits)
qed simp

lemma leave_built: "fst (leave node t r) = Built v \<Longrightarrow> node = Built v"
  by (cases node) (simp_all add: leave_def)

lemma root_type: "fst (BuildValue D n True r) = Built v \<Longrightarrow> GetType v \<in> {TYPE_LIST, TYPE_DICTIONARY}"
proof (cases n)
  case (Suc m)
  assume b: "fst (BuildValue D n True r) = Built v"
  let ?r = "r\<lparr>stack_depth := Suc (stack_depth r)\<rparr>"
  obtain t r1 where p: "ParseToken ?r = (t, r1)" by (cases "ParseToken ?r")
  obtain t2 r2 where p2: "ParseToken (pass_token t r1) = (t2, r2)" by (cases "ParseToken (pass_token t r1)")
  obtain o1 t3 r3 where a: "array_loop D m [] t2 r2 = (o1, t3, r3)" by (cases "array_loop D m [] t2 r2")
  obtain o2 t4 r4 where o: "object_loop D m [] t2 r2 = (o2, t4, r4)" by (cases "object_loop D m [] t2 r2")
  have "token_type t = ARRAY_BEGIN \<or> token_type t = OBJECT_BEGIN"
    using b by (auto simp: Suc BuildValue.simps(2) p Let_def split: if_splits)
  then show ?thesis
    using b array_loop_type [of D m "[]" t2 r2 v] object_loop_type [of D m "[]" t2 r2 v]
    by (auto simp: Suc BuildValue.simps(2) p p2 a o Let_def dest!: leave_built split: if_splits)
qed simp

subsection \<open>Where the reader throws\<close>

text \<open>Somewhere in the text stands a number token that is no 32-bit integer and on which \<open>std::stod\<close> throws.\<close>

definition stod_throws :: "('d, 'e) json_doubles_scheme \<Rightarrow> string \<Rightarrow> bool" where
  "stod_throws D json \<longleftrightarrow> (\<exists>n k. ParseNumberToken (drop n json) = Token NUMBER k \<and>
     \<not> fst (StringToInt (take k (drop n json))) \<and> std_stod D (take k (drop n json)) = None)"

lemma stod_throws_suffix: "suffix p q \<Longrightarrow> stod_throws D p \<Longrightarrow> stod_throws D q"
  unfolding stod_throws_def suffix_def by (metis append_eq_conv_conj drop_drop)

lemma line_suffix: "suffix (eat_line s) s"
  by (induction s) (simp_all add: suffix_ConsI)

lemma block_suffix: "suffix (eat_block s) s"
proof (induction s)
  case (Cons c s)
  have "suffix (drop 1 s) (c # s)" by (rule suffix_ConsI, rule suffix_drop)
  moreover have "suffix (eat_block s) (c # s)" using Cons by (rule suffix_ConsI)
  ultimately show ?case by (cases "c = CHR ''*'' \<and> char_at s 0 = CHR ''/''") (simp_all only: eat_block.simps if_True if_False simp_thms)
qed simp

lemma EatComment_suffix: "EatComment pos = (b, s) \<Longrightarrow> suffix s pos"
  using suffix_order.trans [OF line_suffix suffix_drop, of 2 pos] suffix_order.trans [OF block_suffix suffix_drop, of 2 pos]
  by (auto simp: EatComment_def split: if_splits)

lemma space_suffix: "suffix (EatWhitespaceAndComments s) s"
proof (induction s rule: EatWhitespaceAndComments.induct)
  case (2 c s)
  obtain b r where e: "EatComment (c # s) = (b, r)" by (cases "EatComment (c # s)")
  note r = EatComment_suffix [OF e]
  have "suffix (EatWhitespaceAndComments r) (c # s)" if "\<not> json_space c" "c = CHR ''/''" "b"
  proof -
    have "suffix (EatWhitespaceAndComments r) r" using 2(2) that e by simp
    then show ?thesis using r by (rule suffix_order.trans)
  qed
  moreover have "suffix (EatWhitespaceAndComments s) (c # s)" if "json_space c" using 2(1) that by (simp add: suffix_ConsI)
  ultimately show ?case using e r by (cases "json_space c"; cases "c = CHR ''/''"; cases b) simp_all
qed simp

lemma ParseToken_suffix:
  assumes "ParseToken r = (t, r')"
  shows "suffix (json_pos r') (json_pos r)" "suffix (json_pos (pass_token t r')) (json_pos r)"
    "token_type t = NUMBER \<Longrightarrow> t = ParseNumberToken (json_pos r')"
proof -
  have "json_pos r' = EatWhitespaceAndComments (json_pos r) \<and> (token_type t = NUMBER \<longrightarrow> t = ParseNumberToken (json_pos r'))"
    using assms by (auto simp: ParseToken_def ParseStringToken_def Let_def split: if_splits sum.splits option.splits)
  then show "suffix (json_pos r') (json_pos r)" "suffix (json_pos (pass_token t r')) (json_pos r)"
    "token_type t = NUMBER \<Longrightarrow> t = ParseNumberToken (json_pos r')"
    using space_suffix [of "json_pos r"] suffix_order.trans [OF suffix_drop space_suffix] by simp_all
qed

lemma DecodeNumber_throws:
  assumes "ParseToken r = (t, r')" "token_type t = NUMBER" "DecodeNumber D (token_text t r') = Thrown"
  shows "stod_throws D (json_pos r)"
proof -
  note p = ParseToken_suffix [OF assms(1)]
  obtain k where k: "ParseNumberToken (json_pos r') = Token NUMBER k" "token_length t = k"
    using that [of "token_length t"] p(3) [OF assms(2)] assms(2) by (simp add: Token_def)
  have "\<not> fst (StringToInt (take k (json_pos r')))" "std_stod D (take k (json_pos r')) = None"
    using assms(3) k(2)
    by (auto simp: DecodeNumber_def CreateDoubleValue_def StringToDouble_def token_text_def split: prod.splits bool.splits option.splits if_splits)
  then have "stod_throws D (json_pos r')" unfolding stod_throws_def using k(1) by (intro exI [of _ 0] exI [of _ k]) simp
  then show ?thesis using stod_throws_suffix p(1) by blast
qed

definition passes :: "('d, 'e) json_doubles_scheme \<Rightarrow> reader \<Rightarrow> 'd outcome \<Rightarrow> reader \<Rightarrow> bool" where
  "passes D r node r' \<longleftrightarrow> suffix (json_pos r') (json_pos r) \<and> (node = Thrown \<longrightarrow> stod_throws D (json_pos r))"

lemma passes_trans:
  "passes D r1 node r2 \<Longrightarrow> suffix (json_pos r1) (json_pos r) \<Longrightarrow> passes D r node r2"
  using suffix_order.trans stod_throws_suffix by (auto simp: passes_def)

lemma passes_leave:
  "passes D r node r' \<Longrightarrow> leave node t r' = (node', r2) \<Longrightarrow> passes D r node' r2"
  using suffix_order.trans [OF suffix_drop, of "json_pos r'" "json_pos r"]
  by (cases node) (auto simp: passes_def leave_def)

lemma array_passes:
  assumes build: "\<And>r node r'. BuildValue D n False r = (node, r') \<Longrightarrow> passes D r node r'"
    and loop: "\<And>l t r node t' r'. array_loop D n l t r = (node, t', r') \<Longrightarrow> passes D r node r'"
    and run: "array_loop D (Suc n) l t r = (node, t', r')"
  shows "passes D r node r'"
proof (cases "token_type t = ARRAY_END")
  case True
  then show ?thesis using run by (auto simp: array_loop.simps(2) passes_def)
next
  case False
  obtain o1 r1 where b: "BuildValue D n False r = (o1, r1)" by (cases "BuildValue D n False r")
  note o1 = build [OF b]
  obtain t2 r2 where p2: "ParseToken r1 = (t2, r2)" by (cases "ParseToken r1")
  obtain t3 r3 where p3: "ParseToken (pass_token t2 r2) = (t3, r3)" by (cases "ParseToken (pass_token t2 r2)")
  have s1: "suffix (json_pos r1) (json_pos r)" using o1 by (simp add: passes_def)
  have s2: "suffix (json_pos r2) (json_pos r)" using ParseToken_suffix(1) [OF p2] s1 suffix_order.trans by blast
  have s3: "suffix (json_pos r3) (json_pos r)"
    using ParseToken_suffix(1) [OF p3] ParseToken_suffix(2) [OF p2] s1 suffix_order.trans by blast
  note step = passes_trans [OF loop s3]
  show ?thesis
    using run False o1 s2 s3 step
    by (cases o1) (auto simp: array_loop.simps(2) b p2 p3 Let_def passes_def split: if_splits)
qed

lemma object_passes:
  assumes build: "\<And>r node r'. BuildValue D n False r = (node, r') \<Longrightarrow> passes D r node r'"
    and loop: "\<And>d t r node t' r'. object_loop D n d t r = (node, t', r') \<Longrightarrow> passes D r node r'"
    and run: "object_loop D (Suc n) d t r = (node, t', r')"
  shows "passes D r node r'"
proof -
  obtain ta ra where pa: "ParseToken (pass_token t r) = (ta, ra)" by (cases "ParseToken (pass_token t r)")
  obtain tb rb where pb: "ParseToken (pass_token ta ra) = (tb, rb)" by (cases "ParseToken (pass_token ta ra)")
  obtain o1 r1 where b: "BuildValue D n False rb = (o1, r1)" by (cases "BuildValue D n False rb")
  obtain t2 r2 where p2: "ParseToken r1 = (t2, r2)" by (cases "ParseToken r1")
  obtain t3 r3 where p3: "ParseToken (pass_token t2 r2) = (t3, r3)" by (cases "ParseToken (pass_token t2 r2)")
  have s0: "suffix (json_pos (pass_token t r)) (json_pos r)" by (simp add: suffix_drop)
  have sa: "suffix (json_pos ra) (json_pos r)" using ParseToken_suffix(1) [OF pa] s0 suffix_order.trans by blast
  have sb: "suffix (json_pos rb) (json_pos r)"
    using ParseToken_suffix(1) [OF pb] ParseToken_suffix(2) [OF pa] s0 suffix_order.trans by blast
  note o1 = passes_trans [OF build [OF b] sb]
  have s1: "suffix (json_pos r1) (json_pos r)" using o1 by (simp add: passes_def)
  have s2: "suffix (json_pos r2) (json_pos r)" using ParseToken_suffix(1) [OF p2] s1 suffix_order.trans by blast
  have s3: "suffix (json_pos r3) (json_pos r)"
    using ParseToken_suffix(1) [OF p3] ParseToken_suffix(2) [OF p2] s1 suffix_order.trans by blast
  note step = passes_trans [OF loop s3]
  show ?thesis
    using run o1 sa sb s2 s3 step
    by (cases o1) (auto simp: object_loop.simps(2) pa pb b p2 p3 Let_def passes_def split: if_splits option.splits)
qed

lemma build_passes:
  assumes array: "\<And>l t r node t' r'. array_loop D n l t r = (node, t', r') \<Longrightarrow> passes D r node r'"
    and object: "\<And>d t r node t' r'. object_loop D n d t r = (node, t', r') \<Longrightarrow> passes D r node r'"
    and run: "BuildValue D (Suc n) root r = (node, r')"
  shows "passes D r node r'"
proof (cases "Suc (stack_depth r) > kStackLimit")
  case True
  then show ?thesis using run by (auto simp: BuildValue.simps(2) Let_def passes_def)
next
  case False
  let ?r = "r\<lparr>stack_depth := Suc (stack_depth r)\<rparr>"
  obtain t r1 where p: "ParseToken ?r = (t, r1)" by (cases "ParseToken ?r")
  obtain t2 r2 where p2: "ParseToken (pass_token t r1) = (t2, r2)" by (cases "ParseToken (pass_token t r1)")
  obtain o1 t3 r3 where a: "array_loop D n [] t2 r2 = (o1, t3, r3)" by (cases "array_loop D n [] t2 r2")
  obtain o2 t4 r4 where o: "object_loop D n [] t2 r2 = (o2, t4, r4)" by (cases "object_loop D n [] t2 r2")
  have s1: "suffix (json_pos r1) (json_pos r)" using ParseToken_suffix(1) [OF p] by simp
  have s2: "suffix (json_pos r2) (json_pos r)"
    using ParseToken_suffix(1) [OF p2] ParseToken_suffix(2) [OF p] suffix_order.trans by fastforce
  have number: "passes D r (DecodeNumber D (token_text t r1)) r1" if "token_type t = NUMBER"
    using DecodeNumber_throws [OF p that, of D] s1 by (simp add: passes_def)
  have plain: "passes D r node r1" if "node \<noteq> Thrown" for node using s1 that by (simp add: passes_def)
  note loops = passes_trans [OF array [OF a] s2] passes_trans [OF object [OF o] s2]
  show ?thesis
  proof (cases "root \<and> token_type t \<noteq> OBJECT_BEGIN \<and> token_type t \<noteq> ARRAY_BEGIN")
    case True
    then show ?thesis using run False s1 by (auto simp: BuildValue.simps(2) p Let_def passes_def)
  next
    case go: False
    note u = BuildValue.simps(2) p p2 a o Let_def
    note left = passes_leave [OF loops(1)] passes_leave [OF loops(2)] passes_leave [OF number]
    have leaf: "passes D r node r'" if "leave n0 t0 r1 = (node, r')" "n0 \<noteq> Thrown" for n0 t0
      using passes_leave [OF plain [OF that(2)] that(1)] .
    show ?thesis
      using run False go plain
      by (cases "token_type t") (auto simp: u split: option.splits dest: left leaf)
  qed
qed

lemma reader_passes:
  "(\<forall>r root node r'. BuildValue D n root r = (node, r') \<longrightarrow> passes D r node r') \<and>
   (\<forall>l t r node t' r'. array_loop D n l t r = (node, t', r') \<longrightarrow> passes D r node r') \<and>
   (\<forall>d t r node t' r'. object_loop D n d t r = (node, t', r') \<longrightarrow> passes D r node r')"
proof (induction n)
  case (Suc n)
  then have build: "BuildValue D n root r = (node, r') \<Longrightarrow> passes D r node r'"
    and array: "array_loop D n l t r = (node, t', r') \<Longrightarrow> passes D r node r'"
    and object: "object_loop D n d t r = (node, t', r') \<Longrightarrow> passes D r node r'" for r root node r' l d t t'
    by blast+
  have "BuildValue D (Suc n) root r = (node, r') \<Longrightarrow> passes D r node r'" for root r node r'
    by (rule build_passes [OF array object])
  moreover have "array_loop D (Suc n) l t r = (node, t', r') \<Longrightarrow> passes D r node r'" for l t r node t' r'
    by (rule array_passes [OF build array])
  moreover have "object_loop D (Suc n) d t r = (node, t', r') \<Longrightarrow> passes D r node r'" for d t r node t' r'
    by (rule object_passes [OF build object])
  ultimately show ?case by blast
qed (simp add: passes_def)

text \<open>C36: The reader ends on every text, without a bound on its recursion but the stack limit, in one of three ways.
  It returns a value with ordered keys and finite doubles, no binary value, at most one hundred levels and, where the
  root is checked, a list or a dictionary at its root; or no value and an error code; or an exception leaves it, and then the
  text has a number that is no 32-bit integer and on which \<open>std::stod\<close> throws.\<close>

theorem reader_typed:
  "case JsonToValue D json check_root trailing of
     (Built v, r) \<Rightarrow> wf_Value D v \<and> no_binary v \<and> levels v \<le> 100 \<and>
       GetType v \<in> (if check_root then {TYPE_LIST, TYPE_DICTIONARY} else UNIV)
   | (Null_pointer, r) \<Rightarrow> error_code r \<noteq> JSON_NO_ERROR
   | (Thrown, r) \<Rightarrow> (\<exists>n k. ParseNumberToken (drop n json) = Token NUMBER k \<and>
       \<not> fst (StringToInt (take k (drop n json))) \<and> std_stod D (take k (drop n json)) = None)
   | (Out_of_fuel, r) \<Rightarrow> False"
proof -
  define s where "s = (if length json \<ge> 3 \<and> json ! 0 = CHR 0xEF \<and> json ! 1 = CHR 0xBB \<and> json ! 2 = CHR 0xBF then drop 3 json else json)"
  define r where "r = \<lparr>start_pos = s, json_pos = s, stack_depth = 0, allow_trailing_comma = trailing,
    error_code = JSON_NO_ERROR, error_line = 0, error_col = 0\<rparr>"
  obtain o1 r1 where b: "BuildValue D (2 * length s + 1) check_root r = (o1, r1)"
    by (cases "BuildValue D (2 * length s + 1) check_root r")
  have "built_ok D r (o1, r1)" unfolding b [symmetric] using reader_ok [of "2 * length s + 1" D] by (simp add: r_def)
  moreover have "stack_depth r = 0" by (simp add: r_def)
  moreover have "GetType v \<in> {TYPE_LIST, TYPE_DICTIONARY}" if "check_root" "o1 = Built v" for v
    using root_type [of D "2 * length s + 1" r v] b that by simp
  moreover have "suffix s json" by (simp add: s_def suffix_drop)
  moreover have "passes D r o1 r1" using reader_passes b by blast
  ultimately show ?thesis
    unfolding JsonToValue_def Let_def s_def [symmetric] r_def [symmetric] b stod_throws_def [symmetric]
    by (cases o1) (auto simp: built_ok_def fits_at_def kStackLimit_def passes_def r_def stod_throws_suffix split: prod.split)
qed

end
