(* ===== verification/Json.thy ===== *)
theory Json
  imports Json_Types
begin

section \<open>Reading what was written\<close>

text \<open>
  The text of a value, with or without white space for the eye, is read back as the value, when its strings hold no character
  that the writer escapes by its code and its doubles are read back by the standard library.
\<close>

definition readable_char :: "char \<Rightarrow> bool" where
  "readable_char c \<longleftrightarrow> JsonSingleEscapeChar c \<noteq> None \<or>
    32 \<le> (of_char c :: nat) \<and> (of_char c :: nat) \<le> 126 \<and> c \<noteq> CHR ''<'' \<and> c \<noteq> CHR ''>''"

subsection \<open>Strings\<close>

lemma readable_cases:
  assumes "readable_char c"
  obtains "escape_char c = [CHR 0x5C, CHR ''b'']" "c = CHR 0x08"
  | "escape_char c = [CHR 0x5C, CHR ''f'']" "c = CHR 0x0C"
  | "escape_char c = [CHR 0x5C, CHR ''n'']" "c = CHR 0x0A"
  | "escape_char c = [CHR 0x5C, CHR ''r'']" "c = CHR 0x0D"
  | "escape_char c = [CHR 0x5C, CHR ''t'']" "c = CHR 0x09"
  | "escape_char c = [CHR 0x5C, c]" "c = CHR 0x5C \<or> c = CHR 0x22"
  | "escape_char c = [c]" "c \<noteq> CHR 0x5C" "c \<noteq> CHR 0x22"
  using assms unfolding readable_char_def escape_char_def JsonSingleEscapeChar_def
  by (auto split: if_splits)

lemma string_token_escaped:
  "readable_char c \<Longrightarrow> string_token (escape_char c @ s) n = string_token s (n + length (escape_char c))"
  by (rule readable_cases [of c]) (auto simp: char_at_def Let_def)

lemma decode_escaped: "readable_char c \<Longrightarrow> s \<noteq> [] \<Longrightarrow> decode_chars (escape_char c @ s) = map_option ((#) c) (decode_chars s)"
  by (rule readable_cases [of c]; cases s) auto

definition escaped :: "string \<Rightarrow> string" where
  "escaped s = concat (map escape_char s)"

lemma quoted: "JsonDoubleQuote s True = CHR 0x22 # escaped s @ [CHR 0x22]"
  by (simp add: JsonDoubleQuote_def escaped_def)

lemma string_token_text:
  "list_all readable_char s \<Longrightarrow> string_token (escaped s @ CHR 0x22 # t) n = Inr (n + length (escaped s) + 1)"
  by (induction s arbitrary: n) (simp_all add: escaped_def string_token_escaped)

lemma decode_text: "list_all readable_char s \<Longrightarrow> decode_chars (escaped s @ [CHR 0x22]) = Some s"
  by (induction s) (simp_all add: escaped_def decode_escaped)

subsection \<open>White space and punctuation\<close>

lemma skip_space:
  "list_all json_space ws \<Longrightarrow> s = [] \<or> \<not> json_space (hd s) \<and> hd s \<noteq> CHR ''/'' \<Longrightarrow> EatWhitespaceAndComments (ws @ s) = s"
proof (induction ws)
  case Nil
  then show ?case by (cases s) auto
qed simp

lemma spaced_space [simp]: "list_all json_space (spaced w '' '')" "list_all json_space (spaced w kPrettyPrintLineEnding)"
  "list_all json_space (spaced w (IndentLine k))" "list_all json_space (spaced w (kPrettyPrintLineEnding @ IndentLine k))"
  by (auto simp: spaced_def json_space_def kPrettyPrintLineEnding_def IndentLine_def list_all_iff)

definition starts :: "char \<Rightarrow> bool" where
  "starts c \<longleftrightarrow> \<not> json_space c \<and> c \<noteq> CHR ''/'' \<and> c \<noteq> CHR 0x00"

lemma ParseToken_at:
  assumes "json_pos r = ws @ c # s" "list_all json_space ws" "starts c"
  shows "EatWhitespaceAndComments (json_pos r) = c # s" "char_at (c # s) 0 = c"
  using assms skip_space [of ws "c # s"] by (simp_all add: starts_def char_at_def)

lemma ParseToken_punct:
  assumes "json_pos r = ws @ c # s" "list_all json_space ws"
  shows "c = CHR ''['' \<Longrightarrow> ParseToken r = (Token ARRAY_BEGIN 1, r\<lparr>json_pos := c # s\<rparr>)"
    and "c = CHR '']'' \<Longrightarrow> ParseToken r = (Token ARRAY_END 1, r\<lparr>json_pos := c # s\<rparr>)"
    and "c = CHR '','' \<Longrightarrow> ParseToken r = (Token LIST_SEPARATOR 1, r\<lparr>json_pos := c # s\<rparr>)"
    and "c = CHR ''{'' \<Longrightarrow> ParseToken r = (Token OBJECT_BEGIN 1, r\<lparr>json_pos := c # s\<rparr>)"
    and "c = CHR ''}'' \<Longrightarrow> ParseToken r = (Token OBJECT_END 1, r\<lparr>json_pos := c # s\<rparr>)"
    and "c = CHR '':'' \<Longrightarrow> ParseToken r = (Token OBJECT_PAIR_SEPARATOR 1, r\<lparr>json_pos := c # s\<rparr>)"
  using ParseToken_at [OF assms] by (simp_all add: ParseToken_def Let_def starts_def json_space_def)

lemma ParseToken_word:
  assumes "list_all json_space ws"
  shows "json_pos r = ws @ ''null'' @ s \<Longrightarrow> ParseToken r = (Token NULL_TOKEN 4, r\<lparr>json_pos := ''null'' @ s\<rparr>)"
    and "json_pos r = ws @ ''true'' @ s \<Longrightarrow> ParseToken r = (Token BOOL_TRUE 4, r\<lparr>json_pos := ''true'' @ s\<rparr>)"
    and "json_pos r = ws @ ''false'' @ s \<Longrightarrow> ParseToken r = (Token BOOL_FALSE 5, r\<lparr>json_pos := ''false'' @ s\<rparr>)"
  using ParseToken_at [of r ws _ _, OF _ assms]
  by (simp_all add: ParseToken_def Let_def starts_def json_space_def NextStringMatch_def)

lemma ParseToken_string:
  assumes "json_pos r = ws @ JsonDoubleQuote k True @ s" "list_all json_space ws" "list_all readable_char k"
  shows "ParseToken r = (Token STRING (length (JsonDoubleQuote k True)), r\<lparr>json_pos := JsonDoubleQuote k True @ s\<rparr>)"
proof -
  have "json_pos r = ws @ CHR 0x22 # escaped k @ CHR 0x22 # s" using assms(1) by (simp add: quoted)
  from ParseToken_at [OF this assms(2)] show ?thesis
    using string_token_text [OF assms(3), of s 1]
    by (simp add: ParseToken_def Let_def starts_def json_space_def ParseStringToken_def IsAsciiDigit_def quoted)
qed


subsection \<open>Numbers\<close>

text \<open>The texts of numbers: a sign, digits without a leading zero, a fraction and an exponent.\<close>

definition digits :: "string \<Rightarrow> bool" where
  "digits ds \<longleftrightarrow> ds \<noteq> [] \<and> list_all IsAsciiDigit ds"

definition number_text :: "bool \<Rightarrow> string \<Rightarrow> string option \<Rightarrow> (char \<times> string \<times> string) option \<Rightarrow> string" where
  "number_text neg ip fraction expo =
    (if neg then ''-'' else []) @ ip @ (case fraction of None \<Rightarrow> [] | Some ds \<Rightarrow> CHR ''.'' # ds) @
    (case expo of None \<Rightarrow> [] | Some (e, sign, ds) \<Rightarrow> e # sign @ ds)"

definition json_number :: "string \<Rightarrow> bool" where
  "json_number s \<longleftrightarrow> (\<exists>neg ip fraction expo. s = number_text neg ip fraction expo \<and>
     digits ip \<and> (length ip = 1 \<or> hd ip \<noteq> CHR ''0'') \<and> pred_option digits fraction \<and>
     pred_option (\<lambda>(e, sign, ds). (e = CHR ''e'' \<or> e = CHR ''E'') \<and> sign \<in> {[], ''-'', ''+''} \<and> digits ds) expo)"

text \<open>What stands behind a value that was written.\<close>

definition ends :: "string \<Rightarrow> bool" where
  "ends s \<longleftrightarrow> s = [] \<or> hd s \<in> {CHR '','', CHR '']'', CHR ''}'', CHR '' '', CHR 0x0D}"

lemma char_at_append: "char_at (p @ s) (length p + i) = char_at s i"
  by (simp add: char_at_def nth_append)

lemma take_digits:
  assumes "list_all IsAsciiDigit ds" "\<not> IsAsciiDigit (char_at s 0)"
  shows "takeWhile (\<lambda>c. c \<noteq> CHR 0x00 \<and> IsAsciiDigit c) (ds @ s) = ds"
proof -
  have "takeWhile (\<lambda>c. c \<noteq> CHR 0x00 \<and> IsAsciiDigit c) s = []" using assms(2) by (cases s) (auto simp: char_at_def)
  moreover have "\<forall>c\<in>set ds. c \<noteq> CHR 0x00 \<and> IsAsciiDigit c" using assms(1) by (auto simp: list_all_iff IsAsciiDigit_def)
  ultimately show ?thesis by (simp add: takeWhile_append2)
qed

lemma ReadInt_digits:
  assumes "digits ds" "\<not> IsAsciiDigit (char_at s 0)" "z \<or> length ds = 1 \<or> hd ds \<noteq> CHR ''0''" "n = length p"
  shows "ReadInt (p @ ds @ s) n z = Some (n + length ds)"
proof -
  have "char_at (p @ ds @ s) n = hd ds"
    using assms(1,4) char_at_append [of p "ds @ s" 0] by (cases ds) (auto simp: digits_def char_at_def)
  moreover have "takeWhile (\<lambda>c. c \<noteq> CHR 0x00 \<and> IsAsciiDigit c) (drop n (p @ ds @ s)) = ds"
    using take_digits [of ds s] assms(1,2,4) by (simp add: digits_def)
  ultimately show ?thesis using assms(1,3) by (auto simp: ReadInt_def digits_def Let_def)
qed

lemma digits_first: "digits ds \<Longrightarrow> IsAsciiDigit (char_at (ds @ s) 0)"
  by (cases ds) (auto simp: digits_def char_at_def)

lemma not_digit: "\<not> IsAsciiDigit CHR ''.''" "\<not> IsAsciiDigit CHR ''e''" "\<not> IsAsciiDigit CHR ''E''" "\<not> IsAsciiDigit CHR ''-''"
    "\<not> IsAsciiDigit CHR ''+''" "\<not> IsAsciiDigit CHR 0x00"
  by (simp_all add: IsAsciiDigit_def)

lemma ends_first: "ends s \<Longrightarrow> \<not> IsAsciiDigit (char_at s 0) \<and> char_at s 0 \<noteq> CHR ''.'' \<and> char_at s 0 \<noteq> CHR ''e'' \<and> char_at s 0 \<noteq> CHR ''E''"
  by (cases s) (auto simp: ends_def char_at_def IsAsciiDigit_def)

lemma ParseNumberToken_steps:
  assumes "(if char_at pos 0 = CHR ''-'' then 1 else 0) = n" "ReadInt pos n False = Some a"
    and "(if char_at pos a = CHR ''.'' then ReadInt pos (a + 1) True else Some a) = Some b"
  shows "char_at pos b \<noteq> CHR ''e'' \<Longrightarrow> char_at pos b \<noteq> CHR ''E'' \<Longrightarrow> ParseNumberToken pos = Token NUMBER b"
    and "char_at pos b = CHR ''e'' \<or> char_at pos b = CHR ''E'' \<Longrightarrow>
      (if char_at pos (b + 1) = CHR ''-'' \<or> char_at pos (b + 1) = CHR ''+'' then b + 1 + 1 else b + 1) = m \<Longrightarrow>
      ReadInt pos m True = Some k \<Longrightarrow> ParseNumberToken pos = Token NUMBER k"
  unfolding ParseNumberToken_def assms Let_def by (simp_all add: assms(2,3))

lemma number_token_text:
  assumes "json_number x" "ends s"
  shows "ParseNumberToken (x @ s) = Token NUMBER (length x)"
proof -
  obtain neg ip fraction expo where x: "x = number_text neg ip fraction expo"
    and ip: "digits ip" "length ip = 1 \<or> hd ip \<noteq> CHR ''0''" and f: "pred_option digits fraction"
    and p: "pred_option (\<lambda>(e, sign, ds). (e = CHR ''e'' \<or> e = CHR ''E'') \<and> sign \<in> {[], ''-'', ''+''} \<and> digits ds) expo"
    using assms(1) unfolding json_number_def by blast
  define sg where "sg = (if neg then ''-'' else [])"
  define ft where "ft = (case fraction of None \<Rightarrow> [] | Some ds \<Rightarrow> CHR ''.'' # ds)"
  define pt where "pt = (case expo of None \<Rightarrow> [] | Some (e, sign, ds) \<Rightarrow> e # sign @ ds)"
  have x: "x = sg @ ip @ ft @ pt" using x by (simp add: number_text_def sg_def ft_def pt_def)
  have pts: "\<not> IsAsciiDigit (char_at (pt @ s) 0)" "char_at (pt @ s) 0 \<noteq> CHR ''.''"
    using ends_first [OF assms(2)] p not_digit by (auto simp: pt_def char_at_def split: option.splits)
  have fts: "\<not> IsAsciiDigit (char_at (ft @ pt @ s) 0)"
    using pts not_digit by (cases fraction) (auto simp: ft_def char_at_def)
  have n: "(if char_at (x @ s) 0 = CHR ''-'' then 1 else 0) = length sg"
    using digits_first [OF ip(1), of "ft @ pt @ s"] not_digit by (auto simp: x sg_def char_at_def)
  have r1: "ReadInt (x @ s) (length sg) False = Some (length sg + length ip)"
    using ReadInt_digits [OF ip(1) fts, of False "length sg" sg] ip(2) by (simp add: x)
  have r2: "(if char_at (x @ s) (length sg + length ip) = CHR ''.'' then ReadInt (x @ s) (length sg + length ip + 1) True
      else Some (length sg + length ip)) = Some (length sg + length ip + length ft)"
  proof (cases fraction)
    case None
    then show ?thesis using pts(2) char_at_append [of "sg @ ip" "pt @ s" 0] by (simp add: x ft_def)
  next
    case (Some ds)
    then have "digits ds" using f by simp
    then show ?thesis
      using Some ReadInt_digits [of ds "pt @ s" True "length sg + length ip + 1" "sg @ ip @ ''.''"] pts(1)
        char_at_append [of "sg @ ip" "CHR ''.'' # ds @ pt @ s" 0] by (simp add: x ft_def char_at_def)
  qed
  let ?n = "length sg + length ip + length ft"
  have at: "char_at (x @ s) (?n + i) = char_at (pt @ s) i" for i
    using char_at_append [of "sg @ ip @ ft" "pt @ s" i] by (simp add: x add.assoc)
  show ?thesis
  proof (cases expo)
    case None
    then have pt: "pt = []" by (simp add: pt_def)
    have "char_at (x @ s) ?n = char_at s 0" using at [of 0] pt by simp
    then have "ParseNumberToken (x @ s) = Token NUMBER ?n"
      using ends_first [OF assms(2)] by (intro ParseNumberToken_steps(1) [OF n r1 r2]) simp_all
    then show ?thesis by (simp add: x pt add.assoc)
  next
    case (Some q)
    obtain e sign ds where q: "q = (e, sign, ds)" by (cases q)
    then have e: "e = CHR ''e'' \<or> e = CHR ''E''" "sign \<in> {[], ''-'', ''+''}" "digits ds" using p Some by simp_all
    have pt: "pt = e # sign @ ds" by (simp add: pt_def Some q)
    have e0: "char_at (x @ s) ?n = e" using at [of 0] by (simp add: pt char_at_def)
    have sg1: "(if char_at (x @ s) (?n + 1) = CHR ''-'' \<or> char_at (x @ s) (?n + 1) = CHR ''+'' then ?n + 1 + 1 else ?n + 1) =
        ?n + 1 + length sign"
      using e(2) digits_first [OF e(3), of s] not_digit unfolding at [of 1] by (auto simp: pt char_at_def)
    have r3: "ReadInt (x @ s) (?n + 1 + length sign) True = Some (?n + 1 + length sign + length ds)"
      using ReadInt_digits [OF e(3), of s True "?n + 1 + length sign" "sg @ ip @ ft @ e # sign"] ends_first [OF assms(2)]
      by (simp add: x pt)
    have "ParseNumberToken (x @ s) = Token NUMBER (?n + 1 + length sign + length ds)"
      using e(1) unfolding e0 [symmetric] by (rule ParseNumberToken_steps(2) [OF n r1 r2 _ sg1 r3])
    then show ?thesis by (simp add: x pt add.assoc)
  qed
qed


text \<open>The texts of integers are numbers.\<close>

lemma ascii_digit: "IsAsciiDigit c \<longleftrightarrow> decimal_digit c"
  by (auto simp: IsAsciiDigit_def decimal_digit_def less_eq_char_def)

lemma digits_loop_first: "n \<noteq> 0 \<Longrightarrow> hd (digits_loop n out) \<noteq> CHR ''0''"
proof (induction n out rule: digits_loop.induct)
  case (1 n out)
  show ?case
  proof (cases "n div 10 = 0")
    case True
    then have "n < 10" by (simp add: div_eq_0_iff)
    then have "(of_char (char_of (n mod 10 + 48 :: nat)) :: nat) \<noteq> of_char CHR ''0''"
      using 1(2) by (simp add: of_char_of take_bit_eq_mod)
    then have "char_of (n mod 10 + 48 :: nat) \<noteq> CHR ''0''" by metis
    then show ?thesis using True by (subst digits_loop.simps) (simp add: Let_def)
  next
    case False
    then show ?thesis using 1(1) [OF refl refl] by (subst digits_loop.simps) (simp add: Let_def)
  qed
qed

lemma digits_loop_digits: "digits (digits_loop n [])" "length (digits_loop n []) = 1 \<or> hd (digits_loop n []) \<noteq> CHR ''0''"
proof -
  obtain ds where "digits_loop n [] = ds" "decimal ds" by (rule digits_loop_start)
  then show "digits (digits_loop n [])" by (simp add: digits_def decimal_def ascii_digit list_all_iff)
  show "length (digits_loop n []) = 1 \<or> hd (digits_loop n []) \<noteq> CHR ''0''"
    using digits_loop_first [of n "[]"] by (cases "n = 0") (simp_all add: digits_loop.simps [of 0])
qed

lemma integer_number: "json_number (IntToString i)"
proof -
  have "json_number (number_text neg (digits_loop n []) None None)" for neg n
    unfolding json_number_def using digits_loop_digits [of n]
    by (intro exI [of _ neg] exI [of _ "digits_loop n []"] exI [of _ None]) simp
  from this [of "sint i < 0"] show ?thesis
    by (cases "sint i < 0") (auto simp: IntToString_def IntToStringT_def number_text_def Let_def)
qed

lemma number_first:
  assumes "json_number x"
  obtains c y where "x = c # y" "IsAsciiDigit c \<or> c = CHR ''-''"
  using assms unfolding json_number_def number_text_def digits_def
  by (fastforce simp: neq_Nil_conv split: if_splits)

lemma ParseToken_number:
  assumes "json_pos r = ws @ x @ s" "list_all json_space ws" "json_number x" "ends s"
  shows "ParseToken r = (Token NUMBER (length x), r\<lparr>json_pos := x @ s\<rparr>)"
proof -
  obtain c y where c: "x = c # y" "IsAsciiDigit c \<or> c = CHR ''-''" using assms(3) by (rule number_first)
  have st: "starts c" using c(2) by (auto simp: starts_def json_space_def IsAsciiDigit_def)
  have "json_pos r = ws @ c # y @ s" using assms(1) c(1) by simp
  note p = ParseToken_at [OF this assms(2) st]
  have "c \<notin> {CHR 0x00, CHR ''n'', CHR ''t'', CHR ''f'', CHR ''['', CHR '']'', CHR '','', CHR ''{'', CHR ''}'', CHR '':''}"
    using c(2) by (auto simp: IsAsciiDigit_def less_eq_char_def)
  then show ?thesis
    using number_token_text [OF assms(3,4)] c p by (simp add: ParseToken_def Let_def)
qed

subsection \<open>Values\<close>

definition readable_double :: "writer \<Rightarrow> ('d, 'e) json_doubles_scheme \<Rightarrow> 'd \<Rightarrow> bool" where
  "readable_double w D d \<longleftrightarrow> json_number (double_text w D d) \<and> \<not> fst (StringToInt (double_text w D d)) \<and>
     std_stod D (double_text w D d) = Some (d, length (double_text w D d)) \<and> IsFinite D d"

fun readable :: "writer \<Rightarrow> ('d, 'e) json_doubles_scheme \<Rightarrow> 'd Value \<Rightarrow> bool"
  and list_readable :: "writer \<Rightarrow> ('d, 'e) json_doubles_scheme \<Rightarrow> 'd Value list \<Rightarrow> bool"
  and dict_readable :: "writer \<Rightarrow> ('d, 'e) json_doubles_scheme \<Rightarrow> 'd ValueMap \<Rightarrow> bool" where
  "readable w D (StringValue s) \<longleftrightarrow> list_all readable_char s"
| "readable w D (DoubleValue d) \<longleftrightarrow> readable_double w D d"
| "readable w D (ListValue l) \<longleftrightarrow> list_readable w D l"
| "readable w D (DictionaryValue d) \<longleftrightarrow> ordered d \<and> dict_readable w D d"
| "readable w D (BinaryValue b) \<longleftrightarrow> False"
| "readable w D _ \<longleftrightarrow> True"
| "list_readable w D [] \<longleftrightarrow> True"
| "list_readable w D (v # l) \<longleftrightarrow> readable w D v \<and> list_readable w D l"
| "dict_readable w D [] \<longleftrightarrow> True"
| "dict_readable w D ((k, v) # d) \<longleftrightarrow> list_all readable_char k \<and> readable w D v \<and> dict_readable w D d"

lemma double_decoded: "readable_double w D d \<Longrightarrow> DecodeNumber D (double_text w D d) = Built (DoubleValue d)"
proof -
  assume d: "readable_double w D d"
  then obtain c y where c: "double_text w D d = c # y" "IsAsciiDigit c \<or> c = CHR ''-''"
    unfolding readable_double_def by (metis number_first)
  then have "\<not> blank c" by (auto simp: blank_def kWhitespaceASCII_def IsAsciiDigit_def)
  then show ?thesis
    using d c(1) by (cases "StringToInt (c # y)")
      (simp add: readable_double_def DecodeNumber_def StringToDouble_def CreateDoubleValue_def)
qed

lemma integer_decoded: "DecodeNumber D (IntToString i) = Built (IntegerValue i)"
  using signed_round_trip [where v = i] by (simp add: DecodeNumber_def StringToInt_def IntToString_def)

text \<open>The token at the beginning of the text of a value.\<close>

fun first_token :: "writer \<Rightarrow> ('d, 'e) json_doubles_scheme \<Rightarrow> 'd Value \<Rightarrow> token" where
  "first_token w D NullValue = Token NULL_TOKEN 4"
| "first_token w D (BooleanValue b) = (if b then Token BOOL_TRUE 4 else Token BOOL_FALSE 5)"
| "first_token w D (IntegerValue i) = Token NUMBER (length (IntToString i))"
| "first_token w D (DoubleValue d) = Token NUMBER (length (double_text w D d))"
| "first_token w D (StringValue s) = Token STRING (length (JsonDoubleQuote s True))"
| "first_token w D (ListValue l) = Token ARRAY_BEGIN 1"
| "first_token w D (DictionaryValue d) = Token OBJECT_BEGIN 1"
| "first_token w D (BinaryValue b) = CreateInvalidToken"

lemma first_token_type [simp]: "token_type (first_token w D v) \<noteq> ARRAY_END" "token_type (first_token w D v) \<noteq> OBJECT_END"
  by (cases v; simp)+

lemma ParseToken_value:
  assumes "json_pos r = ws @ BuildJSONString w D v k @ s" "list_all json_space ws" "readable w D v" "ends s"
  shows "ParseToken r = (first_token w D v, r\<lparr>json_pos := BuildJSONString w D v k @ s\<rparr>)"
proof (cases v)
  case NullValue
  then show ?thesis using ParseToken_word(1) [OF assms(2), of r s] assms(1) by simp
next
  case (BooleanValue b)
  then show ?thesis
    using ParseToken_word(2,3) [OF assms(2), of r s] assms(1) by (cases b) simp_all
next
  case (IntegerValue i)
  then show ?thesis using ParseToken_number [OF _ assms(2) integer_number assms(4)] assms(1) by simp
next
  case (DoubleValue d)
  then show ?thesis using ParseToken_number [OF _ assms(2) _ assms(4)] assms(1,3) by (simp add: readable_double_def)
next
  case (StringValue t)
  then show ?thesis using ParseToken_string [OF _ assms(2)] assms(1,3) by simp
next
  case (ListValue l)
  then show ?thesis using ParseToken_punct(1) [OF _ assms(2)] assms(1) by simp
next
  case (DictionaryValue d)
  then show ?thesis using ParseToken_punct(4) [OF _ assms(2)] assms(1) by simp
qed (use assms(3) in simp)


text \<open>What it means that the reader reads a value back, at any depth and behind any white space.\<close>

definition reads :: "writer \<Rightarrow> ('d, 'e) json_doubles_scheme \<Rightarrow> 'd Value \<Rightarrow> bool" where
  "reads w D v \<longleftrightarrow> (\<forall>k n ws s root r. json_pos r = ws @ BuildJSONString w D v k @ s \<longrightarrow> list_all json_space ws \<longrightarrow> ends s \<longrightarrow>
     2 * rest r + 1 \<le> n \<longrightarrow> stack_depth r + levels v \<le> kStackLimit \<longrightarrow>
     (root \<longrightarrow> GetType v = TYPE_LIST \<or> GetType v = TYPE_DICTIONARY) \<longrightarrow>
     BuildValue D n root r = (Built v, r\<lparr>json_pos := s\<rparr>))"

lemma readsD:
  assumes "reads w D v" "json_pos r = ws @ BuildJSONString w D v k @ s" "list_all json_space ws" "ends s"
    and "2 * rest r + 1 \<le> n" "stack_depth r + levels v \<le> kStackLimit"
  shows "BuildValue D n False r = (Built v, r\<lparr>json_pos := s\<rparr>)"
    and "GetType v = TYPE_LIST \<or> GetType v = TYPE_DICTIONARY \<Longrightarrow> BuildValue D n True r = (Built v, r\<lparr>json_pos := s\<rparr>)"
  using assms(1) [unfolded reads_def, rule_format, OF assms(2-6)] by simp_all

lemma leaf_reads:
  assumes "readable w D v" "GetType v \<noteq> TYPE_LIST" "GetType v \<noteq> TYPE_DICTIONARY"
  shows "reads w D v"
  unfolding reads_def
proof (intro allI impI)
  fix k n ws s root and r :: reader
  assume a: "json_pos r = ws @ BuildJSONString w D v k @ s" "list_all json_space ws" "ends s"
    "2 * rest r + 1 \<le> n" "stack_depth r + levels v \<le> kStackLimit" "root \<longrightarrow> GetType v = TYPE_LIST \<or> GetType v = TYPE_DICTIONARY"
  then obtain m where n: "n = Suc m" by (cases n) auto
  let ?r = "r\<lparr>stack_depth := Suc (stack_depth r)\<rparr>"
  have p: "ParseToken ?r = (first_token w D v, ?r\<lparr>json_pos := BuildJSONString w D v k @ s\<rparr>)"
    using a(1) by (intro ParseToken_value [OF _ a(2) assms(1) a(3)]) simp
  have l: "\<not> kStackLimit < Suc (stack_depth r)" "root = False" using a(5,6) assms(2,3) by (cases v; auto)+
  note u = BuildValue.simps(2) n p l Let_def leave_def token_text_def pass_token_def
  show "BuildValue D n root r = (Built v, r\<lparr>json_pos := s\<rparr>)"
  proof (cases v)
    case (IntegerValue i)
    then show ?thesis by (simp add: u integer_decoded)
  next
    case (DoubleValue d)
    then show ?thesis using assms(1) by (simp add: u double_decoded)
  next
    case (StringValue t)
    then show ?thesis using assms(1) decode_text [of t] by (simp add: u DecodeString_def quoted)
  qed (use assms in \<open>simp_all add: u\<close>)
qed

text \<open>The elements behind the first one; each comes behind a comma.\<close>

lemma list_later: "list_readable w D l \<Longrightarrow> list_JSON w D (Suc i) l k = list_JSON w D 1 l k"
proof (induction l arbitrary: i)
  case (Cons v l)
  then have "GetType v \<noteq> TYPE_BINARY" by (cases v) auto
  then show ?case using Cons.IH [of "Suc i"] Cons.IH [of 1] Cons.prems by simp
qed simp

lemma list_next:
  assumes "list_readable w D (v # l)"
  shows "list_JSON w D 1 (v # l) k = CHR '','' # spaced w '' '' @ BuildJSONString w D v k @ list_JSON w D 1 l k"
    and "list_JSON w D 0 (v # l) k = BuildJSONString w D v k @ list_JSON w D 1 l k"
proof -
  have "GetType v \<noteq> TYPE_BINARY" using assms by (cases v) auto
  then show "list_JSON w D 1 (v # l) k = CHR '','' # spaced w '' '' @ BuildJSONString w D v k @ list_JSON w D 1 l k"
    "list_JSON w D 0 (v # l) k = BuildJSONString w D v k @ list_JSON w D 1 l k"
    using list_later [of w D l 1 k] assms by simp_all
qed

lemma list_ends:
  "list_readable w D l \<Longrightarrow> ends (list_JSON w D 1 l k @ spaced w '' '' @ CHR '']'' # s)"
  by (cases l) (auto simp: list_next ends_def spaced_def simp del: list_JSON.simps(2) One_nat_def)

lemma pass_one: "pass_token (Token t 1) r = r\<lparr>json_pos := tl (json_pos r)\<rparr>"
  by (simp add: pass_token_def drop_Suc)

lemma array_reads:
  assumes "\<forall>u\<in>set (v # l). reads w D u" "list_readable w D (v # l)"
    and "json_pos r = BuildJSONString w D v k @ list_JSON w D 1 l k @ spaced w '' '' @ CHR '']'' # s"
    and "2 * rest r + 2 \<le> n" "stack_depth r + list_levels (v # l) \<le> kStackLimit" "token_type t \<noteq> ARRAY_END"
  shows "array_loop D n items t r = (Built (ListValue (items @ v # l)), Token ARRAY_END 1, r\<lparr>json_pos := CHR '']'' # s\<rparr>)"
  using assms
proof (induction l arbitrary: v items n t r)
  case Nil
  obtain m where n: "n = Suc m" using Nil.prems(4) by (cases n) auto
  define r1 where "r1 = r\<lparr>json_pos := spaced w '' '' @ CHR '']'' # s\<rparr>"
  have "BuildValue D m False r = (Built v, r1)"
    unfolding r1_def using Nil.prems n list_ends [of w D "[]" k s] by (intro readsD(1) [of w D v r "[]" k]) simp_all
  moreover have "ParseToken r1 = (Token ARRAY_END 1, r1\<lparr>json_pos := CHR '']'' # s\<rparr>)"
    by (rule ParseToken_punct(2) [where ws = "spaced w '' ''"]) (simp_all add: r1_def)
  ultimately show ?case using Nil.prems(6) by (simp add: n array_loop.simps(2) ListValue_Append_def r1_def)
next
  case (Cons v' l)
  obtain m where n: "n = Suc m" using Cons.prems(4) by (cases n) auto
  define x where "x = BuildJSONString w D v' k @ list_JSON w D 1 l k @ spaced w '' '' @ CHR '']'' # s"
  have t: "list_JSON w D 1 (v' # l) k @ spaced w '' '' @ CHR '']'' # s = CHR '','' # spaced w '' '' @ x"
    using Cons.prems(2) list_next(1) [of w D v' l k] by (simp add: x_def)
  define r1 where "r1 = r\<lparr>json_pos := CHR '','' # spaced w '' '' @ x\<rparr>"
  have "BuildValue D m False r = (Built v, r1)"
    unfolding r1_def t [symmetric] using Cons.prems n list_ends [of w D "v' # l" k s]
    by (intro readsD(1) [of w D v r "[]" k]) (simp_all del: list_JSON.simps One_nat_def)
  moreover have "ParseToken r1 = (Token LIST_SEPARATOR 1, r1)"
    using ParseToken_punct(3) [of r1 "[]" "CHR '',''" "spaced w '' '' @ x"] by (simp add: r1_def)
  moreover have "ParseToken (pass_token (Token LIST_SEPARATOR 1) r1) = (first_token w D v', r1\<lparr>json_pos := x\<rparr>)"
    using ParseToken_value [of "pass_token (Token LIST_SEPARATOR 1) r1" "spaced w '' ''" w D v' k
        "list_JSON w D 1 l k @ spaced w '' '' @ CHR '']'' # s"] Cons.prems(2) list_ends [of w D l k s]
    by (simp add: r1_def x_def pass_one del: list_JSON.simps One_nat_def)
  moreover have "array_loop D m (items @ [v]) (first_token w D v') (r1\<lparr>json_pos := x\<rparr>) =
      (Built (ListValue ((items @ [v]) @ v' # l)), Token ARRAY_END 1, r1\<lparr>json_pos := x\<rparr>\<lparr>json_pos := CHR '']'' # s\<rparr>)"
  proof (rule Cons.IH)
    show "2 * rest (r1\<lparr>json_pos := x\<rparr>) + 2 \<le> m" using Cons.prems(3,4) n unfolding t by simp
  qed (use Cons.prems in \<open>simp_all add: r1_def x_def del: list_JSON.simps One_nat_def\<close>)
  ultimately show ?case using Cons.prems(6) by (simp add: n array_loop.simps(2) ListValue_Append_def r1_def)
qed


text \<open>The entries of a dictionary.\<close>

abbreviation line_end :: "writer \<Rightarrow> string" where
  "line_end w \<equiv> spaced w kPrettyPrintLineEnding"

abbreviation close :: "writer \<Rightarrow> nat \<Rightarrow> string" where
  "close w k \<equiv> spaced w (kPrettyPrintLineEnding @ IndentLine k)"

definition entry_text :: "writer \<Rightarrow> ('d, 'e) json_doubles_scheme \<Rightarrow> string \<Rightarrow> 'd Value \<Rightarrow> nat \<Rightarrow> string" where
  "entry_text w D key v k = JsonDoubleQuote key True @ CHR '':'' # spaced w '' '' @ BuildJSONString w D v (k + 1)"

lemma dict_next:
  assumes "dict_readable w D ((key, v) # d)"
  shows "dict_JSON w D False ((key, v) # d) k =
      CHR '','' # line_end w @ spaced w (IndentLine (k + 1)) @ entry_text w D key v k @ dict_JSON w D False d k"
    and "dict_JSON w D True ((key, v) # d) k = spaced w (IndentLine (k + 1)) @ entry_text w D key v k @ dict_JSON w D False d k"
proof -
  have "GetType v \<noteq> TYPE_BINARY" using assms by (cases v) auto
  then show "dict_JSON w D False ((key, v) # d) k =
      CHR '','' # line_end w @ spaced w (IndentLine (k + 1)) @ entry_text w D key v k @ dict_JSON w D False d k"
    "dict_JSON w D True ((key, v) # d) k = spaced w (IndentLine (k + 1)) @ entry_text w D key v k @ dict_JSON w D False d k"
    by (simp_all add: entry_text_def AppendQuotedString_def spaced_def)
qed

lemma dict_ends: "dict_readable w D d \<Longrightarrow> ends (dict_JSON w D False d k @ close w k @ CHR ''}'' # s)"
  by (cases d) (auto simp: dict_next ends_def spaced_def kPrettyPrintLineEnding_def simp del: dict_JSON.simps(2))

text \<open>From the key of an entry to what stands behind its value.\<close>

lemma entry_reads:
  assumes "reads w D v" "readable w D v" "list_all readable_char key"
    and "json_pos r = entry_text w D key v k @ s" "ends s"
    and "2 * rest r + 2 \<le> Suc m" "stack_depth r + levels v \<le> kStackLimit"
    and "t = Token STRING (length (JsonDoubleQuote key True))"
  shows "object_loop D (Suc m) d t r =
    (let d = SetWithoutPathExpansion key v d; r = r\<lparr>json_pos := s\<rparr> in
     case ParseToken r of (t, r) \<Rightarrow>
       if token_type t = LIST_SEPARATOR then
         (case ParseToken (pass_token t r) of (t, r) \<Rightarrow>
            if token_type t = OBJECT_END then
              (if \<not> allow_trailing_comma r then (Null_pointer, t, SetErrorCode JSON_TRAILING_COMMA (json_pos r) r)
               else (Built (DictionaryValue d), t, r))
            else object_loop D m d t r)
       else if token_type t \<noteq> OBJECT_END then (Null_pointer, t, r)
       else (Built (DictionaryValue d), t, r))"
proof -
  define y where "y = spaced w '' '' @ BuildJSONString w D v (k + 1) @ s"
  have r: "json_pos r = JsonDoubleQuote key True @ CHR '':'' # y" using assms(4) by (simp add: entry_text_def y_def)
  have key: "DecodeString (token_text t r) = Some key"
    using decode_text [OF assms(3)] by (simp add: token_text_def assms(8) r DecodeString_def quoted)
  have p1: "ParseToken (pass_token t r) = (Token OBJECT_PAIR_SEPARATOR 1, r\<lparr>json_pos := CHR '':'' # y\<rparr>)"
    using ParseToken_punct(6) [of "pass_token t r" "[]" "CHR '':''" y] by (simp add: r pass_token_def assms(8))
  have p2: "ParseToken (pass_token (Token OBJECT_PAIR_SEPARATOR 1) (r\<lparr>json_pos := CHR '':'' # y\<rparr>)) =
      (first_token w D v, r\<lparr>json_pos := BuildJSONString w D v (k + 1) @ s\<rparr>)"
    using ParseToken_value [of "r\<lparr>json_pos := y\<rparr>" "spaced w '' ''" w D v "k + 1" s] assms(2,5)
    by (simp add: y_def pass_one del: One_nat_def)
  have "2 * length (BuildJSONString w D v (k + 1) @ s) + 1 \<le> m"
    using assms(6) by (simp add: r y_def quoted)
  then have b: "BuildValue D m False (r\<lparr>json_pos := BuildJSONString w D v (k + 1) @ s\<rparr>) = (Built v, r\<lparr>json_pos := s\<rparr>)"
    using readsD(1) [OF assms(1), of "r\<lparr>json_pos := BuildJSONString w D v (k + 1) @ s\<rparr>" "[]" "k + 1" s m] assms(5,7) by simp
  have "token_type t = STRING" using assms(8) by simp
  then show ?thesis by (simp add: object_loop.simps(2) key p1 p2 [simplified] b [simplified] Let_def)
qed

lemma object_reads:
  assumes "\<forall>e\<in>set ((key, v) # d). reads w D (snd e)" "dict_readable w D ((key, v) # d)" "ordered (acc @ (key, v) # d)"
    and "json_pos r = entry_text w D key v k @ dict_JSON w D False d k @ close w k @ CHR ''}'' # s"
    and "2 * rest r + 2 \<le> n" "stack_depth r + dict_levels ((key, v) # d) \<le> kStackLimit"
    and "t = Token STRING (length (JsonDoubleQuote key True))"
  shows "object_loop D n acc t r =
    (Built (DictionaryValue (acc @ (key, v) # d)), Token OBJECT_END 1, r\<lparr>json_pos := CHR ''}'' # s\<rparr>)"
  using assms
proof (induction d arbitrary: key v acc n t r)
  case Nil
  obtain m where n: "n = Suc m" using Nil.prems(5) by (cases n) auto
  define r1 where "r1 = r\<lparr>json_pos := close w k @ CHR ''}'' # s\<rparr>"
  have set: "SetWithoutPathExpansion key v acc = acc @ [(key, v)]"
    using Nil.prems(3) by (intro set_last) (auto simp: ordered_append)
  have e: "ends (close w k @ CHR ''}'' # s)" using dict_ends [of w D "[]" k s] by simp
  have "ParseToken r1 = (Token OBJECT_END 1, r1\<lparr>json_pos := CHR ''}'' # s\<rparr>)"
    by (rule ParseToken_punct(5) [where ws = "close w k"]) (simp_all add: r1_def)
  then show ?case
    unfolding n using Nil.prems n e
    by (subst entry_reads [where w = w and k = k and v = v and key = key and s = "close w k @ CHR ''}'' # s"])
      (simp_all add: set Let_def r1_def)
next
  case (Cons e' d)
  obtain key' v' where e': "e' = (key', v')" by (cases e')
  obtain m where n: "n = Suc m" using Cons.prems(5) by (cases n) auto
  have set: "SetWithoutPathExpansion key v acc = acc @ [(key, v)]"
    using Cons.prems(3) by (intro set_last) (auto simp: ordered_append)
  define x where "x = entry_text w D key' v' k @ dict_JSON w D False d k @ close w k @ CHR ''}'' # s"
  define ws where "ws = line_end w @ spaced w (IndentLine (k + 1))"
  have t: "dict_JSON w D False (e' # d) k @ close w k @ CHR ''}'' # s = CHR '','' # ws @ x"
    using Cons.prems(2) dict_next(1) [of w D key' v' d k] by (simp add: x_def ws_def e' del: dict_JSON.simps(2))
  define r1 where "r1 = r\<lparr>json_pos := CHR '','' # ws @ x\<rparr>"
  define t' where "t' = Token STRING (length (JsonDoubleQuote key' True))"
  have p1: "ParseToken r1 = (Token LIST_SEPARATOR 1, r1)"
    using ParseToken_punct(3) [of r1 "[]" "CHR '',''" "ws @ x"] by (simp add: r1_def)
  have p2: "ParseToken (pass_token (Token LIST_SEPARATOR 1) r1) = (t', r\<lparr>json_pos := x\<rparr>)"
    using ParseToken_string [of "r\<lparr>json_pos := ws @ x\<rparr>" ws key'] Cons.prems(2)
    by (simp add: r1_def x_def t'_def e' pass_one entry_text_def ws_def del: One_nat_def dict_JSON.simps(2))
  have "object_loop D m (acc @ [(key, v)]) t' (r\<lparr>json_pos := x\<rparr>) =
      (Built (DictionaryValue ((acc @ [(key, v)]) @ (key', v') # d)), Token OBJECT_END 1, r\<lparr>json_pos := x\<rparr>\<lparr>json_pos := CHR ''}'' # s\<rparr>)"
  proof (rule Cons.IH)
    show "2 * rest (r\<lparr>json_pos := x\<rparr>) + 2 \<le> m" using Cons.prems(4,5) n unfolding t by simp
  qed (use Cons.prems in \<open>simp_all add: x_def t'_def e' del: dict_JSON.simps\<close>)
  then show ?case
    unfolding n using Cons.prems n dict_ends [of w D "e' # d" k s] p1 p2
    by (subst entry_reads [where w = w and k = k and v = v and key = key and s = "CHR '','' # ws @ x"])
      (simp_all add: set Let_def r1_def t [unfolded e'] t'_def e' del: dict_JSON.simps)
qed


lemma list_reads:
  assumes "\<forall>v\<in>set l. reads w D v" "list_readable w D l"
  shows "reads w D (ListValue l)"
  unfolding reads_def
proof (intro allI impI)
  fix k n ws s root and r :: reader
  assume a: "json_pos r = ws @ BuildJSONString w D (ListValue l) k @ s" "list_all json_space ws" "ends s"
    "2 * rest r + 1 \<le> n" "stack_depth r + levels (ListValue l) \<le> kStackLimit"
  then obtain m where n: "n = Suc m" by (cases n) auto
  let ?r = "r\<lparr>stack_depth := Suc (stack_depth r)\<rparr>"
  define y where "y = spaced w '' '' @ list_JSON w D 0 l k @ spaced w '' '' @ CHR '']'' # s"
  have p: "ParseToken ?r = (Token ARRAY_BEGIN 1, ?r\<lparr>json_pos := CHR ''['' # y\<rparr>)"
    using a(1) by (intro ParseToken_punct(1) [OF _ a(2)]) (simp_all add: y_def)
  have q: "pass_token (Token ARRAY_BEGIN 1) (?r\<lparr>json_pos := CHR ''['' # y\<rparr>) = ?r\<lparr>json_pos := y\<rparr>"
    by (simp add: pass_one del: One_nat_def)
  have loop: "\<exists>t r2. ParseToken (?r\<lparr>json_pos := y\<rparr>) = (t, r2) \<and>
    array_loop D m [] t r2 = (Built (ListValue l), Token ARRAY_END 1, ?r\<lparr>json_pos := CHR '']'' # s\<rparr>)"
  proof (cases l)
    case Nil
    have "ParseToken (?r\<lparr>json_pos := y\<rparr>) = (Token ARRAY_END 1, ?r\<lparr>json_pos := CHR '']'' # s\<rparr>)"
      using ParseToken_punct(2) [of "?r\<lparr>json_pos := y\<rparr>" "spaced w '' '' @ spaced w '' ''"] by (simp add: y_def Nil)
    moreover obtain m' where "m = Suc m'" using a(1,4) n by (cases m) auto
    ultimately show ?thesis by (simp add: array_loop.simps(2) Nil)
  next
    case (Cons v l')
    let ?x = "BuildJSONString w D v k @ list_JSON w D 1 l' k @ spaced w '' '' @ CHR '']'' # s"
    have y: "y = spaced w '' '' @ ?x" using assms(2) list_next(2) [of w D v l' k] by (simp add: y_def Cons)
    have "ParseToken (?r\<lparr>json_pos := y\<rparr>) = (first_token w D v, ?r\<lparr>json_pos := ?x\<rparr>)"
      using ParseToken_value [of "?r\<lparr>json_pos := y\<rparr>" "spaced w '' ''" w D v k] list_ends [of w D l' k s] assms(2)
      unfolding y Cons by (simp del: One_nat_def)
    moreover have "array_loop D m [] (first_token w D v) (?r\<lparr>json_pos := ?x\<rparr>) =
        (Built (ListValue ([] @ v # l')), Token ARRAY_END 1, ?r\<lparr>json_pos := ?x\<rparr>\<lparr>json_pos := CHR '']'' # s\<rparr>)"
    proof (rule array_reads)
      show "2 * rest (?r\<lparr>json_pos := ?x\<rparr>) + 2 \<le> m"
        using a(1,4) n assms(2) list_next(2) [of w D v l' k] by (simp add: Cons del: list_JSON.simps)
    qed (use assms a(5) Cons in simp_all)
    ultimately show ?thesis by (simp add: Cons)
  qed
  then show "BuildValue D n root r = (Built (ListValue l), r\<lparr>json_pos := s\<rparr>)"
    using a(5) q by (auto simp: n BuildValue.simps(2) p [simplified] Let_def leave_def pass_token_def)
qed

lemma dict_reads:
  assumes "\<forall>e\<in>set d. reads w D (snd e)" "dict_readable w D d" "ordered d"
  shows "reads w D (DictionaryValue d)"
  unfolding reads_def
proof (intro allI impI)
  fix k n ws s root and r :: reader
  assume a: "json_pos r = ws @ BuildJSONString w D (DictionaryValue d) k @ s" "list_all json_space ws" "ends s"
    "2 * rest r + 1 \<le> n" "stack_depth r + levels (DictionaryValue d) \<le> kStackLimit"
  then obtain m where n: "n = Suc m" by (cases n) auto
  let ?r = "r\<lparr>stack_depth := Suc (stack_depth r)\<rparr>"
  define y where "y = line_end w @ dict_JSON w D True d k @ close w k @ CHR ''}'' # s"
  have p: "ParseToken ?r = (Token OBJECT_BEGIN 1, ?r\<lparr>json_pos := CHR ''{'' # y\<rparr>)"
    using a(1) by (intro ParseToken_punct(4) [OF _ a(2)]) (simp_all add: y_def)
  have q: "pass_token (Token OBJECT_BEGIN 1) (?r\<lparr>json_pos := CHR ''{'' # y\<rparr>) = ?r\<lparr>json_pos := y\<rparr>"
    by (simp add: pass_one del: One_nat_def)
  have loop: "\<exists>t r2. ParseToken (?r\<lparr>json_pos := y\<rparr>) = (t, r2) \<and>
    object_loop D m [] t r2 = (Built (DictionaryValue d), Token OBJECT_END 1, ?r\<lparr>json_pos := CHR ''}'' # s\<rparr>)"
  proof (cases d)
    case Nil
    have "ParseToken (?r\<lparr>json_pos := y\<rparr>) = (Token OBJECT_END 1, ?r\<lparr>json_pos := CHR ''}'' # s\<rparr>)"
      using ParseToken_punct(5) [of "?r\<lparr>json_pos := y\<rparr>" "line_end w @ close w k"] by (simp add: y_def Nil)
    moreover obtain m' where "m = Suc m'" using a(1,4) n by (cases m) auto
    ultimately show ?thesis by (simp add: object_loop.simps(2) Nil)
  next
    case (Cons e d')
    obtain key v where e: "e = (key, v)" by (cases e)
    let ?x = "entry_text w D key v k @ dict_JSON w D False d' k @ close w k @ CHR ''}'' # s"
    let ?t = "Token STRING (length (JsonDoubleQuote key True))"
    have y: "y = (line_end w @ spaced w (IndentLine (k + 1))) @ ?x"
      using assms(2) dict_next(2) [of w D key v d' k] by (simp add: y_def Cons e del: dict_JSON.simps)
    have "ParseToken (?r\<lparr>json_pos := y\<rparr>) = (?t, ?r\<lparr>json_pos := ?x\<rparr>)"
      using ParseToken_string [of "?r\<lparr>json_pos := y\<rparr>" "line_end w @ spaced w (IndentLine (k + 1))" key] assms(2)
      unfolding y by (simp add: Cons e entry_text_def)
    moreover have "object_loop D m [] ?t (?r\<lparr>json_pos := ?x\<rparr>) =
        (Built (DictionaryValue ([] @ (key, v) # d')), Token OBJECT_END 1, ?r\<lparr>json_pos := ?x\<rparr>\<lparr>json_pos := CHR ''}'' # s\<rparr>)"
    proof (rule object_reads)
      show "2 * rest (?r\<lparr>json_pos := ?x\<rparr>) + 2 \<le> m"
        using a(1,4) n assms(2) dict_next(2) [of w D key v d' k] by (simp add: Cons e del: dict_JSON.simps)
    qed (use assms a(5) Cons e in simp_all)
    ultimately show ?thesis by (simp add: Cons e)
  qed
  then show "BuildValue D n root r = (Built (DictionaryValue d), r\<lparr>json_pos := s\<rparr>)"
    using a(5) q by (auto simp: n BuildValue.simps(2) p [simplified] Let_def leave_def pass_token_def)
qed

lemma all_read:
  shows "readable w D v \<Longrightarrow> reads w D v"
    and "list_readable w D l \<Longrightarrow> \<forall>v\<in>set l. reads w D v"
    and "dict_readable w D d \<Longrightarrow> \<forall>e\<in>set d. reads w D (snd e)"
proof (induction w D v and w D l and w D d rule: readable_list_readable_dict_readable.induct)
qed (auto intro: leaf_reads list_reads dict_reads)


subsection \<open>The whole text\<close>

lemma read_back:
  assumes "readable (new_writer options) D v" "levels v \<le> kStackLimit" "GetType v \<in> {TYPE_LIST, TYPE_DICTIONARY}"
  shows "Read D (WriteWithOptions options D v) trailing = Built v"
proof -
  let ?w = "new_writer options"
  let ?s = "BuildJSONString ?w D v 0 @ line_end ?w"
  define r where "r = \<lparr>start_pos = ?s, json_pos = ?s, stack_depth = 0, allow_trailing_comma = trailing,
    error_code = JSON_NO_ERROR, error_line = 0, error_col = 0\<rparr>"
  have e: "ends (line_end ?w)" by (simp add: ends_def spaced_def kPrettyPrintLineEnding_def)
  have b: "BuildValue D (2 * length ?s + 1) True r = (Built v, r\<lparr>json_pos := line_end ?w\<rparr>)"
    using assms(2,3) e by (intro readsD(2) [OF all_read(1) [OF assms(1)], where ws = "[]" and k = 0]) (auto simp: r_def)
  have "ParseToken (r\<lparr>json_pos := line_end ?w\<rparr>) = (Token END_OF_INPUT 0, r\<lparr>json_pos := []\<rparr>)"
    using skip_space [of "line_end ?w" "[]"] by (simp add: ParseToken_def char_at_def)
  moreover have "\<not> (?s ! 0 = CHR 0xEF)" using assms(3) by (cases v) auto
  ultimately show ?thesis
    using b by (simp add: Read_def ReadAndReturnError_def JsonToValue_def WriteWithOptions_def Let_def r_def)
qed

text \<open>C37: The text of a list or dictionary of at most one hundred levels, written with any options, is read back as the same
  value under these conditions: it holds no binary value; its strings and keys hold only printable ASCII characters other than
  angle brackets, and line feeds, carriage returns, tabs, backspaces and form feeds; the keys of its dictionaries are in order;
  and the text written for each double is a number, not that of a 32-bit integer, which \<open>std::stod\<close> reads back as that
  finite double.\<close>

theorem json_roundtrip:
  assumes "readable (new_writer options) D v" "levels v \<le> kStackLimit" "GetType v \<in> {TYPE_LIST, TYPE_DICTIONARY}"
  shows "Read D (WriteWithOptions options D v) trailing = Built v"
  using assms by (rule read_back)

definition plain_doubles :: "nat json_doubles" where
  "plain_doubles = \<lparr>IsFinite = (\<lambda>n. True), double_zero = 0, double_of_int = unat, double_equal = (=),
     std_to_string = (\<lambda>n. ''0.5''), whole_int64 = (\<lambda>n. None), std_stod = (\<lambda>s. if s = ''0.5'' then Some (1, 3) else None)\<rparr>"

definition example_value :: "nat Value" where
  "example_value = DictionaryValue [(''a'', ListValue [IntegerValue (- 5), DoubleValue 1, StringValue ''x y'']), (''b'', NullValue)]"

theorem json_roundtrip_witness:
  "Read plain_doubles (WriteWithOptions 8 plain_doubles example_value) False = Built example_value"
proof -
  have d: "double_text w plain_doubles 1 = ''0.5''" for w
    by (simp add: double_text_def plain_doubles_def DoubleToString_def Let_def split: bool.split)
  have "json_number (number_text False ''0'' (Some ''5'') None)"
    unfolding json_number_def
    by (intro exI [of _ False] exI [of _ "''0''"] exI [of _ "Some ''5''"] exI [of _ None])
      (simp add: digits_def IsAsciiDigit_def less_eq_char_def)
  moreover have "StringToInt ''0.5'' = (False, 0)" by code_simp
  moreover have "std_stod plain_doubles ''0.5'' = Some (1, 3)" "IsFinite plain_doubles 1" by (simp_all add: plain_doubles_def)
  ultimately have "readable_double w plain_doubles 1" for w
    unfolding readable_double_def d by (simp add: number_text_def)
  then have "readable (new_writer 8) plain_doubles example_value"
    by (simp add: example_value_def ordered_def readable_char_def JsonSingleEscapeChar_def)
  moreover have "levels example_value \<le> kStackLimit" "GetType example_value \<in> {TYPE_LIST, TYPE_DICTIONARY}"
    by (simp_all add: example_value_def kStackLimit_def)
  ultimately show ?thesis by (rule json_roundtrip)
qed

text \<open>Texts of the writer that the reader refuses: a string with an angle bracket or a character outside ASCII is
  written with an escape of the form \<open>\\uXXXX\<close>, on which decoding fails although the token was accepted; and a list whose
  first element is left out as binary begins with a comma. Data behind a NUL is not seen, and where \<open>std::stod\<close> throws on a
  number out of range the exception leaves the reader.\<close>

theorem json_divergences:
  "Read plain_doubles (Write plain_doubles (ListValue [StringValue ''<''])) t = Null_pointer \<and>
   WriteWithOptions 2 plain_doubles (ListValue [BinaryValue [1], NullValue]) = ''[,null]'' \<and>
   Read plain_doubles ''[,null]'' t = Null_pointer \<and>
   Read plain_doubles (''[]'' @ CHR 0x00 # ''garbage'') t = Built (ListValue []) \<and>
   Read plain_doubles ''[1e999]'' t = Thrown"
proof (intro conjI)
  show "Read plain_doubles (Write plain_doubles (ListValue [StringValue ''<''])) t = Null_pointer" by code_simp
  show "WriteWithOptions 2 plain_doubles (ListValue [BinaryValue [1], NullValue]) = ''[,null]''" by code_simp
  show "Read plain_doubles ''[,null]'' t = Null_pointer" by code_simp
  show "Read plain_doubles (''[]'' @ CHR 0x00 # ''garbage'') t = Built (ListValue [])" by code_simp
  show "Read plain_doubles ''[1e999]'' t = Thrown" by code_simp
qed

end
