(* ===== verification/Printing.thy ===== *)
theory Printing
  imports Splitting Numbers
begin

section \<open>Printing of RSSL values\<close>

text \<open>
  upaostream.cc and upaostream.hh: the texts in which the log shows messages. The values of the enumerators of the RSSL
  headers and the library's own names of types and codes are parameters. A stream is the text that was written to it.
\<close>

record upa =
  enumerator :: "string \<Rightarrow> nat"
  rsslDataTypeToString :: "nat \<Rightarrow> string"
  rsslDomainTypeToString :: "nat \<Rightarrow> string"
  rsslMsgClassToString :: "nat \<Rightarrow> string"
  rsslRetCodeToString :: "nat \<Rightarrow> string"
  rsslQosRateToString :: "nat \<Rightarrow> string"
  rsslQosTimelinessToString :: "nat \<Rightarrow> string"

subsection \<open>Enumerators\<close>

text \<open>A switch over enumerators that returns their names; the cases of a switch are distinct.\<close>

fun enum_text :: "upa \<Rightarrow> string list \<Rightarrow> nat \<Rightarrow> string" where
  "enum_text U [] v = ''(Unknown)''"
| "enum_text U (n # names) v = (if v = enumerator U n then n else enum_text U names v)"

definition channel_state_string :: "upa \<Rightarrow> nat \<Rightarrow> string" where
  "channel_state_string U v = enum_text U
    [''RSSL_CH_STATE_CLOSED'', ''RSSL_CH_STATE_INACTIVE'', ''RSSL_CH_STATE_INITIALIZING'', ''RSSL_CH_STATE_ACTIVE''] v"

definition connection_type_string :: "upa \<Rightarrow> nat \<Rightarrow> string" where
  "connection_type_string U v = enum_text U
    [''RSSL_CONN_TYPE_INIT'', ''RSSL_CONN_TYPE_SOCKET'', ''RSSL_CONN_TYPE_ENCRYPTED'', ''RSSL_CONN_TYPE_HTTP'',
     ''RSSL_CONN_TYPE_UNIDIR_SHMEM'', ''RSSL_CONN_TYPE_RELIABLE_MCAST''] v"

definition filter_entry_id_string :: "upa \<Rightarrow> nat \<Rightarrow> string" where
  "filter_entry_id_string U v = enum_text U
    [''RDM_DIRECTORY_SERVICE_INFO_ID'', ''RDM_DIRECTORY_SERVICE_STATE_ID'', ''RDM_DIRECTORY_SERVICE_GROUP_ID'',
     ''RDM_DIRECTORY_SERVICE_LOAD_ID'', ''RDM_DIRECTORY_SERVICE_DATA_ID'', ''RDM_DIRECTORY_SERVICE_LINK_ID''] v"

definition filter_entry_action_string :: "upa \<Rightarrow> nat \<Rightarrow> string" where
  "filter_entry_action_string U v = enum_text U
    [''RSSL_FTEA_UPDATE_ENTRY'', ''RSSL_FTEA_SET_ENTRY'', ''RSSL_FTEA_CLEAR_ENTRY''] v"

definition instrument_type_string :: "upa \<Rightarrow> nat \<Rightarrow> string" where
  "instrument_type_string U v = enum_text U
    [''RDM_INSTRUMENT_NAME_TYPE_UNSPECIFIED'', ''RDM_INSTRUMENT_NAME_TYPE_RIC'', ''RDM_INSTRUMENT_NAME_TYPE_CONTRIBUTOR'',
     ''RDM_INSTRUMENT_NAME_TYPE_MAX_RESERVED''] v"

definition login_type_string :: "upa \<Rightarrow> nat \<Rightarrow> string" where
  "login_type_string U v = enum_text U
    [''RDM_LOGIN_USER_NAME'', ''RDM_LOGIN_USER_EMAIL_ADDRESS'', ''RDM_LOGIN_USER_TOKEN'', ''RDM_LOGIN_USER_COOKIE''] v"

definition map_entry_action_string :: "upa \<Rightarrow> nat \<Rightarrow> string" where
  "map_entry_action_string U v = enum_text U
    [''RSSL_MPEA_UPDATE_ENTRY'', ''RSSL_MPEA_ADD_ENTRY'', ''RSSL_MPEA_DELETE_ENTRY''] v"

definition real_hint_string :: "upa \<Rightarrow> nat \<Rightarrow> string" where
  "real_hint_string U v = enum_text U
    [''RSSL_RH_EXPONENT_14'', ''RSSL_RH_EXPONENT_13'', ''RSSL_RH_EXPONENT_12'', ''RSSL_RH_EXPONENT_11'',
     ''RSSL_RH_EXPONENT_10'', ''RSSL_RH_EXPONENT_9'', ''RSSL_RH_EXPONENT_8'', ''RSSL_RH_EXPONENT_7'',
     ''RSSL_RH_EXPONENT_6'', ''RSSL_RH_EXPONENT_5'', ''RSSL_RH_EXPONENT_4'', ''RSSL_RH_EXPONENT_3'', ''RSSL_RH_EXPONENT_2'',
     ''RSSL_RH_EXPONENT_1'', ''RSSL_RH_EXPONENT0'', ''RSSL_RH_EXPONENT1'', ''RSSL_RH_EXPONENT2'', ''RSSL_RH_EXPONENT3'',
     ''RSSL_RH_EXPONENT4'', ''RSSL_RH_EXPONENT5'', ''RSSL_RH_EXPONENT6'', ''RSSL_RH_EXPONENT7'', ''RSSL_RH_FRACTION_1'',
     ''RSSL_RH_FRACTION_2'', ''RSSL_RH_FRACTION_4'', ''RSSL_RH_FRACTION_8'', ''RSSL_RH_FRACTION_16'',
     ''RSSL_RH_FRACTION_32'', ''RSSL_RH_FRACTION_64'', ''RSSL_RH_FRACTION_128'', ''RSSL_RH_FRACTION_256''] v"


definition container_type_string :: "upa \<Rightarrow> nat \<Rightarrow> string" where "container_type_string U v = rsslDataTypeToString U v"
definition data_type_string :: "upa \<Rightarrow> nat \<Rightarrow> string" where "data_type_string U v = rsslDataTypeToString U v"
definition domain_type_string :: "upa \<Rightarrow> nat \<Rightarrow> string" where "domain_type_string U v = rsslDomainTypeToString U v"
definition message_class_string :: "upa \<Rightarrow> nat \<Rightarrow> string" where "message_class_string U v = rsslMsgClassToString U v"
definition primitive_type_string :: "upa \<Rightarrow> nat \<Rightarrow> string" where "primitive_type_string U v = rsslDataTypeToString U v"
definition return_code_string :: "upa \<Rightarrow> nat \<Rightarrow> string" where "return_code_string U v = rsslRetCodeToString U v"
definition qos_rate_string :: "upa \<Rightarrow> nat \<Rightarrow> string" where "qos_rate_string U v = rsslQosRateToString U v"
definition qos_timeliness_string :: "upa \<Rightarrow> nat \<Rightarrow> string" where "qos_timeliness_string U v = rsslQosTimelinessToString U v"

definition protocol_type_string :: "upa \<Rightarrow> nat \<Rightarrow> string" where
  "protocol_type_string U v = (if v = enumerator U ''RSSL_RWF_PROTOCOL_TYPE'' then ''RWF'' else ''(Unknown)'')"

subsection \<open>Flags and fields\<close>

definition has_flag :: "upa \<Rightarrow> nat \<Rightarrow> string \<Rightarrow> bool" where
  "has_flag U flags name = (and flags (enumerator U name) \<noteq> 0)"

text \<open>One test of a flag after the other; a bar goes before every name but the first.\<close>

fun flags_loop :: "upa \<Rightarrow> nat \<Rightarrow> string list \<Rightarrow> string \<Rightarrow> string" where
  "flags_loop U v [] out = out"
| "flags_loop U v (n # names) out =
    flags_loop U v names (if has_flag U v n then (if out \<noteq> [] then out @ ''|'' else out) @ n else out)"

definition flags_text :: "upa \<Rightarrow> nat \<Rightarrow> string list \<Rightarrow> string" where
  "flags_text U v names = flags_loop U v names []"

definition quote :: "string \<Rightarrow> string" where
  "quote s = CHR 0x22 # s @ [CHR 0x22]"

definition out_unsigned :: "nat \<Rightarrow> string" where
  "out_unsigned n = digits_loop n []"

definition field_text :: "string \<Rightarrow> string \<Rightarrow> string" where
  "field_text name text = '', '' @ quote name @ '': '' @ text"

subsection \<open>Keys\<close>

record printed_key =
  pk_flags :: nat
  pk_serviceId :: "16 word"
  pk_name :: string
  pk_nameType :: "8 word"
  pk_filter :: "32 word"
  pk_identifier :: "32 word"
  pk_attribContainerType :: "8 word"

definition MsgKey_flags :: "string list" where
  "MsgKey_flags =
    [''RSSL_MKF_HAS_SERVICE_ID'', ''RSSL_MKF_HAS_NAME'', ''RSSL_MKF_HAS_NAME_TYPE'', ''RSSL_MKF_HAS_FILTER'',
     ''RSSL_MKF_HAS_IDENTIFIER'', ''RSSL_MKF_HAS_ATTRIB'']"

text \<open>The four operators differ in the text of the type of the name and in that of the filter.\<close>

definition key_text :: "upa \<Rightarrow> printed_key \<Rightarrow> string \<Rightarrow> string \<Rightarrow> string" where
  "key_text U k name_type filter_text =
    (let shown = (\<lambda>flag name text. if has_flag U (pk_flags k) flag then field_text name text else []) in
     quote ''MsgKey'' @ '': { '' @ quote ''flags'' @ '': '' @ quote (flags_text U (pk_flags k) MsgKey_flags)
       @ shown ''RSSL_MKF_HAS_SERVICE_ID'' ''serviceId'' (out_unsigned (unat (pk_serviceId k)))
       @ shown ''RSSL_MKF_HAS_NAME_TYPE'' ''nameType'' (quote name_type)
       @ shown ''RSSL_MKF_HAS_NAME'' ''name'' (quote (pk_name k))
       @ shown ''RSSL_MKF_HAS_FILTER'' ''filter'' filter_text
       @ shown ''RSSL_MKF_HAS_IDENTIFIER'' ''identifier'' (IntToString (pk_identifier k))
       @ shown ''RSSL_MKF_HAS_ATTRIB'' ''attribContainerType'' (quote (data_type_string U (unat (pk_attribContainerType k))))
       @ '' }'')"

definition out_login_key :: "upa \<Rightarrow> printed_key \<Rightarrow> string" where
  "out_login_key U k = key_text U k (login_type_string U (unat (pk_nameType k))) (out_unsigned (unat (pk_filter k)))"

definition Directory_filters :: "string list" where
  "Directory_filters =
    [''RDM_DIRECTORY_SERVICE_INFO_FILTER'', ''RDM_DIRECTORY_SERVICE_STATE_FILTER'', ''RDM_DIRECTORY_SERVICE_GROUP_FILTER'',
     ''RDM_DIRECTORY_SERVICE_LOAD_FILTER'', ''RDM_DIRECTORY_SERVICE_DATA_FILTER'', ''RDM_DIRECTORY_SERVICE_LINK_FILTER'']"

definition out_directory_key :: "upa \<Rightarrow> printed_key \<Rightarrow> string" where
  "out_directory_key U k = key_text U k (out_unsigned (unat (pk_nameType k)))
    (quote (flags_text U (unat (pk_filter k)) Directory_filters))"

definition out_instrument_key :: "upa \<Rightarrow> printed_key \<Rightarrow> string" where
  "out_instrument_key U k = key_text U k (instrument_type_string U (unat (pk_nameType k))) (out_unsigned (unat (pk_filter k)))"

definition out_RsslMsgKey :: "upa \<Rightarrow> printed_key \<Rightarrow> string" where
  "out_RsslMsgKey U k = key_text U k (out_unsigned (unat (pk_nameType k))) (out_unsigned (unat (pk_filter k)))"

subsection \<open>Messages\<close>

record printed_qos =
  qos_dynamic :: "8 word"
  qos_rate :: "8 word"
  qos_rateInfo :: "16 word"
  qos_timeInfo :: "16 word"
  qos_timeliness :: "8 word"

definition out_RsslQos :: "upa \<Rightarrow> printed_qos \<Rightarrow> string" where
  "out_RsslQos U q =
    ''{ '' @ quote ''dynamic'' @ '': '' @ (if qos_dynamic q = 1 then ''true'' else ''false'')
      @ field_text ''rate'' (quote (qos_rate_string U (unat (qos_rate q))))
      @ field_text ''rateInfo'' (out_unsigned (unat (qos_rateInfo q)))
      @ field_text ''timeInfo'' (out_unsigned (unat (qos_timeInfo q)))
      @ field_text ''timeliness'' (quote (qos_timeliness_string U (unat (qos_timeliness q))))
      @ '' }''"

record printed_msg =
  pm_msgClass :: "8 word"
  pm_domainType :: "8 word"
  pm_containerType :: "8 word"
  pm_streamId :: "32 word"
  pm_msgKey :: printed_key
  pm_flags :: nat
  pm_priorityClass :: "8 word"
  pm_priorityCount :: "16 word"
  pm_qos :: printed_qos
  pm_worstQos :: printed_qos

definition RsslRequestMsg_flags :: "string list" where
  "RsslRequestMsg_flags =
    [''RSSL_RQMF_HAS_EXTENDED_HEADER'', ''RSSL_RQMF_HAS_PRIORITY'', ''RSSL_RQMF_STREAMING'',
     ''RSSL_RQMF_MSG_KEY_IN_UPDATES'', ''RSSL_RQMF_CONF_INFO_IN_UPDATES'', ''RSSL_RQMF_NO_REFRESH'', ''RSSL_RQMF_HAS_QOS'',
     ''RSSL_RQMF_HAS_WORST_QOS'', ''RSSL_RQMF_PRIVATE_STREAM'', ''RSSL_RQMF_PAUSE'', ''RSSL_RQMF_HAS_VIEW'',
     ''RSSL_RQMF_HAS_BATCH'']"

definition RsslRefreshMsg_flags :: "string list" where
  "RsslRefreshMsg_flags =
    [''RSSL_RFMF_HAS_EXTENDED_HEADER'', ''RSSL_RFMF_HAS_PERM_DATA'', ''RSSL_RFMF_HAS_MSG_KEY'', ''RSSL_RFMF_HAS_SEQ_NUM'',
     ''RSSL_RFMF_SOLICITED'', ''RSSL_RFMF_REFRESH_COMPLETE'', ''RSSL_RFMF_HAS_QOS'', ''RSSL_RFMF_CLEAR_CACHE'',
     ''RSSL_RFMF_DO_NOT_CACHE'', ''RSSL_RFMF_PRIVATE_STREAM'', ''RSSL_RFMF_HAS_POST_USER_INFO'', ''RSSL_RFMF_HAS_PART_NUM'']"

definition RsslStatusMsg_flags :: "string list" where
  "RsslStatusMsg_flags =
    [''RSSL_STMF_HAS_EXTENDED_HEADER'', ''RSSL_STMF_HAS_PERM_DATA'', ''RSSL_STMF_HAS_MSG_KEY'', ''RSSL_STMF_HAS_GROUP_ID'',
     ''RSSL_STMF_HAS_STATE'', ''RSSL_STMF_CLEAR_CACHE'', ''RSSL_STMF_PRIVATE_STREAM'', ''RSSL_STMF_HAS_POST_USER_INFO'']"

definition RsslUpdateMsg_flags :: "string list" where
  "RsslUpdateMsg_flags =
    [''RSSL_UPMF_HAS_EXTENDED_HEADER'', ''RSSL_UPMF_HAS_PERM_DATA'', ''RSSL_UPMF_HAS_MSG_KEY'', ''RSSL_UPMF_HAS_SEQ_NUM'',
     ''RSSL_UPMF_HAS_CONF_INFO'', ''RSSL_UPMF_DO_NOT_CACHE'', ''RSSL_UPMF_DO_NOT_CONFLATE'', ''RSSL_UPMF_DO_NOT_RIPPLE'',
     ''RSSL_UPMF_HAS_POST_USER_INFO'', ''RSSL_UPMF_DISCARDABLE'']"

definition RsslCloseMsg_flags :: "string list" where
  "RsslCloseMsg_flags =
    [''RSSL_CLMF_HAS_EXTENDED_HEADER'', ''RSSL_CLMF_ACK'']"

definition RsslAckMsg_flags :: "string list" where
  "RsslAckMsg_flags =
    [''RSSL_AKMF_HAS_EXTENDED_HEADER'', ''RSSL_AKMF_HAS_TEXT'', ''RSSL_AKMF_PRIVATE_STREAM'', ''RSSL_AKMF_HAS_SEQ_NUM'',
     ''RSSL_AKMF_HAS_MSG_KEY'', ''RSSL_AKMF_HAS_NAK_CODE'']"

definition RsslGenericMsg_flags :: "string list" where
  "RsslGenericMsg_flags =
    [''RSSL_GNMF_HAS_EXTENDED_HEADER'', ''RSSL_GNMF_HAS_PERM_DATA'', ''RSSL_GNMF_HAS_MSG_KEY'', ''RSSL_GNMF_HAS_SEQ_NUM'',
     ''RSSL_GNMF_MESSAGE_COMPLETE'', ''RSSL_GNMF_HAS_SECONDARY_SEQ_NUM'', ''RSSL_GNMF_HAS_PART_NUM'']"

definition RsslPostMsg_flags :: "string list" where
  "RsslPostMsg_flags =
    [''RSSL_PSMF_HAS_EXTENDED_HEADER'', ''RSSL_PSMF_HAS_POST_ID'', ''RSSL_PSMF_HAS_MSG_KEY'', ''RSSL_PSMF_HAS_SEQ_NUM'',
     ''RSSL_PSMF_POST_COMPLETE'', ''RSSL_PSMF_ACK'', ''RSSL_PSMF_HAS_PERM_DATA'', ''RSSL_PSMF_HAS_PART_NUM'',
     ''RSSL_PSMF_HAS_POST_USER_RIGHTS'']"

text \<open>What the operators of all classes write: the class, the base of the message with a key, the flags.\<close>

definition base_text :: "upa \<Rightarrow> printed_msg \<Rightarrow> string \<Rightarrow> string \<Rightarrow> string \<Rightarrow> string \<Rightarrow> string" where
  "base_text U m title class_name key behind =
    quote title @ '': { '' @ quote ''msgClass'' @ '': '' @ quote class_name
      @ field_text ''domainType'' (quote (domain_type_string U (unat (pm_domainType m))))
      @ field_text ''containerType'' (quote (data_type_string U (unat (pm_containerType m))))
      @ field_text ''streamId'' (IntToString (pm_streamId m))
      @ '', '' @ key @ behind @ '' }''"

definition class_text :: "upa \<Rightarrow> printed_msg \<Rightarrow> string \<Rightarrow> string \<Rightarrow> string list \<Rightarrow> string" where
  "class_text U m title class_name names =
    base_text U m title class_name (out_RsslMsgKey U (pm_msgKey m)) (field_text ''flags'' (quote (flags_text U (pm_flags m) names)))"

definition request_key :: "upa \<Rightarrow> printed_msg \<Rightarrow> string" where
  "request_key U m =
    (let d = unat (pm_domainType m) in
     if d = enumerator U ''RSSL_DMT_LOGIN'' then out_login_key U (pm_msgKey m)
     else if d = enumerator U ''RSSL_DMT_SOURCE'' then out_directory_key U (pm_msgKey m)
     else if d \<in> enumerator U ` {''RSSL_DMT_MARKET_PRICE'', ''RSSL_DMT_MARKET_BY_ORDER'', ''RSSL_DMT_MARKET_BY_PRICE'',
         ''RSSL_DMT_MARKET_MAKER'', ''RSSL_DMT_SYMBOL_LIST'', ''RSSL_DMT_YIELD_CURVE''}
     then out_instrument_key U (pm_msgKey m)
     else out_RsslMsgKey U (pm_msgKey m))"

definition out_RsslRequestMsg :: "upa \<Rightarrow> printed_msg \<Rightarrow> string" where
  "out_RsslRequestMsg U m = base_text U m ''RsslRequestMsg'' ''RSSL_MC_REQUEST'' (request_key U m)
    (field_text ''flags'' (quote (flags_text U (pm_flags m) RsslRequestMsg_flags))
     @ (if has_flag U (pm_flags m) ''RSSL_RQMF_HAS_PRIORITY''
        then field_text ''priorityClass'' (out_unsigned (unat (pm_priorityClass m)))
          @ field_text ''priorityCount'' (out_unsigned (unat (pm_priorityCount m))) else [])
     @ (if has_flag U (pm_flags m) ''RSSL_RQMF_HAS_QOS'' then field_text ''qos'' (out_RsslQos U (pm_qos m)) else [])
     @ (if has_flag U (pm_flags m) ''RSSL_RQMF_HAS_WORST_QOS'' then field_text ''worstQos'' (out_RsslQos U (pm_worstQos m)) else []))"

definition out_RsslRefreshMsg :: "upa \<Rightarrow> printed_msg \<Rightarrow> string" where
  "out_RsslRefreshMsg U m = class_text U m ''RsslRefreshMsg'' ''RSSL_MC_REFRESH'' RsslRefreshMsg_flags"

definition out_RsslStatusMsg :: "upa \<Rightarrow> printed_msg \<Rightarrow> string" where
  "out_RsslStatusMsg U m = class_text U m ''RsslStatusMsg'' ''RSSL_MC_STATUS'' RsslStatusMsg_flags"

definition out_RsslUpdateMsg :: "upa \<Rightarrow> printed_msg \<Rightarrow> string" where
  "out_RsslUpdateMsg U m = class_text U m ''RsslUpdateMsg'' ''RSSL_MC_UPDATE'' RsslUpdateMsg_flags"

definition out_RsslCloseMsg :: "upa \<Rightarrow> printed_msg \<Rightarrow> string" where
  "out_RsslCloseMsg U m = class_text U m ''RsslCloseMsg'' ''RSSL_MC_CLOSE'' RsslCloseMsg_flags"

definition out_RsslAckMsg :: "upa \<Rightarrow> printed_msg \<Rightarrow> string" where
  "out_RsslAckMsg U m = class_text U m ''RsslAckMsg'' ''RSSL_MC_ACK'' RsslAckMsg_flags"

definition out_RsslGenericMsg :: "upa \<Rightarrow> printed_msg \<Rightarrow> string" where
  "out_RsslGenericMsg U m = class_text U m ''RsslGenericMsg'' ''RSSL_MC_GENERIC'' RsslGenericMsg_flags"

definition out_RsslPostMsg :: "upa \<Rightarrow> printed_msg \<Rightarrow> string" where
  "out_RsslPostMsg U m = class_text U m ''RsslPostMsg'' ''RSSL_MC_POST'' RsslPostMsg_flags"

definition out_RsslMsg :: "upa \<Rightarrow> printed_msg \<Rightarrow> string" where
  "out_RsslMsg U m =
    (let c = unat (pm_msgClass m) in
     if c = enumerator U ''RSSL_MC_REQUEST'' then out_RsslRequestMsg U m
     else if c = enumerator U ''RSSL_MC_REFRESH'' then out_RsslRefreshMsg U m
     else if c = enumerator U ''RSSL_MC_STATUS'' then out_RsslStatusMsg U m
     else if c = enumerator U ''RSSL_MC_UPDATE'' then out_RsslUpdateMsg U m
     else if c = enumerator U ''RSSL_MC_CLOSE'' then out_RsslCloseMsg U m
     else if c = enumerator U ''RSSL_MC_ACK'' then out_RsslAckMsg U m
     else if c = enumerator U ''RSSL_MC_GENERIC'' then out_RsslGenericMsg U m
     else if c = enumerator U ''RSSL_MC_POST'' then out_RsslPostMsg U m
     else base_text U m ''RsslMsg'' (message_class_string U c) (out_RsslMsgKey U (pm_msgKey m)) [])"

subsection \<open>What the texts show\<close>

text \<open>The names between the bars are those of the flags that are set, in order.\<close>

lemma flags_loop_join:
  "list_all (\<lambda>n. n \<noteq> []) names \<Longrightarrow> out \<noteq> [] \<Longrightarrow>
    flags_loop U v names out = out @ concat (map (\<lambda>n. CHR ''|'' # n) (filter (has_flag U v) names))"
  by (induction names arbitrary: out) auto

lemma join_concat: "join c (p # ps) = p @ concat (map (\<lambda>q. c # q) ps)"
  by (induction ps arbitrary: p) auto

lemma flags_text_join:
  "list_all (\<lambda>n. n \<noteq> []) names \<Longrightarrow> flags_text U v names = join CHR ''|'' (filter (has_flag U v) names)"
proof (induction names)
  case (Cons n names)
  then show ?case by (auto simp: flags_text_def flags_loop_join join_concat)
qed (simp add: flags_text_def)

lemma flags_named:
  "names \<in> {MsgKey_flags, Directory_filters, RsslRequestMsg_flags, RsslRefreshMsg_flags, RsslStatusMsg_flags, RsslUpdateMsg_flags,
    RsslCloseMsg_flags, RsslAckMsg_flags, RsslGenericMsg_flags, RsslPostMsg_flags} \<Longrightarrow>
    list_all (\<lambda>n. n \<noteq> [] \<and> CHR ''|'' \<notin> set n) names \<and> distinct names"
  unfolding MsgKey_flags_def Directory_filters_def RsslRequestMsg_flags_def RsslRefreshMsg_flags_def RsslStatusMsg_flags_def
    RsslUpdateMsg_flags_def RsslCloseMsg_flags_def RsslAckMsg_flags_def RsslGenericMsg_flags_def RsslPostMsg_flags_def
  by auto

text \<open>Split at its bars, the text of the flags of a key, of a filter or of a message of any class names exactly the flags
  that are set; it is empty when none of them is.\<close>

theorem flags_read_back:
  assumes "names \<in> {MsgKey_flags, Directory_filters, RsslRequestMsg_flags, RsslRefreshMsg_flags, RsslStatusMsg_flags,
    RsslUpdateMsg_flags, RsslCloseMsg_flags, RsslAckMsg_flags, RsslGenericMsg_flags, RsslPostMsg_flags}"
  shows "filter (\<lambda>n. n \<noteq> []) (pieces ((=) CHR ''|'') (flags_text U v names)) = filter (has_flag U v) names"
proof -
  note n = flags_named [OF assms]
  have t: "flags_text U v names = join CHR ''|'' (filter (has_flag U v) names)"
    using n by (intro flags_text_join) (simp add: list_all_iff)
  show ?thesis
  proof (cases "filter (has_flag U v) names = []")
    case False
    then have "pieces ((=) CHR ''|'') (flags_text U v names) = filter (has_flag U v) names"
      unfolding t using n by (intro fields_join) (auto simp: list_all_iff)
    moreover have "filter (\<lambda>n. n \<noteq> []) (filter (has_flag U v) names) = filter (has_flag U v) names"
      using n by (auto simp: list_all_iff intro!: filter_cong)
    ultimately show ?thesis by simp
  qed (simp add: t)
qed

end
