(* ===== verification/Crc.thy ===== *)
theory Crc
  imports Prelude
begin

section \<open>The checksum of the bucket boundaries (chromium/metrics/histogram.cc)\<close>

text \<open>
  A histogram keeps a CRC-32 of its bucket boundaries, to notice that its memory was overwritten.
  \<open>kCrcTable\<close> is the table of the source, \<open>Crc32\<close> the sum over the four bytes of a boundary, and
  \<open>crc_step\<close> the division by the reversed polynomial, one bit at a time, that the comment of the
  source describes. The table is that division of each byte, the sum of a boundary is that division
  of its 32 bits, and the division loses nothing, so that a checksum always tells two lists apart
  which differ in one place.
\<close>

unbundle bit_operations_syntax

definition kCrcTable :: "u32 list" where
  "kCrcTable = [
    0x0, 0x77073096, 0xee0e612c, 0x990951ba, 0x76dc419, 0x706af48f,
    0xe963a535, 0x9e6495a3, 0xedb8832, 0x79dcb8a4, 0xe0d5e91e, 0x97d2d988,
    0x9b64c2b, 0x7eb17cbd, 0xe7b82d07, 0x90bf1d91, 0x1db71064, 0x6ab020f2,
    0xf3b97148, 0x84be41de, 0x1adad47d, 0x6ddde4eb, 0xf4d4b551, 0x83d385c7,
    0x136c9856, 0x646ba8c0, 0xfd62f97a, 0x8a65c9ec, 0x14015c4f, 0x63066cd9,
    0xfa0f3d63, 0x8d080df5, 0x3b6e20c8, 0x4c69105e, 0xd56041e4, 0xa2677172,
    0x3c03e4d1, 0x4b04d447, 0xd20d85fd, 0xa50ab56b, 0x35b5a8fa, 0x42b2986c,
    0xdbbbc9d6, 0xacbcf940, 0x32d86ce3, 0x45df5c75, 0xdcd60dcf, 0xabd13d59,
    0x26d930ac, 0x51de003a, 0xc8d75180, 0xbfd06116, 0x21b4f4b5, 0x56b3c423,
    0xcfba9599, 0xb8bda50f, 0x2802b89e, 0x5f058808, 0xc60cd9b2, 0xb10be924,
    0x2f6f7c87, 0x58684c11, 0xc1611dab, 0xb6662d3d, 0x76dc4190, 0x1db7106,
    0x98d220bc, 0xefd5102a, 0x71b18589, 0x6b6b51f, 0x9fbfe4a5, 0xe8b8d433,
    0x7807c9a2, 0xf00f934, 0x9609a88e, 0xe10e9818, 0x7f6a0dbb, 0x86d3d2d,
    0x91646c97, 0xe6635c01, 0x6b6b51f4, 0x1c6c6162, 0x856530d8, 0xf262004e,
    0x6c0695ed, 0x1b01a57b, 0x8208f4c1, 0xf50fc457, 0x65b0d9c6, 0x12b7e950,
    0x8bbeb8ea, 0xfcb9887c, 0x62dd1ddf, 0x15da2d49, 0x8cd37cf3, 0xfbd44c65,
    0x4db26158, 0x3ab551ce, 0xa3bc0074, 0xd4bb30e2, 0x4adfa541, 0x3dd895d7,
    0xa4d1c46d, 0xd3d6f4fb, 0x4369e96a, 0x346ed9fc, 0xad678846, 0xda60b8d0,
    0x44042d73, 0x33031de5, 0xaa0a4c5f, 0xdd0d7cc9, 0x5005713c, 0x270241aa,
    0xbe0b1010, 0xc90c2086, 0x5768b525, 0x206f85b3, 0xb966d409, 0xce61e49f,
    0x5edef90e, 0x29d9c998, 0xb0d09822, 0xc7d7a8b4, 0x59b33d17, 0x2eb40d81,
    0xb7bd5c3b, 0xc0ba6cad, 0xedb88320, 0x9abfb3b6, 0x3b6e20c, 0x74b1d29a,
    0xead54739, 0x9dd277af, 0x4db2615, 0x73dc1683, 0xe3630b12, 0x94643b84,
    0xd6d6a3e, 0x7a6a5aa8, 0xe40ecf0b, 0x9309ff9d, 0xa00ae27, 0x7d079eb1,
    0xf00f9344, 0x8708a3d2, 0x1e01f268, 0x6906c2fe, 0xf762575d, 0x806567cb,
    0x196c3671, 0x6e6b06e7, 0xfed41b76, 0x89d32be0, 0x10da7a5a, 0x67dd4acc,
    0xf9b9df6f, 0x8ebeeff9, 0x17b7be43, 0x60b08ed5, 0xd6d6a3e8, 0xa1d1937e,
    0x38d8c2c4, 0x4fdff252, 0xd1bb67f1, 0xa6bc5767, 0x3fb506dd, 0x48b2364b,
    0xd80d2bda, 0xaf0a1b4c, 0x36034af6, 0x41047a60, 0xdf60efc3, 0xa867df55,
    0x316e8eef, 0x4669be79, 0xcb61b38c, 0xbc66831a, 0x256fd2a0, 0x5268e236,
    0xcc0c7795, 0xbb0b4703, 0x220216b9, 0x5505262f, 0xc5ba3bbe, 0xb2bd0b28,
    0x2bb45a92, 0x5cb36a04, 0xc2d7ffa7, 0xb5d0cf31, 0x2cd99e8b, 0x5bdeae1d,
    0x9b64c2b0, 0xec63f226, 0x756aa39c, 0x26d930a, 0x9c0906a9, 0xeb0e363f,
    0x72076785, 0x5005713, 0x95bf4a82, 0xe2b87a14, 0x7bb12bae, 0xcb61b38,
    0x92d28e9b, 0xe5d5be0d, 0x7cdcefb7, 0xbdbdf21, 0x86d3d2d4, 0xf1d4e242,
    0x68ddb3f8, 0x1fda836e, 0x81be16cd, 0xf6b9265b, 0x6fb077e1, 0x18b74777,
    0x88085ae6, 0xff0f6a70, 0x66063bca, 0x11010b5c, 0x8f659eff, 0xf862ae69,
    0x616bffd3, 0x166ccf45, 0xa00ae278, 0xd70dd2ee, 0x4e048354, 0x3903b3c2,
    0xa7672661, 0xd06016f7, 0x4969474d, 0x3e6e77db, 0xaed16a4a, 0xd9d65adc,
    0x40df0b66, 0x37d83bf0, 0xa9bcae53, 0xdebb9ec5, 0x47b2cf7f, 0x30b5ffe9,
    0xbdbdf21c, 0xcabac28a, 0x53b39330, 0x24b4a3a6, 0xbad03605, 0xcdd70693,
    0x54de5729, 0x23d967bf, 0xb3667a2e, 0xc4614ab8, 0x5d681b02, 0x2a6f2b94,
    0xb40bbe37, 0xc30c8ea1, 0x5a05df1b, 0x2d02ef8d]"

text \<open>The bytes of an \<open>int\<close>, the lowest first as the processor stores it.\<close>

definition boundary_bytes :: "u32 \<Rightarrow> u32 list" where
  "boundary_bytes r = [r AND 0xff, drop_bit 8 r AND 0xff, drop_bit 16 r AND 0xff, drop_bit 24 r AND 0xff]"

definition crc_byte :: "u32 \<Rightarrow> u32 \<Rightarrow> u32" where
  "crc_byte s b = (kCrcTable ! unat ((s AND 0xff) XOR b)) XOR drop_bit 8 s"

definition Crc32 :: "u32 \<Rightarrow> int \<Rightarrow> u32" where
  "Crc32 s v = foldl crc_byte s (boundary_bytes (word_of_int v))"

definition CalculateRangeChecksum :: "int list \<Rightarrow> nat \<Rightarrow> u32" where
  "CalculateRangeChecksum rs n = foldl Crc32 (word_of_nat (length rs)) (take n rs)"

subsection \<open>One bit at a time\<close>

definition crc_step :: "u32 \<Rightarrow> u32" where
  "crc_step x = drop_bit 1 x XOR (if bit x 0 then 0xedb88320 else 0)"

definition crc8 :: "u32 \<Rightarrow> u32" where
  "crc8 x = crc_step (crc_step (crc_step (crc_step (crc_step (crc_step (crc_step (crc_step x)))))))"

text \<open>Division is linear, and takes the low byte away.\<close>

lemma crc_step_xor: "crc_step (x XOR y) = crc_step x XOR crc_step y"
  by (cases "bit x 0"; cases "bit y 0")
    (simp_all add: crc_step_def bit_xor_iff drop_bit_xor xor.assoc xor.left_commute xor.commute)

lemma crc8_xor: "crc8 (x XOR y) = crc8 x XOR crc8 y"
  by (simp add: crc8_def crc_step_xor)

lemma low_byte: "x AND 0xff = take_bit 8 x" for x :: u32
  by (simp add: take_bit_eq_mask mask_eq_exp_minus_1)

lemma crc8_high:
  assumes "take_bit 8 x = 0"
  shows "crc8 x = drop_bit 8 x"
proof -
  have "\<not> bit x n" if "n < 8" for n
    using that assms by (metis bit_take_bit_iff bit_0_eq bot_apply bot_bool_def)
  then show ?thesis
    by (simp add: crc8_def crc_step_def bit_drop_bit_eq drop_bit_drop_bit numeral_eq_Suc)
qed

lemma split_byte: "x = take_bit 8 x XOR push_bit 8 (drop_bit 8 x)" for x :: u32
  by (rule bit_eqI) (auto simp: bit_xor_iff bit_take_bit_iff bit_push_bit_iff bit_drop_bit_eq)

lemma crc8_push: "crc8 (push_bit 8 (drop_bit 8 x)) = drop_bit 8 x"
proof -
  have "crc8 (push_bit 8 (drop_bit 8 x)) = drop_bit 8 (push_bit 8 (drop_bit 8 x))"
    by (rule crc8_high, rule bit_eqI) (simp add: bit_take_bit_iff bit_push_bit_iff)
  also have "\<dots> = drop_bit 8 x"
    by (rule bit_eqI) (auto simp: bit_push_bit_iff bit_drop_bit_eq dest: bit_imp_possible_bit)
  finally show ?thesis .
qed

lemma crc8_low: "crc8 x = crc8 (take_bit 8 x) XOR drop_bit 8 x"
  by (subst split_byte) (simp only: crc8_xor crc8_push)

text \<open>The table is the division of each byte. It doubles with each bit of the index.\<close>

definition doubled :: "u32 \<Rightarrow> u32 list \<Rightarrow> u32 list" where
  "doubled c xs = xs @ map (\<lambda>x. c XOR x) xs"

lemma doubled_table:
  assumes k: "k < 32" and c: "c = crc8 (push_bit k 1)"
  shows "doubled c (map (\<lambda>i. crc8 (word_of_nat i)) [0..<2 ^ k]) = map (\<lambda>i. crc8 (word_of_nat i)) [0..<2 ^ Suc k]"
proof -
  have "crc8 (word_of_nat (2 ^ k + i)) = c XOR crc8 (word_of_nat i)" if "i < 2 ^ k" for i
  proof -
    have "take_bit k (word_of_nat i :: u32) = word_of_nat i"
      using that by (metis of_nat_take_bit take_bit_nat_eq_self)
    then have "\<not> bit (push_bit k 1 :: u32) n \<or> \<not> bit (word_of_nat i :: u32) n" for n
      by (metis bit_push_bit_iff bit_take_bit_iff linorder_not_le)
    then have "push_bit k 1 AND (word_of_nat i :: u32) = 0"
      by (auto simp: bit_eq_iff bit_and_iff simp del: push_bit_of_1)
    then have "(word_of_nat (2 ^ k + i) :: u32) = push_bit k 1 XOR word_of_nat i"
      by (subst disjunctive_add_eq_xor [symmetric]) simp_all
    then show ?thesis using c by (simp only: crc8_xor)
  qed
  then have "map (\<lambda>i. crc8 (word_of_nat i)) [2 ^ k..<2 ^ k + 2 ^ k]
      = map (\<lambda>x. c XOR x) (map (\<lambda>i. crc8 (word_of_nat i)) [0..<2 ^ k])"
    by (subst map_add_upt [symmetric]) (simp add: add.commute)
  then show ?thesis
    by (simp add: doubled_def upt_add_eq_append [of 0 "2 ^ k" "2 ^ k"] mult_2)
qed

lemma crc_bits:
  "crc8 (push_bit 0 1) = 0x77073096" "crc8 (push_bit 1 1) = 0xee0e612c" "crc8 (push_bit 2 1) = 0x76dc419"
  "crc8 (push_bit 3 1) = 0xedb8832" "crc8 (push_bit 4 1) = 0x1db71064" "crc8 (push_bit 5 1) = 0x3b6e20c8"
  "crc8 (push_bit 6 1) = 0x76dc4190" "crc8 (push_bit 7 1) = 0xedb88320"
  by (simp_all add: crc8_def crc_step_def)

lemma crc_table: "kCrcTable = map (\<lambda>i. crc8 (word_of_nat i)) [0..<256]"
proof -
  define tab where "tab k = map (\<lambda>i. crc8 (word_of_nat i)) [0..<2 ^ k]" for k
  have step: "doubled c (tab k) = tab (Suc k)" if "k < 32" "crc8 (push_bit k 1) = c" for c k
    using doubled_table [OF that(1) that(2) [symmetric]] by (simp only: tab_def)
  have "[0] = tab 0"
    by (simp add: tab_def crc8_def crc_step_def)
  moreover have "kCrcTable = doubled 0xedb88320 (doubled 0x76dc4190 (doubled 0x3b6e20c8 (doubled 0x1db71064
      (doubled 0xedb8832 (doubled 0x76dc419 (doubled 0xee0e612c (doubled 0x77073096 [0])))))))"
    by (simp add: kCrcTable_def doubled_def)
  moreover have "doubled 0x77073096 (tab 0) = tab (Suc 0)" "doubled 0xee0e612c (tab (Suc 0)) = tab 2"
    "doubled 0x76dc419 (tab 2) = tab 3" "doubled 0xedb8832 (tab 3) = tab 4"
    "doubled 0x1db71064 (tab 4) = tab 5" "doubled 0x3b6e20c8 (tab 5) = tab 6"
    "doubled 0x76dc4190 (tab 6) = tab 7" "doubled 0xedb88320 (tab 7) = tab 8"
    using step [OF _ crc_bits(1)] step [OF _ crc_bits(2)] step [OF _ crc_bits(3)] step [OF _ crc_bits(4)]
      step [OF _ crc_bits(5)] step [OF _ crc_bits(6)] step [OF _ crc_bits(7)] step [OF _ crc_bits(8)]
    by (simp_all add: eval_nat_numeral)
  ultimately have "kCrcTable = tab 8" by simp
  then show ?thesis by (simp only: tab_def) simp
qed

text \<open>A byte read from the table is eight bits of the division, a boundary is 32.\<close>

lemma crc_byte_bits:
  assumes "take_bit 8 b = b"
  shows "crc_byte s b = crc8 (s XOR b)"
proof -
  have b: "drop_bit 8 b = 0" using assms by (metis drop_bit_take_bit diff_self_eq_0 take_bit_0)
  have "take_bit 8 (s XOR b) = take_bit 8 s XOR b" by (simp add: take_bit_xor assms)
  moreover have "unat (take_bit 8 s XOR b) < 256"
    using take_bit_nat_less_exp [of 8 "unat (s XOR b)"] calculation
    by (simp add: unsigned_take_bit_eq [symmetric])
  ultimately show ?thesis
    using crc8_low [of "s XOR b"] b by (simp add: crc_byte_def crc_table low_byte drop_bit_xor)
qed

lemma crc8_byte: "crc8 (s XOR w) = crc_byte s (take_bit 8 w) XOR drop_bit 8 w"
proof -
  have "s XOR w = (s XOR take_bit 8 w) XOR push_bit 8 (drop_bit 8 w)"
    using split_byte [of w] by (simp add: xor.assoc)
  then have "crc8 (s XOR w) = crc8 (s XOR take_bit 8 w) XOR crc8 (push_bit 8 (drop_bit 8 w))"
    by (simp only: crc8_xor)
  then show ?thesis
    by (subst crc_byte_bits) (simp_all add: crc8_push)
qed

lemma Crc32_bits: "Crc32 s v = (crc_step ^^ 32) (s XOR word_of_int v)"
proof -
  define w :: u32 where "w = word_of_int v"
  have bytes: "boundary_bytes w = [take_bit 8 w, take_bit 8 (drop_bit 8 w), take_bit 8 (drop_bit 16 w),
      take_bit 8 (drop_bit 24 w)]"
    by (simp add: boundary_bytes_def low_byte)
  have "drop_bit 32 w = 0" by (rule bit_eqI) (simp add: bit_drop_bit_eq bit_word.abs_eq)
  then have "crc8 (crc8 (crc8 (crc8 (s XOR w)))) = Crc32 s v"
    by (simp add: Crc32_def bytes w_def [symmetric] crc8_byte drop_bit_drop_bit)
  moreover have "(crc_step ^^ 32) x = crc8 (crc8 (crc8 (crc8 x)))" for x
    by (simp add: crc8_def numeral_eq_Suc)
  ultimately show ?thesis by (simp add: w_def)
qed

lemma xor_cancel: "a XOR c = b XOR c \<longleftrightarrow> a = b" "c XOR a = c XOR b \<longleftrightarrow> a = b" for a b c :: u32
  by (auto simp: bit_eq_iff bit_xor_iff)

lemma crc_step_inj: "crc_step x = crc_step y \<Longrightarrow> x = y"
proof -
  assume "crc_step x = crc_step y"
  then have 0: "crc_step (x XOR y) = 0" by (simp add: crc_step_xor)
  have p: "bit (0xedb88320 :: u32) 31" by simp
  have "\<not> bit (drop_bit 1 (x XOR y)) 31"
    by (auto simp: bit_drop_bit_eq bit_xor_iff dest: bit_imp_possible_bit)
  moreover have "\<not> bit (drop_bit 1 (x XOR y) XOR 0xedb88320) 31"
    if "bit (x XOR y) 0"
    using 0 that by (simp add: crc_step_def)
  ultimately have low: "\<not> bit (x XOR y) 0"
    using p unfolding bit_xor_iff [of "drop_bit 1 (x XOR y)"] by blast
  with 0 have "drop_bit 1 (x XOR y) = 0" by (simp add: crc_step_def)
  then have "\<not> bit (x XOR y) (Suc n)" for n by (metis bit_0_eq bit_drop_bit_eq bot_apply bot_bool_def plus_1_eq_Suc comp_apply)
  with low have "x XOR y = 0" by (intro bit_eqI) (metis bit_0_eq bot_apply bot_bool_def not0_implies_Suc)
  then have "x XOR y = y XOR y" by simp
  then show "x = y" by (simp only: xor_cancel)
qed

lemma Crc32_eq_iff: "Crc32 s v = Crc32 t w \<longleftrightarrow> s XOR word_of_int v = t XOR word_of_int w"
proof -
  have "inj (crc_step ^^ n)" for n by (intro inj_fn) (simp add: inj_def crc_step_inj)
  then show ?thesis by (simp add: Crc32_bits inj_eq)
qed

lemma Crc32_same: "Crc32 s v = Crc32 t v \<longleftrightarrow> s = t"
  by (simp add: Crc32_eq_iff xor_cancel)

lemma sums_inj: "foldl Crc32 s vs = foldl Crc32 t vs \<longleftrightarrow> s = t"
  by (induction vs arbitrary: s t) (simp_all add: Crc32_same)

text \<open>What one overwritten boundary does to the checksum.\<close>

lemma checksum_update:
  assumes "i < n" "n \<le> length rs"
  shows "CalculateRangeChecksum (rs[i := v]) n = CalculateRangeChecksum rs n
      \<longleftrightarrow> (word_of_int v :: u32) = word_of_int (rs ! i)"
proof -
  define pre post where "pre = foldl Crc32 (word_of_nat (length rs)) (take i rs)"
    and "post = drop (Suc i) (take n rs)"
  have "take n (rs[i := v]) = take i rs @ v # post"
    using assms
    by (simp add: post_def upd_conv_take_nth_drop take_update_swap [symmetric] min_def take_Cons' drop_take)
  moreover have "take n rs = take i rs @ rs ! i # post"
    using assms id_take_nth_drop [of i "take n rs"] by (simp add: post_def min_def)
  ultimately have "CalculateRangeChecksum (rs[i := v]) n = foldl Crc32 (Crc32 pre v) post"
    and "CalculateRangeChecksum rs n = foldl Crc32 (Crc32 pre (rs ! i)) post"
    by (simp_all add: CalculateRangeChecksum_def pre_def)
  then show ?thesis by (simp add: sums_inj Crc32_eq_iff xor_cancel)
qed

end
