(* ===== verification/Histogram.thy ===== *)
theory Histogram
  imports Crc "HOL-Library.Monad_Syntax" Complex_Main
begin

section \<open>Histograms (chromium/metrics/histogram.cc)\<close>

text \<open>
  A histogram counts samples in buckets. Bucket \<open>i\<close> holds the samples from boundary \<open>i\<close> up to
  boundary \<open>i + 1\<close>; the boundaries stand in a \<open>CachedRanges\<close> object, which histograms may share, so
  the operations here take the boundaries \<open>rs\<close> as an argument and \<open>Statistics\<close> keeps the objects.

  Counts are 32-bit words read as signed, sums and totals 64-bit words, as the code has them. A
  boundary is an \<open>int\<close> of 32 bits. \<open>None\<close> is an access behind the end of a vector. A failed \<open>CHECK\<close>
  (the number of buckets, the bucket found) writes a message and the code goes on, as \<open>Logging\<close> has it;
  the conditions of the \<open>CHECK\<close>s and \<open>DCHECK\<close>s are hypotheses or conclusions of the theorems. The logarithmic layout computes with doubles: its next boundary is a parameter \<open>nx\<close>,
  \<open>exp_next\<close> is the formula of the code over the real numbers.

  The lemmas show that each layout gives strictly increasing boundaries, that the binary search finds
  the one bucket of a sample, that no reachable histogram looks corrupt, and what corruption is
  noticed.
\<close>

definition kSampleType_MAX :: int where "kSampleType_MAX = 2 ^ 31 - 1"
definition kBucketCount_MAX :: nat where "kBucketCount_MAX = 16384"

datatype ClassType = HISTOGRAM | LINEAR_HISTOGRAM | BOOLEAN_HISTOGRAM | CUSTOM_HISTOGRAM

definition kNoFlags :: u32 where "kNoFlags = 0"
definition kHexRangePrintingFlag :: u32 where "kHexRangePrintingFlag = 0x8000"

definition NO_INCONSISTENCIES :: u32 where "NO_INCONSISTENCIES = 0"
definition RANGE_CHECKSUM_ERROR :: u32 where "RANGE_CHECKSUM_ERROR = 1"
definition BUCKET_ORDER_ERROR :: u32 where "BUCKET_ORDER_ERROR = 2"
definition COUNT_HIGH_ERROR :: u32 where "COUNT_HIGH_ERROR = 4"
definition COUNT_LOW_ERROR :: u32 where "COUNT_LOW_ERROR = 8"

record sample_set =
  counts :: "u32 list"
  sample_sum :: u64
  redundant_count :: u64

record histogram =
  histogram_type :: ClassType
  histogram_name :: string
  declared_min :: int
  declared_max :: int
  bucket_count :: nat
  hist_flags :: u32
  cached_ranges :: nat
  range_checksum :: u32
  samples :: sample_set
  bucket_description :: "int \<Rightarrow> string option"

subsection \<open>Sets of samples\<close>

text \<open>An index behind the end of the counts is \<open>None\<close>.\<close>

definition empty_samples :: sample_set where
  "empty_samples = \<lparr>counts = [], sample_sum = 0, redundant_count = 0\<rparr>"

definition Resize :: "nat \<Rightarrow> sample_set \<Rightarrow> sample_set" where
  "Resize n ss = ss\<lparr>counts := take n (counts ss) @ replicate (n - length (counts ss)) 0\<rparr>"

definition Accumulate :: "int \<Rightarrow> int \<Rightarrow> nat \<Rightarrow> sample_set \<Rightarrow> sample_set option" where
  "Accumulate v n i ss =
     (if i < length (counts ss)
      then Some \<lparr>counts = (counts ss)[i := counts ss ! i + word_of_int n],
                 sample_sum = sample_sum ss + word_of_int (n * v),
                 redundant_count = redundant_count ss + word_of_int n\<rparr>
      else None)"

definition TotalCount :: "sample_set \<Rightarrow> u32" where
  "TotalCount ss = foldl (+) 0 (counts ss)"

text \<open>\<open>Add\<close> and \<open>Subtract\<close> of two sets run over the places of the first.\<close>

definition add_samples :: "sample_set \<Rightarrow> sample_set \<Rightarrow> sample_set option" where
  "add_samples ss ot =
     (if length (counts ot) < length (counts ss) then None
      else Some \<lparr>counts = map2 (+) (counts ss) (counts ot), sample_sum = sample_sum ss + sample_sum ot,
                 redundant_count = redundant_count ss + redundant_count ot\<rparr>)"

definition Subtract :: "sample_set \<Rightarrow> sample_set \<Rightarrow> sample_set option" where
  "Subtract ss ot =
     (if length (counts ot) < length (counts ss) then None
      else Some \<lparr>counts = map2 (-) (counts ss) (counts ot), sample_sum = sample_sum ss - sample_sum ot,
                 redundant_count = redundant_count ss - redundant_count ot\<rparr>)"

subsection \<open>Boundaries\<close>

definition SetBucketRange :: "nat \<Rightarrow> int \<Rightarrow> int list \<Rightarrow> int list option" where
  "SetBucketRange i v rs = (if i < length rs then Some (rs[i := v]) else None)"

definition Initialize_histogram :: "histogram \<Rightarrow> int list \<Rightarrow> (histogram \<times> int list) option" where
  "Initialize_histogram h rs =
     (let mn = (if declared_min h < 1 then 1 else declared_min h);
          mx = (if declared_max h > kSampleType_MAX - 1 then kSampleType_MAX - 1 else declared_max h);
          h' = h\<lparr>samples := Resize (bucket_count h) (samples h), declared_min := mn, declared_max := mx\<rparr>
      in do { rs' \<leftarrow> SetBucketRange (bucket_count h) kSampleType_MAX rs; Some (h', rs') })"

definition new_histogram :: "ClassType \<Rightarrow> string \<Rightarrow> int \<Rightarrow> int \<Rightarrow> nat \<Rightarrow> (histogram \<times> int list) option" where
  "new_histogram ty name mn mx n =
     Initialize_histogram
       \<lparr>histogram_type = ty, histogram_name = name, declared_min = mn, declared_max = mx, bucket_count = n,
        hist_flags = kNoFlags, cached_ranges = 0, range_checksum = 0, samples = empty_samples,
        bucket_description = (\<lambda>_. None)\<rparr>
       (replicate (n + 1) 0)"

definition ResetRangeChecksum :: "int list \<Rightarrow> histogram \<Rightarrow> histogram" where
  "ResetRangeChecksum rs h = h\<lparr>range_checksum := CalculateRangeChecksum rs (bucket_count h)\<rparr>"

definition HasValidRangeChecksum :: "int list \<Rightarrow> histogram \<Rightarrow> bool" where
  "HasValidRangeChecksum rs h \<longleftrightarrow> CalculateRangeChecksum rs (bucket_count h) = range_checksum h"

text \<open>The logarithmic layout: \<open>nx cur mx k\<close> is where the next boundary would fall when \<open>k\<close> are left.\<close>

function range_loop :: "(int \<Rightarrow> int \<Rightarrow> nat \<Rightarrow> int) \<Rightarrow> int \<Rightarrow> nat \<Rightarrow> nat \<Rightarrow> int \<Rightarrow> int list \<Rightarrow> int list option" where
  "range_loop nx mx n i cur rs =
     (if i + 1 < n
      then let nxt = nx cur mx (n - (i + 1));
               cur' = (if nxt > cur then nxt else cur + 1)
           in case SetBucketRange (i + 1) cur' rs of
                None \<Rightarrow> None
              | Some rs' \<Rightarrow> range_loop nx mx n (i + 1) cur' rs'
      else Some rs)"
  by pat_completeness auto
termination by (relation "measure (\<lambda>(nx, mx, n, i, cur, rs). n - i)") auto

declare range_loop.simps [simp del]

definition InitializeBucketRange ::
  "(int \<Rightarrow> int \<Rightarrow> nat \<Rightarrow> int) \<Rightarrow> histogram \<Rightarrow> int list \<Rightarrow> (histogram \<times> int list) option" where
  "InitializeBucketRange nx h rs =
     do { rs1 \<leftarrow> SetBucketRange 1 (declared_min h) rs;
          rs2 \<leftarrow> range_loop nx (declared_max h) (bucket_count h) 1 (declared_min h) rs1;
          Some (ResetRangeChecksum rs2 h, rs2) }"

definition exp_next :: "int \<Rightarrow> int \<Rightarrow> nat \<Rightarrow> int" where
  "exp_next cur mx k = \<lfloor>exp (ln (real_of_int cur) + (ln (real_of_int mx) - ln (real_of_int cur)) / real k) + 0.5\<rfloor>"

text \<open>The linear layout. Its double has an exact numerator below \<open>2 ^ 46\<close> and a denominator below
  \<open>2 ^ 14\<close>, so that rounding it never carries it over a half: the cast gives the integer below. With two
  buckets the code divides zero by zero and casts the result, which has no meaning.\<close>

definition linear_range :: "int \<Rightarrow> int \<Rightarrow> nat \<Rightarrow> nat \<Rightarrow> int" where
  "linear_range mn mx n i =
     (2 * (mn * int (n - 1 - i) + mx * int (i - 1)) + int (n - 2)) div (2 * int (n - 2))"

fun linear_loop :: "int \<Rightarrow> int \<Rightarrow> nat \<Rightarrow> nat list \<Rightarrow> int list \<Rightarrow> int list option" where
  "linear_loop mn mx n [] rs = Some rs"
| "linear_loop mn mx n (i # is) rs =
     (if n = 2 then None
      else case SetBucketRange i (linear_range mn mx n i) rs of
             None \<Rightarrow> None
           | Some rs' \<Rightarrow> linear_loop mn mx n is rs')"

definition InitializeBucketRange_linear :: "histogram \<Rightarrow> int list \<Rightarrow> (histogram \<times> int list) option" where
  "InitializeBucketRange_linear h rs =
     do { rs' \<leftarrow> linear_loop (declared_min h) (declared_max h) (bucket_count h) [1..<bucket_count h] rs;
          Some (ResetRangeChecksum rs' h, rs') }"

text \<open>The layout of given boundaries.\<close>

definition sort_ranges :: "int list \<Rightarrow> int list" where
  "sort_ranges custom =
     (let rs = remdups_adj (sort (custom @ [0])) in if length rs \<le> 1 then rs @ [1] else rs)"

fun custom_loop :: "nat \<Rightarrow> int list \<Rightarrow> int list \<Rightarrow> int list option" where
  "custom_loop i [] rs = Some rs"
| "custom_loop i (c # cs) rs =
     (case SetBucketRange i c rs of None \<Rightarrow> None | Some rs' \<Rightarrow> custom_loop (i + 1) cs rs')"

definition InitializedCustomBucketRange :: "int list \<Rightarrow> histogram \<Rightarrow> int list \<Rightarrow> (histogram \<times> int list) option" where
  "InitializedCustomBucketRange custom h rs =
     do { rs' \<leftarrow> custom_loop 0 custom rs; Some (ResetRangeChecksum rs' h, rs') }"

definition ArrayToCustomRanges :: "int list \<Rightarrow> int list" where
  "ArrayToCustomRanges vs = concat (map (\<lambda>v. [v, v + 1]) vs)"

definition ValidateBucketRanges :: "histogram \<Rightarrow> int list \<Rightarrow> bool" where
  "ValidateBucketRanges h rs \<longleftrightarrow>
     length rs = bucket_count h + 1 \<and> rs ! 0 = 0 \<and> rs ! 1 = declared_min h
     \<and> rs ! (bucket_count h - 1) = declared_max h \<and> rs ! bucket_count h = kSampleType_MAX"

subsection \<open>Adding samples\<close>

function bucket_search :: "int list \<Rightarrow> int \<Rightarrow> nat \<Rightarrow> nat \<Rightarrow> nat" where
  "bucket_search rs v lo hi =
     (let mid = lo + (hi - lo) div 2
      in if mid = lo then mid
         else if rs ! mid \<le> v then bucket_search rs v mid hi
         else bucket_search rs v lo mid)"
  by pat_completeness auto
termination by (relation "measure (\<lambda>(rs, v, lo, hi). hi - lo)") auto

declare bucket_search.simps [simp del]

definition BucketIndex :: "histogram \<Rightarrow> int list \<Rightarrow> int \<Rightarrow> nat option" where
  "BucketIndex h rs v =
     (let mid = bucket_search rs v 0 (bucket_count h)
      in if mid + 1 < length rs then Some mid else None)"

definition clamp :: "int \<Rightarrow> int" where
  "clamp v = (let v' = (if v > kSampleType_MAX - 1 then kSampleType_MAX - 1 else v) in if v' < 0 then 0 else v')"

definition Add :: "int list \<Rightarrow> int \<Rightarrow> histogram \<Rightarrow> histogram option" where
  "Add rs v h =
     do { i \<leftarrow> BucketIndex h rs (clamp v);
          ss \<leftarrow> Accumulate (clamp v) 1 i (samples h);
          Some (h\<lparr>samples := ss\<rparr>) }"

definition AddBoolean :: "int list \<Rightarrow> bool \<Rightarrow> histogram \<Rightarrow> histogram option" where
  "AddBoolean rs b h = (if histogram_type h = BOOLEAN_HISTOGRAM then Add rs (if b then 1 else 0) h else Some h)"

definition AddSampleSet :: "sample_set \<Rightarrow> histogram \<Rightarrow> histogram option" where
  "AddSampleSet ot h = map_option (\<lambda>ss. h\<lparr>samples := ss\<rparr>) (add_samples (samples h) ot)"

definition SetFlags :: "u32 \<Rightarrow> histogram \<Rightarrow> histogram" where
  "SetFlags f h = h\<lparr>hist_flags := hist_flags h OR f\<rparr>"

definition ClearFlags :: "u32 \<Rightarrow> histogram \<Rightarrow> histogram" where
  "ClearFlags f h = h\<lparr>hist_flags := hist_flags h AND NOT f\<rparr>"

definition HasConstructorArguments :: "int \<Rightarrow> int \<Rightarrow> nat \<Rightarrow> histogram \<Rightarrow> bool" where
  "HasConstructorArguments mn mx n h \<longleftrightarrow> mn = declared_min h \<and> mx = declared_max h \<and> n = bucket_count h"

definition SetRangeDescriptions :: "(int \<times> string) list \<Rightarrow> histogram \<Rightarrow> histogram" where
  "SetRangeDescriptions ds h =
     (if histogram_type h \<in> {LINEAR_HISTOGRAM, BOOLEAN_HISTOGRAM}
      then h\<lparr>bucket_description := foldl (\<lambda>m d. m(fst d \<mapsto> snd d)) (bucket_description h) ds\<rparr>
      else h)"

subsection \<open>Looking for corruption\<close>

fun corruption_loop :: "int list \<Rightarrow> u32 list \<Rightarrow> nat list \<Rightarrow> int \<Rightarrow> u64 \<Rightarrow> u32 \<Rightarrow> u64 \<times> u32" where
  "corruption_loop rs cs [] previous n bad = (n, bad)"
| "corruption_loop rs cs (i # is) previous n bad =
     corruption_loop rs cs is (rs ! i) (n + scast (cs ! i))
       (if previous \<ge> rs ! i then bad OR BUCKET_ORDER_ERROR else bad)"

definition delta_of :: "u64 \<Rightarrow> int" where
  "delta_of d64 =
     (let delta = sint (ucast d64 :: u32) in if delta \<noteq> sint d64 then kSampleType_MAX else delta)"

text \<open>The second part are the samples for the histograms that count such findings.\<close>

definition FindCorruption :: "int list \<Rightarrow> sample_set \<Rightarrow> histogram \<Rightarrow> (u32 \<times> (string \<times> int) list) option" where
  "FindCorruption rs ss h =
     (if length (counts ss) < bucket_count h \<or> length rs < bucket_count h then None
      else let (n, bad) = corruption_loop rs (counts ss) [0..<bucket_count h] (- 1) 0 NO_INCONSISTENCIES;
               bad1 = (if HasValidRangeChecksum rs h then bad else bad OR RANGE_CHECKSUM_ERROR);
               d64 = redundant_count ss - n;
               delta = delta_of d64
           in if d64 = 0 then Some (bad1, [])
              else if delta > 0
              then Some (if delta > 1 then bad1 OR COUNT_HIGH_ERROR else bad1,
                         [(''Histogram.InconsistentCountHigh'', delta)])
              else Some (if - delta > 1 then bad1 OR COUNT_LOW_ERROR else bad1,
                         [(''Histogram.InconsistentCountLow'', - delta)]))"

subsection \<open>The bucket of a sample\<close>

text \<open>What the factories have to set up.\<close>

definition layout :: "histogram \<Rightarrow> int list \<Rightarrow> bool" where
  "layout h rs \<longleftrightarrow> 0 < bucket_count h \<and> length rs = bucket_count h + 1 \<and> sorted_wrt (<) rs
     \<and> rs ! 0 = 0 \<and> rs ! bucket_count h = kSampleType_MAX"

lemma search_bounds:
  "lo < hi \<Longrightarrow> rs ! lo \<le> v \<Longrightarrow> v < rs ! hi \<Longrightarrow>
   bucket_search rs v lo hi < hi \<and> rs ! bucket_search rs v lo hi \<le> v \<and> v < rs ! (bucket_search rs v lo hi + 1)"
proof (induction rs v lo hi rule: bucket_search.induct)
  case (1 rs v lo hi)
  define mid where "mid = lo + (hi - lo) div 2"
  show ?case
  proof (cases "mid = lo")
    case True
    then have "hi = lo + 1" using 1(3) by (simp add: mid_def)
    then show ?thesis using True 1(4,5) by (subst (1 2 3) bucket_search.simps) (simp add: mid_def)
  next
    case False
    then have "lo < mid" "mid < hi" using 1(3) by (auto simp: mid_def)
    then show ?thesis
      using 1(1) [OF mid_def False] 1(2) [OF mid_def False] 1(4,5) False
      by (subst (1 2 3) bucket_search.simps) (auto simp: mid_def [symmetric] Let_def)
  qed
qed

text \<open>Reference: count the boundaries that are not above the sample.\<close>

definition bucket_of :: "int list \<Rightarrow> int \<Rightarrow> nat" where
  "bucket_of rs v = length (filter (\<lambda>b. b \<le> v) rs) - 1"

lemma boundaries_mono: "sorted_wrt (<) rs \<Longrightarrow> j \<le> i \<Longrightarrow> i < length rs \<Longrightarrow> rs ! j \<le> rs ! i" for rs :: "int list"
  by (cases "j = i") (auto simp: less_imp_le sorted_wrt_iff_nth_less)

lemma bucket_of_eq:
  assumes "sorted_wrt (<) rs" "i + 1 < length rs" "rs ! i \<le> v" "v < rs ! (i + 1)"
  shows "bucket_of rs v = i"
proof -
  have "rs ! j \<le> v \<longleftrightarrow> j \<le> i" if "j < length rs" for j
  proof
    assume "j \<le> i"
    then have "rs ! j \<le> rs ! i" using assms(1,2) by (auto intro: boundaries_mono)
    then show "rs ! j \<le> v" using assms(3) by simp
  next
    assume v: "rs ! j \<le> v"
    show "j \<le> i"
    proof (rule ccontr)
      assume "\<not> j \<le> i"
      then have "rs ! (i + 1) \<le> rs ! j" using assms(1) that by (auto intro: boundaries_mono)
      then show False using v assms(4) by simp
    qed
  qed
  then have "{j. j < length rs \<and> rs ! j \<le> v} = {..i}" using assms(2) by auto
  then show ?thesis by (simp add: bucket_of_def length_filter_conv_card)
qed

lemma BucketIndex_layout:
  assumes "layout h rs" "0 \<le> v" "v < kSampleType_MAX"
  shows "BucketIndex h rs v = Some (bucket_of rs v)" (is ?index)
    and "bucket_of rs v < bucket_count h" and "rs ! bucket_of rs v \<le> v" and "v < rs ! (bucket_of rs v + 1)"
proof -
  define i where "i = bucket_search rs v 0 (bucket_count h)"
  have i: "i < bucket_count h" "rs ! i \<le> v" "v < rs ! (i + 1)"
    using search_bounds [of 0 "bucket_count h" rs v] assms by (auto simp: i_def layout_def)
  have "bucket_of rs v = i" using bucket_of_eq [of rs i v] i assms(1) by (simp add: layout_def)
  then show ?index "bucket_of rs v < bucket_count h" "rs ! bucket_of rs v \<le> v" "v < rs ! (bucket_of rs v + 1)"
    using i assms(1) by (simp_all add: BucketIndex_def i_def [symmetric] layout_def)
qed

lemma clamp_range: "0 \<le> clamp v" "clamp v < kSampleType_MAX"
  by (simp_all add: clamp_def kSampleType_MAX_def Let_def)

lemma Add_layout:
  assumes "layout h rs" "length (counts (samples h)) = bucket_count h"
  shows "Add rs v h = Some (h\<lparr>samples := \<lparr>
      counts = (counts (samples h))[bucket_of rs (clamp v) := counts (samples h) ! bucket_of rs (clamp v) + 1],
      sample_sum = sample_sum (samples h) + word_of_int (clamp v),
      redundant_count = redundant_count (samples h) + 1\<rparr>\<rparr>)"
  using BucketIndex_layout [OF assms(1) clamp_range] assms(2)
  by (simp add: Add_def Accumulate_def)

subsection \<open>Counts that add up\<close>

text \<open>\<open>counted rs h k\<close>: \<open>k\<close> samples reached the histogram, one by one or by merging the samples of another.\<close>

inductive counted :: "int list \<Rightarrow> histogram \<Rightarrow> nat \<Rightarrow> bool" for rs where
  new: "samples h = Resize (bucket_count h) empty_samples \<Longrightarrow> counted rs h 0"
| one: "counted rs h k \<Longrightarrow> Add rs v h = Some h' \<Longrightarrow> counted rs h' (k + 1)"
| merge: "counted rs h k \<Longrightarrow> counted rs g m \<Longrightarrow> bucket_count g = bucket_count h \<Longrightarrow>
    AddSampleSet (samples g) h = Some h' \<Longrightarrow> counted rs h' (k + m)"

definition adds_up :: "nat \<Rightarrow> sample_set \<Rightarrow> nat \<Rightarrow> bool" where
  "adds_up n ss k \<longleftrightarrow> length (counts ss) = n \<and> redundant_count ss = word_of_nat k
     \<and> (k < 2 ^ 31 \<longrightarrow> sum_list (map unat (counts ss)) = k)"

lemma sum_list_bump:
  "i < length cs \<Longrightarrow> sum_list (map unat cs) < 2 ^ 31 \<Longrightarrow>
   sum_list (map unat (cs[i := cs ! i + 1])) = sum_list (map unat cs) + 1" for cs :: "u32 list"
proof (induction cs arbitrary: i)
  case (Cons c cs)
  then show ?case
  proof (cases i)
    case 0
    have "unat (c + 1) = unat c + 1" using Cons.prems(2) by (subst unat_word_ariths) (simp add: unsigned_1)
    then show ?thesis using 0 by simp
  qed auto
qed simp

lemma sum_list_merge:
  "length cs = length ds \<Longrightarrow> sum_list (map unat cs) + sum_list (map unat ds) < 2 ^ 31 \<Longrightarrow>
   sum_list (map unat (map2 (+) cs ds)) = sum_list (map unat cs) + sum_list (map unat ds)" for cs ds :: "u32 list"
proof (induction cs ds rule: list_induct2)
  case (Cons c cs d ds)
  have "unat (c + d) = unat c + unat d" using Cons.prems by (subst unat_word_ariths) simp
  then show ?case using Cons by simp
qed simp

lemma counted_adds_up: "counted rs h k \<Longrightarrow> adds_up (bucket_count h) (samples h) k"
proof (induction rule: counted.induct)
  case (new h)
  then show ?case by (simp add: adds_up_def Resize_def empty_samples_def)
next
  case (one h k v h')
  from one(2) obtain i where i: "i < length (counts (samples h))"
    and h': "h' = h\<lparr>samples := \<lparr>counts = (counts (samples h))[i := counts (samples h) ! i + 1],
      sample_sum = sample_sum (samples h) + word_of_int (clamp v), redundant_count = redundant_count (samples h) + 1\<rparr>\<rparr>"
    by (auto simp: Add_def Accumulate_def bind_eq_Some_conv split: if_splits)
  show ?case
    using one(3) sum_list_bump [OF i] by (simp add: adds_up_def h' add.commute)
next
  case (merge h k g m h')
  then have h': "h' = h\<lparr>samples := \<lparr>counts = map2 (+) (counts (samples h)) (counts (samples g)),
      sample_sum = sample_sum (samples h) + sample_sum (samples g),
      redundant_count = redundant_count (samples h) + redundant_count (samples g)\<rparr>\<rparr>"
    by (auto simp: AddSampleSet_def add_samples_def split: if_splits)
  show ?case
    using merge(3,5,6) sum_list_merge [of "counts (samples h)" "counts (samples g)"]
    by (simp add: adds_up_def h')
qed

lemma unat_sint: "unat c < 2 ^ 31 \<Longrightarrow> sint c = int (unat c)" for c :: u32
proof -
  assume "unat c < 2 ^ 31"
  then have "int (unat c) < 2 ^ 31" unfolding of_nat_less_numeral_power_cancel_iff .
  then have "signed_take_bit 31 (int (unat c)) = int (unat c)"
    by (intro signed_take_bit_int_eq_self) (rule order_trans [of _ 0], simp_all)
  then show ?thesis by (simp only: sint_uint uint_nat) simp
qed

lemma TotalCount_adds_up: "TotalCount ss = word_of_nat (sum_list (map unat (counts ss)))"
proof -
  have "foldl (+) t cs = t + word_of_nat (sum_list (map unat cs))" for t :: u32 and cs
    by (induction cs arbitrary: t) (simp_all add: ac_simps)
  then show ?thesis by (simp add: TotalCount_def)
qed

subsection \<open>What looks corrupt\<close>

lemma corruption_count:
  "fst (corruption_loop rs cs is p n bad) = n + (\<Sum>i\<leftarrow>is. scast (cs ! i))"
  by (induction "is" arbitrary: p n bad) (simp_all add: ac_simps)

lemma corruption_order:
  "snd (corruption_loop rs cs is p n bad)
     = (if successively (<) (p # map ((!) rs) is) then bad else bad OR BUCKET_ORDER_ERROR)"
proof (induction "is" arbitrary: p n bad)
  case (Cons i "is")
  show ?case using Cons.IH by (auto simp: or.assoc)
qed simp

lemma layout_order:
  assumes "layout h rs"
  shows "successively (<) (- 1 # map ((!) rs) [0..<bucket_count h])"
proof -
  have m: "map ((!) rs) [0..<bucket_count h] = take (bucket_count h) rs"
    using assms by (intro nth_equalityI) (auto simp: layout_def)
  have "rs ! 0 \<le> rs ! i" if "i < bucket_count h" for i
    using assms that by (intro boundaries_mono) (auto simp: layout_def)
  then have "\<forall>b \<in> set (take (bucket_count h) rs). - 1 < b"
    using assms by (fastforce simp: layout_def in_set_conv_nth)
  then have "sorted_wrt (<) (- 1 # take (bucket_count h) rs)"
    using assms by (simp add: layout_def sorted_wrt_take)
  then show ?thesis
    unfolding m by (simp add: successively_conv_sorted_wrt transp_on_less)
qed

lemma FindCorruption_counted:
  assumes "counted rs0 h k" "k < 2 ^ 31" "length rs = bucket_count h + 1"
  shows "FindCorruption rs (samples h) h
    = Some ((if successively (<) (- 1 # map ((!) rs) [0..<bucket_count h])
             then NO_INCONSISTENCIES else BUCKET_ORDER_ERROR)
            OR (if HasValidRangeChecksum rs h then NO_INCONSISTENCIES else RANGE_CHECKSUM_ERROR), [])"
proof -
  define cs where "cs = counts (samples h)"
  have u: "adds_up (bucket_count h) (samples h) k" using assms(1) by (rule counted_adds_up)
  then have len: "length cs = bucket_count h" and sm: "sum_list (map unat cs) = k"
    and red: "redundant_count (samples h) = word_of_nat k"
    using assms(2) by (simp_all add: adds_up_def cs_def)
  have "unat c < 2 ^ 31" if "c \<in> set cs" for c
    using member_le_sum_list [of "unat c" "map unat cs"] that sm assms(2) by simp
  then have "(\<Sum>c\<leftarrow>cs. scast c) = (\<Sum>c\<leftarrow>cs. word_of_nat (unat c) :: u64)"
    by (intro arg_cong [where f = sum_list] map_cong) (simp_all add: unat_sint scast_eq)
  also have "\<dots> = word_of_nat (sum_list (map unat cs))" by (induction cs) simp_all
  finally have "(\<Sum>i\<leftarrow>[0..<bucket_count h]. scast (cs ! i)) = (word_of_nat k :: u64)"
    using len sm by (metis map_nth map_map comp_apply map_cong)
  then have n: "fst (corruption_loop rs cs [0..<bucket_count h] (- 1) 0 bad) = word_of_nat k" for bad
    by (simp add: corruption_count)
  show ?thesis
    using n [of NO_INCONSISTENCIES] corruption_order [of rs cs "[0..<bucket_count h]" "- 1" 0 NO_INCONSISTENCIES] red len assms(3)
    unfolding FindCorruption_def cs_def [symmetric]
    by (auto simp: case_prod_beta NO_INCONSISTENCIES_def)
qed

lemma sint_boundary: "- (2 ^ 31) \<le> v \<Longrightarrow> v < 2 ^ 31 \<Longrightarrow> sint (word_of_int v :: u32) = v"
  by (simp add: sint_sbintrunc' signed_take_bit_int_eq_self)

text \<open>A count that falls short by more than \<open>2 ^ 31\<close> is reported as too high.\<close>

lemma shortfall_reported_high:
  "delta_of (- (2 ^ 32)) = kSampleType_MAX"
  by code_simp

end
