(* ===== verification/Layouts.thy ===== *)
theory Layouts
  imports Histogram
begin

section \<open>Layouts of histograms (chromium/metrics/histogram.cc)\<close>

text \<open>
  The histograms that the four factories of the source build, before they are registered: with
  exponential, linear, boolean and custom boundaries. Each layout is shown to be strictly increasing
  from zero to the largest sample. For the exponential one this needs that rounding up a small step
  leaves room for the boundaries still to come, which is stated as the locale \<open>next_boundary\<close> and
  proved of the formula of the code with Bernoulli's inequality.
\<close>

definition tentative_exponential ::
  "(int \<Rightarrow> int \<Rightarrow> nat \<Rightarrow> int) \<Rightarrow> string \<Rightarrow> int \<Rightarrow> int \<Rightarrow> nat \<Rightarrow> u32 \<Rightarrow> (histogram \<times> int list) option" where
  "tentative_exponential nx name mn mx n f =
     do { (h, rs) \<leftarrow> new_histogram HISTOGRAM name mn mx n;
          (h', rs') \<leftarrow> InitializeBucketRange nx h rs;
          Some (SetFlags f h', rs') }"

definition tentative_linear ::
  "ClassType \<Rightarrow> string \<Rightarrow> int \<Rightarrow> int \<Rightarrow> nat \<Rightarrow> u32 \<Rightarrow> (histogram \<times> int list) option" where
  "tentative_linear ty name mn mx n f =
     do { (h, rs) \<leftarrow> new_histogram ty name (if mn \<ge> 1 then mn else 1) mx n;
          (h', rs') \<leftarrow> InitializeBucketRange_linear h rs;
          Some (SetFlags f h', rs') }"

definition tentative_boolean :: "string \<Rightarrow> u32 \<Rightarrow> (histogram \<times> int list) option" where
  "tentative_boolean name f = tentative_linear BOOLEAN_HISTOGRAM name 1 2 3 f"

text \<open>Here \<open>rs\<close> are the boundaries that \<open>sort_ranges\<close> leaves.\<close>

definition tentative_custom :: "string \<Rightarrow> int list \<Rightarrow> u32 \<Rightarrow> (histogram \<times> int list) option" where
  "tentative_custom name custom f =
     do { (h, rs) \<leftarrow> new_histogram CUSTOM_HISTOGRAM name (custom ! 1) (last custom) (length custom);
          (h', rs') \<leftarrow> InitializedCustomBucketRange custom h rs;
          Some (SetFlags f h', rs') }"

subsection \<open>Steps between neighbours are enough\<close>

lemma strictly_increasing: "sorted_wrt (<) rs \<longleftrightarrow> (\<forall>j. j + 1 < length rs \<longrightarrow> rs ! j < rs ! (j + 1))" for rs :: "int list"
  by (simp add: successively_conv_sorted_wrt [symmetric] transp_on_less successively_conv_nth)

lemma layoutI:
  assumes "0 < bucket_count h" "length rs = bucket_count h + 1"
    and "\<And>j. j < bucket_count h \<Longrightarrow> rs ! j < rs ! (j + 1)" "rs ! 0 = 0" "rs ! bucket_count h = kSampleType_MAX"
  shows "layout h rs"
  using assms by (simp add: layout_def strictly_increasing)

definition blank_histogram :: "ClassType \<Rightarrow> string \<Rightarrow> int \<Rightarrow> int \<Rightarrow> nat \<Rightarrow> histogram" where
  "blank_histogram ty name mn mx n =
     \<lparr>histogram_type = ty, histogram_name = name, declared_min = mn, declared_max = mx, bucket_count = n,
      hist_flags = kNoFlags, cached_ranges = 0, range_checksum = 0, samples = Resize n empty_samples,
      bucket_description = (\<lambda>_. None)\<rparr>"

lemma new_histogram_ok:
  assumes "1 \<le> mn" "mx \<le> kSampleType_MAX - 1" "n < kBucketCount_MAX"
  shows "new_histogram ty name mn mx n = Some (blank_histogram ty name mn mx n, (replicate (n + 1) 0)[n := kSampleType_MAX])"
  using assms by (simp add: new_histogram_def Initialize_histogram_def SetBucketRange_def Let_def blank_histogram_def)

text \<open>What a factory promises of a new histogram.\<close>

definition ready :: "ClassType \<Rightarrow> string \<Rightarrow> int \<Rightarrow> int \<Rightarrow> nat \<Rightarrow> histogram \<Rightarrow> int list \<Rightarrow> bool" where
  "ready ty name mn mx n h rs \<longleftrightarrow>
     layout h rs \<and> ValidateBucketRanges h rs \<and> HasValidRangeChecksum rs h \<and> HasConstructorArguments mn mx n h
     \<and> samples h = Resize (bucket_count h) empty_samples \<and> histogram_name h = name \<and> histogram_type h = ty"

lemma readyI:
  assumes "0 < n" "length rs = n + 1" "rs ! 0 = 0" "rs ! 1 = mn" "rs ! (n - 1) = mx" "rs ! n = kSampleType_MAX"
    and "\<And>j. j < n \<Longrightarrow> rs ! j < rs ! (j + 1)"
  shows "ready ty name mn mx n (SetFlags f (ResetRangeChecksum rs (blank_histogram ty name mn mx n))) rs"
  unfolding ready_def
  by (intro conjI layoutI) (use assms in \<open>simp_all add: ValidateBucketRanges_def HasValidRangeChecksum_def
      HasConstructorArguments_def SetFlags_def ResetRangeChecksum_def blank_histogram_def\<close>)

subsection \<open>Exponential boundaries\<close>

locale next_boundary =
  fixes nx :: "int \<Rightarrow> int \<Rightarrow> nat \<Rightarrow> int"
  assumes last_one: "1 \<le> c \<Longrightarrow> c < m \<Longrightarrow> nx c m 1 = m"
    and room: "1 \<le> c \<Longrightarrow> 1 \<le> k \<Longrightarrow> c + int k \<le> m \<Longrightarrow> nx c m k + int (k - 1) \<le> m"
begin

lemma range_loop_layout:
  "1 \<le> i \<Longrightarrow> i < n \<Longrightarrow> length rs = n + 1 \<Longrightarrow> rs ! i = cur \<Longrightarrow> 1 \<le> cur \<Longrightarrow> cur + int (n - 1 - i) \<le> mx \<Longrightarrow>
   (i + 1 = n \<Longrightarrow> cur = mx) \<Longrightarrow>
   \<exists>rs'. range_loop nx mx n i cur rs = Some rs' \<and> length rs' = n + 1 \<and> rs' ! (n - 1) = mx \<and> rs' ! n = rs ! n
     \<and> (\<forall>j \<le> i. rs' ! j = rs ! j) \<and> (\<forall>j. i \<le> j \<longrightarrow> j + 1 < n \<longrightarrow> rs' ! j < rs' ! (j + 1))"
proof (induction "n - i" arbitrary: i cur rs rule: less_induct)
  case less
  show ?case
  proof (cases "i + 1 < n")
    case False
    then have "i = n - 1" using less.prems(2) by linarith
    then show ?thesis using less.prems False by (subst range_loop.simps) auto
  next
    case True
    define k where "k = n - (i + 1)"
    define cur' where "cur' = (if nx cur mx k > cur then nx cur mx k else cur + 1)"
    have k: "1 \<le> k" "cur + int k \<le> mx" using True less.prems(6) by (auto simp: k_def)
    have room': "cur' + int (k - 1) \<le> mx" using room [OF less.prems(5) k] k by (auto simp: cur'_def)
    have last': "cur' = mx" if "i + 1 + 1 = n"
      using that last_one [OF less.prems(5), of mx] k by (auto simp: cur'_def k_def)
    have up: "cur < cur'" by (auto simp: cur'_def)
    define rs1 where "rs1 = rs[i + 1 := cur']"
    have step: "range_loop nx mx n i cur rs = range_loop nx mx n (i + 1) cur' rs1"
      using True less.prems(3) by (subst range_loop.simps) (simp add: SetBucketRange_def Let_def k_def cur'_def rs1_def)
    have "\<exists>rs'. range_loop nx mx n (i + 1) cur' rs1 = Some rs' \<and> length rs' = n + 1 \<and> rs' ! (n - 1) = mx
      \<and> rs' ! n = rs1 ! n \<and> (\<forall>j \<le> i + 1. rs' ! j = rs1 ! j) \<and> (\<forall>j. i + 1 \<le> j \<longrightarrow> j + 1 < n \<longrightarrow> rs' ! j < rs' ! (j + 1))"
      using True less.prems up room' last'
      by (intro less.hyps) (auto simp: rs1_def k_def of_nat_diff)
    then obtain rs' where rs': "range_loop nx mx n (i + 1) cur' rs1 = Some rs'" "length rs' = n + 1" "rs' ! (n - 1) = mx"
      "rs' ! n = rs1 ! n" "\<And>j. j \<le> i + 1 \<Longrightarrow> rs' ! j = rs1 ! j"
      "\<And>j. i + 1 \<le> j \<Longrightarrow> j + 1 < n \<Longrightarrow> rs' ! j < rs' ! (j + 1)" by blast
    have "rs' ! j < rs' ! (j + 1)" if "i \<le> j" "j + 1 < n" for j
    proof (cases "j = i")
      case True
      then show ?thesis using rs'(5) [of i] rs'(5) [of "i + 1"] up less.prems(3,4) that(2) by (simp add: rs1_def)
    qed (use rs'(6) [of j] that in auto)
    then show ?thesis
      using rs'(1-5) True by (auto simp: step rs1_def)
  qed
qed

lemma exponential_layout:
  assumes "1 \<le> mn" "mn < mx" "mx \<le> kSampleType_MAX - 1" "3 \<le> n" "int n \<le> mx - mn + 2" "n < kBucketCount_MAX"
  shows "\<exists>h rs. tentative_exponential nx name mn mx n f = Some (h, rs) \<and> ready HISTOGRAM name mn mx n h rs"
proof -
  define rs0 where "rs0 = (replicate (n + 1) 0)[n := kSampleType_MAX, 1 := mn]"
  have rs0: "length rs0 = n + 1" "rs0 ! 0 = 0" "rs0 ! 1 = mn" "rs0 ! n = kSampleType_MAX"
    using assms(4) by (simp_all add: rs0_def nth_list_update del: replicate_Suc)
  have "\<exists>rs. range_loop nx mx n 1 mn rs0 = Some rs \<and> length rs = n + 1 \<and> rs ! (n - 1) = mx \<and> rs ! n = rs0 ! n
     \<and> (\<forall>j \<le> 1. rs ! j = rs0 ! j) \<and> (\<forall>j. 1 \<le> j \<longrightarrow> j + 1 < n \<longrightarrow> rs ! j < rs ! (j + 1))"
    using assms rs0 by (intro range_loop_layout) (auto simp: of_nat_diff)
  then obtain rs where rs: "range_loop nx mx n 1 mn rs0 = Some rs" "length rs = n + 1" "rs ! (n - 1) = mx"
    "rs ! n = kSampleType_MAX" "rs ! 0 = 0" "rs ! 1 = mn" "\<And>j. 1 \<le> j \<Longrightarrow> j + 1 < n \<Longrightarrow> rs ! j < rs ! (j + 1)"
    using rs0 by auto
  have up: "rs ! j < rs ! (j + 1)" if j: "j < n" for j
  proof -
    consider "j = 0" | "1 \<le> j" "j + 1 < n" | "j + 1 = n" using j by linarith
    then show ?thesis
    proof cases
      case 3
      then have "j = n - 1" by simp
      then show ?thesis using rs(3,4) 3 assms(3) by simp
    qed (use rs(5-7) assms(1) in auto)
  qed
  have "SetBucketRange 1 mn ((replicate (n + 1) 0)[n := kSampleType_MAX]) = Some rs0"
    using assms(4) by (simp add: SetBucketRange_def rs0_def del: replicate_Suc)
  then have "tentative_exponential nx name mn mx n f
      = Some (SetFlags f (ResetRangeChecksum rs (blank_histogram HISTOGRAM name mn mx n)), rs)"
    using assms(1,3,6) rs(1)
    by (simp add: tentative_exponential_def new_histogram_ok InitializeBucketRange_def blank_histogram_def del: replicate_Suc)
  then show ?thesis using readyI [OF _ rs(2,5,6,3,4) up] assms(4) by auto
qed

end

text \<open>The formula of the code, over the real numbers. That it leaves room is Bernoulli's inequality.\<close>

lemma exp_root_le:
  fixes c m :: real
  assumes "0 < c" "c \<le> m" "1 \<le> k"
  shows "exp (ln c + (ln m - ln c) / real k) \<le> c + (m - c) / real k"
proof -
  define x where "x = (m / c - 1) / real k"
  have x: "0 \<le> x" using assms by (simp add: x_def)
  have "m / c = 1 + real k * x" using assms(3) by (simp add: x_def)
  also have "\<dots> \<le> (1 + x) ^ k" using Bernoulli_inequality [of x k] x by simp
  finally have "ln (m / c) \<le> ln ((1 + x) ^ k)" using assms x by (subst ln_le_cancel_iff) simp_all
  also have "\<dots> = real k * ln (1 + x)" using x by (simp add: ln_realpow)
  finally have "(ln m - ln c) / real k \<le> ln (1 + x)"
    using assms by (simp add: ln_div pos_divide_le_eq mult.commute)
  then have "exp (ln c + (ln m - ln c) / real k) \<le> exp (ln c + ln (1 + x))" by simp
  also have "\<dots> = c * (1 + x)" using assms(1) x by (simp add: exp_add)
  also have "\<dots> = c + (m - c) / real k" using assms(1,3) by (simp add: x_def field_simps)
  finally show ?thesis .
qed

interpretation logarithm: next_boundary exp_next
proof
  fix c m :: int
  assume "1 \<le> c" "c < m"
  then have "exp (ln (real_of_int c) + (ln (real_of_int m) - ln (real_of_int c)) / real 1) = real_of_int m"
    by simp
  then show "exp_next c m 1 = m" by (simp add: exp_next_def)
next
  fix c m :: int and k :: nat
  assume c: "1 \<le> c" and k: "1 \<le> k" and room: "c + int k \<le> m"
  define d where "d = m - c"
  have d: "int k \<le> d" using room by (simp add: d_def)
  have "real_of_int d / real k \<le> real_of_int (d - int (k - 1))"
  proof -
    have "0 \<le> (real k - 1) * (real_of_int d - real k)" using d k by (intro mult_nonneg_nonneg) auto
    then have "real_of_int d \<le> (real_of_int d - (real k - 1)) * real k" by (simp add: algebra_simps)
    then show ?thesis using k by (simp add: pos_divide_le_eq of_nat_diff)
  qed
  then have "exp (ln (real_of_int c) + (ln (real_of_int m) - ln (real_of_int c)) / real k) \<le> real_of_int (m - int (k - 1))"
    using exp_root_le [of "real_of_int c" "real_of_int m" k] c k room by (simp add: d_def)
  then show "exp_next c m k + int (k - 1) \<le> m" by (simp add: exp_next_def) linarith
qed

subsection \<open>Linear boundaries\<close>

lemma linear_loop_places:
  "n \<noteq> 2 \<Longrightarrow> distinct is \<Longrightarrow> \<forall>i \<in> set is. i < length rs \<Longrightarrow>
   \<exists>rs'. linear_loop mn mx n is rs = Some rs' \<and> length rs' = length rs
     \<and> (\<forall>j < length rs. rs' ! j = (if j \<in> set is then linear_range mn mx n j else rs ! j))"
proof (induction "is" arbitrary: rs)
  case (Cons i "is")
  then have "\<exists>rs'. linear_loop mn mx n is (rs[i := linear_range mn mx n i]) = Some rs' \<and> length rs' = length rs
     \<and> (\<forall>j < length rs. rs' ! j = (if j \<in> set is then linear_range mn mx n j else rs[i := linear_range mn mx n i] ! j))"
    using Cons.IH [of "rs[i := linear_range mn mx n i]"] by simp
  then show ?case using Cons.prems by (auto simp: SetBucketRange_def nth_list_update)
qed simp

lemma linear_range_ends:
  assumes "3 \<le> n"
  shows "linear_range mn mx n 1 = mn" "linear_range mn mx n (n - 1) = mx"
proof -
  have "(2 * (a * d) + d) div (2 * d) = a" if "0 < d" for a d :: int
  proof -
    have "2 * (a * d) + d = d + a * (2 * d)" by simp
    then show ?thesis using that by (simp only: div_mult_self1) (simp add: div_pos_pos_trivial)
  qed
  then have whole: "(2 * (a * int (n - 2)) + int (n - 2)) div (2 * int (n - 2)) = a" for a
    using assms by (simp del: of_nat_diff)
  have two: "n - 1 - 1 = n - 2" by simp
  show "linear_range mn mx n 1 = mn" "linear_range mn mx n (n - 1) = mx"
    unfolding linear_range_def two diff_self_eq_0 using whole by (simp_all del: of_nat_diff)
qed

lemma linear_range_up:
  assumes "3 \<le> n" "int n \<le> mx - mn + 2" "1 \<le> i" "i + 1 < n"
  shows "linear_range mn mx n i < linear_range mn mx n (i + 1)"
proof -
  define d where "d = int (n - 2)"
  define a where "a = 2 * (mn * int (n - 1 - i) + mx * int (i - 1)) + d"
  define x where "x = int (n - 1 - (i + 1))"
  define y where "y = int (i - 1)"
  have xy: "int (n - 1 - i) = x + 1" "int (i + 1 - 1) = y + 1"
    using assms(3,4) by (simp_all add: x_def y_def of_nat_diff)
  have d: "d \<le> mx - mn" "0 < d" using assms(1,2) by (simp_all add: d_def of_nat_diff)
  have "2 * (mn * x + mx * (y + 1)) + d = a + 2 * (mx - mn)"
    by (simp only: a_def xy y_def [symmetric]) (simp add: algebra_simps)
  then have "linear_range mn mx n (i + 1) = (a + 2 * (mx - mn)) div (2 * d)"
    by (simp only: linear_range_def xy d_def [symmetric] x_def [symmetric])
  moreover have "linear_range mn mx n i = a div (2 * d)"
    by (simp only: linear_range_def a_def d_def)
  moreover have "(a + 2 * d) div (2 * d) \<le> (a + 2 * (mx - mn)) div (2 * d)"
    using d by (intro zdiv_mono1) simp_all
  moreover have "(a + 2 * d) div (2 * d) = a div (2 * d) + 1" using d by simp
  ultimately show ?thesis by simp
qed

lemma linear_layout:
  assumes "1 \<le> mn" "mn < mx" "mx \<le> kSampleType_MAX - 1" "3 \<le> n" "int n \<le> mx - mn + 2" "n < kBucketCount_MAX"
  shows "\<exists>h rs. tentative_linear ty name mn mx n f = Some (h, rs) \<and> ready ty name mn mx n h rs"
proof -
  define rs0 where "rs0 = (replicate (n + 1) 0)[n := kSampleType_MAX]"
  have rs0: "length rs0 = n + 1" "rs0 ! 0 = 0" "rs0 ! n = kSampleType_MAX"
    using assms(4) by (simp_all add: rs0_def nth_list_update del: replicate_Suc)
  have "\<exists>rs. linear_loop mn mx n [1..<n] rs0 = Some rs \<and> length rs = length rs0
     \<and> (\<forall>j < length rs0. rs ! j = (if j \<in> set [1..<n] then linear_range mn mx n j else rs0 ! j))"
    using assms(4) rs0 by (intro linear_loop_places) auto
  then obtain rs where rs: "linear_loop mn mx n [1..<n] rs0 = Some rs" "length rs = n + 1"
    "\<And>j. 1 \<le> j \<Longrightarrow> j < n \<Longrightarrow> rs ! j = linear_range mn mx n j" "rs ! 0 = 0" "rs ! n = kSampleType_MAX"
    using rs0 by auto
  have ends: "rs ! 1 = mn" "rs ! (n - 1) = mx"
    using rs(3) [of 1] rs(3) [of "n - 1"] linear_range_ends [OF assms(4)] assms(4) by auto
  have up: "rs ! j < rs ! (j + 1)" if j: "j < n" for j
  proof -
    consider "j = 0" | "1 \<le> j" "j + 1 < n" | "j + 1 = n" using j by linarith
    then show ?thesis
    proof cases
      case 2
      then show ?thesis using rs(3) [of j] rs(3) [of "j + 1"] linear_range_up [OF assms(4,5)] by simp
    next
      case 3
      then have "j = n - 1" by simp
      then show ?thesis using rs(5) ends 3 assms(3) by simp
    qed (use rs(4) ends assms(1) in auto)
  qed
  have "tentative_linear ty name mn mx n f
      = Some (SetFlags f (ResetRangeChecksum rs (blank_histogram ty name mn mx n)), rs)"
    using assms(1,3,6) rs(1) unfolding rs0_def
    by (simp add: tentative_linear_def new_histogram_ok InitializeBucketRange_linear_def blank_histogram_def del: replicate_Suc)
  then show ?thesis using readyI [OF _ rs(2,4) ends rs(5) up] assms(4) by auto
qed

subsection \<open>Custom boundaries\<close>

lemma custom_loop_append:
  "i + length cs \<le> length rs \<Longrightarrow> custom_loop i cs rs = Some (take i rs @ cs @ drop (i + length cs) rs)"
proof (induction cs arbitrary: i rs)
  case (Cons c cs)
  then have "custom_loop i (c # cs) rs = Some (take (i + 1) (rs[i := c]) @ cs @ drop (i + 1 + length cs) (rs[i := c]))"
    by (simp add: SetBucketRange_def)
  also have "take (i + 1) (rs[i := c]) = take i rs @ [c]"
    using Cons.prems by (simp add: take_Suc_conv_app_nth)
  finally show ?case by simp
qed simp

lemma sorted_distinct_neighbours: "sorted_wrt (<) (remdups_adj (sort xs))" for xs :: "int list"
proof -
  define ys where "ys = remdups_adj (sort xs)"
  have "sorted ys" "distinct_adj ys" by (simp_all add: ys_def)
  then have "ys ! j < ys ! (j + 1)" if "j + 1 < length ys" for j
    using that by (simp add: sorted_iff_nth_Suc distinct_adj_conv_nth order_less_le)
  then show ?thesis by (simp add: strictly_increasing ys_def [symmetric])
qed

text \<open>What the factory hands to a custom histogram: zero, then the values given, each once.\<close>

lemma sort_ranges_sorted:
  assumes "\<forall>v \<in> set custom. 0 \<le> v"
  shows "sorted_wrt (<) (sort_ranges custom)" "2 \<le> length (sort_ranges custom)" "sort_ranges custom ! 0 = 0"
    "set (sort_ranges custom) = insert 0 (set custom) \<union> (if set custom \<subseteq> {0} then {1} else {})"
proof -
  define ys where "ys = remdups_adj (sort (custom @ [0]))"
  have st: "set ys = insert 0 (set custom)" by (auto simp: ys_def)
  have sd: "sorted_wrt (<) ys" unfolding ys_def by (rule sorted_distinct_neighbours)
  have ne: "ys \<noteq> []" using st by auto
  have hd: "ys ! 0 = 0"
  proof -
    obtain i where "i < length ys" "ys ! i = 0" using st by (metis in_set_conv_nth insertI1)
    then have "ys ! 0 \<le> 0" using boundaries_mono [OF sd, of 0 i] by simp
    moreover have "0 \<le> ys ! 0" using ne st assms by (metis insert_iff length_greater_0_conv nth_mem order_refl)
    ultimately show ?thesis by simp
  qed
  have one: "length ys \<le> 1 \<longleftrightarrow> set custom \<subseteq> {0}"
  proof
    assume "length ys \<le> 1"
    then have "ys = [0]" using ne hd by (cases ys) auto
    then show "set custom \<subseteq> {0}" using st by auto
  next
    assume "set custom \<subseteq> {0}"
    then have "set ys = {0}" using st by auto
    moreover have "distinct ys" using sd strict_sorted_iff by blast
    ultimately show "length ys \<le> 1" using distinct_card [of ys] by simp
  qed
  have r: "sort_ranges custom = (if length ys \<le> 1 then ys @ [1] else ys)"
    by (simp add: sort_ranges_def ys_def Let_def)
  have short: "ys = [0]" if "length ys \<le> 1" using that ne hd by (cases ys) auto
  show "sorted_wrt (<) (sort_ranges custom)" using r sd short by auto
  show "2 \<le> length (sort_ranges custom)" using r short ne by (auto simp: not_le)
  show "sort_ranges custom ! 0 = 0" using r short hd by auto
  show "set (sort_ranges custom) = insert 0 (set custom) \<union> (if set custom \<subseteq> {0} then {1} else {})"
    using r one short st by auto
qed

lemma custom_layout:
  assumes "sorted_wrt (<) cs" "2 \<le> length cs" "cs ! 0 = 0" "\<forall>v \<in> set cs. v < kSampleType_MAX" "length cs < kBucketCount_MAX"
  shows "\<exists>h. tentative_custom name cs f = Some (h, cs @ [kSampleType_MAX])
    \<and> ready CUSTOM_HISTOGRAM name (cs ! 1) (last cs) (length cs) h (cs @ [kSampleType_MAX])"
proof -
  define n where "n = length cs"
  have "cs \<noteq> []" using assms(2) by auto
  then have ends: "1 \<le> cs ! 1" "last cs = cs ! (n - 1)" "last cs \<in> set cs"
    using assms(2,3) strictly_increasing [THEN iffD1, OF assms(1), rule_format, of 0]
    by (auto simp: n_def last_conv_nth)
  have up: "(cs @ [kSampleType_MAX]) ! j < (cs @ [kSampleType_MAX]) ! (j + 1)" if "j < n" for j
    using that strictly_increasing [THEN iffD1, OF assms(1), rule_format, of j] assms(4)
    by (cases "j + 1 = n") (auto simp: n_def nth_append)
  have "custom_loop 0 cs ((replicate (n + 1) 0)[n := kSampleType_MAX]) = Some (cs @ [kSampleType_MAX])"
    by (subst custom_loop_append) (simp_all add: n_def drop_update_swap del: replicate_Suc, simp)
  then have "tentative_custom name cs f
     = Some (SetFlags f (ResetRangeChecksum (cs @ [kSampleType_MAX]) (blank_histogram CUSTOM_HISTOGRAM name (cs ! 1) (last cs) n)),
             cs @ [kSampleType_MAX])"
    using assms(4,5) ends
    by (simp add: tentative_custom_def new_histogram_ok InitializedCustomBucketRange_def blank_histogram_def n_def del: replicate_Suc)
  moreover have "ready CUSTOM_HISTOGRAM name (cs ! 1) (last cs) n
     (SetFlags f (ResetRangeChecksum (cs @ [kSampleType_MAX]) (blank_histogram CUSTOM_HISTOGRAM name (cs ! 1) (last cs) n)))
     (cs @ [kSampleType_MAX])"
    using assms(2,3) ends by (intro readyI up) (auto simp: n_def nth_append)
  ultimately show ?thesis by (auto simp: n_def)
qed

subsection \<open>Properties\<close>

text \<open>C39: Within the conditions of the factories the exponential and the linear layout give boundaries that increase
  strictly from zero over the declared minimum and maximum to the largest sample, one more than there are buckets,
  with a valid checksum, whatever the next exponential boundary is as long as it leaves room for those to come and the last is
  the maximum.\<close>

theorem factory_layouts:
  assumes "next_boundary nx" "1 \<le> mn" "mn < mx" "mx \<le> kSampleType_MAX - 1" "3 \<le> n" "int n \<le> mx - mn + 2"
    and "n < kBucketCount_MAX"
  shows "(\<exists>h rs. tentative_exponential nx name mn mx n f = Some (h, rs) \<and> ready HISTOGRAM name mn mx n h rs)
    \<and> (\<exists>h rs. tentative_linear LINEAR_HISTOGRAM name mn mx n f = Some (h, rs) \<and> ready LINEAR_HISTOGRAM name mn mx n h rs)"
  using next_boundary.exponential_layout [OF assms] linear_layout [OF assms(2-)] by blast

theorem factory_layouts_witness:
  "(\<exists>h rs. tentative_exponential exp_next ''latency'' 1 10000 50 0 = Some (h, rs) \<and> ready HISTOGRAM ''latency'' 1 10000 50 h rs)
    \<and> (\<exists>h rs. tentative_linear LINEAR_HISTOGRAM ''latency'' 1 10000 50 0 = Some (h, rs)
        \<and> ready LINEAR_HISTOGRAM ''latency'' 1 10000 50 h rs)"
  by (rule factory_layouts) (simp_all add: logarithm.next_boundary_axioms kSampleType_MAX_def kBucketCount_MAX_def)

lemma custom_factory:
  assumes "\<forall>v \<in> set custom. 0 \<le> v \<and> v < kSampleType_MAX" "length custom + 2 < kBucketCount_MAX"
  shows "\<exists>h. tentative_custom name (sort_ranges custom) f = Some (h, sort_ranges custom @ [kSampleType_MAX])
    \<and> ready CUSTOM_HISTOGRAM name (sort_ranges custom ! 1) (last (sort_ranges custom)) (length (sort_ranges custom)) h
          (sort_ranges custom @ [kSampleType_MAX])"
proof -
  have s: "sorted_wrt (<) (sort_ranges custom)" "2 \<le> length (sort_ranges custom)" "sort_ranges custom ! 0 = 0"
    "set (sort_ranges custom) = insert 0 (set custom) \<union> (if set custom \<subseteq> {0} then {1} else {})"
    using sort_ranges_sorted [of custom] assms(1) by auto
  have "length (sort_ranges custom) \<le> length custom + 2"
    using remdups_adj_length [of "sort (custom @ [0])"] by (simp add: sort_ranges_def Let_def)
  moreover have "\<forall>v \<in> set (sort_ranges custom). v < kSampleType_MAX"
    using s(4) assms(1) by (auto simp: kSampleType_MAX_def split: if_splits)
  ultimately show ?thesis
    using custom_layout [OF s(1-3)] assms(2) by fastforce
qed

lemma alone_in_bucket:
  assumes "layout h rs" "v \<in> set rs" "v + 1 \<in> set rs" "0 \<le> v" "v < kSampleType_MAX" "0 \<le> w" "w < kSampleType_MAX"
  shows "BucketIndex h rs w = BucketIndex h rs v \<longleftrightarrow> w = v"
proof
  define i where "i = bucket_of rs v"
  have i: "i < bucket_count h" "rs ! i \<le> v" "v < rs ! (i + 1)"
    using BucketIndex_layout(2-4) [OF assms(1,4,5)] by (simp_all add: i_def)
  have rs: "sorted_wrt (<) rs" "length rs = bucket_count h + 1" using assms(1) by (simp_all add: layout_def)
  obtain j k where j: "j < length rs" "rs ! j = v" and k: "k < length rs" "rs ! k = v + 1"
    using assms(2,3) by (auto simp: in_set_conv_nth)
  have "j \<le> i" using boundaries_mono [OF rs(1), of "i + 1" j] i(3) j by (cases "j \<le> i") auto
  then have low: "rs ! i = v" using boundaries_mono [OF rs(1), of j i] i(1,2) j(2) rs(2) by simp
  have "i < k" using boundaries_mono [OF rs(1), of k i] i(1,2) k rs(2) by (cases "i < k") auto
  then have high: "rs ! (i + 1) = v + 1" using boundaries_mono [OF rs(1), of "i + 1" k] i(3) k by simp
  assume "BucketIndex h rs w = BucketIndex h rs v"
  then have "bucket_of rs w = i"
    using BucketIndex_layout(1) [OF assms(1)] assms(4-7) by (simp add: i_def)
  then show "w = v" using BucketIndex_layout(3,4) [OF assms(1,6,7)] low high by simp
qed simp

text \<open>As histogram.hh promises of \<open>ArrayToCustomRanges\<close>, no other sample falls into the bucket of a valid one.\<close>

theorem valid_samples_alone:
  assumes "\<forall>v \<in> set vs. 0 \<le> v \<and> v < kSampleType_MAX - 1" "2 * length vs + 2 < kBucketCount_MAX"
    and "v \<in> set vs" "0 \<le> w" "w < kSampleType_MAX"
  shows "\<exists>h rs. tentative_custom name (sort_ranges (ArrayToCustomRanges vs)) f = Some (h, rs) \<and> layout h rs
    \<and> (BucketIndex h rs w = BucketIndex h rs v \<longleftrightarrow> w = v)"
proof -
  define cs where "cs = ArrayToCustomRanges vs"
  have cs: "set cs = set vs \<union> (\<lambda>v. v + 1) ` set vs" "length cs = 2 * length vs"
    by (auto simp: cs_def ArrayToCustomRanges_def length_concat comp_def sum_list_triv)
  have nonneg: "\<forall>v \<in> set cs. 0 \<le> v \<and> v < kSampleType_MAX" using cs(1) assms(1) by auto
  then obtain h where h: "tentative_custom name (sort_ranges cs) f = Some (h, sort_ranges cs @ [kSampleType_MAX])"
    "layout h (sort_ranges cs @ [kSampleType_MAX])"
    using custom_factory [of cs name f] assms(2) cs(2) by (auto simp: ready_def)
  have "set cs \<subseteq> set (sort_ranges cs)" using sort_ranges_sorted(4) [of cs] nonneg by auto
  then have "BucketIndex h (sort_ranges cs @ [kSampleType_MAX]) w = BucketIndex h (sort_ranges cs @ [kSampleType_MAX]) v \<longleftrightarrow> w = v"
    using cs(1) assms(1,3-5) by (intro alone_in_bucket [OF h(2)]) auto
  then show ?thesis using h by (auto simp: cs_def)
qed

theorem valid_samples_alone_witness:
  "\<exists>h rs. tentative_custom ''reason'' (sort_ranges (ArrayToCustomRanges [2, 7])) 0 = Some (h, rs) \<and> layout h rs
    \<and> (BucketIndex h rs 8 = BucketIndex h rs 7 \<longleftrightarrow> (8 :: int) = 7)"
  by (rule valid_samples_alone) (simp_all add: kSampleType_MAX_def kBucketCount_MAX_def)

lemma ready_facts:
  assumes "ready ty name mn mx n h rs"
  shows "layout h rs" "HasValidRangeChecksum rs h" "counted rs h 0" "length (counts (samples h)) = bucket_count h"
    "bucket_count h = n"
  using assms
  by (auto simp: ready_def Resize_def empty_samples_def HasConstructorArguments_def intro!: counted.new)

lemma boolean_ready: "\<exists>h rs. tentative_boolean name f = Some (h, rs) \<and> ready BOOLEAN_HISTOGRAM name 1 2 3 h rs"
  unfolding tentative_boolean_def by (rule linear_layout) (simp_all add: kSampleType_MAX_def kBucketCount_MAX_def)

text \<open>A sample of any value is counted once, in the one bucket whose boundaries enclose it after clamping, which a count
  of the boundaries below it finds as well.\<close>

theorem sample_lands:
  assumes "layout h rs" "length (counts (samples h)) = bucket_count h"
  shows "let i = bucket_of rs (clamp v)
    in Add rs v h = Some (h\<lparr>samples := \<lparr>counts = (counts (samples h))[i := counts (samples h) ! i + 1],
         sample_sum = sample_sum (samples h) + word_of_int (clamp v), redundant_count = redundant_count (samples h) + 1\<rparr>\<rparr>)
       \<and> i < bucket_count h \<and> rs ! i \<le> clamp v \<and> clamp v < rs ! (i + 1)"
  using BucketIndex_layout [OF assms(1) clamp_range] Add_layout [OF assms] by (simp add: Let_def)

theorem sample_lands_witness:
  "\<exists>h rs. tentative_boolean ''flag'' 0 = Some (h, rs) \<and> (let i = bucket_of rs (clamp (- 5))
    in Add rs (- 5) h = Some (h\<lparr>samples := \<lparr>counts = (counts (samples h))[i := counts (samples h) ! i + 1],
         sample_sum = sample_sum (samples h) + word_of_int (clamp (- 5)), redundant_count = redundant_count (samples h) + 1\<rparr>\<rparr>)
       \<and> i < bucket_count h \<and> rs ! i \<le> clamp (- 5) \<and> clamp (- 5) < rs ! (i + 1))"
proof -
  obtain h rs where h: "tentative_boolean ''flag'' 0 = Some (h, rs)" "ready BOOLEAN_HISTOGRAM ''flag'' 1 2 3 h rs"
    using boolean_ready by blast
  show ?thesis using h(1) sample_lands [OF ready_facts(1,4) [OF h(2)], of "- 5"] by blast
qed

text \<open>C38: A histogram that took fewer than \<open>2 ^ 31\<close> samples, one by one or merged from others, never looks corrupt, and its
  buckets hold all of them.\<close>

theorem histogram_never_corrupt:
  assumes "layout h rs" "HasValidRangeChecksum rs h" "counted rs h k" "k < 2 ^ 31"
  shows "FindCorruption rs (samples h) h = Some (NO_INCONSISTENCIES, []) \<and> TotalCount (samples h) = word_of_nat k"
proof
  have "adds_up (bucket_count h) (samples h) k" using assms(3) by (rule counted_adds_up)
  then show "TotalCount (samples h) = word_of_nat k"
    using assms(4) by (simp add: TotalCount_adds_up adds_up_def)
  show "FindCorruption rs (samples h) h = Some (NO_INCONSISTENCIES, [])"
    using FindCorruption_counted [OF assms(3,4), of rs] layout_order [OF assms(1)] assms(1,2)
    by (simp add: layout_def NO_INCONSISTENCIES_def)
qed

theorem histogram_never_corrupt_witness:
  "\<exists>h rs h'. tentative_boolean ''flag'' 0 = Some (h, rs) \<and> Add rs 1 h = Some h'
    \<and> FindCorruption rs (samples h') h' = Some (NO_INCONSISTENCIES, []) \<and> TotalCount (samples h') = 1"
proof -
  obtain h rs where h: "tentative_boolean ''flag'' 0 = Some (h, rs)" "ready BOOLEAN_HISTOGRAM ''flag'' 1 2 3 h rs"
    using boolean_ready by blast
  obtain h' where h': "Add rs 1 h = Some h'" "layout h' rs" "HasValidRangeChecksum rs h'"
    using Add_layout [OF ready_facts(1,4) [OF h(2)], of 1] ready_facts(1,2) [OF h(2)]
    by (simp add: layout_def HasValidRangeChecksum_def)
  show ?thesis
    using h(1) h' histogram_never_corrupt [OF h'(2,3) counted.one [OF ready_facts(3) [OF h(2)] h'(1)]] by auto
qed

text \<open>One overwritten boundary is noticed, whatever was written, unless it is the last one: the loops of the checksum
  and of the order leave that out.\<close>

theorem overwritten_boundary:
  assumes "layout h rs" "HasValidRangeChecksum rs h" "counted rs h k" "k < 2 ^ 31"
    and "i \<le> bucket_count h" "- (2 ^ 31) \<le> v" "v < 2 ^ 31" "v \<noteq> rs ! i"
  shows "\<exists>bad. FindCorruption (rs[i := v]) (samples h) h = Some (bad, [])
    \<and> (bad = NO_INCONSISTENCIES \<longleftrightarrow> i = bucket_count h)"
proof (cases "i = bucket_count h")
  case True
  have "map ((!) (rs[i := v])) [0..<bucket_count h] = map ((!) rs) [0..<bucket_count h]"
    using True by (intro map_cong) auto
  then have "successively (<) (- 1 # map ((!) (rs[i := v])) [0..<bucket_count h])"
    using layout_order [OF assms(1)] by (simp only:)
  moreover have "HasValidRangeChecksum (rs[i := v]) h"
    using assms(2) True by (simp add: HasValidRangeChecksum_def CalculateRangeChecksum_def)
  ultimately show ?thesis
    using FindCorruption_counted [OF assms(3,4), of "rs[i := v]"] assms(1) True
    by (simp add: layout_def NO_INCONSISTENCIES_def)
next
  case False
  have "rs ! i \<le> rs ! bucket_count h" using assms(1,5) by (intro boundaries_mono) (auto simp: layout_def)
  moreover have "rs ! 0 \<le> rs ! i" using assms(1,5) by (intro boundaries_mono) (auto simp: layout_def)
  ultimately have "- (2 ^ 31) \<le> rs ! i" "rs ! i < 2 ^ 31"
    using assms(1) by (simp_all add: layout_def kSampleType_MAX_def)
  then have "(word_of_int v :: u32) \<noteq> word_of_int (rs ! i)"
    using assms(6-8) sint_boundary [of v] sint_boundary [of "rs ! i"] by metis
  then have "\<not> HasValidRangeChecksum (rs[i := v]) h"
    using checksum_update [of i "bucket_count h" rs v] assms(1,2,5) False
    by (simp add: HasValidRangeChecksum_def layout_def)
  then show ?thesis
    using FindCorruption_counted [OF assms(3,4), of "rs[i := v]"] assms(1) False
    by (auto simp: layout_def NO_INCONSISTENCIES_def BUCKET_ORDER_ERROR_def RANGE_CHECKSUM_ERROR_def)
qed

theorem overwritten_boundary_witness:
  "\<exists>h rs bad. tentative_boolean ''flag'' 0 = Some (h, rs) \<and> FindCorruption (rs[1 := - 7]) (samples h) h = Some (bad, [])
    \<and> (bad = NO_INCONSISTENCIES \<longleftrightarrow> 1 = bucket_count h)"
proof -
  obtain h rs where h: "tentative_boolean ''flag'' 0 = Some (h, rs)" "ready BOOLEAN_HISTOGRAM ''flag'' 1 2 3 h rs"
    using boolean_ready by blast
  have l: "sorted_wrt (<) rs" "length rs = 4" "rs ! 0 = 0"
    using ready_facts(1,5) [OF h(2)] by (simp_all add: layout_def)
  then have "rs ! 0 < rs ! 1" "rs ! 0 = 0"
    using strictly_increasing [THEN iffD1, OF l(1), rule_format, of 0] by simp_all
  then have "\<exists>bad. FindCorruption (rs[1 := - 7]) (samples h) h = Some (bad, [])
      \<and> (bad = NO_INCONSISTENCIES \<longleftrightarrow> 1 = bucket_count h)"
    using ready_facts(5) [OF h(2)]
    by (intro overwritten_boundary [OF ready_facts(1-3) [OF h(2)]]) simp_all
  then show ?thesis using h(1) by blast
qed

end
