(* ===== verification/Statistics.thy ===== *)
theory Statistics
  imports Layouts Splitting "HOL-Library.Char_ord" "HOL-Library.List_Lexorder"
begin

section \<open>The registry of histograms (chromium/metrics/histogram.cc)\<close>

text \<open>
  \<open>StatisticsRecorder\<close> keeps every histogram by its name, and every list of boundaries by its checksum,
  so that histograms with the same boundaries share one \<open>CachedRanges\<close> object. Objects are addressed:
  \<open>hists\<close> and \<open>caches\<close> are the live histograms and boundary lists, and deleting one takes it away, so
  that a pointer to it is seen to dangle. \<open>None\<close> of an operation is the use of such a
  pointer or an access behind the end of a vector. A \<open>std::map\<close> by name is the list of its entries in the order of the names.

  The lemmas show that no pointer of the registry dangles, that a name is registered once, and that two
  registered histograms share their boundaries exactly when these are equal.
\<close>

record recorder =
  hists :: "nat \<Rightarrow> histogram option"
  caches :: "nat \<Rightarrow> (int list \<times> u32) option"
  fresh :: nat
  lock_made :: bool
  by_name :: "(string \<times> nat) list option"
  by_checksum :: "(u32 \<Rightarrow> nat list option) option"
  number_of_histograms :: u32
  number_of_vectors_saved :: u32
  saved_ranges_size :: nat

definition no_recorder :: recorder where
  "no_recorder = \<lparr>hists = (\<lambda>_. None), caches = (\<lambda>_. None), fresh = 0, lock_made = False, by_name = None,
     by_checksum = None, number_of_histograms = 0, number_of_vectors_saved = 0, saved_ranges_size = 0\<rparr>"

definition StatisticsRecorder_new :: "recorder \<Rightarrow> recorder" where
  "StatisticsRecorder_new st = st\<lparr>lock_made := True, by_name := Some [], by_checksum := Some (\<lambda>_. None)\<rparr>"

definition StatisticsRecorder_delete :: "recorder \<Rightarrow> recorder" where
  "StatisticsRecorder_delete st = st\<lparr>by_name := None, by_checksum := None\<rparr>"

definition IsActive :: "recorder \<Rightarrow> bool" where
  "IsActive st \<longleftrightarrow> lock_made st \<and> by_name st \<noteq> None"

definition FindHistogram :: "string \<Rightarrow> recorder \<Rightarrow> nat option" where
  "FindHistogram name st = (if lock_made st then do { m \<leftarrow> by_name st; map_of m name } else None)"

definition insert_name :: "string \<Rightarrow> nat \<Rightarrow> (string \<times> nat) list \<Rightarrow> (string \<times> nat) list" where
  "insert_name name a m = takeWhile (\<lambda>e. fst e < name) m @ (name, a) # dropWhile (\<lambda>e. fst e < name) m"

definition CachedRanges_Equals :: "int list \<times> u32 \<Rightarrow> int list \<times> u32 \<Rightarrow> bool" where
  "CachedRanges_Equals c d \<longleftrightarrow> snd c = snd d \<and> length (fst c) = length (fst d)
     \<and> (\<forall>i < length (fst c). fst c ! i = fst d ! i)"

text \<open>The first registered list of boundaries that equals the one at \<open>c\<close>; every one compared must be live.\<close>

fun find_equal :: "(nat \<Rightarrow> (int list \<times> u32) option) \<Rightarrow> int list \<times> u32 \<Rightarrow> nat list \<Rightarrow> nat option option" where
  "find_equal live d [] = Some None"
| "find_equal live d (c # cs) =
     (case live c of
        None \<Rightarrow> None
      | Some e \<Rightarrow> if CachedRanges_Equals e d then Some (Some c) else find_equal live d cs)"

definition RegisterOrDeleteDuplicateRanges :: "nat \<Rightarrow> recorder \<Rightarrow> recorder option" where
  "RegisterOrDeleteDuplicateRanges a st =
     do { h \<leftarrow> hists st a;
          c \<leftarrow> caches st (cached_ranges h);
          m \<leftarrow> by_checksum st;
          let d = (fst c, range_checksum h);
          let st1 = st\<lparr>caches := (caches st)(cached_ranges h \<mapsto> d)\<rparr>;
          case m (range_checksum h) of
            None \<Rightarrow> Some (st1\<lparr>by_checksum := Some (m(range_checksum h \<mapsto> [cached_ranges h]))\<rparr>)
          | Some cs \<Rightarrow>
             do { found \<leftarrow> find_equal (caches st1) d cs;
                  case found of
                    Some e \<Rightarrow>
                      Some (st1\<lparr>hists := (hists st1)(a \<mapsto> h\<lparr>cached_ranges := e\<rparr>),
                                number_of_vectors_saved := number_of_vectors_saved st1 + 1,
                                saved_ranges_size := saved_ranges_size st1 + length (fst d),
                                caches := (caches st1)(cached_ranges h := None)\<rparr>)
                  | None \<Rightarrow> Some (st1\<lparr>by_checksum := Some (m(range_checksum h \<mapsto> cached_ranges h # cs))\<rparr>) } }"

definition RegisterOrDeleteDuplicate :: "nat \<Rightarrow> recorder \<Rightarrow> (nat \<times> recorder) option" where
  "RegisterOrDeleteDuplicate a st =
     (if \<not> lock_made st then Some (a, st)
      else case by_name st of
             None \<Rightarrow> Some (a, st)
           | Some m \<Rightarrow>
              do { h \<leftarrow> hists st a;
                   case map_of m (histogram_name h) of
                     None \<Rightarrow>
                      do { st1 \<leftarrow> RegisterOrDeleteDuplicateRanges a (st\<lparr>by_name := Some (insert_name (histogram_name h) a m)\<rparr>);
                           Some (a, st1\<lparr>number_of_histograms := number_of_histograms st1 + 1\<rparr>) }
                   | Some b \<Rightarrow> Some (b, st\<lparr>hists := (hists st)(a := None)\<rparr>) })"

subsection \<open>Factories\<close>

datatype histogram_spec =
    Exponential string int int nat u32
  | Linear string int int nat u32
  | Boolean string u32
  | Custom string "int list" u32

fun name_of :: "histogram_spec \<Rightarrow> string" where
  "name_of (Exponential name _ _ _ _) = name"
| "name_of (Linear name _ _ _ _) = name"
| "name_of (Boolean name _) = name"
| "name_of (Custom name _ _) = name"

definition at_least_one :: "int \<Rightarrow> int" where
  "at_least_one mn = (if mn < 1 then 1 else mn)"

definition below_max :: "int \<Rightarrow> int" where
  "below_max mx = (if mx > kSampleType_MAX - 1 then kSampleType_MAX - 1 else mx)"

fun tentative :: "(int \<Rightarrow> int \<Rightarrow> nat \<Rightarrow> int) \<Rightarrow> histogram_spec \<Rightarrow> (histogram \<times> int list) option" where
  "tentative nx (Exponential name mn mx n f) = tentative_exponential nx name (at_least_one mn) (below_max mx) n f"
| "tentative nx (Linear name mn mx n f) = tentative_linear LINEAR_HISTOGRAM name (at_least_one mn) (below_max mx) n f"
| "tentative nx (Boolean name f) = tentative_boolean name f"
| "tentative nx (Custom name custom f) = tentative_custom name (sort_ranges custom) f"

text \<open>A new histogram and its boundaries take the next address.\<close>

definition allocate :: "histogram \<Rightarrow> int list \<Rightarrow> recorder \<Rightarrow> nat \<times> recorder" where
  "allocate h rs st =
     (fresh st, st\<lparr>hists := (hists st)(fresh st \<mapsto> h\<lparr>cached_ranges := fresh st\<rparr>),
                   caches := (caches st)(fresh st \<mapsto> (rs, 0)), fresh := fresh st + 1\<rparr>)"

definition FactoryGet :: "(int \<Rightarrow> int \<Rightarrow> nat \<Rightarrow> int) \<Rightarrow> histogram_spec \<Rightarrow> recorder \<Rightarrow> (nat \<times> recorder) option" where
  "FactoryGet nx r st =
     (case FindHistogram (name_of r) st of
        Some a \<Rightarrow> Some (a, st)
      | None \<Rightarrow>
         do { (h, rs) \<leftarrow> tentative nx r;
              let (a, st1) = allocate h rs st;
              RegisterOrDeleteDuplicate a st1 })"

text \<open>Adding a sample through a pointer.\<close>

definition add_at :: "nat \<Rightarrow> int \<Rightarrow> recorder \<Rightarrow> recorder option" where
  "add_at a v st =
     do { h \<leftarrow> hists st a;
          c \<leftarrow> caches st (cached_ranges h);
          h' \<leftarrow> Add (fst c) v h;
          Some (st\<lparr>hists := (hists st)(a \<mapsto> h')\<rparr>) }"

definition GetHistograms :: "recorder \<Rightarrow> nat list" where
  "GetHistograms st = (if lock_made st then case by_name st of None \<Rightarrow> [] | Some m \<Rightarrow> map snd m else [])"

definition GetSnapshot :: "string \<Rightarrow> recorder \<Rightarrow> nat list" where
  "GetSnapshot query st =
     (if lock_made st
      then case by_name st of
             None \<Rightarrow> []
           | Some m \<Rightarrow> map snd (filter (\<lambda>e. string_find (fst e) query 0 \<noteq> npos) m)
      else [])"

subsection \<open>What a request has to keep to\<close>

text \<open>The conditions that the factories check in a debug build.\<close>

fun valid_spec :: "histogram_spec \<Rightarrow> bool" where
  "valid_spec (Exponential name mn mx n f) \<longleftrightarrow> at_least_one mn < below_max mx \<and> 3 \<le> n
     \<and> int n \<le> below_max mx - at_least_one mn + 2 \<and> n < kBucketCount_MAX"
| "valid_spec (Linear name mn mx n f) \<longleftrightarrow> at_least_one mn < below_max mx \<and> 3 \<le> n
     \<and> int n \<le> below_max mx - at_least_one mn + 2 \<and> n < kBucketCount_MAX"
| "valid_spec (Boolean name f) \<longleftrightarrow> True"
| "valid_spec (Custom name custom f) \<longleftrightarrow> (\<forall>v \<in> set custom. 0 \<le> v \<and> v < kSampleType_MAX)
     \<and> length custom + 2 < kBucketCount_MAX"

lemma tentative_ready:
  assumes "next_boundary nx" "valid_spec r"
  shows "\<exists>h rs ty mn mx n. tentative nx r = Some (h, rs) \<and> ready ty (name_of r) mn mx n h rs"
proof -
  have clamped: "1 \<le> at_least_one mn" "below_max mx \<le> kSampleType_MAX - 1" for mn mx
    by (simp_all add: at_least_one_def below_max_def)
  show ?thesis
  proof (cases r)
    case (Exponential name mn mx n f)
    then show ?thesis
      using next_boundary.exponential_layout [OF assms(1), of "at_least_one mn" "below_max mx" n name f] clamped assms(2)
      by simp blast
  next
    case (Linear name mn mx n f)
    then show ?thesis
      using linear_layout [of "at_least_one mn" "below_max mx" n LINEAR_HISTOGRAM name f] clamped assms(2)
      by simp blast
  next
    case (Boolean name f)
    then show ?thesis using boolean_ready [of name f] by simp blast
  next
    case (Custom name custom f)
    then show ?thesis using custom_factory [of custom name f] assms(2) by simp blast
  qed
qed

subsection \<open>The invariant of the registry\<close>

definition held :: "recorder \<Rightarrow> (u32 \<Rightarrow> nat list option) \<Rightarrow> string \<times> nat \<Rightarrow> bool" where
  "held st r e \<longleftrightarrow> (\<exists>h rs cs. hists st (snd e) = Some h \<and> histogram_name h = fst e
     \<and> caches st (cached_ranges h) = Some (rs, range_checksum h) \<and> layout h rs \<and> HasValidRangeChecksum rs h
     \<and> length (counts (samples h)) = bucket_count h
     \<and> r (range_checksum h) = Some cs \<and> cached_ranges h \<in> set cs)"

definition shelved :: "recorder \<Rightarrow> (u32 \<Rightarrow> nat list option) \<Rightarrow> bool" where
  "shelved st r \<longleftrightarrow> (\<forall>k cs. r k = Some cs \<longrightarrow> (\<forall>c \<in> set cs. \<exists>rs. caches st c = Some (rs, k)) \<and> inj_on (caches st) (set cs))"

definition good_registry :: "recorder \<Rightarrow> (string \<times> nat) list \<Rightarrow> (u32 \<Rightarrow> nat list option) \<Rightarrow> bool" where
  "good_registry st m r \<longleftrightarrow> lock_made st \<and> by_name st = Some m \<and> by_checksum st = Some r
     \<and> sorted_wrt (<) (map fst m) \<and> (\<forall>e \<in> set m. held st r e) \<and> shelved st r
     \<and> (\<forall>a \<ge> fresh st. hists st a = None \<and> caches st a = None)"

lemma set_insert_name: "set (insert_name name a m) = insert (name, a) (set m)"
proof -
  have "set m = set (takeWhile (\<lambda>e. fst e < name) m) \<union> set (dropWhile (\<lambda>e. fst e < name) m)"
    by (metis set_append takeWhile_dropWhile_id)
  then show ?thesis by (auto simp: insert_name_def)
qed

lemma sorted_insert_name:
  assumes "sorted_wrt (<) (map fst m)" "name \<notin> fst ` set m"
  shows "sorted_wrt (<) (map fst (insert_name name a m))"
  using assms
proof (induction m)
  case (Cons e m)
  then show ?case
    by (cases "fst e < name") (auto simp: insert_name_def dest: set_takeWhileD set_dropWhileD intro: less_trans)
qed (simp add: insert_name_def)

lemma Equals_iff: "CachedRanges_Equals c d \<longleftrightarrow> c = d"
  by (auto simp: CachedRanges_Equals_def prod_eq_iff list_eq_iff_nth_eq)

lemma find_equal_cases:
  "\<forall>c \<in> set cs. live c \<noteq> None \<Longrightarrow>
   (\<exists>c \<in> set cs. find_equal live d cs = Some (Some c) \<and> live c = Some d)
   \<or> find_equal live d cs = Some None \<and> (\<forall>c \<in> set cs. live c \<noteq> Some d)"
proof (induction cs)
  case (Cons c cs)
  then obtain e where "live c = Some e" by auto
  then show ?case using Cons by (cases "e = d") (simp_all add: Equals_iff)
qed simp

text \<open>A registered histogram stays held when the state only grows.\<close>

lemma held_mono:
  assumes "held st r e" "\<And>h. hists st (snd e) = Some h \<Longrightarrow> hists st' (snd e) = Some h"
    and "\<And>c x. caches st c = Some x \<Longrightarrow> caches st' c = Some x"
    and "\<And>k cs. r k = Some cs \<Longrightarrow> \<exists>cs'. r' k = Some cs' \<and> set cs \<subseteq> set cs'"
  shows "held st' r' e"
  using assms unfolding held_def by (meson subset_iff)

lemma good_extend:
  assumes good: "good_registry st m r" and name: "name \<notin> fst ` set m"
    and st': "lock_made st'" "by_name st' = Some (insert_name name (fresh st) m)" "by_checksum st' = Some r'"
      "fresh st' = fresh st + 1" "hists st' = (hists st)(fresh st \<mapsto> h)"
    and grows: "\<And>c x. caches st c = Some x \<Longrightarrow> caches st' c = Some x" "\<And>c. fresh st < c \<Longrightarrow> caches st' c = None"
      "\<And>k cs. r k = Some cs \<Longrightarrow> \<exists>cs'. r' k = Some cs' \<and> set cs \<subseteq> set cs'"
    and new: "shelved st' r'" "held st' r' (name, fresh st)"
  shows "good_registry st' (insert_name name (fresh st) m) r'"
proof -
  have "held st' r' e" if "e \<in> set m" for e
  proof (rule held_mono [of st r])
    show "held st r e" using good that by (simp add: good_registry_def)
    then have "snd e \<noteq> fresh st" using good by (auto simp: good_registry_def held_def)
    then show "hists st' (snd e) = Some h'" if "hists st (snd e) = Some h'" for h'
      using that by (simp add: st'(5))
  qed (use grows in blast)+
  then show ?thesis
    using good name st' grows(2) new
    by (auto simp: good_registry_def set_insert_name sorted_insert_name)
qed

lemma register_new:
  assumes good: "good_registry st m r" and name: "name \<notin> fst ` set m" and rd: "ready ty name mn mx n h rs"
  shows "\<exists>st' r'. (let (a, st1) = allocate h rs st in RegisterOrDeleteDuplicate a st1) = Some (fresh st, st')
    \<and> good_registry st' (insert_name name (fresh st) m) r'"
proof -
  define a where "a = fresh st"
  define k where "k = range_checksum h"
  have g: "lock_made st" "by_name st = Some m" "by_checksum st = Some r" "shelved st r" "hists st a = None" "caches st a = None"
    "\<And>c. a < c \<Longrightarrow> caches st c = None"
    using good by (auto simp: good_registry_def a_def)
  have nm: "map_of m name = None" using name by (simp add: map_of_eq_None_iff)
  have h: "histogram_name h = name" "layout h rs" "HasValidRangeChecksum rs h" "length (counts (samples h)) = bucket_count h"
    using rd ready_facts [OF rd] by (simp_all add: ready_def)
  have new_held: "held st' r' (name, a)"
    if "hists st' a = Some (h\<lparr>cached_ranges := c\<rparr>)" "caches st' c = Some (rs, k)" "r' k = Some cs" "c \<in> set cs" for st' r' c cs
    using that h by (auto simp: held_def k_def layout_def HasValidRangeChecksum_def)
  have notin: "a \<notin> set cs" if "r k' = Some cs" for k' cs using g(4,6) that by (fastforce simp: shelved_def)
  note unfolds = allocate_def RegisterOrDeleteDuplicate_def RegisterOrDeleteDuplicateRanges_def Let_def
  show ?thesis
  proof (cases "r k")
    case None
    let ?st = "st\<lparr>hists := (hists st)(a \<mapsto> h\<lparr>cached_ranges := a\<rparr>), caches := (caches st)(a \<mapsto> (rs, k)), fresh := a + 1,
      by_name := Some (insert_name name a m), by_checksum := Some (r(k \<mapsto> [a])), number_of_histograms := number_of_histograms st + 1\<rparr>"
    have "good_registry ?st (insert_name name (fresh st) m) (r(k \<mapsto> [a]))"
    proof (rule good_extend [OF good name])
      show "shelved ?st (r(k \<mapsto> [a]))"
        using g(4) notin by (fastforce simp: shelved_def inj_on_def)
    qed (use g None in \<open>auto simp: a_def [symmetric] intro!: new_held\<close>)
    moreover have "(let (b, st1) = allocate h rs st in RegisterOrDeleteDuplicate b st1) = Some (fresh st, ?st)"
      using g nm h(1) None by (simp add: unfolds a_def [symmetric] k_def)
    ultimately show ?thesis by blast
  next
    case (Some cs)
    let ?st1 = "st\<lparr>hists := (hists st)(a \<mapsto> h\<lparr>cached_ranges := a\<rparr>), caches := (caches st)(a \<mapsto> (rs, k)), fresh := a + 1,
      by_name := Some (insert_name name a m)\<rparr>"
    have "\<forall>c \<in> set cs. caches ?st1 c \<noteq> None" using g(4) Some by (fastforce simp: shelved_def)
    from find_equal_cases [OF this, of "(rs, k)"] show ?thesis
    proof (elim disjE bexE conjE)
      fix c
      assume c: "c \<in> set cs" "find_equal (caches ?st1) (rs, k) cs = Some (Some c)" "caches ?st1 c = Some (rs, k)"
      then have ca: "c \<noteq> a" "caches st c = Some (rs, k)" using notin [OF Some] by (auto split: if_splits)
      let ?st = "st\<lparr>hists := (hists st)(a \<mapsto> h\<lparr>cached_ranges := c\<rparr>), caches := (caches st)(a := None), fresh := a + 1,
        by_name := Some (insert_name name a m), number_of_vectors_saved := number_of_vectors_saved st + 1,
        saved_ranges_size := saved_ranges_size st + length rs, number_of_histograms := number_of_histograms st + 1\<rparr>"
      have same: "(caches st)(a := None) = caches st" using g(6) by auto
      have "good_registry ?st (insert_name name (fresh st) m) r"
      proof (rule good_extend [OF good name])
        show "shelved ?st r" using g(4) by (simp add: shelved_def same)
      qed (use g Some c(1) ca in \<open>auto simp: a_def [symmetric] same intro!: new_held\<close>)
      moreover have "(let (b, st1) = allocate h rs st in RegisterOrDeleteDuplicate b st1) = Some (fresh st, ?st)"
        using g nm h(1) Some c(2) by (simp add: unfolds a_def [symmetric] k_def)
      ultimately show ?thesis by blast
    next
      assume none: "find_equal (caches ?st1) (rs, k) cs = Some None" "\<forall>c \<in> set cs. caches ?st1 c \<noteq> Some (rs, k)"
      let ?st = "?st1\<lparr>by_checksum := Some (r(k \<mapsto> a # cs)), number_of_histograms := number_of_histograms st + 1\<rparr>"
      have "good_registry ?st (insert_name name (fresh st) m) (r(k \<mapsto> a # cs))"
      proof (rule good_extend [OF good name])
        show "shelved ?st (r(k \<mapsto> a # cs))"
          using g(4) notin none(2) Some by (fastforce simp: shelved_def inj_on_def)
      qed (use g Some in \<open>auto simp: a_def [symmetric] intro!: new_held\<close>)
      moreover have "(let (b, st1) = allocate h rs st in RegisterOrDeleteDuplicate b st1) = Some (fresh st, ?st)"
        using g nm h(1) Some none(1) by (simp add: unfolds a_def [symmetric] k_def)
      ultimately show ?thesis by blast
    qed
  qed
qed

subsection \<open>States of the registry\<close>

inductive recorded :: "(int \<Rightarrow> int \<Rightarrow> nat \<Rightarrow> int) \<Rightarrow> recorder \<Rightarrow> bool" for nx where
  start: "recorded nx (StatisticsRecorder_new no_recorder)"
| get: "recorded nx st \<Longrightarrow> valid_spec q \<Longrightarrow> FactoryGet nx q st = Some (a, st') \<Longrightarrow> recorded nx st'"
| add: "recorded nx st \<Longrightarrow> a \<in> set (GetHistograms st) \<Longrightarrow> add_at a v st = Some st' \<Longrightarrow> recorded nx st'"

lemma registry_start: "good_registry (StatisticsRecorder_new no_recorder) [] (\<lambda>_. None)"
  by (simp add: good_registry_def StatisticsRecorder_new_def no_recorder_def shelved_def)

lemma good_find:
  assumes "good_registry st m r"
  shows "FindHistogram name st = map_of m name" "GetHistograms st = map snd m"
  using assms by (auto simp: good_registry_def FindHistogram_def GetHistograms_def)

lemma good_names: "good_registry st m r \<Longrightarrow> distinct (map fst m)"
  by (simp add: good_registry_def strict_sorted_iff)

lemma FactoryGet_good:
  assumes nx: "next_boundary nx" and good: "good_registry st m r" and q: "valid_spec q"
  shows "\<exists>a st' m' r'. FactoryGet nx q st = Some (a, st') \<and> good_registry st' m' r' \<and> set m \<subseteq> set m'
    \<and> map_of m' (name_of q) = Some a"
proof (cases "map_of m (name_of q)")
  case (Some a)
  then show ?thesis using good good_find [OF good] by (auto simp: FactoryGet_def)
next
  case None
  obtain h rs ty mn mx n where t: "tentative nx q = Some (h, rs)" "ready ty (name_of q) mn mx n h rs"
    using tentative_ready [OF nx q] by blast
  have name: "name_of q \<notin> fst ` set m" using None by (simp add: map_of_eq_None_iff)
  obtain st' r' where st': "(let (a, st1) = allocate h rs st in RegisterOrDeleteDuplicate a st1) = Some (fresh st, st')"
    "good_registry st' (insert_name (name_of q) (fresh st) m) r'"
    using register_new [OF good name t(2)] by blast
  have "FactoryGet nx q st = Some (fresh st, st')"
    using None t(1) st'(1) by (simp add: FactoryGet_def good_find [OF good])
  moreover have "map_of (insert_name (name_of q) (fresh st) m) (name_of q) = Some (fresh st)"
    using good_names [OF st'(2)] by (simp add: set_insert_name)
  ultimately show ?thesis using st'(2) by (fastforce simp: set_insert_name)
qed

lemma add_at_good:
  assumes good: "good_registry st m r" and a: "a \<in> snd ` set m"
  shows "\<exists>st'. add_at a v st = Some st' \<and> good_registry st' m r"
proof -
  obtain h rs cs where h: "hists st a = Some h" "caches st (cached_ranges h) = Some (rs, range_checksum h)" "layout h rs"
    "length (counts (samples h)) = bucket_count h"
    using a good by (auto simp: good_registry_def held_def)
  obtain ss where h': "Add rs v h = Some (h\<lparr>samples := ss\<rparr>)" "length (counts ss) = bucket_count h"
    using Add_layout [OF h(3,4), of v] h(4) by simp
  have "held (st\<lparr>hists := (hists st)(a \<mapsto> h\<lparr>samples := ss\<rparr>)\<rparr>) r e" if "held st r e" for e
    using that h(1) h'(2) by (cases "snd e = a") (auto simp: held_def layout_def HasValidRangeChecksum_def)
  then have "good_registry (st\<lparr>hists := (hists st)(a \<mapsto> h\<lparr>samples := ss\<rparr>)\<rparr>) m r"
    using good h(1) by (auto simp: good_registry_def shelved_def)
  then show ?thesis using h h'(1) by (simp add: add_at_def)
qed

lemma recorded_good: "recorded nx st \<Longrightarrow> next_boundary nx \<Longrightarrow> \<exists>m r. good_registry st m r"
proof (induction rule: recorded.induct)
  case start
  show ?case using registry_start by blast
next
  case (get st q a st')
  then show ?case using FactoryGet_good [of nx st _ _ q] by fastforce
next
  case (add st a v st')
  then obtain m r where "good_registry st m r" by blast
  then show ?case using add_at_good [of st m r a v] add(2,3) by (auto simp: good_find)
qed

text \<open>A factory asked within its conditions gives a registered histogram, the same one when it is asked again
  for the name, and keeps every histogram registered before.\<close>

theorem factory_registers:
  assumes "next_boundary nx" "recorded nx st" "valid_spec q"
  shows "\<exists>a st'. FactoryGet nx q st = Some (a, st') \<and> FactoryGet nx q st' = Some (a, st')
    \<and> a \<in> set (GetHistograms st') \<and> set (GetHistograms st) \<subseteq> set (GetHistograms st')"
proof -
  obtain m r where good: "good_registry st m r" using recorded_good [OF assms(2,1)] by blast
  obtain a st' m' r' where st': "FactoryGet nx q st = Some (a, st')" "good_registry st' m' r'" "set m \<subseteq> set m'"
    "map_of m' (name_of q) = Some a"
    using FactoryGet_good [OF assms(1) good assms(3)] by blast
  have "FactoryGet nx q st' = Some (a, st')"
    using st'(4) by (simp add: FactoryGet_def good_find [OF st'(2)])
  then show ?thesis
    using st' by (force simp: good_find [OF good] good_find [OF st'(2)] dest: map_of_SomeD)
qed

theorem factory_registers_witness:
  "\<exists>a st'. FactoryGet exp_next (Exponential ''latency'' 1 1000000 50 0) (StatisticsRecorder_new no_recorder) = Some (a, st')
    \<and> FactoryGet exp_next (Exponential ''latency'' 1 1000000 50 0) st' = Some (a, st')
    \<and> a \<in> set (GetHistograms st')
    \<and> set (GetHistograms (StatisticsRecorder_new no_recorder)) \<subseteq> set (GetHistograms st')"
  by (rule factory_registers [OF logarithm.next_boundary_axioms recorded.start])
    (simp add: at_least_one_def below_max_def kSampleType_MAX_def kBucketCount_MAX_def)

text \<open>C40: In every state that the factories and samples reach, whatever boundaries the layouts give, no pointer of the
  registry dangles: a registered histogram and its boundaries are live and bear its checksum. Two registered
  histograms share one list of boundaries exactly when their boundaries are equal, and are one histogram exactly
  when they have one name. A sample can be added through every registered pointer.\<close>

theorem registry_shares:
  assumes "next_boundary nx" "recorded nx st" "a \<in> set (GetHistograms st)" "b \<in> set (GetHistograms st)"
  shows "\<exists>h g rs qs. hists st a = Some h \<and> hists st b = Some g
    \<and> caches st (cached_ranges h) = Some (rs, range_checksum h) \<and> caches st (cached_ranges g) = Some (qs, range_checksum g)
    \<and> (cached_ranges h = cached_ranges g \<longleftrightarrow> rs = qs) \<and> (histogram_name h = histogram_name g \<longleftrightarrow> a = b)
    \<and> add_at a v st \<noteq> None"
proof -
  obtain m r where good: "good_registry st m r" using recorded_good [OF assms(2,1)] by blast
  have ab: "a \<in> snd ` set m" "b \<in> snd ` set m" using assms(3,4) by (simp_all add: good_find [OF good])
  obtain h rs cs where h: "(histogram_name h, a) \<in> set m" "hists st a = Some h"
    "caches st (cached_ranges h) = Some (rs, range_checksum h)" "HasValidRangeChecksum rs h" "layout h rs"
    "r (range_checksum h) = Some cs" "cached_ranges h \<in> set cs"
    using ab(1) good by (force simp: good_registry_def held_def)
  obtain g qs ds where g: "(histogram_name g, b) \<in> set m" "hists st b = Some g"
    "caches st (cached_ranges g) = Some (qs, range_checksum g)" "HasValidRangeChecksum qs g" "layout g qs"
    "r (range_checksum g) = Some ds" "cached_ranges g \<in> set ds"
    using ab(2) good by (force simp: good_registry_def held_def)
  have "cached_ranges h = cached_ranges g" if "rs = qs"
  proof -
    have "bucket_count h = bucket_count g" using that h(5) g(5) by (simp add: layout_def)
    then have k: "range_checksum h = range_checksum g" using that h(4) g(4) by (simp add: HasValidRangeChecksum_def)
    then have "inj_on (caches st) (set cs)" "ds = cs" using good h(6) g(6) by (auto simp: good_registry_def shelved_def)
    then show ?thesis using h(3,7) g(3,7) k that by (metis inj_onD)
  qed
  moreover have "a = b" if "histogram_name h = histogram_name g"
    using good_names [OF good] h(1) g(1) that by (metis eq_key_imp_eq_value)
  moreover have "add_at a v st \<noteq> None" using add_at_good [OF good ab(1)] by auto
  ultimately show ?thesis using h(2,3) g(2,3) by (intro exI [of _ h] exI [of _ g] exI [of _ rs] exI [of _ qs]) auto
qed

theorem registry_shares_witness:
  "\<exists>a b st1 st h g rs qs. FactoryGet exp_next (Boolean ''open'' 0) (StatisticsRecorder_new no_recorder) = Some (a, st1)
    \<and> FactoryGet exp_next (Linear ''state'' 1 2 3 0) st1 = Some (b, st) \<and> hists st a = Some h \<and> hists st b = Some g
    \<and> caches st (cached_ranges h) = Some (rs, range_checksum h) \<and> caches st (cached_ranges g) = Some (qs, range_checksum g)
    \<and> (cached_ranges h = cached_ranges g \<longleftrightarrow> rs = qs) \<and> (histogram_name h = histogram_name g \<longleftrightarrow> a = b)
    \<and> add_at a 1 st \<noteq> None"
proof -
  note nx = logarithm.next_boundary_axioms
  have q: "valid_spec (Boolean ''open'' 0)" "valid_spec (Linear ''state'' 1 2 3 0)"
    by (simp_all add: at_least_one_def below_max_def kSampleType_MAX_def kBucketCount_MAX_def)
  obtain a st1 m1 r1 where f1: "FactoryGet exp_next (Boolean ''open'' 0) (StatisticsRecorder_new no_recorder) = Some (a, st1)"
    "good_registry st1 m1 r1" "map_of m1 ''open'' = Some a"
    using FactoryGet_good [OF nx registry_start q(1)] by auto
  obtain b st m r where f2: "FactoryGet exp_next (Linear ''state'' 1 2 3 0) st1 = Some (b, st)"
    "good_registry st m r" "set m1 \<subseteq> set m" "map_of m ''state'' = Some b"
    using FactoryGet_good [OF nx f1(2) q(2)] by auto
  have "recorded exp_next st"
    using recorded.get [OF recorded.get [OF recorded.start q(1) f1(1)] q(2) f2(1)] .
  moreover have "a \<in> set (GetHistograms st)" "b \<in> set (GetHistograms st)"
    using f1(3) f2(3,4) by (force simp: good_find [OF f2(2)] dest: map_of_SomeD)+
  ultimately show ?thesis
    using f1(1) f2(1) registry_shares [OF nx, of st a b 1] by blast
qed

text \<open>A second histogram under a registered name is deleted, but not its boundaries: they stay allocated with no
  pointer to them.\<close>

lemma duplicate_leaks_ranges:
  assumes "good_registry st m r" "map_of m (histogram_name h) = Some b"
  shows "\<exists>st'. (let (a, st1) = allocate h rs st in RegisterOrDeleteDuplicate a st1) = Some (b, st')
    \<and> hists st' = hists st \<and> caches st' (fresh st) = Some (rs, 0)"
  using assms by (auto simp: allocate_def RegisterOrDeleteDuplicate_def good_registry_def)

end
