(* ===== verification/Spec2Isabelle.thy ===== *)
theory Spec2Isabelle
  imports Safety Tasks Start_Up Logging Json Printing Statistics
begin

text \<open>
  Hitsuji: a model of the snapshot provider and what it guarantees.

  \<^bold>\<open>The program.\<close> Hitsuji is a plug-in that answers market-data snapshot requests over the RSSL transport.
  One thread runs \<open>provider_t\<close> (src/src/provider.cc): it listens, accepts connections, reads and decodes
  messages, keeps the connections alive and closes them. Each active connection has a session \<open>client_t\<close>
  (src/src/client.cc): login, source directory, item requests, close messages, replies. \<open>hitsuji_t\<close>
  (src/src/hitsuji.cc) is the delegate of both: it encodes each item request as a message of the codec
  (src/include/sbe/hitsuji) for the worker threads and hands their replies to the provider. A worker
  (\<open>worker_t\<close>, src/src/worker.cc) parses the item name as a URL (src/src/googleurl), looks up the permission data
  (src/src/permdata.cc), runs one of four analytics (src/src/vta_*.cc) over recorded trades and sends the encoded
  refresh message back.

  \<^bold>\<open>The theories\<close>, in the order of their imports:

  \<^item> \<open>Prelude\<close>: runs of calls that stop at the first failure (\<open>seq_all\<close>), counters, association lists, and the
    interface \<open>retry_loop\<close> of the loops that repeat a call.
  \<^item> \<open>Rssl\<close>: the RSSL library as the parameter \<open>rssl\<close>, its types with the enumerators the program names, the encode
    iterator as the list of its calls, and the documented behaviour relied on (\<open>transport_contract\<close>, \<open>keeps\<close>).
  \<^item> \<open>Session_State\<close>: the state of the provider thread in one record \<open>prov\<close>: the members of \<open>provider_t\<close> (provider.hh),
    the session objects with the members of \<open>client_t\<close> (client.hh), the library state, the buffers in hand.
  \<^item> \<open>Directory\<close>: \<open>GetDirectoryMap\<close> and the functions below it, \<open>WriteRawClose\<close>, and the grammar of well-nested
    encodings.
  \<^item> \<open>Transport\<close>: \<open>Submit\<close>, \<open>Ping\<close>, closing a channel (the end of provider.cc).
  \<^item> \<open>Client\<close>, \<open>Session\<close>: client.cc, one definition per method; the abstract session automaton \<open>session_step\<close>
    (logged in or not, open streams) that \<open>client_OnMsg\<close> refines.
  \<^item> \<open>Provider\<close>: the rest of provider.cc, with the loop of \<open>Run\<close> as the step relation \<open>run_step\<close>, and the invariant
    \<open>good\<close>: a session belongs to exactly one connection, which points back at it.
  \<^item> \<open>Sbe\<close>: the flyweights of Request.hpp, Reply.hpp, Flags.hpp and MessageHeader.hpp as functions on bytes.
  \<^item> \<open>Hitsuji\<close>: \<open>OnRequest\<close>, \<open>OnReply\<close>, \<open>OnRead\<close>, \<open>AbortWorkers\<close>, with ZeroMQ as the parameter \<open>zmq\<close>.
  \<^item> \<open>Safety\<close>: properties of reachable states of the provider, of shutdown, and of the bridge.
  \<^item> \<open>Url_Parse\<close>: url_parse.cc on memory and offsets; \<open>Url_Text\<close>: what the components hold, as functions of the text.
  \<^item> \<open>Analytics\<close>: the four analytics, the accumulators, rounding, with Velocity Analytics, Boost and the arithmetic
    of \<open>double\<close> as the parameter \<open>vhayu\<close>; \<open>Bars\<close>: what they compute, and the message they encode, up to the first
    call that the library refuses.
  \<^item> \<open>Worker\<close>: \<open>OnTask\<close>, \<open>SendReply\<close>, \<open>MainLoop\<close> and permdata.cc, with the interface \<open>analytic\<close> of the virtual
    functions; \<open>Tasks\<close>: the properties of tasks and of the way from the provider through a worker and back.
  \<^item> \<open>Affinity\<close>: the processor a worker is bound to; \<open>Start_Up\<close>: \<open>Initialize\<close>, \<open>Reset\<close>, \<open>Start\<close>, \<open>Stop\<close>, \<open>Run\<close> and \<open>Quit\<close> of
    \<open>hitsuji_t\<close>, upa.cc and \<open>worker_t::Initialize\<close>, and the threads of the process as the step relation \<open>life\<close>.
  \<^item> The base library of src/src/chromium: \<open>Texts\<close> (string_piece.cc), \<open>Splitting\<close> (string_util.cc, string_split.cc),
    \<open>Vlog\<close> (vlog.cc), \<open>Command_Line\<close> (command_line.cc), \<open>Logging\<close> (logging.cc with the environments of main.cc and
    plugin.cc), \<open>Numbers\<close> (string_number_conversions.cc), \<open>Values\<close> (values.cc), \<open>Json_Writer\<close>, \<open>Json_Reader\<close>,
    \<open>Json_Types\<close> and \<open>Json\<close> (the directory json); \<open>Crc\<close>, \<open>Histogram\<close>, \<open>Layouts\<close> and \<open>Statistics\<close> (metrics/histogram.cc:
    checksum, samples, the four factories with the interface \<open>next_boundary\<close>, the registry with an explicit store of
    its objects); \<open>Printing\<close> (upaostream.cc, upaostream.hh).
  \<^item> \<open>Toy_Library\<close>, \<open>Toy_Run\<close> and the small libraries in \<open>Bars\<close> and \<open>Tasks\<close>: instances of the parameters at which the
    hypotheses hold, and a concrete run of the provider up to an active session.

  \<^bold>\<open>How the model reads.\<close> A method is a function from the state (and what the library answers) to its result and
  the state; each call that fails is a branch. Machine integers are words. A pointer to a session is a key of the
  heap \<open>objs\<close>, null is \<open>None\<close>; following a null or dangling pointer, an exception that leaves the thread and a loop
  that does not end set \<open>fault\<close>. Uncaught exceptions of the codec are \<open>Inl\<close> values in the worker and the bridge.
  A loop whose end depends on the library is a \<open>partial_function\<close>, \<open>None\<close> when it does not return,
  and theorems say exactly when it returns (\<open>Submit\<close>, \<open>Close\<close>, \<open>MainLoop\<close>); all other loops are total functions with a
  termination proof. The JSON reader alone takes fuel, for the nested calls of \<open>BuildValue\<close> and its loops: \<open>JsonToValue\<close>
  gives it twice the length of the text and one, and \<open>Json_Types.reader_typed\<close> shows that it never runs out. A loop over what a library delivers from a finite container (element lists, recorded trades)
  is a fold over the list of it.

  \<^bold>\<open>What the lemmas show.\<close>

  \<^item> Provider and session: no reachable state has faulted; connections are bounded and tied to their sessions; the
    message handler refines the session automaton; no stream before a login; one dispatch per request; at most
    one reply per stream; dead peers are disconnected; what admission, disconnection, shutdown leave behind; the
    effect of \<open>Submit\<close> for each answer of the library, and the two places where buffers are kept.
  \<^item> Messages: round trips of requests and replies with the exact loss at 256 bytes; the dependence on the order in
    which a compiler evaluates arguments, which is the parameter \<open>length_first\<close> of the decoders.
  \<^item> Names: offsets stay in order and within the string; nothing beyond the string is read with effect; path, query,
    fragment, file name, port and query pairs are those of references on the text.
  \<^item> Process: nothing is taken down under a running message pump; what a failed start gives back; that \<open>Run\<close> does
    not return after a failed start; every worker gets one processor.
  \<^item> Workers: exactly one reply per task or none and the worker stops; tasks do not influence each other, but
    through the DACS lock, which leaks from one instrument to the next; a bar of bars is the bar of the trades.
  \<^item> Base library: the searches of strings, glob patterns and the flags that are printed agree with references; what a
    command line says, and its round trip; once the lock of the log is set up its file is touched only while the lock is
    held; numbers are read back as they were written, and so are the JSON texts of values that the reader can take, with
    the range of each type and the depth of values bounded; the JSON reader ends with a value, an error code or the exception
    of \<open>std::stod\<close>; values stay well formed, and paths, copies, comparison and merging have their laws; every layout of a histogram increases strictly, the binary
    search finds the one bucket of a sample, no reachable histogram looks corrupt, one overwritten boundary but the last is
    noticed, and the registry shares equal boundaries without a dangling pointer.

  \<^bold>\<open>Where the code does not do what it means to\<close>, a property states what it does: the lost buffer of \<open>AcceptLogin\<close>,
  requests with a view, replies longer than 255 bytes, the fall-through on closed channels, the slot of a rejected
  session, the stale DACS lock, the minor version of the encoders, the result of \<open>Start\<close>, the messages that never reach
  the log file, the log without a mutex, the RSSL library left without having been entered, the texts of the JSON
  writer that the reader refuses. A failed \<open>CHECK\<close> writes a
  message and the code goes on, which is what the model does too.

  \<^bold>\<open>Assumed.\<close> The contracts named above, no more: a handle names one accepted channel (the memory of a channel
  that the library recycles is not seen as the same name), \<open>char\<close> is signed and \<open>long\<close> has 32 bits as on the
  platform of the program, and prices are ordered where the maximum of a set of them is claimed.

  \<^bold>\<open>Not modelled.\<close> The performance counters' export; of the entry points (main.cc, plugin.cc) the timer and socket
  libraries of Windows and the registration of the plug-in; the interleaving of the provider thread with
  the workers, of which only the two message queues between them are visible to the provider; the metadata
  accessors of the codec, which nothing calls; \<open>inner_parsed_\<close> of the URL parser, which nothing sets; of the base library
  the graphs of histograms, the statistics in shared memory, event tracing, threads and files, which are calls of the
  operating system or are not called by the program; src/third_party. The arithmetic of \<open>double\<close> and its conversions to
  and from text are parameters; the formula of the exponential layout of a histogram is also taken over the real numbers.
\<close>

end
